(* ===== verification/Gda_Prelude.thy ===== *)
theory Gda_Prelude
  imports Main "HOL-Library.Word"
begin

text \<open>
  Shared vocabulary of the development: C strings and the ASCII character classes of GLib that
  the modelled code tests, hexadecimal printing, an explicit memory block with
  \<open>memmove\<close>, the interface locales that several components use, and the generic list lemmas.

  A C string is the list of its bytes before the terminating NUL. Comparisons such as
  \<open>c >= 'a' && c <= 'z'\<close> are on \<open>char\<close>, which is signed on the usual targets; as all the
  literals are ASCII, a byte above 127 fails them whether it is read as signed or not.
\<close>

named_theorems char_defs \<open>definitions of the character classes and of their values\<close>
named_theorems gda_simps \<open>characteristic equations of the modelled routines\<close>

section \<open>Bytes and C strings\<close>

abbreviation NUL :: char where "NUL \<equiv> CHR 0x00"
abbreviation SQUOTE :: char where "SQUOTE \<equiv> CHR 0x27"
abbreviation DQUOTE :: char where "DQUOTE \<equiv> CHR 0x22"
abbreviation BSLASH :: char where "BSLASH \<equiv> CHR 0x5C"

definition code :: "char \<Rightarrow> nat" where
  [char_defs]: "code c = of_char c"

definition cstring :: "string \<Rightarrow> bool" where
  "cstring s \<longleftrightarrow> NUL \<notin> set s"

text \<open>The C string that starts a block of bytes: everything before the first NUL.\<close>

definition c_str :: "char list \<Rightarrow> string" where
  "c_str m = takeWhile (\<lambda>c. c \<noteq> NUL) m"

text \<open>Reading \<open>s[i]\<close> for \<open>i \<le> strlen s\<close>: the byte after the last one is the NUL.\<close>

definition cat :: "string \<Rightarrow> nat \<Rightarrow> char" where
  "cat s i = (if i < length s then s ! i else NUL)"

definition is_digit :: "char \<Rightarrow> bool" where
  [char_defs]: "is_digit c \<longleftrightarrow> 48 \<le> code c \<and> code c \<le> 57"

definition is_lower :: "char \<Rightarrow> bool" where
  [char_defs]: "is_lower c \<longleftrightarrow> 97 \<le> code c \<and> code c \<le> 122"

definition is_upper :: "char \<Rightarrow> bool" where
  [char_defs]: "is_upper c \<longleftrightarrow> 65 \<le> code c \<and> code c \<le> 90"

definition is_lhex :: "char \<Rightarrow> bool" where
  [char_defs]: "is_lhex c \<longleftrightarrow> is_digit c \<or> (97 \<le> code c \<and> code c \<le> 102)"

definition is_hex :: "char \<Rightarrow> bool" where
  [char_defs]: "is_hex c \<longleftrightarrow> is_lhex c \<or> (65 \<le> code c \<and> code c \<le> 70)"

definition digit_val :: "char \<Rightarrow> nat" where
  [char_defs]: "digit_val c = code c - 48"

definition hex_val :: "char \<Rightarrow> nat" where
  [char_defs]: "hex_val c =
     (if is_digit c then code c - 48
      else if 97 \<le> code c then code c - 97 + 10 else code c - 65 + 10)"

text \<open>The ASCII classes of GLib (locale independent).\<close>

definition g_ascii_isalnum :: "char \<Rightarrow> bool" where
  [char_defs]: "g_ascii_isalnum c \<longleftrightarrow> is_digit c \<or> is_lower c \<or> is_upper c"

definition g_ascii_isprint :: "char \<Rightarrow> bool" where
  [char_defs]: "g_ascii_isprint c \<longleftrightarrow> 32 \<le> code c \<and> code c \<le> 126"

definition g_ascii_isspace :: "char \<Rightarrow> bool" where
  [char_defs]: "g_ascii_isspace c \<longleftrightarrow> code c \<in> {32, 9, 10, 12, 13}"

definition g_ascii_tolower :: "char \<Rightarrow> char" where
  [char_defs]: "g_ascii_tolower c = (if is_upper c then char_of (code c + 32) else c)"

text \<open>White space at the ends of a string.\<close>

definition g_strchomp :: "string \<Rightarrow> string" where
  "g_strchomp s = rev (dropWhile g_ascii_isspace (rev s))"

definition g_strstrip :: "string \<Rightarrow> string" where
  "g_strstrip s = g_strchomp (dropWhile g_ascii_isspace s)"

lemma g_strchomp_length: "length (g_strchomp s) \<le> length s"
  using length_dropWhile_le [of g_ascii_isspace "rev s"] by (simp add: g_strchomp_def)

lemma g_strstrip_plain: "\<forall>c \<in> set s. \<not> g_ascii_isspace c \<Longrightarrow> g_strstrip s = s"
proof -
  have *: "\<forall>c \<in> set s. \<not> g_ascii_isspace c \<Longrightarrow> dropWhile g_ascii_isspace s = s" for s
    by (cases s) auto
  assume "\<forall>c \<in> set s. \<not> g_ascii_isspace c"
  then show ?thesis using * [of s] * [of "rev s"] by (simp add: g_strstrip_def g_strchomp_def)
qed

text \<open>The digits of \<open>%x\<close> and \<open>%02x\<close>.\<close>

definition hex_digit :: "nat \<Rightarrow> char" where
  [char_defs]: "hex_digit n = char_of (if n < 10 then 48 + n else 87 + n)"

definition hex2 :: "nat \<Rightarrow> string" where
  "hex2 n = [hex_digit (n div 16), hex_digit (n mod 16)]"

text \<open>The decimal digits of \<open>%u\<close>, and padding with zeros on the left.\<close>

definition dec_digit :: "nat \<Rightarrow> char" where
  "dec_digit n = char_of (48 + n)"

fun dec :: "nat \<Rightarrow> string" where
  "dec n = (if n < 10 then [dec_digit n] else dec (n div 10) @ [dec_digit (n mod 10)])"

declare dec.simps [simp del]

definition pad :: "nat \<Rightarrow> string \<Rightarrow> string" where
  "pad w s = replicate (w - length s) (CHR ''0'') @ s"

lemma code_less [simp]: "code c < 256"
  by (simp add: code_def)

lemma char_of_code [simp]: "char_of (code c) = c"
  by (simp add: code_def)

lemma code_char_of [simp]: "n < 256 \<Longrightarrow> code (char_of n) = n"
  by (simp add: code_def)

lemma code_inject: "code c = code d \<longleftrightarrow> c = d"
  by (simp add: code_def)

lemma code_NUL: "code c = 0 \<longleftrightarrow> c = NUL"
  using code_inject [of c NUL] by (simp add: code_def)

lemma code_hex_digit: "n < 16 \<Longrightarrow> code (hex_digit n) = (if n < 10 then 48 + n else 87 + n)"
  by (simp add: hex_digit_def)

lemma lhex_hex_digit: "n < 16 \<Longrightarrow> is_lhex (hex_digit n)"
  by (simp add: is_lhex_def is_digit_def code_hex_digit)

lemma hex_hex_digit: "n < 16 \<Longrightarrow> is_hex (hex_digit n)"
  by (simp add: is_hex_def lhex_hex_digit)

lemma hex_val_hex_digit: "n < 16 \<Longrightarrow> hex_val (hex_digit n) = n"
  by (simp add: hex_val_def is_digit_def code_hex_digit)

lemma code_div_16 [simp]: "code c div 16 < 16"
  using code_less [of c] by linarith

lemma hex2_decode: "hex_val (hex_digit (code c div 16)) * 16 + hex_val (hex_digit (code c mod 16)) = code c"
  by (simp add: hex_val_hex_digit)

lemma alnum_hex_digit: "n < 16 \<Longrightarrow> g_ascii_isalnum (hex_digit n)"
  by (simp add: g_ascii_isalnum_def is_digit_def is_lower_def is_upper_def code_hex_digit)

lemma dec_digit [simp]: "n < 10 \<Longrightarrow> is_digit (dec_digit n)" "n < 10 \<Longrightarrow> digit_val (dec_digit n) = n"
  by (simp_all add: is_digit_def digit_val_def dec_digit_def)

lemma dec_nonempty [simp]: "dec n \<noteq> []"
  by (subst dec.simps) simp

lemma dec_digits: "\<forall>c \<in> set (dec n). is_digit c"
proof (induction n rule: dec.induct)
  case (1 n)
  then show ?case by (subst dec.simps) auto
qed

lemma pad_digits: "\<forall>c \<in> set (pad w (dec n)). is_digit c"
  using dec_digits [of n] by (auto simp: pad_def is_digit_def code_def)

text \<open>The value of a string of digits, read behind the number \<open>acc\<close>.\<close>

definition numval :: "nat \<Rightarrow> string \<Rightarrow> nat" where
  "numval acc ds = foldl (\<lambda>a c. a * 10 + digit_val c) acc ds"

lemma numval_simps [simp]:
  "numval acc [] = acc" "numval acc (c # ds) = numval (acc * 10 + digit_val c) ds"
  "numval acc (ds @ es) = numval (numval acc ds) es"
  by (simp_all add: numval_def)

lemma numval_dec [simp]: "numval 0 (dec n) = n"
proof (induction n rule: dec.induct)
  case (1 n)
  then show ?case by (subst dec.simps) simp
qed

lemma digit_val_0 [simp]: "digit_val (CHR ''0'') = 0"
  by (simp add: digit_val_def code_def)

lemma numval_zeros [simp]: "numval 0 (replicate k (CHR ''0'')) = 0"
  by (induction k) auto

lemma numval_pad [simp]: "numval 0 (pad w (dec n)) = n"
  by (simp add: pad_def)

section \<open>C strings as prefixes of memory\<close>

lemma c_str_append_NUL: "cstring s \<Longrightarrow> c_str (s @ NUL # m) = s"
  by (induction s) (auto simp: c_str_def cstring_def)

lemma c_str_cstring: "cstring s \<Longrightarrow> c_str s = s"
  by (induction s) (auto simp: c_str_def cstring_def)

lemma cstring_c_str [simp]: "cstring (c_str m)"
  by (induction m) (auto simp: c_str_def cstring_def)

lemma cstring_Nil [simp]: "cstring []"
  by (simp add: cstring_def)

lemma cstring_Cons [simp]: "cstring (c # s) \<longleftrightarrow> c \<noteq> NUL \<and> cstring s"
  by (auto simp: cstring_def)

lemma cstring_append [simp]: "cstring (s @ t) \<longleftrightarrow> cstring s \<and> cstring t"
  by (auto simp: cstring_def)

section \<open>Splitting at a separator\<close>

lemma takeWhile_sep [simp]:
  "c \<notin> set v \<Longrightarrow> takeWhile (\<lambda>x. x \<noteq> c) (v @ c # r) = v"
  "c \<notin> set v \<Longrightarrow> takeWhile (\<lambda>x. x \<noteq> c) v = v"
  by (induction v) auto

lemma dropWhile_sep [simp]:
  "c \<notin> set v \<Longrightarrow> dropWhile (\<lambda>x. x \<noteq> c) (v @ c # r) = c # r"
  "c \<notin> set v \<Longrightarrow> dropWhile (\<lambda>x. x \<noteq> c) v = []"
  by (induction v) auto

section \<open>Memory blocks and memmove\<close>

text \<open>
  A heap block is the list of its bytes. \<open>junk i\<close> is what a read at position \<open>i\<close> past the end
  of the block finds; \<open>memmove_ok\<close> says that no byte outside the block is touched.
\<close>

definition mem_at :: "(nat \<Rightarrow> char) \<Rightarrow> char list \<Rightarrow> nat \<Rightarrow> char" where
  "mem_at junk m i = (if i < length m then m ! i else junk i)"

definition memmove :: "(nat \<Rightarrow> char) \<Rightarrow> char list \<Rightarrow> nat \<Rightarrow> nat \<Rightarrow> nat \<Rightarrow> char list" where
  "memmove junk m dst src n =
     map (\<lambda>i. if dst \<le> i \<and> i < dst + n then mem_at junk m (src + (i - dst)) else m ! i)
       [0..<length m]"

definition memmove_ok :: "char list \<Rightarrow> nat \<Rightarrow> nat \<Rightarrow> nat \<Rightarrow> bool" where
  "memmove_ok m dst src n \<longleftrightarrow> src + n \<le> length m \<and> dst + n \<le> length m"

lemma length_memmove [simp]: "length (memmove junk m dst src n) = length m"
  by (simp add: memmove_def)

lemma nth_memmove:
  "i < length m \<Longrightarrow> memmove junk m dst src n ! i =
     (if dst \<le> i \<and> i < dst + n then mem_at junk m (src + (i - dst)) else m ! i)"
  by (simp add: memmove_def)

text \<open>
  The shape in which the in-place unescaping loops use it: dropping the byte after \<open>c\<close>, with
  a count that covers at least the rest of the string and its NUL.
\<close>

lemma memmove_delete:
  assumes "length r + 1 \<le> n"
  obtains st' where "memmove junk (pre @ c # d # r @ NUL # st) (length pre + 1) (length pre + 2) n
              = pre @ c # r @ NUL # st'" and "length st' = length st + 1"
proof -
  let ?m = "pre @ c # d # r @ NUL # st"
  let ?res = "memmove junk ?m (length pre + 1) (length pre + 2) n"
  let ?k = "length pre + 1 + (length r + 1)"
  have "take ?k ?res = pre @ c # r @ [NUL]"
  proof (rule nth_equalityI)
    show "length (take ?k ?res) = length (pre @ c # r @ [NUL])" by simp
  next
    fix i assume "i < length (take ?k ?res)"
    then have i: "i < ?k" by simp
    show "take ?k ?res ! i = (pre @ c # r @ [NUL]) ! i"
    proof (cases i "length pre" rule: linorder_cases)
      case less
      then show ?thesis using i
        by (simp add: nth_memmove nth_append)
    next
      case equal
      then show ?thesis using i
        by (simp add: nth_memmove nth_append)
    next
      case greater
      then obtain j where j: "i = length pre + 1 + j" by (metis Suc_eq_plus1 less_eq_Suc_le le_iff_add)
      then have jr: "j < length r + 1" using i by simp
      have "take ?k ?res ! i = ?m ! (length pre + 2 + j)"
        using j jr assms by (simp add: nth_memmove mem_at_def)
      also have "\<dots> = (r @ NUL # st) ! j"
        by (simp add: nth_append)
      also have "\<dots> = (r @ [NUL]) ! j"
        using jr by (auto simp: nth_append nth_Cons')
      finally show ?thesis using j by (simp add: nth_append)
    qed
  qed
  then have "?res = (pre @ c # r @ [NUL]) @ drop ?k ?res"
    by (metis append_take_drop_id)
  then have res: "?res = pre @ c # r @ NUL # drop ?k ?res" by simp
  moreover from arg_cong [OF res, of length] have "length (drop ?k ?res) = length st + 1"
    by simp
  ultimately show thesis by (rule that)
qed

section \<open>Outcomes\<close>

text \<open>
  The outcome of a C function that has undefined behaviour on some inputs (an access outside its
  block, a call through a NULL pointer): \<open>Undefined\<close>, or what it returns.
\<close>

datatype 'a outcome = Undefined | Returns (returned: 'a)

fun bind_outcome :: "'a outcome \<Rightarrow> ('a \<Rightarrow> 'b outcome) \<Rightarrow> 'b outcome" where
  "bind_outcome Undefined f = Undefined"
| "bind_outcome (Returns x) f = f x"

lemma bind_outcome_Returns:
  "bind_outcome m f = Returns y \<longleftrightarrow> (\<exists>x. m = Returns x \<and> f x = Returns y)"
  by (cases m) auto

section \<open>Interfaces\<close>

text \<open>
  A codec: an encoder, a decoder that may refuse its input, and the strings on which decoding
  what was encoded gives the string back.
\<close>

locale codec =
  fixes enc :: "string \<Rightarrow> string"
    and dec :: "string \<Rightarrow> string option"
    and valid :: "string \<Rightarrow> bool"
  assumes dec_enc: "valid s \<Longrightarrow> dec (enc s) = Some s"
begin

lemma enc_inject: "valid s \<Longrightarrow> valid t \<Longrightarrow> enc s = enc t \<longleftrightarrow> s = t"
  using dec_enc by (metis option.inject)

lemma inj_on_enc: "inj_on enc {s. valid s}"
  by (auto simp: inj_on_def enc_inject)

end

text \<open>A codec whose output avoids a set of separators, so that encoded fields can be joined.\<close>

locale separated_codec = codec +
  fixes sep :: "char \<Rightarrow> bool"
  assumes sep_free: "valid s \<Longrightarrow> c \<in> set (enc s) \<Longrightarrow> \<not> sep c"
begin

lemma takeWhile_enc: "valid s \<Longrightarrow> sep c \<Longrightarrow> takeWhile (\<lambda>x. x \<noteq> c) (enc s @ c # r) = enc s"
  using sep_free by (subst takeWhile_append2) auto

lemma takeWhile_enc_end: "valid s \<Longrightarrow> sep c \<Longrightarrow> takeWhile (\<lambda>x. x \<noteq> c) (enc s) = enc s"
  using sep_free by (auto simp: takeWhile_eq_all_conv)

lemma dropWhile_enc: "valid s \<Longrightarrow> sep c \<Longrightarrow> dropWhile (\<lambda>x. x \<noteq> c) (enc s @ c # r) = c # r"
  using sep_free by (subst dropWhile_append2) auto

lemma sep_notin_enc: "valid s \<Longrightarrow> sep c \<Longrightarrow> c \<notin> set (enc s)"
  using sep_free by blast

end

end
