(* ===== verification/Gda_Transaction.thy ===== *)
theory Gda_Transaction
  imports Gda_Prelude
begin

text \<open>
  The transaction status of a connection: \<open>GdaTransactionStatus\<close>
  (\<open>libgda/gda-transaction-status.c\<close>), a tree of nested transactions with their save points and
  executed statements, and the \<open>gda_connection_internal_*\<close> functions of
  \<open>libgda/gda-connection.c\<close> by which the providers keep it up to date.

  A transaction owns its events and an event of the kind SUB_TRANSACTION owns its transaction, so the
  objects form a tree, and a pointer to one of them is the path that leads to it: the indexes, from
  the root, of the SUB_TRANSACTION events in the \<open>events\<close> lists. A pointer to an event is the path of
  the transaction that owns it (\<open>ev->trans\<close>) and its index.
\<close>

section \<open>Data\<close>

datatype isolation = IsolationUnknown | ReadCommitted | ReadUncommitted | RepeatableRead | Serializable

datatype tstate = StateOk | StateFailed

datatype trans =
    Trans (t_name: "string option") (t_isolation: isolation) (t_state: tstate) (t_events: "event list")
and event =
    Savepoint string
  | Sql string "nat option"
  | SubTransaction trans

type_synonym tpath = "nat list"
type_synonym eventptr = "tpath \<times> nat"

definition gda_transaction_status_new :: "string option \<Rightarrow> trans" where
  "gda_transaction_status_new nm = Trans nm IsolationUnknown StateOk []"

fun trans_at :: "tpath \<Rightarrow> trans \<Rightarrow> trans option" where
  "trans_at [] t = Some t"
| "trans_at (k # p) (Trans n i s evs) =
     (if k < length evs then (case evs ! k of SubTransaction t \<Rightarrow> trans_at p t | _ \<Rightarrow> None) else None)"

text \<open>Writing the \<open>events\<close> field of the transaction a pointer leads to.\<close>

fun upd_events :: "tpath \<Rightarrow> (event list \<Rightarrow> event list) \<Rightarrow> trans \<Rightarrow> trans" where
  "upd_events [] f (Trans n i s evs) = Trans n i s (f evs)"
| "upd_events (k # p) f (Trans n i s evs) =
     Trans n i s
       (if k < length evs then
          (case evs ! k of SubTransaction t \<Rightarrow> evs[k := SubTransaction (upd_events p f t)] | _ \<Rightarrow> evs)
        else evs)"

section \<open>Operations of GdaTransactionStatus\<close>

definition gda_transaction_status_add_event_svp :: "trans \<Rightarrow> tpath \<Rightarrow> string option \<Rightarrow> trans" where
  "gda_transaction_status_add_event_svp t p svp_name =
     (case svp_name of None \<Rightarrow> t | Some n \<Rightarrow> upd_events p (\<lambda>evs. evs @ [Savepoint n]) t)"

definition gda_transaction_status_add_event_sql ::
    "trans \<Rightarrow> tpath \<Rightarrow> string option \<Rightarrow> nat option \<Rightarrow> trans" where
  "gda_transaction_status_add_event_sql t p sql conn_event =
     (case sql of None \<Rightarrow> t | Some q \<Rightarrow> upd_events p (\<lambda>evs. evs @ [Sql q conn_event]) t)"

definition gda_transaction_status_add_event_sub :: "trans \<Rightarrow> tpath \<Rightarrow> trans \<Rightarrow> trans" where
  "gda_transaction_status_add_event_sub t p sub = upd_events p (\<lambda>evs. evs @ [SubTransaction sub]) t"

text \<open>
  \<open>gda_transaction_status_free_events\<close> on the transaction at \<open>p\<close>: the event is looked up in its
  \<open>events\<close> list; when it is not there (or is NULL) the function only logs a critical message.
\<close>

definition cut_events :: "nat \<Rightarrow> bool \<Rightarrow> event list \<Rightarrow> event list" where
  "cut_events k free_after evs = take k evs @ (if free_after then [] else drop (k + 1) evs)"

definition gda_transaction_status_free_events ::
    "trans \<Rightarrow> tpath \<Rightarrow> eventptr option \<Rightarrow> bool \<Rightarrow> trans" where
  "gda_transaction_status_free_events t p ev free_after =
     (case ev of
        None \<Rightarrow> t
      | Some (q, k) \<Rightarrow>
          if q = p \<and> (case trans_at p t of None \<Rightarrow> False | Some u \<Rightarrow> k < length (t_events u))
          then upd_events p (cut_events k free_after) t
          else t)"

text \<open>
  \<open>gda_transaction_status_find_current\<close>: the result is the transaction found and what \<open>*destev\<close> is
  set to. The loop stops at the first sub transaction in which the search succeeds.
\<close>

fun find_current :: "bool \<Rightarrow> trans \<Rightarrow> (tpath \<times> eventptr option) option"
  and find_current_events :: "bool \<Rightarrow> nat \<Rightarrow> event list \<Rightarrow> (tpath \<times> eventptr) option" where
  "find_current unnamed_only (Trans n i s evs) =
     (case find_current_events unnamed_only 0 evs of
        Some (p, e) \<Rightarrow> Some (p, Some e)
      | None \<Rightarrow> if (unnamed_only \<and> n = None) \<or> \<not> unnamed_only then Some ([], None) else None)"
| "find_current_events unnamed_only k [] = None"
| "find_current_events unnamed_only k (ev # evs) =
     (case ev of
        SubTransaction t \<Rightarrow>
          (case find_current unnamed_only t of
             Some (p, Some (q, j)) \<Rightarrow> Some (k # p, (k # q, j))
           | Some (p, None) \<Rightarrow> Some (k # p, ([], k))
           | None \<Rightarrow> find_current_events unnamed_only (k + 1) evs)
      | _ \<Rightarrow> find_current_events unnamed_only (k + 1) evs)"

text \<open>
  \<open>gda_transaction_status_find\<close> with a string. Below a sub transaction the search is called with a
  NULL \<open>destev\<close>, so the event reported is always one of the transaction searched first.
\<close>

fun find_str :: "string \<Rightarrow> trans \<Rightarrow> (tpath \<times> eventptr option) option"
  and find_str_events :: "string \<Rightarrow> nat \<Rightarrow> event list \<Rightarrow> (tpath \<times> eventptr) option" where
  "find_str str (Trans n i s evs) =
     (if n = Some str then Some ([], None)
      else map_option (\<lambda>(p, e). (p, Some e)) (find_str_events str 0 evs))"
| "find_str_events str k [] = None"
| "find_str_events str k (ev # evs) =
     (case ev of
        Savepoint svp \<Rightarrow> if svp = str then Some ([], ([], k)) else find_str_events str (k + 1) evs
      | Sql sql _ \<Rightarrow> if sql = str then Some ([], ([], k)) else find_str_events str (k + 1) evs
      | SubTransaction t \<Rightarrow>
          (case find_str str t of
             Some (p, _) \<Rightarrow> Some (k # p, ([], k))
           | None \<Rightarrow> find_str_events str (k + 1) evs))"

definition gda_transaction_status_find ::
    "trans option \<Rightarrow> string option \<Rightarrow> (tpath \<times> eventptr option) option" where
  "gda_transaction_status_find tstatus str =
     (case tstatus of
        None \<Rightarrow> None
      | Some t \<Rightarrow> (case str of None \<Rightarrow> find_current False t | Some s \<Rightarrow> find_str s t))"

section \<open>The connection\<close>

text \<open>
  The part of a connection these functions use: its transaction status, how many times the calling
  thread holds its recursive mutex, and the numbers of TRANSACTION_STATUS_CHANGED emissions and of
  warnings.
\<close>

record cnc =
  trans_status :: "trans option"
  lock_depth :: int
  status_changed :: nat
  warnings :: nat

definition gda_connection_lock :: "cnc \<Rightarrow> cnc" where
  "gda_connection_lock c = c\<lparr>lock_depth := lock_depth c + 1\<rparr>"

definition gda_connection_unlock :: "cnc \<Rightarrow> cnc" where
  "gda_connection_unlock c = c\<lparr>lock_depth := lock_depth c - 1\<rparr>"

definition emit_changed :: "cnc \<Rightarrow> cnc" where
  "emit_changed c = c\<lparr>status_changed := status_changed c + 1\<rparr>"

definition g_warning :: "cnc \<Rightarrow> cnc" where
  "g_warning c = c\<lparr>warnings := warnings c + 1\<rparr>"

definition upd_status :: "(trans \<Rightarrow> trans) \<Rightarrow> cnc \<Rightarrow> cnc" where
  "upd_status f c = c\<lparr>trans_status := map_option f (trans_status c)\<rparr>"

text \<open>The critical section that all the handlers share.\<close>

definition locked :: "(cnc \<Rightarrow> cnc) \<Rightarrow> cnc \<Rightarrow> cnc" where
  "locked body c = gda_connection_unlock (body (gda_connection_lock c))"

definition gda_connection_internal_transaction_started ::
    "cnc \<Rightarrow> string option \<Rightarrow> string option \<Rightarrow> isolation \<Rightarrow> cnc" where
  "gda_connection_internal_transaction_started c parent_trans trans_name isol_level =
     (let st = (case gda_transaction_status_new trans_name of
                  Trans n i s evs \<Rightarrow> Trans n isol_level s evs)
      in locked (\<lambda>c.
           emit_changed
             (case gda_transaction_status_find (trans_status c) parent_trans of
                None \<Rightarrow> c\<lparr>trans_status := Some st\<rparr>
              | Some (parent, _) \<Rightarrow>
                  upd_status (\<lambda>t. gda_transaction_status_add_event_sub t parent st) c)) c)"

definition transaction_ended :: "cnc \<Rightarrow> string option \<Rightarrow> cnc" where
  "transaction_ended c trans_name =
     (case gda_transaction_status_find (trans_status c) trans_name of
        Some (st, Some (q, k)) \<Rightarrow>
          emit_changed (upd_status (\<lambda>t. gda_transaction_status_free_events t q (Some (q, k)) True) c)
      | Some (st, None) \<Rightarrow> emit_changed (c\<lparr>trans_status := None\<rparr>)
      | None \<Rightarrow> g_warning c)"

definition gda_connection_internal_transaction_rolledback :: "cnc \<Rightarrow> string option \<Rightarrow> cnc" where
  "gda_connection_internal_transaction_rolledback c trans_name =
     locked (\<lambda>c. transaction_ended c trans_name) c"

definition gda_connection_internal_transaction_committed :: "cnc \<Rightarrow> string option \<Rightarrow> cnc" where
  "gda_connection_internal_transaction_committed c trans_name =
     locked (\<lambda>c. transaction_ended c trans_name) c"

definition gda_connection_internal_savepoint_added ::
    "cnc \<Rightarrow> string option \<Rightarrow> string option \<Rightarrow> cnc" where
  "gda_connection_internal_savepoint_added c parent_trans svp_name =
     locked (\<lambda>c.
       case gda_transaction_status_find (trans_status c) parent_trans of
         Some (st, _) \<Rightarrow>
           emit_changed (upd_status (\<lambda>t. gda_transaction_status_add_event_svp t st svp_name) c)
       | None \<Rightarrow> g_warning c) c"

definition savepoint_ended :: "bool \<Rightarrow> cnc \<Rightarrow> string option \<Rightarrow> cnc" where
  "savepoint_ended free_after c svp_name =
     (case gda_transaction_status_find (trans_status c) svp_name of
        Some (st, ev) \<Rightarrow>
          emit_changed (upd_status (\<lambda>t. gda_transaction_status_free_events t st ev free_after) c)
      | None \<Rightarrow> g_warning c)"

definition gda_connection_internal_savepoint_rolledback :: "cnc \<Rightarrow> string option \<Rightarrow> cnc" where
  "gda_connection_internal_savepoint_rolledback c svp_name =
     locked (\<lambda>c. savepoint_ended True c svp_name) c"

definition gda_connection_internal_savepoint_removed :: "cnc \<Rightarrow> string option \<Rightarrow> cnc" where
  "gda_connection_internal_savepoint_removed c svp_name =
     locked (\<lambda>c. savepoint_ended False c svp_name) c"

text \<open>
  The statement executed: its kind with the fields of \<open>GdaSqlStatementTransaction\<close>, the SQL text it
  was parsed from, and the text \<open>gda_statement_to_sql_extended\<close> renders when there is none.
\<close>

datatype stmt_kind =
    StmtBegin "string option" isolation
  | StmtRollback "string option"
  | StmtCommit "string option"
  | StmtSavepoint "string option"
  | StmtRollbackSavepoint "string option"
  | StmtDeleteSavepoint "string option"
  | StmtOther

record stmt =
  s_kind :: stmt_kind
  s_sql :: "string option"
  s_rendered :: "string option"

text \<open>The connection event that came with the execution, and whether it is an error.\<close>

definition gda_connection_internal_statement_executed ::
    "cnc \<Rightarrow> stmt \<Rightarrow> (nat \<times> bool) option \<Rightarrow> cnc" where
  "gda_connection_internal_statement_executed c stmt error =
     (if (case error of None \<Rightarrow> True | Some (_, is_error) \<Rightarrow> \<not> is_error) then
        (case s_kind stmt of
           StmtBegin nm isol \<Rightarrow> gda_connection_internal_transaction_started c None nm isol
         | StmtRollback nm \<Rightarrow> gda_connection_internal_transaction_rolledback c nm
         | StmtCommit nm \<Rightarrow> gda_connection_internal_transaction_committed c nm
         | StmtSavepoint nm \<Rightarrow> gda_connection_internal_savepoint_added c None nm
         | StmtRollbackSavepoint nm \<Rightarrow> gda_connection_internal_savepoint_rolledback c nm
         | StmtDeleteSavepoint nm \<Rightarrow> gda_connection_internal_savepoint_removed c nm
         | StmtOther \<Rightarrow>
             locked (\<lambda>c.
               emit_changed
                 (case trans_status c of
                    None \<Rightarrow> c
                  | Some t \<Rightarrow>
                      (case find_current False t of
                         Some (st, _) \<Rightarrow>
                           upd_status (\<lambda>t. gda_transaction_status_add_event_sql t st
                             (case s_sql stmt of Some q \<Rightarrow> Some q | None \<Rightarrow> s_rendered stmt)
                             (map_option fst error)) c
                       | None \<Rightarrow> c))) c)
      else c)"

text \<open>The early returns of this function come after the lock was taken.\<close>

definition gda_connection_internal_change_transaction_state :: "cnc \<Rightarrow> tstate \<Rightarrow> cnc" where
  "gda_connection_internal_change_transaction_state c newstate =
     (let c = gda_connection_lock c in
      case trans_status c of
        None \<Rightarrow> c
      | Some (Trans n i s evs) \<Rightarrow>
          if s = newstate then c
          else gda_connection_unlock (emit_changed (c\<lparr>trans_status := Some (Trans n i newstate evs)\<rparr>)))"

definition gda_connection_internal_reset_transaction_status :: "cnc \<Rightarrow> cnc" where
  "gda_connection_internal_reset_transaction_status c =
     locked (\<lambda>c. if trans_status c = None then c else emit_changed (c\<lparr>trans_status := None\<rparr>)) c"

definition gda_connection_force_transaction_status :: "cnc \<Rightarrow> cnc \<Rightarrow> cnc" where
  "gda_connection_force_transaction_status c wrapped = emit_changed (c\<lparr>trans_status := trans_status wrapped\<rparr>)"

section \<open>The lock discipline\<close>

text \<open>A recursive lock: the operations bracket a critical section and keep the nesting depth.\<close>

locale lockable =
  fixes lock unlock :: "'s \<Rightarrow> 's" and depth :: "'s \<Rightarrow> int"
  assumes depth_lock: "depth (lock s) = depth s + 1"
    and depth_unlock: "depth (unlock s) = depth s - 1"
begin

definition neutral :: "('s \<Rightarrow> 's) \<Rightarrow> bool" where
  "neutral f \<longleftrightarrow> (\<forall>s. depth (f s) = depth s)"

lemma neutralI: "(\<And>s. depth (f s) = depth s) \<Longrightarrow> neutral f"
  by (simp add: neutral_def)

lemma neutral_bracket: "neutral f \<Longrightarrow> neutral (\<lambda>s. unlock (f (lock s)))"
  by (simp add: neutral_def depth_lock depth_unlock)

lemma neutral_depth: "neutral f \<Longrightarrow> depth (f s) = depth s"
  by (simp add: neutral_def)

lemma bracket_depth: "(\<And>s. depth (f s) = depth s) \<Longrightarrow> depth (unlock (f (lock s))) = depth s"
  using neutral_depth [OF neutral_bracket [OF neutralI]] by blast

end

interpretation cnc_lock: lockable gda_connection_lock gda_connection_unlock lock_depth
  by unfold_locales (simp_all add: gda_connection_lock_def gda_connection_unlock_def)

lemma locked_depth: "(\<And>s. lock_depth (f s) = lock_depth s) \<Longrightarrow> lock_depth (locked f c) = lock_depth c"
  unfolding locked_def by (rule cnc_lock.bracket_depth)

lemma lock_depth_simps [simp]:
  "lock_depth (emit_changed c) = lock_depth c"
  "lock_depth (g_warning c) = lock_depth c"
  "lock_depth (upd_status f c) = lock_depth c"
  by (simp_all add: emit_changed_def g_warning_def upd_status_def)

lemma trans_status_simps [simp]:
  "trans_status (emit_changed c) = trans_status c"
  "trans_status (g_warning c) = trans_status c"
  "trans_status (upd_status f c) = map_option f (trans_status c)"
  "trans_status (gda_connection_lock c) = trans_status c"
  "trans_status (gda_connection_unlock c) = trans_status c"
  by (simp_all add: emit_changed_def g_warning_def upd_status_def gda_connection_lock_def
      gda_connection_unlock_def)

lemma ended_depth [simp]:
  "lock_depth (transaction_ended c nm) = lock_depth c"
  "lock_depth (savepoint_ended b c nm) = lock_depth c"
  by (simp_all add: transaction_ended_def savepoint_ended_def split: option.split prod.split)

lemma handlers_depth [simp]:
  "lock_depth (gda_connection_internal_transaction_started c par nm isol) = lock_depth c"
  "lock_depth (gda_connection_internal_transaction_rolledback c nm) = lock_depth c"
  "lock_depth (gda_connection_internal_transaction_committed c nm) = lock_depth c"
  "lock_depth (gda_connection_internal_savepoint_added c par nm) = lock_depth c"
  "lock_depth (gda_connection_internal_savepoint_rolledback c nm) = lock_depth c"
  "lock_depth (gda_connection_internal_savepoint_removed c nm) = lock_depth c"
  "lock_depth (gda_connection_internal_reset_transaction_status c) = lock_depth c"
  unfolding gda_connection_internal_transaction_started_def Let_def
    gda_connection_internal_transaction_rolledback_def
    gda_connection_internal_transaction_committed_def gda_connection_internal_savepoint_added_def
    gda_connection_internal_savepoint_rolledback_def gda_connection_internal_savepoint_removed_def
    gda_connection_internal_reset_transaction_status_def
  by (rule locked_depth, simp split: option.split prod.split)+

lemma statement_executed_depth [simp]:
  "lock_depth (gda_connection_internal_statement_executed c stmt err) = lock_depth c"
proof -
  have "lock_depth (locked (\<lambda>c. emit_changed (case trans_status c of None \<Rightarrow> c
      | Some t \<Rightarrow> (case find_current False t of Some (st, _) \<Rightarrow> upd_status (f st) c | None \<Rightarrow> c))) c)
      = lock_depth c" for f
    by (rule locked_depth) (simp split: option.split prod.split)
  then show ?thesis
    by (simp add: gda_connection_internal_statement_executed_def split: stmt_kind.split)
qed

section \<open>Nested transactions as a stack\<close>

text \<open>
  The contract of the tracking code: the open transactions form a stack, each with its own events.
  The providers always name no parent, so a new transaction or save point goes to the innermost one
  and a sub transaction is the last event of its parent.
\<close>

fun plain :: "event \<Rightarrow> bool" where
  "plain (SubTransaction t) = False"
| "plain (Savepoint n) = True"
| "plain (Sql q e) = True"

inductive linear :: "trans \<Rightarrow> bool" where
  leaf: "list_all plain ps \<Longrightarrow> linear (Trans n i s ps)"
| nest: "list_all plain ps \<Longrightarrow> linear t \<Longrightarrow> linear (Trans n i s (ps @ [SubTransaction t]))"

record frame =
  f_name :: "string option"
  f_isolation :: isolation
  f_state :: tstate
  f_events :: "event list"

fun stack :: "trans \<Rightarrow> frame list" and stack_events :: "event list \<Rightarrow> frame list" where
  "stack (Trans n i s evs) =
     \<lparr>f_name = n, f_isolation = i, f_state = s, f_events = takeWhile plain evs\<rparr> # stack_events evs"
| "stack_events [] = []"
| "stack_events (ev # evs) = (case ev of SubTransaction t \<Rightarrow> stack t | _ \<Rightarrow> stack_events evs)"

definition cnc_stack :: "cnc \<Rightarrow> frame list" where
  "cnc_stack c = (case trans_status c of None \<Rightarrow> [] | Some t \<Rightarrow> stack t)"

definition cnc_linear :: "cnc \<Rightarrow> bool" where
  "cnc_linear c \<longleftrightarrow> (case trans_status c of None \<Rightarrow> True | Some t \<Rightarrow> linear t)"

lemma stack_ne [simp]: "stack t \<noteq> []"
  by (cases t) simp

lemma stack_events_plain [simp]: "list_all plain ps \<Longrightarrow> stack_events (ps @ r) = stack_events r"
  by (induction ps) (auto split: event.split)

lemma stack_events_plain_end [simp]: "list_all plain ps \<Longrightarrow> stack_events ps = []"
  using stack_events_plain [of ps "[]"] by simp

lemma takeWhile_plain [simp]: "list_all plain ps \<Longrightarrow> takeWhile plain (ps @ r) = ps @ takeWhile plain r"
  by (simp add: list_all_iff)

lemma takeWhile_plain_end [simp]: "list_all plain ps \<Longrightarrow> takeWhile plain ps = ps"
  by (simp add: list_all_iff)

lemma current_events_plain [simp]:
  "list_all plain ps \<Longrightarrow> find_current_events u k (ps @ r) = find_current_events u (k + length ps) r"
  by (induction ps arbitrary: k) (auto split: event.split)

lemma current_events_plain_end [simp]: "list_all plain ps \<Longrightarrow> find_current_events u k ps = None"
  using current_events_plain [of ps u k "[]"] by simp

lemma find_current_found: "\<exists>p e. find_current False t = Some (p, e)"
  by (cases t) (simp split: option.split)

lemma find_current_some [simp]: "find_current False t \<noteq> None"
  using find_current_found [of t] by auto

text \<open>The path to the innermost transaction, and the event that holds it.\<close>

definition holder :: "tpath \<Rightarrow> eventptr option" where
  "holder p = (if p = [] then None else Some (butlast p, last p))"

lemma holder_Nil [simp]: "holder [] = None"
  by (simp add: holder_def)

lemma holder_Cons [simp]:
  "holder (k # p) = (case holder p of None \<Rightarrow> Some ([], k) | Some (q, j) \<Rightarrow> Some (k # q, j))"
  by (simp add: holder_def)

lemma holder_None [simp]: "holder p = None \<longleftrightarrow> p = []" "None = holder p \<longleftrightarrow> p = []"
  by (simp_all add: holder_def)

lemma find_current_holder:
  shows "\<forall>p e. find_current u t = Some (p, e) \<longrightarrow> e = holder p"
    and "\<forall>p e. find_current_events u k evs = Some (p, e) \<longrightarrow> Some e = holder p"
proof (induction u t and u k evs rule: find_current_find_current_events.induct)
  case (1 u n i s evs)
  then show ?case by (auto split: option.splits)
next
  case (3 u k ev evs)
  then show ?case by (cases ev) (fastforce split: option.splits)+
qed simp

text \<open>One rule for all the updates of the innermost transaction of a stack.\<close>

lemma upd_innermost:
  assumes "linear t" and "find_current False t = Some (p, e)"
  shows "stack (upd_events p f t) =
      butlast (stack t) @
      stack (Trans (f_name (last (stack t))) (f_isolation (last (stack t))) (f_state (last (stack t)))
               (f (f_events (last (stack t)))))
    \<and> ((\<forall>n i s evs. list_all plain evs \<longrightarrow> linear (Trans n i s (f evs))) \<longrightarrow> linear (upd_events p f t))"
  using assms
proof (induction arbitrary: p e rule: linear.induct)
  case (leaf ps n i s)
  then show ?case by simp
next
  case (nest ps t n i s)
  obtain q e' where q: "find_current False t = Some (q, e')" using find_current_found by blast
  with nest.prems nest.hyps have p: "p = length ps # q"
    by (auto split: option.splits)
  show ?case using nest.IH [OF q] nest.hyps
    by (auto simp: p intro: linear.intros)
qed

lemma linear_root: "linear t \<Longrightarrow> find_current False t = Some ([], e) \<Longrightarrow> tl (stack t) = []"
  by (induction rule: linear.induct) (auto split: option.splits)

text \<open>Cutting the event that holds the innermost transaction pops it.\<close>

lemma cut_innermost:
  assumes "linear t" and "find_current False t = Some (p, Some (q, k))"
  shows "stack (gda_transaction_status_free_events t q (Some (q, k)) True) = butlast (stack t)
    \<and> linear (gda_transaction_status_free_events t q (Some (q, k)) True)"
proof -
  have "\<exists>u. trans_at q t = Some u \<and> k < length (t_events u) \<and>
      stack (upd_events q (cut_events k True) t) = butlast (stack t) \<and>
      linear (upd_events q (cut_events k True) t)"
    using assms
  proof (induction arbitrary: p q k rule: linear.induct)
    case (leaf ps n i s)
    then show ?case by simp
  next
    case (nest ps t n i s)
    obtain p' e' where p': "find_current False t = Some (p', e')" using find_current_found by blast
    show ?case
    proof (cases e')
      case None
      with p' nest have "q = []" "k = length ps" "p' = []"
        using find_current_holder(1) [of False t] by auto
      moreover have "tl (stack t) = []"
        using linear_root [OF nest.hyps(2)] p' None \<open>p' = []\<close> by simp
      ultimately show ?thesis using nest.hyps
        by (cases t) (auto simp: cut_events_def intro: linear.intros)
    next
      case (Some qk)
      obtain q' k' where qk: "qk = (q', k')" by force
      with Some p' have f: "find_current False t = Some (p', Some (q', k'))" by simp
      with nest have "q = length ps # q'" "k = k'" by auto
      with nest.IH [OF f] nest.hyps show ?thesis
        by (auto intro: linear.intros)
    qed
  qed
  then show ?thesis by (auto simp: gda_transaction_status_free_events_def)
qed

text \<open>What the handlers do on the stack, when they are given no name.\<close>

definition push_frame :: "string option \<Rightarrow> isolation \<Rightarrow> frame list \<Rightarrow> frame list" where
  "push_frame nm isol stk =
     stk @ [\<lparr>f_name = nm, f_isolation = isol, f_state = StateOk, f_events = []\<rparr>]"

definition log_event :: "event \<Rightarrow> frame list \<Rightarrow> frame list" where
  "log_event ev stk =
     (if stk = [] then [] else butlast stk @ [(last stk)\<lparr>f_events := f_events (last stk) @ [ev]\<rparr>])"

lemma cnc_stack_None [simp]: "trans_status c = None \<Longrightarrow> cnc_stack c = []"
  and cnc_stack_Some [simp]: "trans_status c = Some t \<Longrightarrow> cnc_stack c = stack t"
  and cnc_linear_None [simp]: "trans_status c = None \<Longrightarrow> cnc_linear c"
  and cnc_linear_Some [simp]: "trans_status c = Some t \<Longrightarrow> cnc_linear c \<longleftrightarrow> linear t"
  by (simp_all add: cnc_stack_def cnc_linear_def)

lemma cnc_views [simp]:
  "cnc_stack (gda_connection_lock c) = cnc_stack c" "cnc_stack (gda_connection_unlock c) = cnc_stack c"
  "cnc_stack (emit_changed c) = cnc_stack c" "cnc_stack (g_warning c) = cnc_stack c"
  "cnc_linear (gda_connection_lock c) = cnc_linear c" "cnc_linear (gda_connection_unlock c) = cnc_linear c"
  "cnc_linear (emit_changed c) = cnc_linear c" "cnc_linear (g_warning c) = cnc_linear c"
  by (simp_all add: cnc_stack_def cnc_linear_def)

lemma locked_views:
  "cnc_stack (locked f c) = cnc_stack (f (gda_connection_lock c))"
  "cnc_linear (locked f c) = cnc_linear (f (gda_connection_lock c))"
  by (simp_all add: locked_def)

lemma frame_inner_plain: "linear t \<Longrightarrow> list_all plain (f_events (last (stack t)))"
  by (induction rule: linear.induct) auto

lemma append_innermost:
  assumes "linear t" and "find_current False t = Some (p, e)" and "plain ev"
  shows "stack (upd_events p (\<lambda>evs. evs @ [ev]) t) = log_event ev (stack t)"
    and "linear (upd_events p (\<lambda>evs. evs @ [ev]) t)"
  using upd_innermost [OF assms(1,2), of "\<lambda>evs. evs @ [ev]"] frame_inner_plain [OF assms(1)] assms(3)
  by (auto simp: log_event_def intro: linear.leaf)

lemma push_innermost:
  assumes "linear t" and "find_current False t = Some (p, e)"
  shows "stack (upd_events p (\<lambda>evs. evs @ [SubTransaction (Trans nm i StateOk [])]) t) =
      push_frame nm i (stack t)"
    and "linear (upd_events p (\<lambda>evs. evs @ [SubTransaction (Trans nm i StateOk [])]) t)"
proof -
  have "linear (Trans n j s (evs @ [SubTransaction (Trans nm i StateOk [])]))"
    if "list_all plain evs" for n j s evs
    using that by (simp add: linear.intros)
  moreover have "butlast (stack t) @
      \<lparr>f_name = f_name (last (stack t)), f_isolation = f_isolation (last (stack t)),
       f_state = f_state (last (stack t)), f_events = f_events (last (stack t))\<rparr> # r = stack t @ r" for r
    by (metis append.assoc append_Cons append_Nil append_butlast_last_id frame.surjective
        old.unit.exhaust stack_ne)
  ultimately show "stack (upd_events p (\<lambda>evs. evs @ [SubTransaction (Trans nm i StateOk [])]) t) =
      push_frame nm i (stack t)"
    and "linear (upd_events p (\<lambda>evs. evs @ [SubTransaction (Trans nm i StateOk [])]) t)"
    using upd_innermost [OF assms, of "\<lambda>evs. evs @ [SubTransaction (Trans nm i StateOk [])]"]
      frame_inner_plain [OF assms(1)]
    by (auto simp: push_frame_def)
qed

lemma started_view:
  assumes "cnc_linear c"
  shows "cnc_stack (gda_connection_internal_transaction_started c None nm isol) =
      push_frame nm isol (cnc_stack c)"
    and "cnc_linear (gda_connection_internal_transaction_started c None nm isol)"
  using assms push_innermost
  by (auto simp: gda_connection_internal_transaction_started_def locked_views gda_transaction_status_new_def
      gda_transaction_status_find_def gda_transaction_status_add_event_sub_def push_frame_def Let_def
      split: option.splits intro: linear.leaf)

lemma ended_view:
  assumes "cnc_linear c"
  shows "cnc_stack (transaction_ended c None) = butlast (cnc_stack c)"
    and "cnc_linear (transaction_ended c None)"
proof -
  have "cnc_stack (transaction_ended c None) = butlast (cnc_stack c) \<and> cnc_linear (transaction_ended c None)"
  proof (cases "trans_status c")
    case None
    then show ?thesis by (simp add: transaction_ended_def gda_transaction_status_find_def)
  next
    case (Some t)
    obtain p e where pe: "find_current False t = Some (p, e)" using find_current_found by blast
    show ?thesis
    proof (cases e)
      case None
      then have "tl (stack t) = []" using linear_root [of t] pe find_current_holder(1) [of False t] assms Some
        by auto
      then have "butlast (stack t) = []" by (cases "stack t") auto
      then show ?thesis using Some pe None
        by (simp add: transaction_ended_def gda_transaction_status_find_def)
    next
      case (Some qk)
      then obtain q k where "e = Some (q, k)" by (cases qk) auto
      then show ?thesis using \<open>trans_status c = Some t\<close> pe assms cut_innermost [of t p q k]
        by (simp add: transaction_ended_def gda_transaction_status_find_def)
    qed
  qed
  then show "cnc_stack (transaction_ended c None) = butlast (cnc_stack c)"
    and "cnc_linear (transaction_ended c None)" by simp_all
qed

lemma savepoint_added_view:
  assumes "cnc_linear c"
  shows "cnc_stack (gda_connection_internal_savepoint_added c None (Some nm)) =
      log_event (Savepoint nm) (cnc_stack c)"
    and "cnc_linear (gda_connection_internal_savepoint_added c None nm')"
  using assms append_innermost
  by (auto simp: gda_connection_internal_savepoint_added_def locked_views log_event_def
      gda_transaction_status_find_def gda_transaction_status_add_event_svp_def option.map_ident
      split: option.splits)

lemma executed_view:
  assumes "cnc_linear c"
  shows "cnc_linear (gda_connection_internal_statement_executed c
           \<lparr>s_kind = StmtOther, s_sql = q, s_rendered = r\<rparr> err)"
    and "cnc_stack (gda_connection_internal_statement_executed c
           \<lparr>s_kind = StmtOther, s_sql = Some txt, s_rendered = r\<rparr> None) =
         log_event (Sql txt None) (cnc_stack c)"
  using assms append_innermost
  by (auto simp: gda_connection_internal_statement_executed_def locked_views log_event_def
      gda_transaction_status_add_event_sql_def option.map_ident split: option.splits)

subsection \<open>Events and transactions looked up by name\<close>

fun ev_text :: "event \<Rightarrow> string option" where
  "ev_text (Savepoint n) = Some n"
| "ev_text (Sql q e) = Some q"
| "ev_text (SubTransaction t) = None"

fun event_index :: "string \<Rightarrow> nat \<Rightarrow> event list \<Rightarrow> nat option" where
  "event_index s k [] = None"
| "event_index s k (ev # evs) = (if ev_text ev = Some s then Some k else event_index s (k + 1) evs)"

text \<open>
  The position on the stack of the first transaction that has the name (the event is None), or of
  the first event that has the text.
\<close>

fun stack_find :: "string \<Rightarrow> frame list \<Rightarrow> (nat \<times> nat option) option" where
  "stack_find s [] = None"
| "stack_find s (fr # frs) =
     (if f_name fr = Some s then Some (0, None)
      else case event_index s 0 (f_events fr) of
        Some k \<Rightarrow> Some (0, Some k)
      | None \<Rightarrow> map_option (\<lambda>(j, m). (j + 1, m)) (stack_find s frs))"

lemma find_str_events_plain:
  "list_all plain ps \<Longrightarrow> find_str_events s k (ps @ r) =
     (case event_index s k ps of Some j \<Rightarrow> Some ([], ([], j)) | None \<Rightarrow> find_str_events s (k + length ps) r)"
  by (induction ps arbitrary: k) (auto split: event.splits option.splits)

lemma event_index_less: "event_index s k evs = Some j \<Longrightarrow> k \<le> j \<and> j < k + length evs"
  by (induction s k evs rule: event_index.induct) (auto split: if_splits)

lemma find_str_linear:
  "linear t \<Longrightarrow>
   (case stack_find s (stack t) of
      None \<Rightarrow> find_str s t = None
    | Some (0, None) \<Rightarrow> find_str s t = Some ([], None)
    | Some (0, Some k) \<Rightarrow> find_str s t = Some ([], Some ([], k)) \<and> k < length (f_events (hd (stack t)))
    | Some (Suc j, m) \<Rightarrow> (\<exists>p. find_str s t = Some (p, Some ([], length (f_events (hd (stack t))))) \<and> p \<noteq> [])
        \<and> 1 < length (stack t))"
proof (induction rule: linear.induct)
  case (leaf ps n i s')
  then show ?case using find_str_events_plain [of ps s 0 "[]"]
    by (auto split: option.splits dest: event_index_less)
next
  case (nest ps t n i s')
  then show ?case using find_str_events_plain [of ps s 0 "[SubTransaction t]"]
    by (cases "stack t") (auto split: option.splits nat.splits if_splits dest: event_index_less)
qed

lemma find_str_cases:
  assumes "linear t"
  obtains "stack_find s (stack t) = None" "find_str s t = None"
  | "stack_find s (stack t) = Some (0, None)" "find_str s t = Some ([], None)"
  | k where "stack_find s (stack t) = Some (0, Some k)" "find_str s t = Some ([], Some ([], k))"
      "k < length (f_events (hd (stack t)))"
  | j m p where "stack_find s (stack t) = Some (Suc j, m)" "p \<noteq> []"
      "find_str s t = Some (p, Some ([], length (f_events (hd (stack t)))))" "1 < length (stack t)"
  using find_str_linear [OF assms, of s] by (auto split: option.splits prod.splits nat.splits)

lemma plain_take: "list_all plain ps \<Longrightarrow> list_all plain (take k ps)"
  by (metis append_take_drop_id list_all_append)

lemma plain_drop: "list_all plain ps \<Longrightarrow> list_all plain (drop k ps)"
  by (metis append_take_drop_id list_all_append)

lemma cut_root:
  assumes "linear t" and "k \<le> length (f_events (hd (stack t)))"
  shows "stack (upd_events [] (cut_events k True) t) =
      [(hd (stack t))\<lparr>f_events := take k (f_events (hd (stack t)))\<rparr>]
    \<and> linear (upd_events [] (cut_events k True) t)"
  using assms(1)
proof cases
  case (leaf ps n i s)
  with assms(2) show ?thesis by (simp add: cut_events_def plain_take linear.leaf)
next
  case (nest ps u n i s)
  with assms(2) show ?thesis by (simp add: cut_events_def plain_take linear.leaf)
qed

lemma drop_root:
  assumes "linear t" and "k < length (f_events (hd (stack t)))"
  shows "stack (upd_events [] (cut_events k False) t) =
      (hd (stack t))\<lparr>f_events := take k (f_events (hd (stack t))) @ drop (k + 1) (f_events (hd (stack t)))\<rparr>
        # tl (stack t)
    \<and> linear (upd_events [] (cut_events k False) t)"
  using assms(1)
proof cases
  case (leaf ps n i s)
  with assms(2) show ?thesis by (simp add: cut_events_def plain_take plain_drop linear.leaf)
next
  case (nest ps u n i s)
  with assms(2) linear.nest [of "take k ps @ drop (k + 1) ps" u n i s]
  show ?thesis by (simp add: cut_events_def plain_take plain_drop)
qed

text \<open>What a handler that is given a name leaves of the stack.\<close>

definition end_named :: "string \<Rightarrow> frame list \<Rightarrow> frame list" where
  "end_named s stk =
     (case stack_find s stk of
        None \<Rightarrow> stk
      | Some (0, None) \<Rightarrow> []
      | Some (0, Some k) \<Rightarrow> [(hd stk)\<lparr>f_events := take k (f_events (hd stk))\<rparr>]
      | Some (Suc j, m) \<Rightarrow> [hd stk])"

definition savepoint_named :: "bool \<Rightarrow> string \<Rightarrow> frame list \<Rightarrow> frame list" where
  "savepoint_named free_after s stk =
     (case stack_find s stk of
        Some (0, Some k) \<Rightarrow>
          (if free_after then [(hd stk)\<lparr>f_events := take k (f_events (hd stk))\<rparr>]
           else (hd stk)\<lparr>f_events := take k (f_events (hd stk)) @ drop (k + 1) (f_events (hd stk))\<rparr> # tl stk)
      | _ \<Rightarrow> stk)"

lemma trans_at_root [simp]: "trans_at [] t = Some t"
  by (cases t) simp

lemma root_events_length: "length (f_events (hd (stack t))) \<le> length (t_events t)"
  by (cases t) (simp add: length_takeWhile_le)

lemma root_events_nested: "1 < length (stack t) \<Longrightarrow> length (f_events (hd (stack t))) < length (t_events t)"
proof (cases t)
  case (Trans n i s evs)
  moreover assume "1 < length (stack t)"
  moreover have "stack_events evs \<noteq> [] \<Longrightarrow> length (takeWhile plain evs) < length evs" for evs
    by (induction evs) (auto split: event.splits)
  ultimately show ?thesis by simp
qed

lemma ended_named_view:
  assumes "cnc_linear c"
  shows "cnc_stack (transaction_ended c (Some s)) = end_named s (cnc_stack c)
    \<and> cnc_linear (transaction_ended c (Some s))"
proof (cases "trans_status c")
  case None
  then show ?thesis
    by (simp add: transaction_ended_def gda_transaction_status_find_def end_named_def)
next
  case (Some t)
  then have lin: "linear t" using assms by simp
  show ?thesis
    by (rule find_str_cases [OF lin, of s];
        insert Some lin cut_root [OF lin] root_events_length [of t] root_events_nested [of t];
        auto simp: transaction_ended_def gda_transaction_status_find_def end_named_def
         gda_transaction_status_free_events_def)
qed

lemma savepoint_ended_view:
  assumes "cnc_linear c"
  shows "cnc_stack (savepoint_ended b c (Some s)) = savepoint_named b s (cnc_stack c)
    \<and> cnc_linear (savepoint_ended b c (Some s))"
proof (cases "trans_status c")
  case None
  then show ?thesis
    by (simp add: savepoint_ended_def gda_transaction_status_find_def savepoint_named_def)
next
  case (Some t)
  then have lin: "linear t" using assms by simp
  show ?thesis
    by (rule find_str_cases [OF lin, of s];
        insert Some lin cut_root [OF lin] drop_root [OF lin] root_events_length [of t];
        auto simp: savepoint_ended_def gda_transaction_status_find_def savepoint_named_def
         gda_transaction_status_free_events_def)
qed

section \<open>Reachable connections\<close>

text \<open>
  What the providers do: every handler, with no parent named, in any order and with any names.
\<close>

inductive cnc_step :: "cnc \<Rightarrow> cnc \<Rightarrow> bool" where
  started: "cnc_step c (gda_connection_internal_transaction_started c None nm isol)"
| rolledback: "cnc_step c (gda_connection_internal_transaction_rolledback c nm)"
| committed: "cnc_step c (gda_connection_internal_transaction_committed c nm)"
| savepoint_added: "cnc_step c (gda_connection_internal_savepoint_added c None (Some svp))"
| savepoint_rolledback: "cnc_step c (gda_connection_internal_savepoint_rolledback c (Some svp))"
| savepoint_removed: "cnc_step c (gda_connection_internal_savepoint_removed c (Some svp))"
| executed: "cnc_step c (gda_connection_internal_statement_executed c
               \<lparr>s_kind = StmtOther, s_sql = q, s_rendered = r\<rparr> err)"
| state_changed: "trans_status c = Some t \<Longrightarrow> t_state t \<noteq> s \<Longrightarrow>
    cnc_step c (gda_connection_internal_change_transaction_state c s)"
| reset: "cnc_step c (gda_connection_internal_reset_transaction_status c)"

inductive_cases cnc_stepE: "cnc_step c c'"

definition cnc_init :: cnc where
  "cnc_init = \<lparr>trans_status = None, lock_depth = 0, status_changed = 0, warnings = 0\<rparr>"

inductive cnc_reachable :: "cnc \<Rightarrow> bool" where
  init: "cnc_reachable cnc_init"
| step: "cnc_reachable c \<Longrightarrow> cnc_step c c' \<Longrightarrow> cnc_reachable c'"

lemma change_state_view:
  "trans_status c = Some t \<Longrightarrow> t_state t \<noteq> s \<Longrightarrow>
   trans_status (gda_connection_internal_change_transaction_state c s) =
     Some (Trans (t_name t) (t_isolation t) s (t_events t))"
  by (cases t) (simp add: gda_connection_internal_change_transaction_state_def)

lemma change_state_depth:
  "lock_depth (gda_connection_internal_change_transaction_state c s) =
     (case trans_status c of
        None \<Rightarrow> lock_depth c + 1
      | Some t \<Rightarrow> if t_state t = s then lock_depth c + 1 else lock_depth c)"
  by (auto simp: gda_connection_internal_change_transaction_state_def gda_connection_lock_def Let_def
      gda_connection_unlock_def emit_changed_def split: option.splits trans.splits)

lemma linear_state: "linear (Trans n i s evs) \<Longrightarrow> linear (Trans n i s' evs)"
  by (erule linear.cases) (auto intro: linear.intros)

lemma step_preserves:
  assumes "cnc_step c c'" and "cnc_linear c"
  shows "cnc_linear c' \<and> lock_depth c' = lock_depth c"
  using assms(1)
proof cases
  case (rolledback nm)
  then show ?thesis using assms(2) ended_named_view ended_view(2)
    by (cases nm) (simp_all add: gda_connection_internal_transaction_rolledback_def locked_views locked_depth)
next
  case (committed nm)
  then show ?thesis using assms(2) ended_named_view ended_view(2)
    by (cases nm) (simp_all add: gda_connection_internal_transaction_committed_def locked_views locked_depth)
next
  case (savepoint_rolledback svp)
  then show ?thesis using assms(2) savepoint_ended_view
    by (simp add: gda_connection_internal_savepoint_rolledback_def locked_views locked_depth)
next
  case (savepoint_removed svp)
  then show ?thesis using assms(2) savepoint_ended_view
    by (simp add: gda_connection_internal_savepoint_removed_def locked_views locked_depth)
next
  case (state_changed t s)
  then have "linear (Trans (t_name t) (t_isolation t) s (t_events t))"
    using assms(2) linear_state by (metis cnc_linear_Some trans.collapse)
  then show ?thesis using state_changed change_state_view [of c t s]
    by (simp add: change_state_depth)
next
  case reset
  moreover have "cnc_linear (gda_connection_internal_reset_transaction_status c)" using assms(2)
    by (auto simp: cnc_linear_def gda_connection_internal_reset_transaction_status_def locked_def)
  ultimately show ?thesis by simp
qed (use assms(2) started_view(2) savepoint_added_view(2) executed_view(1) in simp_all)

section \<open>Properties\<close>

text \<open>C1: The tracking tree is a stack for the handlers that are given no name. On a connection
  whose tree is linear, starting a transaction pushes it, ending the current one by a commit or a
  roll back pops exactly the innermost, and a save point or an executed statement is appended to
  the events of the innermost; all the other transactions keep their name, isolation, state and
  events.\<close>

theorem tracking_refines_stack:
  assumes "cnc_linear c"
  shows "cnc_stack (gda_connection_internal_transaction_started c None nm isol) =
           push_frame nm isol (cnc_stack c) \<and>
         cnc_stack (gda_connection_internal_transaction_rolledback c None) = butlast (cnc_stack c) \<and>
         cnc_stack (gda_connection_internal_transaction_committed c None) = butlast (cnc_stack c) \<and>
         cnc_stack (gda_connection_internal_savepoint_added c None (Some svp)) =
           log_event (Savepoint svp) (cnc_stack c) \<and>
         cnc_stack (gda_connection_internal_statement_executed c
             \<lparr>s_kind = StmtOther, s_sql = Some sql, s_rendered = r\<rparr> None) =
           log_event (Sql sql None) (cnc_stack c)"
  using assms started_view(1) ended_view(1) savepoint_added_view(1) executed_view(2)
  by (simp add: gda_connection_internal_transaction_rolledback_def locked_views
      gda_connection_internal_transaction_committed_def)

lemma tracking_refines_stack_witness:
  "map f_name (cnc_stack (gda_connection_internal_transaction_rolledback
     (gda_connection_internal_transaction_started cnc_init None (Some ''t'') Serializable) None)) = []"
proof -
  have "cnc_linear cnc_init" by (simp add: cnc_init_def)
  then have "cnc_linear (gda_connection_internal_transaction_started cnc_init None (Some ''t'') Serializable)"
    and "cnc_stack (gda_connection_internal_transaction_started cnc_init None (Some ''t'') Serializable) =
       push_frame (Some ''t'') Serializable []"
    using started_view by (auto simp: cnc_stack_def cnc_init_def)
  with tracking_refines_stack [of "gda_connection_internal_transaction_started cnc_init None (Some ''t'') Serializable"]
  show ?thesis by (simp add: push_frame_def)
qed



text \<open>Remark: \<open>gda_connection_internal_change_transaction_state\<close> leaves the connection locked when
  there is no tracked transaction and when the state is already the requested one: both of its early
  returns come after the lock was taken. Otherwise it changes the state of the outermost transaction
  only, and releases the lock.\<close>

theorem change_state_lock:
  "lock_depth (gda_connection_internal_change_transaction_state c s) =
     (case trans_status c of
        None \<Rightarrow> lock_depth c + 1
      | Some t \<Rightarrow> if t_state t = s then lock_depth c + 1 else lock_depth c) \<and>
   cnc_stack (gda_connection_internal_change_transaction_state c s) =
     (case cnc_stack c of [] \<Rightarrow> [] | fr # frs \<Rightarrow> fr\<lparr>f_state := s\<rparr> # frs)"
proof -
  have "cnc_stack (gda_connection_internal_change_transaction_state c s) =
     (case cnc_stack c of [] \<Rightarrow> [] | fr # frs \<Rightarrow> fr\<lparr>f_state := s\<rparr> # frs)"
    by (auto simp: gda_connection_internal_change_transaction_state_def Let_def cnc_stack_def
        split: option.splits trans.splits)
  then show ?thesis by (simp add: change_state_depth)
qed

text \<open>Remark: Ending a transaction by its name. The handlers look for the first transaction that has
  the name and then, before going deeper, for the first save point or statement with that text. Naming
  the outermost transaction ends everything. A match anywhere below the first level, however
  deep, ends the transaction of the \<^emph>\<open>second\<close> level with all it contains, and a name that
  matches a save point or a statement of the outermost transaction cuts its events there. A name that
  is not found changes nothing and gives a warning.\<close>

theorem end_by_name:
  assumes "cnc_linear c"
  shows "cnc_stack (gda_connection_internal_transaction_rolledback c (Some s)) = end_named s (cnc_stack c) \<and>
         cnc_stack (gda_connection_internal_transaction_committed c (Some s)) = end_named s (cnc_stack c)"
  using ended_named_view [of "gda_connection_lock c" s] assms
  by (simp add: gda_connection_internal_transaction_rolledback_def
      gda_connection_internal_transaction_committed_def locked_views)

text \<open>Three nested transactions \<open>a\<close>, \<open>b\<close>, \<open>c\<close>.\<close>

definition three_levels :: cnc where
  "three_levels =
     gda_connection_internal_transaction_started
       (gda_connection_internal_transaction_started
         (gda_connection_internal_transaction_started cnc_init None (Some ''a'') Serializable)
         None (Some ''b'') Serializable)
       None (Some ''c'') Serializable"

lemma three_levels_linear: "cnc_linear three_levels"
proof -
  have "cnc_reachable three_levels"
    unfolding three_levels_def
    by (intro cnc_reachable.step [OF _ cnc_step.started] cnc_reachable.init)
  then show ?thesis
    by induction (use step_preserves in \<open>auto simp: cnc_init_def\<close>)
qed

lemma end_by_name_witness:
  "map f_name (cnc_stack three_levels) = [Some ''a'', Some ''b'', Some ''c''] \<and>
   map f_name (cnc_stack (gda_connection_internal_transaction_rolledback three_levels (Some ''c''))) =
     [Some ''a'']"
proof -
  have st: "map f_name (cnc_stack three_levels) = [Some ''a'', Some ''b'', Some ''c'']"
    by code_simp
  have "map f_name (end_named ''c'' (cnc_stack three_levels)) = [Some ''a'']"
    by code_simp
  with st end_by_name [OF three_levels_linear, of "''c''"] show ?thesis by simp
qed

text \<open>Remark: Rolling back to a save point and removing one. When the first match of the name is a save
  point of the outermost transaction, rolling back cuts its events there, with the nested
  transactions, and removing it drops that event only. When the save point belongs to a nested
  transaction nothing is removed at all, because the event reported by the search is one of the
  outermost transaction while the transaction is the nested one.\<close>

theorem savepoint_end:
  assumes "cnc_linear c"
  shows "cnc_stack (gda_connection_internal_savepoint_rolledback c (Some s)) =
           savepoint_named True s (cnc_stack c) \<and>
         cnc_stack (gda_connection_internal_savepoint_removed c (Some s)) =
           savepoint_named False s (cnc_stack c)"
  using savepoint_ended_view [of "gda_connection_lock c" _ s] assms
  by (simp add: gda_connection_internal_savepoint_rolledback_def
      gda_connection_internal_savepoint_removed_def locked_views)

lemma savepoint_end_witness:
  "cnc_stack (gda_connection_internal_savepoint_rolledback
     (gda_connection_internal_savepoint_added three_levels None (Some ''s'')) (Some ''s'')) =
   cnc_stack (gda_connection_internal_savepoint_added three_levels None (Some ''s''))"
proof -
  let ?c = "gda_connection_internal_savepoint_added three_levels None (Some ''s'')"
  have "savepoint_named True ''s'' (cnc_stack ?c) = cnc_stack ?c"
    by code_simp
  with savepoint_end [OF savepoint_added_view(2) [OF three_levels_linear, of "Some ''s''"], of "''s''"]
  show ?thesis by simp
qed

text \<open>Executing statements one after the other.\<close>

definition execute_all :: "string list \<Rightarrow> cnc \<Rightarrow> cnc" where
  "execute_all sqls c =
     foldl (\<lambda>c q. gda_connection_internal_statement_executed c
                   \<lparr>s_kind = StmtOther, s_sql = Some q, s_rendered = None\<rparr> None) c sqls"

lemma log_event_single [simp]:
  "log_event ev [fr] = [fr\<lparr>f_events := f_events fr @ [ev]\<rparr>]"
  by (simp add: log_event_def)

lemma execute_all_view:
  assumes "cnc_linear c" and "cnc_stack c = [fr]"
  shows "cnc_linear (execute_all sqls c) \<and>
    cnc_stack (execute_all sqls c) = [fr\<lparr>f_events := f_events fr @ map (\<lambda>q. Sql q None) sqls\<rparr>]"
  using assms
proof (induction sqls arbitrary: c fr)
  case Nil
  then show ?case by (simp add: execute_all_def)
next
  case (Cons q sqls)
  let ?c = "gda_connection_internal_statement_executed c
                   \<lparr>s_kind = StmtOther, s_sql = Some q, s_rendered = None\<rparr> None"
  have "cnc_linear ?c" "cnc_stack ?c = [fr\<lparr>f_events := f_events fr @ [Sql q None]\<rparr>]"
    using executed_view Cons.prems by simp_all
  from Cons.IH [OF this] show ?case by (simp add: execute_all_def)
qed

lemma event_index_append_None:
  "event_index s k evs = None \<Longrightarrow> event_index s k (evs @ r) = event_index s (k + length evs) r"
  by (induction s k evs rule: event_index.induct) (auto split: if_splits)

text \<open>Remark: In a transaction that is not nested, setting a save point with a fresh name, executing any
  statements and rolling back to the save point restores the tracked transaction as it was.\<close>

theorem savepoint_undo:
  assumes "cnc_linear c" and "cnc_stack c = [fr]" and "stack_find s [fr] = None"
  shows "cnc_stack
      (gda_connection_internal_savepoint_rolledback
        (execute_all sqls (gda_connection_internal_savepoint_added c None (Some s))) (Some s)) = [fr]"
proof -
  let ?c = "gda_connection_internal_savepoint_added c None (Some s)"
  let ?fr = "fr\<lparr>f_events := f_events fr @ Savepoint s # map (\<lambda>q. Sql q None) sqls\<rparr>"
  have "cnc_linear ?c" "cnc_stack ?c = [fr\<lparr>f_events := f_events fr @ [Savepoint s]\<rparr>]"
    using savepoint_added_view assms by simp_all
  from execute_all_view [OF this]
  have lin: "cnc_linear (execute_all sqls ?c)" and st: "cnc_stack (execute_all sqls ?c) = [?fr]"
    by simp_all
  have "event_index s 0 (f_events fr) = None" "f_name fr \<noteq> Some s"
    using assms(3) by (auto split: if_splits option.splits)
  then have "stack_find s [?fr] = Some (0, Some (length (f_events fr)))"
    by (simp add: event_index_append_None)
  then have "savepoint_named True s [?fr] = [fr]"
    by (simp add: savepoint_named_def)
  with lin st savepoint_ended_view [of "gda_connection_lock (execute_all sqls ?c)" True s]
  show ?thesis
    by (simp add: gda_connection_internal_savepoint_rolledback_def locked_views)
qed

lemma savepoint_undo_witness:
  "cnc_stack
      (gda_connection_internal_savepoint_rolledback
        (execute_all [''DELETE'', ''s'']
          (gda_connection_internal_savepoint_added
            (gda_connection_internal_transaction_started cnc_init None None Serializable) None (Some ''s'')))
        (Some ''s'')) =
   [\<lparr>f_name = None, f_isolation = Serializable, f_state = StateOk, f_events = []\<rparr>]"
proof -
  have "cnc_linear cnc_init" by (simp add: cnc_init_def)
  then have "cnc_linear (gda_connection_internal_transaction_started cnc_init None None Serializable)"
    and "cnc_stack (gda_connection_internal_transaction_started cnc_init None None Serializable) =
       [\<lparr>f_name = None, f_isolation = Serializable, f_state = StateOk, f_events = []\<rparr>]"
    using started_view by (auto simp: cnc_stack_def cnc_init_def push_frame_def)
  then show ?thesis by (rule savepoint_undo) simp
qed

text \<open>Remark: A new transaction whose named parent is not tracked replaces the whole tracked tree: the
  transactions that were open are forgotten.\<close>

theorem unknown_parent_replaces:
  assumes "gda_transaction_status_find (trans_status c) (Some parent) = None"
  shows "cnc_stack (gda_connection_internal_transaction_started c (Some parent) nm isol) =
    push_frame nm isol []"
  using assms
  by (simp add: gda_connection_internal_transaction_started_def locked_views Let_def
      gda_transaction_status_new_def push_frame_def)

lemma unknown_parent_replaces_witness:
  "length (cnc_stack three_levels) = 3 \<and>
   length (cnc_stack (gda_connection_internal_transaction_started three_levels
      (Some ''x'') None Serializable)) = 1"
proof -
  have "length (cnc_stack three_levels) = 3" by code_simp
  moreover have "gda_transaction_status_find (trans_status three_levels) (Some ''x'') = None"
    by code_simp
  from unknown_parent_replaces [OF this, of None Serializable]
  have "length (cnc_stack (gda_connection_internal_transaction_started three_levels
      (Some ''x'') None Serializable)) = 1" by (simp add: push_frame_def)
  ultimately show ?thesis by simp
qed

end
