(* ===== verification/Gda_Escape.thy ===== *)
theory Gda_Escape
  imports Gda_Prelude
begin

text \<open>
  The string codecs of \<open>libgda/gda-util.c\<close>: SQL escaping
  (\<open>gda_default_escape_string\<close> and its inverse), the \<open>__gdaXX\<close> encoding of
  parameter names (\<open>gda_text_to_alphanum\<close>, \<open>gda_alphanum_to_text\<close>) and the RFC 1738
  encoding of connection strings (\<open>gda_rfc1738_encode\<close>, \<open>gda_rfc1738_decode\<close>).
  A \<open>NULL\<close> string is \<open>None\<close>.
\<close>

section \<open>SQL escaping\<close>


text \<open>Second loop: the bytes written.\<close>

fun escape_write :: "string \<Rightarrow> string" where
  "escape_write [] = []"
| "escape_write (c # cs) =
     (if c = SQUOTE then SQUOTE # c # escape_write cs
      else if c = BSLASH then BSLASH # c # escape_write cs
      else c # escape_write cs)"

definition gda_default_escape_string :: "string option \<Rightarrow> string option" where
  "gda_default_escape_string str = map_option escape_write str"

text \<open>
  \<open>gda_default_unescape_string\<close> works in place on a copy of \<open>total + 1\<close> bytes. \<open>p\<close> is the
  index of \<open>ptr\<close>, \<open>off\<close> the variable \<open>offset\<close>. The two \<open>if\<close> statements of the loop body are
  not exclusive: after a doubled quote was handled, the second one takes its \<open>else\<close> branch and
  counts one more character.
\<close>

function unescape_loop :: "(nat \<Rightarrow> char) \<Rightarrow> nat \<Rightarrow> char list \<Rightarrow> nat \<Rightarrow> nat \<Rightarrow> char list option" where
  "unescape_loop junk tot m p off =
     (if off < tot then
        (if mem_at junk m p = SQUOTE then
           (if mem_at junk m (p + 1) = SQUOTE then
              unescape_loop junk tot (memmove junk m (p + 1) (p + 2) (tot - off))
                (p + 1) (off + 2 + 1)
            else None)
         else if mem_at junk m p = BSLASH then
           (if mem_at junk m (p + 1) = BSLASH then
              unescape_loop junk tot (memmove junk m (p + 1) (p + 2) (tot - off))
                (p + 1) (off + 2)
            else if mem_at junk m (p + 1) = SQUOTE then
              unescape_loop junk tot (memmove junk (m[p := SQUOTE]) (p + 1) (p + 2) (tot - off))
                (p + 1) (off + 2)
            else None)
         else unescape_loop junk tot m (p + 1) (off + 1))
      else Some m)"
  by pat_completeness auto
termination
  by (relation "measure (\<lambda>(junk, tot, m, p, off). tot - off)") auto

declare unescape_loop.simps [simp del]

definition gda_default_unescape_string :: "(nat \<Rightarrow> char) \<Rightarrow> string option \<Rightarrow> string option" where
  "gda_default_unescape_string junk str =
     (case str of None \<Rightarrow> None
      | Some s \<Rightarrow> map_option c_str (unescape_loop junk (length s) (s @ [NUL]) 0 0))"


lemma cstring_escape_write [simp]: "cstring (escape_write s) = cstring s"
  by (induction s) auto

lemma length_escape_ge: "length s \<le> length (escape_write s)"
  by (induction s) auto

lemma mem_at_here [simp]: "mem_at junk (pre @ c # r) (length pre) = c"
  by (simp add: mem_at_def)

lemma mem_at_next [simp]: "mem_at junk (pre @ c # d # r) (Suc (length pre)) = d"
  by (simp add: mem_at_def nth_append)

text \<open>One turn of the loop on each kind of input.\<close>

lemma unescape_step_quote:
  assumes "off < tot" and "length r + 1 \<le> tot - off"
  shows "\<exists>st'. unescape_loop junk tot (pre @ SQUOTE # SQUOTE # r @ NUL # st) (length pre) off =
         unescape_loop junk tot ((pre @ [SQUOTE]) @ r @ NUL # st') (length (pre @ [SQUOTE])) (off + 2 + 1)"
proof -
  obtain st' where "memmove junk (pre @ SQUOTE # SQUOTE # r @ NUL # st) (length pre + 1) (length pre + 2)
      (tot - off) = pre @ SQUOTE # r @ NUL # st'"
    using memmove_delete [OF assms(2)] by blast
  with assms(1) show ?thesis
    by (subst unescape_loop.simps) auto
qed

lemma unescape_step_bslash:
  assumes "off < tot" and "length r + 1 \<le> tot - off"
  shows "\<exists>st'. unescape_loop junk tot (pre @ BSLASH # BSLASH # r @ NUL # st) (length pre) off =
         unescape_loop junk tot ((pre @ [BSLASH]) @ r @ NUL # st') (length (pre @ [BSLASH])) (off + 2)"
proof -
  obtain st' where "memmove junk (pre @ BSLASH # BSLASH # r @ NUL # st) (length pre + 1) (length pre + 2)
      (tot - off) = pre @ BSLASH # r @ NUL # st'"
    using memmove_delete [OF assms(2)] by blast
  with assms(1) show ?thesis
    by (subst unescape_loop.simps) auto
qed

lemma unescape_step_plain:
  assumes "off < tot" and "c \<noteq> SQUOTE" and "c \<noteq> BSLASH"
  shows "unescape_loop junk tot (pre @ c # r) (length pre) off =
         unescape_loop junk tot ((pre @ [c]) @ r) (length (pre @ [c])) (off + 1)"
  using assms by (subst unescape_loop.simps) simp

lemma unescape_loop_stop: "tot \<le> off \<Longrightarrow> unescape_loop junk tot m p off = Some m"
  by (subst unescape_loop.simps) simp

text \<open>
  The loop on an escaped string with at most one quote still to come: \<open>pre\<close> is the part
  already unescaped, \<open>d\<close> the number of characters \<open>off\<close> is ahead of the input.
\<close>

lemma unescape_loop_escape:
  assumes "off + length (escape_write s) = tot + d"
    and "d + count_list s SQUOTE \<le> 1" and "cstring pre" and "cstring s"
  shows "\<exists>m. unescape_loop junk tot (pre @ escape_write s @ NUL # st) (length pre) off = Some m
             \<and> c_str m = pre @ s"
  using assms
proof (induction s arbitrary: pre off st d)
  case Nil
  then show ?case by (simp add: unescape_loop_stop c_str_append_NUL)
next
  case (Cons c s)
  show ?case
  proof (cases "off < tot")
    case False
    with Cons.prems have "length (escape_write (c # s)) \<le> 1" by linarith
    then have "s = []" "c \<noteq> SQUOTE" "c \<noteq> BSLASH"
      using length_escape_ge [of s] by (auto split: if_splits)
    with False Cons.prems show ?thesis
      using c_str_append_NUL [of "pre @ [c]" st] by (simp add: unescape_loop_stop)
  next
    case True
    consider "c = SQUOTE" | "c = BSLASH" | "c \<noteq> SQUOTE" "c \<noteq> BSLASH" by blast
    then show ?thesis
    proof cases
      case 1
      with Cons.prems have "length (escape_write s) + 1 \<le> tot - off" by auto
      from unescape_step_quote [OF True this, of junk pre st] obtain st' where
        "unescape_loop junk tot (pre @ escape_write (c # s) @ NUL # st) (length pre) off =
         unescape_loop junk tot ((pre @ [c]) @ escape_write s @ NUL # st') (length (pre @ [c])) (off + 2 + 1)"
        using 1 by auto
      with Cons.IH [of "off + 2 + 1" 1 "pre @ [c]" st'] Cons.prems 1 show ?thesis by simp
    next
      case 2
      with Cons.prems have "length (escape_write s) + 1 \<le> tot - off" by auto
      from unescape_step_bslash [OF True this, of junk pre st] obtain st' where
        "unescape_loop junk tot (pre @ escape_write (c # s) @ NUL # st) (length pre) off =
         unescape_loop junk tot ((pre @ [c]) @ escape_write s @ NUL # st') (length (pre @ [c])) (off + 2)"
        using 2 by auto
      with Cons.IH [of "off + 2" d "pre @ [c]" st'] Cons.prems 2 show ?thesis by simp
    next
      case 3
      with unescape_step_plain [OF True 3] Cons.IH [of "off + 1" d "pre @ [c]" st] Cons.prems
      show ?thesis by simp
    qed
  qed
qed

lemma unescape_escape_one_quote:
  assumes "cstring s" and "count_list s SQUOTE \<le> 1"
  shows "gda_default_unescape_string junk (gda_default_escape_string (Some s)) = Some s"
  using unescape_loop_escape [of 0 s "length (escape_write s)" 0 "[]" junk "[]"] assms
  by (auto simp: gda_default_unescape_string_def gda_default_escape_string_def)

interpretation sql_escape: codec
  "\<lambda>s. escape_write s" "\<lambda>t. gda_default_unescape_string junk (Some t)"
  "\<lambda>s. cstring s \<and> count_list s SQUOTE \<le> 1" for junk
  using unescape_escape_one_quote
  by unfold_locales (simp add: gda_default_escape_string_def)

section \<open>Names of parameters: the __gdaXX encoding\<close>

definition GDA_PARAM_ENCODE_TOKEN :: string where
  "GDA_PARAM_ENCODE_TOKEN = ''__gda''"

text \<open>
  \<open>g_string_append_printf (string, "%0x", *ptr)\<close>: the character is promoted to \<open>int\<close>, so a
  byte above 127 is negative and prints as eight digits; a byte below 16 prints as one digit.
\<close>

definition printf_x :: "char \<Rightarrow> string" where
  "printf_x c =
     (if 128 \<le> code c then ''ffffff'' @ hex2 (code c)
      else if code c < 16 then [hex_digit (code c)] else hex2 (code c))"

fun text_to_alphanum_loop :: "string \<Rightarrow> string" where
  "text_to_alphanum_loop [] = []"
| "text_to_alphanum_loop (c # cs) =
     (if \<not> g_ascii_isalnum c
      then GDA_PARAM_ENCODE_TOKEN @ printf_x c @ text_to_alphanum_loop cs
      else c # text_to_alphanum_loop cs)"

definition gda_text_to_alphanum :: "string option \<Rightarrow> string" where
  "gda_text_to_alphanum text = (case text of None \<Rightarrow> [] | Some s \<Rightarrow> text_to_alphanum_loop s)"

text \<open>
  The loop of \<open>gda_alphanum_to_text\<close>. \<open>len\<close> is the variable \<open>length\<close>, which the code
  decreases by \<open>toklength + 1\<close> for a token of \<open>toklength + 2\<close> bytes, so it gets ahead of what is
  left of the string; it is never less, so that \<open>memmove\<close> always moves the whole rest and its NUL.
\<close>

function alphanum_to_text_loop :: "int \<Rightarrow> string \<Rightarrow> string option" where
  "alphanum_to_text_loop len s =
     (if s = [] then Some []
      else if 7 \<le> len \<and> take 5 s = GDA_PARAM_ENCODE_TOKEN then
        (if is_lhex (cat s 5) then
           (if is_lhex (cat s 6) then
              map_option ((#) (char_of (hex_val (cat s 5) * 16 + hex_val (cat s 6))))
                (alphanum_to_text_loop (len - 6) (drop 7 s))
            else None)
         else None)
      else map_option ((#) (hd s)) (alphanum_to_text_loop (len - 1) (tl s)))"
  by pat_completeness auto
termination
  by (relation "measure (\<lambda>(len, s). length s)") auto

declare alphanum_to_text_loop.simps [simp del]

definition gda_alphanum_to_text :: "string \<Rightarrow> string option" where
  "gda_alphanum_to_text text =
     map_option c_str (alphanum_to_text_loop (int (length text)) text)"

lemma alphanum_step_plain:
  "g_ascii_isalnum c \<Longrightarrow>
   alphanum_to_text_loop len (c # s) = map_option ((#) c) (alphanum_to_text_loop (len - 1) s)"
  by (subst alphanum_to_text_loop.simps)
     (auto simp: GDA_PARAM_ENCODE_TOKEN_def char_defs)

lemma alphanum_step_token:
  assumes "7 \<le> len" and "x < 16" and "y < 16"
  shows "alphanum_to_text_loop len (GDA_PARAM_ENCODE_TOKEN @ hex_digit x # hex_digit y # s) =
         map_option ((#) (char_of (x * 16 + y))) (alphanum_to_text_loop (len - 6) s)"
  using assms
  by (subst alphanum_to_text_loop.simps)
     (simp add: GDA_PARAM_ENCODE_TOKEN_def cat_def lhex_hex_digit hex_val_hex_digit)

lemma alphanum_round_trip_loop:
  assumes "\<forall>c \<in> set s. 16 \<le> code c \<and> code c < 128"
    and "int (length (text_to_alphanum_loop s)) \<le> len"
  shows "alphanum_to_text_loop len (text_to_alphanum_loop s) = Some s"
  using assms
proof (induction s arbitrary: len)
  case Nil
  then show ?case by (subst alphanum_to_text_loop.simps) simp
next
  case (Cons c s)
  show ?case
  proof (cases "g_ascii_isalnum c")
    case True
    with Cons show ?thesis by (simp add: alphanum_step_plain)
  next
    case False
    have c: "code c div 16 < 16" "code c mod 16 < 16" by simp_all
    have "char_of (code c div 16 * 16 + code c mod 16) = c" by simp
    moreover have "alphanum_to_text_loop (len - 6) (text_to_alphanum_loop s) = Some s"
      using Cons.prems False by (intro Cons.IH) (auto simp: GDA_PARAM_ENCODE_TOKEN_def printf_x_def hex2_def)
    moreover have "7 \<le> len"
      using Cons.prems False by (auto simp: GDA_PARAM_ENCODE_TOKEN_def printf_x_def hex2_def)
    ultimately show ?thesis
      using Cons.prems(1) False alphanum_step_token [OF _ c, of len "text_to_alphanum_loop s"]
      by (simp add: printf_x_def hex2_def)
  qed
qed

lemma alphanum_round_trip:
  assumes "\<forall>c \<in> set s. 16 \<le> code c \<and> code c < 128"
  shows "gda_alphanum_to_text (gda_text_to_alphanum (Some s)) = Some s"
proof -
  from assms have "cstring s" by (auto simp: cstring_def code_def)
  with alphanum_round_trip_loop [OF assms order_refl] show ?thesis
    by (simp add: gda_alphanum_to_text_def gda_text_to_alphanum_def c_str_cstring)
qed

interpretation alphanum: codec
  "\<lambda>s. gda_text_to_alphanum (Some s)" gda_alphanum_to_text
  "\<lambda>s. \<forall>c \<in> set s. 16 \<le> code c \<and> code c < 128"
  using alphanum_round_trip by unfold_locales

lemma printf_x_alnum: "c \<in> set (printf_x d) \<Longrightarrow> g_ascii_isalnum c"
  by (auto simp: printf_x_def hex2_def alnum_hex_digit split: if_splits) (auto simp: char_defs)

lemma token_chars: "\<forall>c \<in> set GDA_PARAM_ENCODE_TOKEN. g_ascii_isalnum c \<or> c = CHR ''_''"
  by (simp add: GDA_PARAM_ENCODE_TOKEN_def char_defs)

lemma text_to_alphanum_identifier:
  "c \<in> set (text_to_alphanum_loop s) \<Longrightarrow> g_ascii_isalnum c \<or> c = CHR ''_''"
  using token_chars by (induction s) (auto dest: printf_x_alnum split: if_splits)

section \<open>RFC 1738\<close>

definition rfc1738_unsafe_chars :: string where
  "rfc1738_unsafe_chars =
     [CHR 0x3C, CHR 0x3E, CHR 0x22, CHR 0x23, CHR 0x25, CHR 0x7B, CHR 0x7D, CHR 0x7C, CHR 0x5C,
      CHR 0x5E, CHR 0x7E, CHR 0x5B, CHR 0x5D, CHR 0x60, CHR 0x27, CHR 0x20]"

definition rfc1738_reserved_chars :: string where
  "rfc1738_reserved_chars =
     [CHR 0x3B, CHR 0x2F, CHR 0x3F, CHR 0x3A, CHR 0x40, CHR 0x3D, CHR 0x26]"

definition rfc1738_enc :: "char \<Rightarrow> bool" where
  "rfc1738_enc c \<longleftrightarrow>
     c \<in> set rfc1738_reserved_chars \<or> c \<in> set rfc1738_unsafe_chars \<or>
     code c \<le> 31 \<or> code c = 127 \<or> 128 \<le> code c \<or> c = CHR ''=''"

fun rfc1738_encode_loop :: "string \<Rightarrow> string" where
  "rfc1738_encode_loop [] = []"
| "rfc1738_encode_loop (c # cs) =
     (if rfc1738_enc c then CHR ''%'' # hex2 (code c) @ rfc1738_encode_loop cs
      else c # rfc1738_encode_loop cs)"

definition gda_rfc1738_encode :: "string option \<Rightarrow> string option" where
  "gda_rfc1738_encode str = map_option rfc1738_encode_loop str"

text \<open>
  The loop of \<open>gda_rfc1738_decode\<close>, as a function from what \<open>rptr\<close> has still to read to what
  \<open>wptr\<close> writes (\<open>wptr\<close> never passes \<open>rptr\<close>, see \<open>rfc1738_decode_length\<close>). After a \<open>%\<close>
  that two hexadecimal digits do not follow, the \<open>%\<close> is copied and the scan goes on after it.
\<close>

function rfc1738_decode_loop :: "string \<Rightarrow> string" where
  "rfc1738_decode_loop s =
     (if s = [] then []
      else if hd s = CHR ''%'' then
        (if is_hex (cat s 1) \<and> is_hex (cat s 2)
         then char_of (hex_val (cat s 1) * 16 + hex_val (cat s 2)) # rfc1738_decode_loop (drop 3 s)
         else hd s # rfc1738_decode_loop (tl s))
      else hd s # rfc1738_decode_loop (tl s))"
  by pat_completeness auto
termination
  by (relation "measure length") auto

declare rfc1738_decode_loop.simps [simp del]

text \<open>The new contents of the string, and the return value.\<close>

definition gda_rfc1738_decode :: "string option \<Rightarrow> string option \<times> bool" where
  "gda_rfc1738_decode str =
     (case str of None \<Rightarrow> (None, True) | Some s \<Rightarrow> (Some (c_str (rfc1738_decode_loop s)), True))"

definition rfc1738_decoded :: "string \<Rightarrow> string" where
  "rfc1738_decoded s = c_str (rfc1738_decode_loop s)"

lemma gda_rfc1738_decode_simps [simp]:
  "gda_rfc1738_decode None = (None, True)"
  "gda_rfc1738_decode (Some s) = (Some (rfc1738_decoded s), True)"
  by (simp_all add: gda_rfc1738_decode_def rfc1738_decoded_def)

lemma rfc1738_decode_Nil [simp]: "rfc1738_decode_loop [] = []"
  by (subst rfc1738_decode_loop.simps) simp

lemma rfc1738_decode_plain: "c \<noteq> CHR ''%'' \<Longrightarrow> rfc1738_decode_loop (c # s) = c # rfc1738_decode_loop s"
  by (subst rfc1738_decode_loop.simps) simp

lemma rfc1738_decode_hex2:
  "rfc1738_decode_loop (CHR ''%'' # hex2 (code c) @ s) = c # rfc1738_decode_loop s"
  by (subst rfc1738_decode_loop.simps)
     (simp add: hex2_def cat_def hex_hex_digit hex_val_hex_digit)

lemma rfc1738_decode_encode_loop: "rfc1738_decode_loop (rfc1738_encode_loop s) = s"
  by (induction s)
     (auto simp: rfc1738_decode_hex2 rfc1738_decode_plain rfc1738_enc_def rfc1738_unsafe_chars_def)

lemma rfc1738_decoded_encode [simp]: "cstring s \<Longrightarrow> rfc1738_decoded (rfc1738_encode_loop s) = s"
  by (simp add: rfc1738_decoded_def rfc1738_decode_encode_loop c_str_cstring)

lemma rfc1738_decode_length: "length (rfc1738_decode_loop s) \<le> length s"
proof (induction s rule: rfc1738_decode_loop.induct)
  case (1 s)
  then show ?case
    by (subst rfc1738_decode_loop.simps) (cases s; auto simp: cat_def split: if_splits)
qed

lemma rfc1738_encode_length: "length (rfc1738_encode_loop s) \<le> 3 * length s"
  by (induction s) (auto simp: hex2_def)

lemma hex2_alnum: "c \<in> set (hex2 (code d)) \<Longrightarrow> g_ascii_isalnum c"
  by (auto simp: hex2_def alnum_hex_digit)

lemma special_not_alnum:
  "\<forall>c \<in> set rfc1738_reserved_chars \<union> set rfc1738_unsafe_chars. \<not> g_ascii_isalnum c"
  by (simp add: rfc1738_reserved_chars_def rfc1738_unsafe_chars_def char_defs)

lemma alnum_code: "g_ascii_isalnum c \<Longrightarrow> 48 \<le> code c \<and> code c \<le> 122"
  by (auto simp: g_ascii_isalnum_def is_digit_def is_lower_def is_upper_def)

lemma alnum_not_enc: "g_ascii_isalnum c \<Longrightarrow> \<not> rfc1738_enc c"
  using special_not_alnum alnum_code [of c]
  by (auto simp: rfc1738_enc_def rfc1738_reserved_chars_def)

lemma rfc1738_encode_safe:
  "c \<in> set (rfc1738_encode_loop s) \<Longrightarrow> c = CHR ''%'' \<or> \<not> rfc1738_enc c"
  by (induction s) (auto dest: hex2_alnum alnum_not_enc split: if_splits)

text \<open>Encoded strings can be joined with any encoded character except \<open>%\<close>.\<close>

interpretation rfc1738: separated_codec
  rfc1738_encode_loop "\<lambda>t. fst (gda_rfc1738_decode (Some t))" cstring
  "\<lambda>c. rfc1738_enc c \<and> c \<noteq> CHR ''%''"
proof unfold_locales
  fix s :: string assume "cstring s"
  then show "fst (gda_rfc1738_decode (Some (rfc1738_encode_loop s))) = Some s" by simp
next
  fix s :: string and c assume "c \<in> set (rfc1738_encode_loop s)"
  then show "\<not> (rfc1738_enc c \<and> c \<noteq> CHR ''%'')" using rfc1738_encode_safe by blast
qed

section \<open>Properties\<close>






text \<open>
  Remark: \<open>gda_default_unescape_string\<close> undoes \<open>gda_default_escape_string\<close> on every C string with at
  most one quote (any number of backslashes), whatever the memory after the copy holds.
\<close>

theorem unescape_escape_round_trip:
  assumes "cstring s" and "count_list s SQUOTE \<le> 1"
  shows "gda_default_unescape_string junk (gda_default_escape_string (Some s)) = Some s"
  using assms sql_escape.dec_enc by (simp add: gda_default_escape_string_def)

theorem unescape_escape_round_trip_witness:
  "gda_default_unescape_string (\<lambda>_. CHR ''?'') (gda_default_escape_string (Some [CHR ''a'', SQUOTE, BSLASH]))
   = Some [CHR ''a'', SQUOTE, BSLASH]"
  by (rule unescape_escape_round_trip) simp_all

text \<open>
  Remark: with three quotes the two functions are not inverse: the offset of the unescaping loop runs
  ahead by one for each doubled quote, so its \<open>memmove\<close> leaves the NUL behind and the last byte is
  duplicated.
\<close>

theorem unescape_escape_drift:
  "gda_default_unescape_string junk (gda_default_escape_string
     (Some [SQUOTE, CHR ''a'', SQUOTE, CHR ''b'', SQUOTE, CHR ''c'']))
   = Some [SQUOTE, CHR ''a'', SQUOTE, CHR ''b'', SQUOTE, CHR ''c'', CHR ''c'']"
  by code_simp

text \<open>
  Remark: the first \<open>memmove\<close> of the unescaping loop copies one byte from behind the allocated block
  into it: after unescaping a doubled quote, the last byte of the block is the byte at index 3 of a
  block of 3 bytes.
\<close>

theorem unescape_reads_past_block:
  "unescape_loop junk 2 (escape_write [SQUOTE] @ [NUL]) 0 0 = Some [SQUOTE, NUL, junk 3]"
  by code_simp

text \<open>
  Remark: \<open>gda_alphanum_to_text\<close> undoes \<open>gda_text_to_alphanum\<close> on text whose bytes are in the range 16
  to 127, and the encoded text is made of letters, digits and underscores only.
\<close>

theorem alphanum_encoding:
  assumes "\<forall>c \<in> set s. 16 \<le> code c \<and> code c < 128"
  shows "gda_alphanum_to_text (gda_text_to_alphanum (Some s)) = Some s \<and>
         (\<forall>c \<in> set (gda_text_to_alphanum (Some s)). g_ascii_isalnum c \<or> c = CHR ''_'')"
  using alphanum.dec_enc [OF assms] text_to_alphanum_identifier
  by (auto simp: gda_text_to_alphanum_def)

theorem alphanum_encoding_witness:
  "gda_alphanum_to_text (gda_text_to_alphanum (Some ''a b_c'')) = Some ''a b_c''"
  using alphanum_encoding [of "''a b_c''"] by (simp add: code_def)

text \<open>
  Remark: outside that range the encoding is not inverted: a tab prints as one hexadecimal digit and the
  text is left encoded; a byte above 127 prints sign extended and decodes to 255 followed by the
  remaining digits.
\<close>

theorem alphanum_encoding_limits:
  "gda_alphanum_to_text (gda_text_to_alphanum (Some [CHR 0x09])) = Some ''__gda9'' \<and>
   gda_alphanum_to_text (gda_text_to_alphanum (Some [CHR 0xE9])) = Some (CHR 0xFF # ''ffffe9'')"
  by code_simp

text \<open>
  Remark: RFC 1738 encoding loses nothing: decoding an encoded C string gives it back, for every byte
  value; the encoded string holds no character the RFC reserves or calls unsafe except \<open>%\<close>, fits the
  \<open>3 * strlen + 1\<close> bytes allocated for it, and decoding in place never writes past what it has read.
\<close>

theorem rfc1738_round_trip:
  assumes "cstring s"
  shows "\<exists>t. gda_rfc1738_encode (Some s) = Some t \<and> fst (gda_rfc1738_decode (Some t)) = Some s
           \<and> (\<forall>c \<in> set t. c = CHR ''%'' \<or> \<not> rfc1738_enc c)
           \<and> length t + 1 \<le> 3 * length s + 1 \<and> (\<forall>u. length (rfc1738_decode_loop u) \<le> length u)"
  using assms rfc1738.dec_enc [OF assms] rfc1738_encode_safe rfc1738_encode_length rfc1738_decode_length
  by (auto simp: gda_rfc1738_encode_def)

theorem rfc1738_round_trip_witness:
  "\<exists>t. gda_rfc1738_encode (Some ''a=b;%'') = Some t \<and> fst (gda_rfc1738_decode (Some t)) = Some ''a=b;%''"
  using rfc1738_round_trip [of "''a=b;%''"] by auto

end
