(* ===== verification/Gda_Binary.thy ===== *)
theory Gda_Binary
  imports Gda_Prelude
begin

text \<open>
  The textual form of binary values, \<open>libgda/gda-value.c\<close>: \<open>gda_binary_to_string\<close> prints the
  bytes that are not printable as \<open>\xyz\<close> (octal), \<open>gda_string_to_binary\<close> reads that form back,
  and the blob versions add a fetch through the blob's operations.
\<close>

section \<open>Data\<close>

text \<open>\<open>GdaBinary\<close>: the \<open>data\<close> pointer (with the bytes it points to) and \<open>binary_length\<close>.\<close>

record gda_binary =
  bin_data :: "char list option"
  binary_length :: nat

text \<open>The pointer has at least the announced number of bytes behind it.\<close>

definition binary_wf :: "gda_binary \<Rightarrow> bool" where
  "binary_wf b \<longleftrightarrow> (case bin_data b of None \<Rightarrow> True | Some d \<Rightarrow> binary_length b \<le> length d)"

definition binary_bytes :: "gda_binary \<Rightarrow> char list" where
  "binary_bytes b = (case bin_data b of None \<Rightarrow> [] | Some d \<Rightarrow> take (binary_length b) d)"

definition MYMIN :: "nat \<Rightarrow> nat \<Rightarrow> nat" where
  "MYMIN a b = (if 0 < b then (if a < b then a else b) else a)"

section \<open>Printing\<close>

definition byte_kept :: "char \<Rightarrow> bool" where
  "byte_kept c \<longleftrightarrow> c = CHR 0x0A \<or> (c \<noteq> BSLASH \<and> g_ascii_isprint c)"

text \<open>The first loop counts the bytes to rewrite, which gives the size of the allocation.\<close>

fun nb_rewrites :: "char list \<Rightarrow> nat" where
  "nb_rewrites [] = 0"
| "nb_rewrites (c # cs) =
     (if c \<noteq> CHR 0x0A \<and> (c = BSLASH \<or> \<not> g_ascii_isprint c) then 1 else 0) + nb_rewrites cs"

definition octal3 :: "nat \<Rightarrow> string" where
  "octal3 v = [char_of (v div 64 + 48), char_of (v mod 64 div 8 + 48), char_of (v mod 64 mod 8 + 48)]"

fun binary_write :: "char list \<Rightarrow> string" where
  "binary_write [] = []"
| "binary_write (c # cs) =
     (if byte_kept c then c # binary_write cs
      else if c = BSLASH then BSLASH # BSLASH # binary_write cs
      else BSLASH # octal3 (code c) @ binary_write cs)"

definition gda_binary_to_string :: "gda_binary \<Rightarrow> nat \<Rightarrow> string" where
  "gda_binary_to_string b maxlen =
     (case bin_data b of
        None \<Rightarrow> []
      | Some d \<Rightarrow>
          if binary_length b = 0 then []
          else binary_write (take (MYMIN (binary_length b) maxlen) d))"

definition binary_alloc :: "gda_binary \<Rightarrow> nat \<Rightarrow> nat" where
  "binary_alloc b maxlen =
     (let realsize = MYMIN (binary_length b) maxlen in
      realsize + nb_rewrites (case bin_data b of None \<Rightarrow> [] | Some d \<Rightarrow> take realsize d) * 4 + 1)"

section \<open>Reading\<close>

definition is_octal :: "char \<Rightarrow> bool" where
  [char_defs]: "is_octal c \<longleftrightarrow> 48 \<le> code c \<and> code c \<le> 55"

function string_to_binary_loop :: "string \<Rightarrow> char list option" where
  "string_to_binary_loop s =
     (if s = [] then Some []
      else if hd s = BSLASH then
        (if cat s 1 = BSLASH then map_option ((#) BSLASH) (string_to_binary_loop (drop 2 s))
         else if is_octal (cat s 1) \<and> is_octal (cat s 2) \<and> is_octal (cat s 3) then
           map_option ((#) (char_of ((digit_val (cat s 1) * 64 + digit_val (cat s 2) * 8
                                       + digit_val (cat s 3)) mod 256)))
             (string_to_binary_loop (drop 4 s))
         else None)
      else map_option ((#) (hd s)) (string_to_binary_loop (tl s)))"
  by pat_completeness auto
termination
  by (relation "measure length") auto

declare string_to_binary_loop.simps [simp del]

definition gda_string_to_binary :: "string option \<Rightarrow> gda_binary option" where
  "gda_string_to_binary str =
     (case str of
        None \<Rightarrow> Some \<lparr>bin_data = None, binary_length = 0\<rparr>
      | Some s \<Rightarrow>
          (case string_to_binary_loop s of
             None \<Rightarrow> None
           | Some d \<Rightarrow>
               Some \<lparr>bin_data = Some (d @ replicate (length s + 1 - length d) NUL),
                     binary_length = length d\<rparr>))"

text \<open>
  A blob is a binary and the operations (\<open>op\<close>) that fetch its contents from the database;
  \<open>gda_blob_op_read\<close> belongs to the provider, so what it makes of the binary is a parameter.
\<close>

record 'op gda_blob = gda_binary +
  blob_op :: "'op option"

definition gda_blob_to_string ::
    "('op \<Rightarrow> 'op gda_blob \<Rightarrow> nat \<Rightarrow> nat \<Rightarrow> 'op gda_blob) \<Rightarrow> 'op gda_blob \<Rightarrow> nat \<Rightarrow> 'op gda_blob \<times> string" where
  "gda_blob_to_string op_read blob maxlen =
     (let blob' = (case (bin_data blob, blob_op blob) of
                     (None, Some op) \<Rightarrow> op_read op blob 0 40
                   | _ \<Rightarrow> blob)
      in (blob', gda_binary_to_string (gda_binary.truncate blob') maxlen))"

definition gda_string_to_blob :: "string option \<Rightarrow> 'op gda_blob option" where
  "gda_string_to_blob str =
     map_option (\<lambda>b. gda_binary.extend b \<lparr>blob_op = None\<rparr>) (gda_string_to_binary str)"

section \<open>Lemmas\<close>

lemma read_Nil [simp]: "string_to_binary_loop [] = Some []"
  by (subst string_to_binary_loop.simps) simp

lemma read_plain: "c \<noteq> BSLASH \<Longrightarrow> string_to_binary_loop (c # s) = map_option ((#) c) (string_to_binary_loop s)"
  by (subst string_to_binary_loop.simps) simp

lemma read_bslash: "string_to_binary_loop (BSLASH # BSLASH # s) = map_option ((#) BSLASH) (string_to_binary_loop s)"
  by (subst string_to_binary_loop.simps) (simp add: cat_def)

lemma octal_value: "v div 64 * 64 + v mod 64 div 8 * 8 + v mod 64 mod 8 = (v :: nat)"
  by (metis div_mult_mod_eq add.assoc)

lemma read_octal:
  "string_to_binary_loop (BSLASH # octal3 (code c) @ s) = map_option ((#) c) (string_to_binary_loop s)"
proof -
  have "code c div 64 < 4" using code_less [of c] by linarith
  then have d: "code (char_of (code c div 64 + 48)) = code c div 64 + 48" by simp
  have "code c mod 64 div 8 < 8" by linarith
  then have e: "code (char_of (code c mod 64 div 8 + 48)) = code c mod 64 div 8 + 48" by simp
  have f: "code (char_of (code c mod 64 mod 8 + 48)) = code c mod 64 mod 8 + 48" by simp
  have g: "code c mod 64 mod 8 \<le> 7"
    using mod_less_divisor [of 8 "code c mod 64"] by linarith
  have "char_of (code c div 64 + 48) \<noteq> BSLASH"
  proof
    assume "char_of (code c div 64 + 48) = BSLASH"
    with d have "code c div 64 + 48 = code BSLASH" by simp
    with \<open>code c div 64 < 4\<close> show False by (simp add: code_def)
  qed
  then show ?thesis
    using d e f \<open>code c div 64 < 4\<close> \<open>code c mod 64 div 8 < 8\<close> g octal_value [of "code c"]
    by (subst string_to_binary_loop.simps)
       (simp add: octal3_def cat_def is_octal_def digit_val_def numeral_3_eq_3 numeral_2_eq_2)
qed

lemma read_write: "string_to_binary_loop (binary_write d) = Some d"
  by (induction d) (auto simp: read_plain read_bslash read_octal byte_kept_def)

lemma octal3_printable: "c \<in> set (octal3 (code d)) \<Longrightarrow> g_ascii_isprint c"
proof -
  assume c: "c \<in> set (octal3 (code d))"
  have "code d div 64 < 4" using code_less [of d] by linarith
  moreover have "code d mod 64 div 8 < 8" by linarith
  moreover have "code d mod 64 mod 8 < 8" by simp
  ultimately show ?thesis using c by (auto simp: octal3_def g_ascii_isprint_def)
qed

lemma bslash_printable: "g_ascii_isprint BSLASH"
  by (simp add: char_defs)

lemma write_printable: "c \<in> set (binary_write d) \<Longrightarrow> g_ascii_isprint c \<or> c = CHR 0x0A"
  by (induction d)
     (auto simp: byte_kept_def bslash_printable dest: octal3_printable split: if_splits)

lemma write_length: "length (binary_write d) \<le> length d + nb_rewrites d * 4"
  by (induction d) (auto simp: byte_kept_def octal3_def)

lemma binary_to_string_eq:
  "binary_wf b \<Longrightarrow>
   gda_binary_to_string b maxlen = binary_write (take (MYMIN (binary_length b) maxlen) (binary_bytes b))"
  by (auto simp: gda_binary_to_string_def binary_bytes_def binary_wf_def MYMIN_def min_def
           split: option.splits)

lemma string_to_binary_bytes:
  "string_to_binary_loop s = Some d \<Longrightarrow>
   \<exists>b. gda_string_to_binary (Some s) = Some b \<and> binary_bytes b = d \<and> binary_wf b"
  by (auto simp: gda_string_to_binary_def binary_bytes_def binary_wf_def)

lemma read_write_bytes: "map_option binary_bytes (gda_string_to_binary (Some (binary_write d))) = Some d"
  using string_to_binary_bytes [OF read_write [of d]] by auto

interpretation binary: codec
  "\<lambda>d. gda_binary_to_string \<lparr>bin_data = Some d, binary_length = length d\<rparr> 0"
  "\<lambda>s. map_option binary_bytes (gda_string_to_binary (Some s))" "\<lambda>_. True"
proof unfold_locales
  fix d :: string
  show "map_option binary_bytes (gda_string_to_binary (Some
          (gda_binary_to_string \<lparr>bin_data = Some d, binary_length = length d\<rparr> 0))) = Some d"
    using read_write_bytes [of d]
    by (cases d) (simp_all add: gda_binary_to_string_def MYMIN_def del: map_option_eq_Some)
qed

section \<open>Properties\<close>

text \<open>
  C10: the textual form of a binary value loses nothing: read back with
  \<open>gda_string_to_binary\<close> it gives exactly the bytes printed, all of them without a
  maximum length and the first \<open>maxlen\<close> of them otherwise, for every byte value including NUL.
\<close>

theorem binary_string_round_trip:
  assumes "binary_wf b"
  shows "map_option binary_bytes (gda_string_to_binary (Some (gda_binary_to_string b maxlen))) =
         Some (if maxlen = 0 then binary_bytes b else take maxlen (binary_bytes b))"
proof -
  let ?d = "take (MYMIN (binary_length b) maxlen) (binary_bytes b)"
  have "length (binary_bytes b) \<le> binary_length b"
    by (simp add: binary_bytes_def split: option.splits)
  then have "?d = (if maxlen = 0 then binary_bytes b else take maxlen (binary_bytes b))"
    by (simp add: MYMIN_def)
  moreover have "gda_binary_to_string b maxlen = binary_write ?d"
    using assms by (rule binary_to_string_eq)
  ultimately show ?thesis using read_write_bytes [of ?d] by presburger
qed

theorem binary_string_round_trip_witness:
  "map_option binary_bytes (gda_string_to_binary (Some (gda_binary_to_string
     \<lparr>bin_data = Some [CHR 0x00, CHR ''a'', BSLASH, CHR 0xFF], binary_length = 4\<rparr> 3))) =
   Some (if (3::nat) = 0 then binary_bytes \<lparr>bin_data = Some [CHR 0x00, CHR ''a'', BSLASH, CHR 0xFF], binary_length = 4\<rparr>
         else take 3 (binary_bytes \<lparr>bin_data = Some [CHR 0x00, CHR ''a'', BSLASH, CHR 0xFF], binary_length = 4\<rparr>))"
  by (rule binary_string_round_trip) (simp add: binary_wf_def)

text \<open>
  Remark: what \<open>gda_binary_to_string\<close> prints is readable and fits: every byte of the result is a printable
  ASCII character or a newline, there is no NUL in it, and with its final NUL it never exceeds the
  size allocated from the count of rewrites.
\<close>

theorem binary_to_string_printable:
  assumes "binary_wf b"
  shows "(\<forall>c \<in> set (gda_binary_to_string b maxlen). g_ascii_isprint c \<or> c = CHR 0x0A) \<and>
         cstring (gda_binary_to_string b maxlen) \<and>
         length (gda_binary_to_string b maxlen) + 1 \<le> binary_alloc b maxlen"
proof -
  let ?r = "MYMIN (binary_length b) maxlen"
  have p: "\<forall>c \<in> set (gda_binary_to_string b maxlen). g_ascii_isprint c \<or> c = CHR 0x0A"
    using assms write_printable by (auto simp: binary_to_string_eq)
  then have "cstring (gda_binary_to_string b maxlen)"
    by (auto simp: cstring_def g_ascii_isprint_def code_def)
  moreover have "length (gda_binary_to_string b maxlen) + 1 \<le> binary_alloc b maxlen"
    using write_length [of "take ?r (the (bin_data b))"]
    by (auto simp: gda_binary_to_string_def binary_alloc_def Let_def split: option.splits)
  ultimately show ?thesis using p by blast
qed

theorem binary_to_string_printable_witness:
  "cstring (gda_binary_to_string \<lparr>bin_data = Some [CHR 0x00], binary_length = 1\<rparr> 0) \<and>
   length (gda_binary_to_string \<lparr>bin_data = Some [CHR 0x00], binary_length = 1\<rparr> 0) + 1
     \<le> binary_alloc \<lparr>bin_data = Some [CHR 0x00], binary_length = 1\<rparr> 0"
  using binary_to_string_printable [of "\<lparr>bin_data = Some [CHR 0x00], binary_length = 1\<rparr>" 0]
  by (simp add: binary_wf_def)

end
