(* ===== verification/Gda_Identifier.thy ===== *)
theory Gda_Identifier
  imports Gda_Prelude
begin

text \<open>
  SQL identifiers: hashing and comparing them (\<open>gda_identifier_hash\<close>,
  \<open>gda_identifier_equal\<close>), removing and adding quotes (\<open>_remove_quotes\<close>,
  \<open>gda_sql_identifier_force_quotes\<close>, \<open>gda_sql_identifier_prepare_for_compare\<close>,
  \<open>gda_sql_identifier_quote\<close>) and splitting dotted identifiers
  (\<open>_split_identifier_string\<close>, \<open>gda_sql_identifier_split\<close>). The sources are
  \<open>libgda/gda-util.c\<close> and \<open>libgda/sql-parser/gda-statement-struct-util.c\<close>. The keyword test
  (\<open>is_keyword\<close>, generated at build time), the provider's own quoting and \<open>g_ascii_strtod\<close> are
  parameters.
\<close>

section \<open>Hash and equality\<close>









section \<open>Quotes\<close>

text \<open>
  The loop of \<open>_remove_quotes\<close>, in place on the caller's block; an ill-formed string is cut to the
  empty string (\<open>*str = 0\<close>).
\<close>

function remove_quotes_loop ::
    "(nat \<Rightarrow> char) \<Rightarrow> char \<Rightarrow> nat \<Rightarrow> char list \<Rightarrow> nat \<Rightarrow> nat \<Rightarrow> char list" where
  "remove_quotes_loop junk delim tot m p off =
     (if off < tot then
        (let c = mem_at junk m p; d = mem_at junk m (p + 1);
             next = (\<lambda>m. memmove junk m (p + 1) (p + 2) (tot - off))
         in if c = delim then
              (if d = delim then remove_quotes_loop junk delim tot (next m) (p + 1) (off + 2)
               else m[0 := NUL])
            else if c = DQUOTE then
              (if d = DQUOTE then remove_quotes_loop junk delim tot (next m) (p + 1) (off + 2)
               else m[0 := NUL])
            else if c = BSLASH then
              (if d = BSLASH then remove_quotes_loop junk delim tot (next m) (p + 1) (off + 2)
               else if d = delim then
                 remove_quotes_loop junk delim tot (next (m[p := delim])) (p + 1) (off + 2)
               else m[0 := NUL])
            else remove_quotes_loop junk delim tot m (p + 1) (off + 1))
      else m)"
  by pat_completeness auto
termination
  by (relation "measure (\<lambda>(junk, delim, tot, m, p, off). tot - off)") auto

declare remove_quotes_loop.simps [simp del]

text \<open>
  On a string that is one quote character the first \<open>memmove\<close> is called with the count
  \<open>total - 2\<close>, that is -1.
\<close>

definition remove_quotes :: "(nat \<Rightarrow> char) \<Rightarrow> string \<Rightarrow> string outcome" where
  "remove_quotes junk str =
     (if str = [] \<or> (hd str \<noteq> SQUOTE \<and> hd str \<noteq> DQUOTE) then Returns str
      else
        (let delim = hd str; total = length str; m = str @ [NUL] in
         if str ! (total - 1) = delim then
           (if total < 2 then Undefined
            else let tot = total - 2;
                     m' = (memmove junk m 0 1 tot)[tot := NUL]
                 in Returns (c_str (remove_quotes_loop junk delim tot m' 0 0)))
         else let tot = total - 1;
                  m' = (memmove junk m 0 1 tot)[tot := NUL]
              in Returns (c_str (remove_quotes_loop junk delim tot m' 0 0))))"

fun force_quotes_loop :: "string \<Rightarrow> string" where
  "force_quotes_loop [] = []"
| "force_quotes_loop (c # cs) =
     (if c = DQUOTE then DQUOTE # c # force_quotes_loop cs else c # force_quotes_loop cs)"

definition gda_sql_identifier_force_quotes :: "string option \<Rightarrow> string option" where
  "gda_sql_identifier_force_quotes str =
     map_option (\<lambda>s. DQUOTE # force_quotes_loop s @ [DQUOTE]) str"

definition gda_sql_identifier_prepare_for_compare ::
    "(nat \<Rightarrow> char) \<Rightarrow> string option \<Rightarrow> string option outcome" where
  "gda_sql_identifier_prepare_for_compare junk str =
     (case str of
        None \<Rightarrow> Returns None
      | Some s \<Rightarrow>
          if s \<noteq> [] \<and> (hd s = DQUOTE \<or> hd s = SQUOTE)
          then bind_outcome (remove_quotes junk s) (\<lambda>r. Returns (Some r))
          else Returns (Some (map g_ascii_tolower s)))"

fun needs_quotes_loop :: "bool \<Rightarrow> string \<Rightarrow> bool" where
  "needs_quotes_loop first [] = False"
| "needs_quotes_loop first (c # cs) =
     (if is_digit c then (if first then True else needs_quotes_loop False cs)
      else if is_upper c \<or> is_lower c then needs_quotes_loop False cs
      else if c \<noteq> CHR ''$'' \<and> c \<noteq> CHR ''_'' \<and> c \<noteq> CHR ''#'' then True
      else needs_quotes_loop False cs)"

definition sql_identifier_needs_quotes :: "string \<Rightarrow> bool" where
  "sql_identifier_needs_quotes str = needs_quotes_loop True str"

section \<open>Quoting for SQL and for the meta store\<close>

text \<open>A character the meta store keeps without quotes; \<open>first\<close> is \<open>ptr == tmp\<close>.\<close>

definition meta_plain :: "bool \<Rightarrow> char \<Rightarrow> bool" where
  "meta_plain first c \<longleftrightarrow> is_lower c \<or> (is_digit c \<and> \<not> first) \<or> c = CHR ''_''"

fun all_meta_plain :: "bool \<Rightarrow> string \<Rightarrow> bool" where
  "all_meta_plain first [] = True"
| "all_meta_plain first (c # cs) = (meta_plain first c \<and> all_meta_plain False cs)"

text \<open>
  The loop over an identifier that was not quoted: capitals become lower case in place, a digit
  at the start makes the whole identifier quoted (nothing was changed before it).
\<close>

definition meta_unquoted :: "string \<Rightarrow> string" where
  "meta_unquoted tmp =
     (if tmp \<noteq> [] \<and> is_digit (hd tmp) then the (gda_sql_identifier_force_quotes (Some tmp))
      else map g_ascii_tolower tmp)"

text \<open>
  \<open>gda_sql_identifier_quote\<close>. \<open>prov_quote\<close> is the provider's \<open>identifier_quote\<close> with its connection,
  \<open>None\<close> when there is no provider or the provider has no such function.
\<close>

definition gda_sql_identifier_quote ::
    "(nat \<Rightarrow> char) \<Rightarrow> (string \<Rightarrow> bool) \<Rightarrow> (string \<Rightarrow> bool \<Rightarrow> bool \<Rightarrow> string option) option
     \<Rightarrow> string \<Rightarrow> bool \<Rightarrow> bool \<Rightarrow> string option outcome" where
  "gda_sql_identifier_quote junk is_keyword prov_quote ident for_meta_store force_quotes =
     (if ident = [] then Returns None
      else if ident = ''*'' then Returns (Some ident)
      else
        (case prov_quote of
           Some quote \<Rightarrow> Returns (quote ident for_meta_store force_quotes)
         | None \<Rightarrow>
             if for_meta_store then
               bind_outcome (remove_quotes junk ident) (\<lambda>tmp.
                 if is_keyword tmp then Returns (gda_sql_identifier_force_quotes (Some tmp))
                 else if force_quotes then
                   (if all_meta_plain True tmp then Returns (Some tmp)
                    else Returns (gda_sql_identifier_force_quotes (Some tmp)))
                 else if hd ident = DQUOTE then
                   (if all_meta_plain True tmp then Returns (Some tmp)
                    else Returns (gda_sql_identifier_force_quotes (Some tmp)))
                 else Returns (Some (meta_unquoted tmp)))
             else if hd ident = DQUOTE then Returns (Some ident)
             else if is_keyword ident \<or> sql_identifier_needs_quotes ident \<or> force_quotes
             then Returns (gda_sql_identifier_force_quotes (Some ident))
             else Returns (Some ident)))"

section \<open>Dotted identifiers\<close>

definition ascii_id_char :: "nat \<Rightarrow> bool" where
  "ascii_id_char n \<longleftrightarrow> n = 36 \<or> (48 \<le> n \<and> n \<le> 57) \<or> (65 \<le> n \<and> n \<le> 90) \<or> n = 95 \<or> (97 \<le> n \<and> n \<le> 122)"

definition IdChar :: "char \<Rightarrow> bool" where
  "IdChar c \<longleftrightarrow> 128 \<le> code c \<or> (31 < code c \<and> ascii_id_char (code c))"

text \<open>The scan of \<open>_string_is_identifier\<close>: whether it reaches the end of the string.\<close>

fun ident_scan :: "string \<Rightarrow> bool" where
  "ident_scan [] = True"
| "ident_scan [c] =
     (IdChar c \<or> c = CHR ''*'' \<or> c = CHR ''.'' \<or> c = CHR ''-'' \<or> c = DQUOTE \<or> c = CHR 0x60)"
| "ident_scan (c # d # r) =
     (if c = DQUOTE \<and> d = DQUOTE then ident_scan r
      else if IdChar c \<or> c = CHR ''*'' \<or> c = CHR ''.'' \<or> c = CHR ''-'' then ident_scan (d # r)
      else False)"

text \<open>\<open>is_number s\<close>: \<open>g_ascii_strtod\<close> reads the whole of \<open>s\<close>.\<close>

definition string_is_identifier :: "(string \<Rightarrow> bool) \<Rightarrow> string \<Rightarrow> bool" where
  "string_is_identifier is_number str =
     (if str = [] then False
      else if \<not> ident_scan (if hd str = DQUOTE \<or> hd str = CHR 0x60 then tl str else str) then False
      else if (hd str = DQUOTE \<and> last str = DQUOTE) \<or> (hd str = CHR 0x60 \<and> last str = CHR 0x60) then True
      else \<not> is_number str)"

text \<open>
  The scan from the last character to the first: the second argument is what is left to read, last
  character first, the third what was passed. The result is the text before and after the dot.
\<close>

function split_scan :: "bool \<Rightarrow> string \<Rightarrow> string \<Rightarrow> (string \<times> string) option" where
  "split_scan inq [] suf = None"
| "split_scan inq (c # pre) suf =
     (if c = DQUOTE then
        (if pre \<noteq> [] \<and> hd pre = DQUOTE then split_scan inq (tl pre) (DQUOTE # DQUOTE # suf)
         else split_scan (\<not> inq) pre (c # suf))
      else if c = CHR ''.'' \<and> \<not> inq then Some (rev pre, suf)
      else split_scan inq pre (c # suf))"
  by pat_completeness auto
termination
  by (relation "measure (\<lambda>(inq, pre, suf). length pre)") auto

text \<open>The result: the boolean returned, \<open>*remain\<close> and \<open>*last\<close>.\<close>

definition split_identifier_string ::
    "(string \<Rightarrow> bool) \<Rightarrow> string \<Rightarrow> bool \<times> string option \<times> string option" where
  "split_identifier_string is_number str =
     (let s = g_strchomp str; len = int (length s) - 1; l = nat len in
      if s = [] then (False, None, None)
      else if 1 < len \<and> ((s ! l = DQUOTE \<and> s ! (l - 1) = CHR ''.'') \<or> s ! l = CHR ''.'')
      then (False, None, None)
      else if (cat s 0 = DQUOTE \<and> cat s 1 = CHR ''.'') \<or> cat s 0 = CHR ''.''
      then (False, None, None)
      else
        (let (remain, lst) = (case split_scan False (rev s) [] of
                                Some (r, l) \<Rightarrow> (Some r, l) | None \<Rightarrow> (None, s))
         in if string_is_identifier is_number lst then (True, remain, Some lst)
            else (False, None, None)))"

lemma split_scan_shorter: "split_scan inq pre suf = Some (r, l) \<Longrightarrow> length r < length pre"
  by (induction inq pre suf rule: split_scan.induct) (auto split: if_splits)

lemma split_remain_shorter:
  "split_identifier_string is_number str = (b, Some r, l) \<Longrightarrow> length r < length str"
  using g_strchomp_length [of str]
  by (auto simp: split_identifier_string_def Let_def dest!: split_scan_shorter
           split: if_splits option.splits prod.splits)

text \<open>
  The loop of \<open>gda_sql_identifier_split\<close>: \<open>arr\<close> is the array so far, parts are prepended.
\<close>

function identifier_split_loop :: "(string \<Rightarrow> bool) \<Rightarrow> string option \<Rightarrow> string list \<Rightarrow> string list" where
  "identifier_split_loop is_number None arr = arr"
| "identifier_split_loop is_number (Some copy) arr =
     (case split_identifier_string is_number copy of
        (True, remain, Some l) \<Rightarrow> identifier_split_loop is_number remain (l # arr)
      | (_, remain, _) \<Rightarrow> identifier_split_loop is_number remain arr)"
  by pat_completeness auto
termination
  by (relation "measure (\<lambda>(n, copy, arr). case copy of None \<Rightarrow> 0 | Some s \<Rightarrow> Suc (length s))")
     (auto split: option.splits dest: split_remain_shorter [OF sym])

definition gda_sql_identifier_split :: "(string \<Rightarrow> bool) \<Rightarrow> string \<Rightarrow> string list option" where
  "gda_sql_identifier_split is_number ident =
     (if ident = [] then None
      else (case identifier_split_loop is_number (Some ident) [] of
              [] \<Rightarrow> None | arr \<Rightarrow> Some arr))"

section \<open>Lemmas on hash and equality\<close>




lemma tolower_DQUOTE [simp]: "g_ascii_tolower c = DQUOTE \<longleftrightarrow> c = DQUOTE"
proof
  assume l: "g_ascii_tolower c = DQUOTE"
  show "c = DQUOTE"
  proof (cases "is_upper c")
    case True
    then have "code (g_ascii_tolower c) = code c + 32" "65 \<le> code c"
      by (auto simp: g_ascii_tolower_def is_upper_def)
    with l show ?thesis by (simp add: code_def)
  next
    case False
    with l show ?thesis by (simp add: g_ascii_tolower_def)
  qed
qed (simp add: char_defs)

lemma tolower_DQUOTE' [simp]: "DQUOTE = g_ascii_tolower c \<longleftrightarrow> c = DQUOTE"
  using tolower_DQUOTE [of c] by metis




definition keyed :: "bool \<Rightarrow> string \<Rightarrow> string" where
  "keyed dq s = (if dq then s else map g_ascii_tolower s)"


lemma keyed_Nil [simp]: "keyed dq [] = []" "keyed dq s = [] \<longleftrightarrow> s = []"
  by (simp_all add: keyed_def)




section \<open>Lemmas on quotes\<close>

text \<open>What \<open>_remove_quotes\<close> computes, on the text between the quotes.\<close>

fun unquote_body :: "char \<Rightarrow> string \<Rightarrow> string option" where
  "unquote_body delim [] = Some []"
| "unquote_body delim [c] =
     (if c = delim \<or> c = DQUOTE \<or> c = BSLASH then None else Some [c])"
| "unquote_body delim (c # d # r) =
     (if c = delim \<or> c = DQUOTE then
        (if d = c then map_option ((#) c) (unquote_body delim r) else None)
      else if c = BSLASH then
        (if d = BSLASH \<or> d = delim then map_option ((#) d) (unquote_body delim r) else None)
      else map_option ((#) c) (unquote_body delim (d # r)))"

lemma remove_step_pair:
  assumes "off < tot" and "length r + 2 \<le> tot - off"
    and "(c = delim \<and> d = delim) \<or> (c = DQUOTE \<and> d = DQUOTE) \<or>
         (c = BSLASH \<and> c \<noteq> delim \<and> (d = BSLASH \<or> d = delim))"
  shows "\<exists>st'. remove_quotes_loop junk delim tot (pre @ c # d # r @ NUL # st) (length pre) off =
               remove_quotes_loop junk delim tot ((pre @ [d]) @ r @ NUL # st') (length (pre @ [d])) (off + 2)"
proof -
  have n: "length r + 1 \<le> tot - off" using assms(2) by simp
  obtain st' where "memmove junk (pre @ d # d # r @ NUL # st) (length pre + 1) (length pre + 2)
      (tot - off) = pre @ d # r @ NUL # st'"
    using memmove_delete [OF n] by blast
  moreover obtain st'' where "memmove junk (pre @ c # d # r @ NUL # st) (length pre + 1) (length pre + 2)
      (tot - off) = pre @ c # r @ NUL # st''"
    using memmove_delete [OF n] by blast
  ultimately show ?thesis
    using assms(3) remove_quotes_loop.simps [of junk delim tot "pre @ c # d # r @ NUL # st" "length pre" off] assms(1)
    by (elim disjE conjE) (auto simp: Let_def mem_at_def nth_append)
qed


lemma remove_step_plain:
  assumes "off < tot" and "c \<noteq> delim" and "c \<noteq> DQUOTE" and "c \<noteq> BSLASH"
  shows "remove_quotes_loop junk delim tot (pre @ c # r) (length pre) off =
         remove_quotes_loop junk delim tot ((pre @ [c]) @ r) (length (pre @ [c])) (off + 1)"
  using assms by (subst remove_quotes_loop.simps) (simp add: mem_at_def)

lemma remove_step_fail:
  assumes "off < tot"
    and "(c = delim \<and> d \<noteq> delim) \<or> (c \<noteq> delim \<and> c = DQUOTE \<and> d \<noteq> DQUOTE) \<or>
         (c \<noteq> delim \<and> c \<noteq> DQUOTE \<and> c = BSLASH \<and> d \<noteq> BSLASH \<and> d \<noteq> delim)"
  shows "remove_quotes_loop junk delim tot (pre @ c # d # r) (length pre) off =
         (pre @ c # d # r)[0 := NUL]"
  using assms by (subst remove_quotes_loop.simps) (auto simp: mem_at_def nth_append Let_def)

lemma remove_stop: "tot \<le> off \<Longrightarrow> remove_quotes_loop junk delim tot m p off = m"
  by (subst remove_quotes_loop.simps) simp

lemma c_str_cut: "m \<noteq> [] \<Longrightarrow> c_str (m[0 := NUL]) = []"
  by (cases m) (auto simp: c_str_def)

text \<open>The in-place loop computes \<open>unquote_body\<close> (the delimiter is one of the two quotes).\<close>

lemma remove_quotes_loop_spec:
  assumes "delim = SQUOTE \<or> delim = DQUOTE" and "off + length s = tot" and "cstring pre" and "cstring s"
  shows "c_str (remove_quotes_loop junk delim tot (pre @ s @ NUL # st) (length pre) off) =
         (case unquote_body delim s of None \<Rightarrow> [] | Some u \<Rightarrow> pre @ u)"
  using assms
proof (induction delim s arbitrary: pre off st rule: unquote_body.induct)
  case (1 delim)
  then show ?case by (simp add: remove_stop c_str_append_NUL)
next
  case (2 delim c)
  then have o: "off < tot" "off + 1 = tot" by auto
  show ?case
  proof (cases "c = delim \<or> c = DQUOTE \<or> c = BSLASH")
    case True
    with 2 remove_step_fail [OF o(1), of c delim NUL junk pre st] show ?thesis
      by (auto simp: c_str_cut)
  next
    case False
    with 2 o remove_step_plain [OF o(1), of c delim junk pre "NUL # st"]
      c_str_append_NUL [of "pre @ [c]" st] show ?thesis
      by (simp add: remove_stop)
  qed
next
  case (3 delim c d r)
  then have o: "off < tot" "length r + 2 \<le> tot - off" by auto
  consider (pair) "(c = delim \<and> d = delim) \<or> (c = DQUOTE \<and> d = DQUOTE) \<or>
         (c = BSLASH \<and> c \<noteq> delim \<and> (d = BSLASH \<or> d = delim))"
    | (plain) "c \<noteq> delim" "c \<noteq> DQUOTE" "c \<noteq> BSLASH"
    | (fail) "(c = delim \<and> d \<noteq> delim) \<or> (c \<noteq> delim \<and> c = DQUOTE \<and> d \<noteq> DQUOTE) \<or>
         (c \<noteq> delim \<and> c \<noteq> DQUOTE \<and> c = BSLASH \<and> d \<noteq> BSLASH \<and> d \<noteq> delim)" by auto
  then show ?case
  proof cases
    case pair
    then obtain st' where
      "remove_quotes_loop junk delim tot (pre @ c # d # r @ NUL # st) (length pre) off =
       remove_quotes_loop junk delim tot ((pre @ [d]) @ r @ NUL # st') (length (pre @ [d])) (off + 2)"
      using remove_step_pair [OF o] by blast
    moreover have "c_str (remove_quotes_loop junk delim tot ((pre @ [d]) @ r @ NUL # st')
        (length (pre @ [d])) (off + 2)) =
        (case unquote_body delim r of None \<Rightarrow> [] | Some u \<Rightarrow> (pre @ [d]) @ u)"
    proof (cases "c = delim \<or> c = DQUOTE")
      case True
      with pair 3(4-7) show ?thesis by (intro 3(1)) auto
    next
      case False
      with pair 3(4-7) show ?thesis by (intro 3(2)) auto
    qed
    moreover have "unquote_body delim (c # d # r) = map_option ((#) d) (unquote_body delim r)"
      using pair 3(4) by (elim disjE conjE) simp_all
    ultimately show ?thesis by (cases "unquote_body delim r") simp_all
  next
    case plain
    with remove_step_plain [OF o(1) plain, of junk pre "d # r @ NUL # st"]
      3(3) [of "off + 1" "pre @ [c]" st] 3(4-7) show ?thesis
      by (auto split: option.splits)
  next
    case fail
    with remove_step_fail [OF o(1) fail, of junk pre "r @ NUL # st"] show ?thesis
      by (auto simp: c_str_cut)
  qed
qed

text \<open>Shifting the block by one over the opening quote.\<close>

lemma memmove_shift:
  assumes "length s = n"
  shows "\<exists>st. (memmove junk (c # s @ r @ [NUL]) 0 1 n)[n := NUL] = s @ NUL # st"
proof -
  let ?m = "(memmove junk (c # s @ r @ [NUL]) 0 1 n)[n := NUL]"
  have "take (n + 1) ?m = s @ [NUL]"
    using assms
    by (auto intro!: nth_equalityI simp: nth_memmove mem_at_def nth_append nth_list_update)
  then have "?m = (s @ [NUL]) @ drop (n + 1) ?m"
    by (metis append_take_drop_id)
  then show ?thesis by (metis append.assoc append_Cons append_Nil)
qed

lemma remove_quotes_terminated:
  assumes "delim = SQUOTE \<or> delim = DQUOTE" and "cstring body"
  shows "remove_quotes junk (delim # body @ [delim]) =
         Returns (case unquote_body delim body of None \<Rightarrow> [] | Some u \<Rightarrow> u)"
proof -
  obtain st where "(memmove junk (delim # body @ [delim] @ [NUL]) 0 1 (length body))[length body := NUL]
      = body @ NUL # st"
    using memmove_shift [of body "length body"] by blast
  then show ?thesis
    using assms remove_quotes_loop_spec [OF assms(1), of 0 body "length body" "[]" junk st]
    by (auto simp: remove_quotes_def Let_def split: option.split)
qed

lemma remove_quotes_unterminated:
  assumes "delim = SQUOTE \<or> delim = DQUOTE" and "cstring body" and "body \<noteq> []" and "last body \<noteq> delim"
  shows "remove_quotes junk (delim # body) =
         Returns (case unquote_body delim body of None \<Rightarrow> [] | Some u \<Rightarrow> u)"
proof -
  obtain st where "(memmove junk (delim # body @ [] @ [NUL]) 0 1 (length body))[length body := NUL]
      = body @ NUL # st"
    using memmove_shift [of body "length body"] by blast
  moreover have "(delim # body) ! length body \<noteq> delim"
    using assms(3,4) by (simp add: last_conv_nth nth_Cons')
  ultimately show ?thesis
    using assms remove_quotes_loop_spec [OF assms(1), of 0 body "length body" "[]" junk st]
    by (auto simp: remove_quotes_def Let_def split: option.split)
qed

lemma unquote_force: "BSLASH \<notin> set s \<Longrightarrow> unquote_body DQUOTE (force_quotes_loop s) = Some s"
proof (induction s)
  case (Cons c s)
  then show ?case
    by (cases "force_quotes_loop s") auto
qed simp

lemma cstring_force [simp]: "cstring (force_quotes_loop s) = cstring s"
  by (induction s) auto

lemma length_force: "length (force_quotes_loop s) \<le> 2 * length s"
  by (induction s) auto

lemma remove_force_quotes:
  assumes "cstring s" and "BSLASH \<notin> set s"
  shows "remove_quotes junk (DQUOTE # force_quotes_loop s @ [DQUOTE]) = Returns s"
  using assms by (simp add: remove_quotes_terminated unquote_force)

interpretation quotes: codec
  "\<lambda>s. the (gda_sql_identifier_force_quotes (Some s))"
  "\<lambda>t. case remove_quotes junk t of Undefined \<Rightarrow> None | Returns s \<Rightarrow> Some s"
  "\<lambda>s. cstring s \<and> BSLASH \<notin> set s" for junk
  by unfold_locales (simp add: gda_sql_identifier_force_quotes_def remove_force_quotes)

section \<open>Lemmas on dotted identifiers\<close>

definition quoted_char :: "char \<Rightarrow> bool" where
  "quoted_char c \<longleftrightarrow> IdChar c \<or> c = CHR ''*'' \<or> c = CHR ''.'' \<or> c = CHR ''-''"

text \<open>
  The parts a dotted identifier is made of: plain identifiers that are not numbers, and quoted texts
  that neither start nor end with a dot.
\<close>

definition plain_part :: "(string \<Rightarrow> bool) \<Rightarrow> string \<Rightarrow> bool" where
  "plain_part is_number p \<longleftrightarrow> p \<noteq> [] \<and> (\<forall>c \<in> set p. IdChar c) \<and> \<not> is_number p"

definition quoted_part :: "string \<Rightarrow> bool" where
  "quoted_part p \<longleftrightarrow>
     2 < length p \<and> hd p = DQUOTE \<and> last p = DQUOTE \<and> (\<forall>c \<in> set (butlast (tl p)). quoted_char c)
     \<and> hd (tl p) \<noteq> CHR ''.'' \<and> last (butlast p) \<noteq> CHR ''.''"

fun dotted :: "string list \<Rightarrow> string" where
  "dotted [] = []"
| "dotted [p] = p"
| "dotted (p # q # r) = p @ CHR ''.'' # dotted (q # r)"

lemma dotted_snoc: "ps \<noteq> [] \<Longrightarrow> dotted (ps @ [p]) = dotted ps @ CHR ''.'' # p"
  by (induction ps rule: dotted.induct) auto

lemma IdChar_special [simp]:
  "\<not> IdChar DQUOTE" "\<not> IdChar (CHR ''.'')" "\<not> IdChar NUL" "\<not> IdChar (CHR 0x60)"
  by (simp_all add: IdChar_def ascii_id_char_def code_def)

lemma quoted_char_special [simp]: "\<not> quoted_char DQUOTE" "\<not> quoted_char NUL" "\<not> quoted_char (CHR 0x60)"
  by (simp_all add: quoted_char_def)

lemma IdChar_not_space: "IdChar c \<Longrightarrow> \<not> g_ascii_isspace c"
  by (auto simp: IdChar_def ascii_id_char_def g_ascii_isspace_def)

lemma quoted_part_body:
  assumes "quoted_part p"
  obtains b where "p = DQUOTE # b @ [DQUOTE]" "b \<noteq> []" "\<forall>c \<in> set b. quoted_char c"
    "hd b \<noteq> CHR ''.''" "last b \<noteq> CHR ''.''"
proof -
  from assms obtain q where q: "p = DQUOTE # q" "1 < length q" "last q = DQUOTE"
    by (cases p) (auto simp: quoted_part_def split: if_splits)
  then obtain b where b: "q = b @ [DQUOTE]" "b \<noteq> []"
    by (cases q rule: rev_cases) auto
  with q assms show thesis
    by (intro that [of b]) (auto simp: quoted_part_def butlast_append)
qed

lemma ident_scan_quoted: "\<forall>c \<in> set b. quoted_char c \<Longrightarrow> ident_scan (b @ [DQUOTE])"
proof (induction b)
  case (Cons c b)
  then show ?case by (cases b) (auto simp: quoted_char_def)
qed simp

lemma ident_scan_plain: "\<forall>c \<in> set b. IdChar c \<Longrightarrow> ident_scan b"
proof (induction b)
  case (Cons c b)
  then show ?case by (cases b) auto
qed simp

lemma part_is_identifier:
  "plain_part is_number p \<or> quoted_part p \<Longrightarrow> string_is_identifier is_number p"
proof (elim disjE)
  assume "plain_part is_number p"
  then show ?thesis
    using ident_scan_plain [of p] by (cases p) (auto simp: plain_part_def string_is_identifier_def)
next
  assume "quoted_part p"
  then obtain b where "p = DQUOTE # b @ [DQUOTE]" "\<forall>c \<in> set b. quoted_char c"
    using quoted_part_body by metis
  then show ?thesis
    using ident_scan_quoted [of b] by (simp add: string_is_identifier_def)
qed

lemma split_scan_run:
  "\<forall>c \<in> set s. c \<noteq> DQUOTE \<and> (inq \<or> c \<noteq> CHR ''.'') \<Longrightarrow>
   split_scan inq (rev s @ pre) suf = split_scan inq pre (s @ suf)"
  by (induction s arbitrary: suf rule: rev_induct) auto

lemma split_scan_part:
  assumes "plain_part is_number p \<or> quoted_part p" and "pre = [] \<or> hd pre \<noteq> DQUOTE"
  shows "split_scan False (rev p @ pre) suf = split_scan False pre (p @ suf)"
  using assms(1)
proof (elim disjE)
  assume "plain_part is_number p"
  then have "\<forall>c \<in> set p. c \<noteq> DQUOTE \<and> c \<noteq> CHR ''.''"
    using IdChar_special by (auto simp: plain_part_def)
  then show ?thesis by (simp add: split_scan_run)
next
  assume "quoted_part p"
  then obtain b where b: "p = DQUOTE # b @ [DQUOTE]" "b \<noteq> []" "\<forall>c \<in> set b. quoted_char c"
    using quoted_part_body by metis
  then have nq: "\<forall>c \<in> set b. c \<noteq> DQUOTE" by auto
  with b(2) have "last b \<noteq> DQUOTE" by simp
  then have "split_scan False (rev p @ pre) suf = split_scan True (rev b @ DQUOTE # pre) (DQUOTE # suf)"
    using b(1,2) by (simp add: hd_append hd_rev)
  also have "\<dots> = split_scan True (DQUOTE # pre) (b @ DQUOTE # suf)"
    using nq by (simp add: split_scan_run)
  also have "\<dots> = split_scan False pre (p @ suf)"
    using assms(2) b(1) by auto
  finally show ?thesis .
qed

lemma part_ends:
  assumes "plain_part is_number p \<or> quoted_part p"
  shows "p \<noteq> []" and "\<not> g_ascii_isspace (last p)" and "last p \<noteq> CHR ''.''" and "hd p \<noteq> CHR ''.''"
    and "last p = DQUOTE \<Longrightarrow> 2 < length p \<and> last (butlast p) \<noteq> CHR ''.''"
    and "hd p = DQUOTE \<Longrightarrow> 2 < length p \<and> hd (tl p) \<noteq> CHR ''.''"
proof -
  show ne: "p \<noteq> []" using assms by (auto simp: plain_part_def quoted_part_def)
  have pl: "plain_part is_number p \<Longrightarrow> IdChar (last p) \<and> IdChar (hd p)"
    using ne by (auto simp: plain_part_def)
  show "\<not> g_ascii_isspace (last p)"
    using assms pl IdChar_not_space [of "last p"] by (auto simp: quoted_part_def char_defs)
  show "last p \<noteq> CHR ''.''" "hd p \<noteq> CHR ''.''"
    using assms pl IdChar_special by (auto simp: quoted_part_def)
  show "last p = DQUOTE \<Longrightarrow> 2 < length p \<and> last (butlast p) \<noteq> CHR ''.''"
    "hd p = DQUOTE \<Longrightarrow> 2 < length p \<and> hd (tl p) \<noteq> CHR ''.''"
    using assms pl IdChar_special by (auto simp: quoted_part_def)
qed

lemma strchomp_id: "s \<noteq> [] \<Longrightarrow> \<not> g_ascii_isspace (last s) \<Longrightarrow> g_strchomp s = s"
  by (cases s rule: rev_cases) (auto simp: g_strchomp_def)

lemma part_end_ok:
  assumes "plain_part is_number p \<or> quoted_part p"
  shows "(pre @ p) ! (length (pre @ p) - 1) \<noteq> CHR ''.''"
    and "(pre @ p) ! (length (pre @ p) - 1) = DQUOTE \<Longrightarrow> (pre @ p) ! (length (pre @ p) - 1 - 1) \<noteq> CHR ''.''"
proof -
  note e = part_ends [OF assms]
  have l: "(pre @ p) ! (length (pre @ p) - 1) = last p"
    using e(1) last_conv_nth [of "pre @ p"] by simp
  then show "(pre @ p) ! (length (pre @ p) - 1) \<noteq> CHR ''.''" using e(3) by simp
  assume "(pre @ p) ! (length (pre @ p) - 1) = DQUOTE"
  with l e(5) have p: "2 < length p" "last (butlast p) \<noteq> CHR ''.''" by auto
  moreover have "(pre @ p) ! (length (pre @ p) - 1 - 1) = last (butlast p)"
  proof -
    have "butlast p \<noteq> []" using p(1) by (cases p rule: rev_cases) auto
    then have "last (butlast p) = p ! (length p - 2)"
      using p(1) by (simp add: last_conv_nth nth_butlast numeral_2_eq_2)
    moreover have "length (pre @ p) - 1 - 1 = length pre + (length p - 2)"
      using p(1) by simp
    ultimately show ?thesis by (simp only: nth_append_length_plus)
  qed
  ultimately show "(pre @ p) ! (length (pre @ p) - 1 - 1) \<noteq> CHR ''.''" by simp
qed

lemma part_start_ok:
  assumes "plain_part is_number p \<or> quoted_part p"
  shows "cat (p @ r) 0 \<noteq> CHR ''.''" and "cat (p @ r) 0 = DQUOTE \<Longrightarrow> cat (p @ r) 1 \<noteq> CHR ''.''"
proof -
  note e = part_ends [OF assms]
  have h: "cat (p @ r) 0 = hd p" using e(1) by (cases p) (auto simp: cat_def)
  then show "cat (p @ r) 0 \<noteq> CHR ''.''" using e(4) by simp
  assume "cat (p @ r) 0 = DQUOTE"
  with h e(6) have "2 < length p" "hd (tl p) \<noteq> CHR ''.''" by auto
  then show "cat (p @ r) 1 \<noteq> CHR ''.''"
    by (cases p) (auto simp: cat_def nth_append hd_conv_nth)
qed

lemma dotted_start: "ps \<noteq> [] \<Longrightarrow> \<exists>r. dotted ps = hd ps @ r"
  by (cases ps rule: dotted.cases) auto

lemma split_last_part:
  assumes ok: "\<forall>q \<in> set (ps @ [p]). plain_part is_number q \<or> quoted_part q"
  shows "split_identifier_string is_number (dotted (ps @ [p])) =
         (True, if ps = [] then None else Some (dotted ps), Some p)"
proof -
  let ?s = "dotted (ps @ [p])"
  have pk: "plain_part is_number p \<or> quoted_part p" using ok by simp
  obtain pre where pre: "?s = pre @ p" "ps \<noteq> [] \<Longrightarrow> pre = dotted ps @ ''.''" "ps = [] \<Longrightarrow> pre = []"
    by (cases "ps = []") (auto simp: dotted_snoc intro: that [of "dotted ps @ ''.''"] that [of "[]"])
  obtain r where r: "?s = hd (ps @ [p]) @ r" using dotted_start [of "ps @ [p]"] by auto
  have hk: "plain_part is_number (hd (ps @ [p])) \<or> quoted_part (hd (ps @ [p]))"
    using ok by (metis hd_in_set snoc_eq_iff_butlast)
  have ne: "?s \<noteq> []" using pre(1) part_ends(1) [OF pk] by simp
  have chomp: "g_strchomp ?s = ?s"
    using pre(1) part_ends(1,2) [OF pk] by (intro strchomp_id) auto
  have start: "cat ?s 0 \<noteq> CHR ''.''" "cat ?s 0 = DQUOTE \<Longrightarrow> cat ?s 1 \<noteq> CHR ''.''"
    using part_start_ok [OF hk] unfolding r by auto
  have ends: "?s ! (length ?s - 1) \<noteq> CHR ''.''"
    "?s ! (length ?s - 1) = DQUOTE \<Longrightarrow> ?s ! (length ?s - 1 - 1) \<noteq> CHR ''.''"
    using part_end_ok [OF pk] unfolding pre(1) by auto
  have scan: "split_scan False (rev ?s) [] = (if ps = [] then None else Some (dotted ps, p))"
    using pre split_scan_part [OF pk, of "rev pre" "[]"] by (cases "ps = []") auto
  have nl: "nat (int n - 1) = n - 1" for n by simp
  show ?thesis
    using part_is_identifier [OF pk] scan chomp start ends ne
    unfolding split_identifier_string_def Let_def by (cases "ps = []") (auto simp: nl)
qed

lemma split_loop_dotted:
  assumes "\<forall>q \<in> set ps. plain_part is_number q \<or> quoted_part q" and "ps \<noteq> []"
  shows "identifier_split_loop is_number (Some (dotted ps)) arr = ps @ arr"
  using assms
proof (induction ps arbitrary: arr rule: rev_induct)
  case (snoc p ps)
  have "identifier_split_loop is_number (Some (dotted (ps @ [p]))) arr =
        identifier_split_loop is_number (if ps = [] then None else Some (dotted ps)) (p # arr)"
    using split_last_part [OF snoc.prems(1)] by (subst identifier_split_loop.simps) simp
  then show ?case using snoc by (cases "ps = []") simp_all
qed simp

section \<open>Properties\<close>



text \<open>
  Remark: \<open>_remove_quotes\<close>, which shifts the string in place, computes the declarative unquoting
  \<open>unquote_body\<close> of the text between the quotes, and gives the empty string when that is ill formed;
  this holds whatever lies behind the block.
\<close>

theorem remove_quotes_spec:
  assumes "delim = SQUOTE \<or> delim = DQUOTE" and "cstring body"
  shows "remove_quotes junk (delim # body @ [delim]) =
         Returns (case unquote_body delim body of None \<Rightarrow> [] | Some u \<Rightarrow> u)"
  using assms by (rule remove_quotes_terminated)

theorem remove_quotes_spec_witness:
  "remove_quotes (\<lambda>_. NUL) (SQUOTE # [CHR ''a'', BSLASH, SQUOTE] @ [SQUOTE]) =
   Returns (case unquote_body SQUOTE [CHR ''a'', BSLASH, SQUOTE] of None \<Rightarrow> [] | Some u \<Rightarrow> u)"
  by (rule remove_quotes_spec) simp_all

text \<open>
  Remark: \<open>_remove_quotes\<close> undoes \<open>gda_sql_identifier_force_quotes\<close> on identifiers without a backslash,
  and the quoted form fits the \<open>2 * len + 3\<close> bytes allocated.
\<close>

theorem force_remove_quotes:
  assumes "cstring s" and "BSLASH \<notin> set s"
  shows "\<exists>t. gda_sql_identifier_force_quotes (Some s) = Some t \<and> remove_quotes junk t = Returns s
           \<and> length t + 1 \<le> 2 * length s + 3"
  using remove_force_quotes [OF assms] length_force [of s]
  by (simp add: gda_sql_identifier_force_quotes_def)

theorem force_remove_quotes_witness:
  "\<exists>t. gda_sql_identifier_force_quotes (Some [CHR ''a'', DQUOTE, CHR ''b'']) = Some t \<and>
       remove_quotes (\<lambda>_. NUL) t = Returns [CHR ''a'', DQUOTE, CHR ''b'']
       \<and> length t + 1 \<le> 2 * length [CHR ''a'', DQUOTE, CHR ''b''] + 3"
  by (rule force_remove_quotes) simp_all

text \<open>
  Remark: with a backslash the quoted identifier is lost: unquoting the quoted form of \<open>a\b\<close> gives the
  empty string, so that \<open>gda_sql_identifier_quote\<close> for the meta store does too; and on the identifier
  made of one double quote the behaviour is undefined (\<open>memmove\<close> with the count -1).
\<close>

theorem quote_meta_store_failures:
  "remove_quotes junk (the (gda_sql_identifier_force_quotes (Some [CHR ''a'', BSLASH, CHR ''b'']))) = Returns [] \<and>
   gda_sql_identifier_quote junk (\<lambda>_. False) None [DQUOTE, CHR ''a'', BSLASH, CHR ''b'', DQUOTE] True False
     = Returns (Some []) \<and>
   gda_sql_identifier_quote junk (\<lambda>_. False) None [DQUOTE] True force = Undefined"
  by code_simp

definition dq :: "string \<Rightarrow> string" where
  "dq s = DQUOTE # s @ [DQUOTE]"

definition quote_row :: "(nat \<Rightarrow> char) \<Rightarrow> string \<Rightarrow> string outcome list" where
  "quote_row junk ident =
     map (\<lambda>(meta, force).
        case gda_sql_identifier_quote junk (\<lambda>s. map g_ascii_tolower s = ''desc'') None ident meta force of
          Returns (Some s) \<Rightarrow> Returns s | _ \<Rightarrow> Undefined)
       [(False, False), (True, False), (False, True), (True, True)]"

text \<open>
  Remark: the nine rows of the table in the documentation of \<open>gda_sql_identifier_quote\<close> (no connection
  and no provider), with \<open>desc\<close> as the reserved keyword. The columns are: meta store or not, quotes
  forced or not.
\<close>

theorem identifier_quote_documented_table:
  "(quote_row junk (dq ''double word'') = map Returns [dq ''double word'', dq ''double word'', dq ''double word'', dq ''double word'']) \<and>
   (quote_row junk (dq ''CapitalTest'') = map Returns [dq ''CapitalTest'', dq ''CapitalTest'', dq ''CapitalTest'', dq ''CapitalTest'']) \<and>
   (quote_row junk ''CapitalTest'' = map Returns [''CapitalTest'', ''capitaltest'', dq ''CapitalTest'', dq ''CapitalTest'']) \<and>
   (quote_row junk (dq ''mytable'') = map Returns [dq ''mytable'', ''mytable'', dq ''mytable'', ''mytable'']) \<and>
   (quote_row junk ''mytable'' = map Returns [''mytable'', ''mytable'', dq ''mytable'', ''mytable'']) \<and>
   (quote_row junk ''MYTABLE'' = map Returns [''MYTABLE'', ''mytable'', dq ''MYTABLE'', dq ''MYTABLE'']) \<and>
   (quote_row junk (dq ''MYTABLE'') = map Returns [dq ''MYTABLE'', dq ''MYTABLE'', dq ''MYTABLE'', dq ''MYTABLE'']) \<and>
   (quote_row junk ''desc'' = map Returns [dq ''desc'', dq ''desc'', dq ''desc'', dq ''desc'']) \<and>
   (quote_row junk ''5ive'' = map Returns [dq ''5ive'', dq ''5ive'', dq ''5ive'', dq ''5ive''])"
  by (intro conjI; code_simp)

text \<open>
  Remark: \<open>gda_sql_identifier_split\<close> gives back the parts of a dotted identifier, whatever mix of plain
  identifiers and quoted ones (in which dots do not separate) it is made of; \<open>is_number\<close> stands for
  the strings \<open>g_ascii_strtod\<close> reads completely, which no plain part may be.
\<close>

theorem identifier_split_dotted:
  assumes "ps \<noteq> []" and "\<forall>p \<in> set ps. plain_part is_number p \<or> quoted_part p"
  shows "gda_sql_identifier_split is_number (dotted ps) = Some ps"
proof -
  have "dotted ps \<noteq> []"
    using dotted_start [OF assms(1)] assms part_ends(1) [of is_number "hd ps"] by auto
  then show ?thesis
    using split_loop_dotted [OF assms(2,1), of "[]"] assms(1)
    by (cases ps) (auto simp: gda_sql_identifier_split_def)
qed

theorem identifier_split_dotted_witness:
  "gda_sql_identifier_split (list_all is_digit) (dotted [''test'', dq ''A.Table'', ''col1'']) =
   Some [''test'', dq ''A.Table'', ''col1'']"
  by (rule identifier_split_dotted)
     (simp_all add: plain_part_def quoted_part_def dq_def quoted_char_def IdChar_def ascii_id_char_def
                    is_digit_def code_def)

end
