(* ===== verification/Gda_Conn_String.thy ===== *)
theory Gda_Conn_String
  imports Gda_Escape
begin

text \<open>
  Splitting of data source names and of connection strings (\<open>libgda/gda-util.c\<close>:
  \<open>gda_dsn_split\<close>, \<open>gda_connection_string_split\<close>). The values of the parts are RFC 1738 encoded, so
  the codec of \<open>Gda_Escape\<close> is what makes the separators unambiguous.
\<close>

section \<open>The login part\<close>

text \<open>
  The loop over the text before the \<open>@\<close>: every colon sets the user name and the password again.
  \<open>pre\<close> is what \<open>ptr\<close> has passed.
\<close>

fun login_loop :: "string \<Rightarrow> string \<Rightarrow> (string \<times> string) option \<Rightarrow> (string \<times> string) option" where
  "login_loop pre [] acc = acc"
| "login_loop pre (c # r) acc = login_loop (pre @ [c]) r (if c = CHR '':'' then Some (pre, r) else acc)"

definition login :: "string \<Rightarrow> string \<times> string option" where
  "login s = (case login_loop [] s None of Some (u, w) \<Rightarrow> (u, Some w) | None \<Rightarrow> (s, None))"

lemma login_loop_no_colon: "CHR '':'' \<notin> set s \<Longrightarrow> login_loop pre s acc = acc"
  by (induction s arbitrary: pre) auto

lemma login_loop_append:
  "CHR '':'' \<notin> set w \<Longrightarrow> login_loop pre (u @ CHR '':'' # w) acc = Some (pre @ u, w)"
  by (induction u arbitrary: pre acc) (auto simp: login_loop_no_colon)

lemma login_no_colon: "CHR '':'' \<notin> set s \<Longrightarrow> login s = (s, None)"
  by (simp add: login_def login_loop_no_colon)

lemma login_colon: "CHR '':'' \<notin> set w \<Longrightarrow> login (u @ CHR '':'' # w) = (u, Some w)"
  by (simp add: login_def login_loop_append)

section \<open>gda_dsn_split\<close>

text \<open>The new contents of \<open>out_dsn\<close>, \<open>out_username\<close> and \<open>out_password\<close>.\<close>

definition gda_dsn_split :: "string \<Rightarrow> string \<times> string option \<times> string option" where
  "gda_dsn_split str =
     (let (dsn, user, pass) =
        (case dropWhile (\<lambda>c. c \<noteq> CHR ''@'') str of
           [] \<Rightarrow> (str, None, None)
         | _ # rest \<Rightarrow>
             (let (u, w) = login (takeWhile (\<lambda>c. c \<noteq> CHR ''@'') str) in (rest, Some u, w)))
      in (dsn, fst (gda_rfc1738_decode user), fst (gda_rfc1738_decode pass)))"

section \<open>gda_connection_string_split\<close>

text \<open>
  The first loop, at the byte \<open>i\<close> of the string \<open>s\<close> with the bytes from there on as the last
  argument. The result is None for the early return (\<open>//\<close> that no colon precedes), or the
  provider, where \<open>ap\<close> is, and where the \<open>@\<close> is.
\<close>

fun cnc_scan :: "string \<Rightarrow> nat \<Rightarrow> string option \<Rightarrow> nat \<Rightarrow> string \<Rightarrow>
    (string option \<times> nat \<times> nat option) option" where
  "cnc_scan s ap prov i [] = Some (prov, ap, None)"
| "cnc_scan s ap prov i [c] = Some (prov, ap, if c = CHR ''@'' then Some i else None)"
| "cnc_scan s ap prov i (c # d # r) =
     (if ap = 0 \<and> c = CHR ''/'' \<and> d = CHR ''/'' then
        (if i = 0 \<or> s ! (i - 1) \<noteq> CHR '':'' then None
         else cnc_scan s (i + 2) (Some (take (i - 1) s)) (i + 2) r)
      else if c = CHR ''@'' then Some (prov, ap, Some i)
      else cnc_scan s ap prov (i + 1) (d # r))"

text \<open>\<open>strstr\<close>: the first position from \<open>k\<close> on at which \<open>pat\<close> occurs; \<open>s\<close> starts at \<open>k\<close>.\<close>

fun strstr :: "string \<Rightarrow> nat \<Rightarrow> string \<Rightarrow> nat option" where
  "strstr pat k [] = (if pat = [] then Some k else None)"
| "strstr pat k (c # s) = (if take (length pat) (c # s) = pat then Some k else strstr pat (k + 1) s)"

lemma strstr_bounds: "strstr pat k s = Some pos \<Longrightarrow> k \<le> pos \<and> pos + length pat \<le> k + length s"
proof (induction pat k s rule: strstr.induct)
  case (2 pat k c s)
  then show ?case
    by (auto split: if_splits) (metis length_Cons length_take min.absorb_iff2 nat_le_linear min.absorb1)
qed (auto split: if_splits)

text \<open>
  \<open>tmp [strlen (tmp) - 1]\<close>: with an empty string the index is -1 and the byte before the block
  is read (and cleared if it is a semicolon).
\<close>

definition strip_last_semicolon :: "string \<Rightarrow> string outcome" where
  "strip_last_semicolon s =
     (if s = [] then Undefined else Returns (if last s = CHR '';'' then butlast s else s))"

datatype auth_key = Username | Password

fun key_text :: "auth_key \<Rightarrow> string" where
  "key_text Username = ''USERNAME=''"
| "key_text Password = ''PASSWORD=''"

lemma key_text_length [simp]: "length (key_text k) = 9"
  by (cases k) simp_all

text \<open>
  The loop that takes a key out of the parameters, from the position \<open>start\<close> on: the new
  parameters and the value, None when the key is not there or its value is empty.
\<close>

function extract_key :: "auth_key \<Rightarrow> nat \<Rightarrow> string \<Rightarrow> (string \<times> string option) outcome" where
  "extract_key key start params =
     (case strstr (key_text key) start (drop start params) of
        None \<Rightarrow> Returns (params, None)
      | Some pos \<Rightarrow>
          if pos = 0 \<or> params ! (pos - 1) = CHR '';'' then
            (let value = takeWhile (\<lambda>c. c \<noteq> CHR '';'') (drop (pos + 9) params);
                 rest = drop (pos + 9 + length value) params
             in bind_outcome (strip_last_semicolon (take pos params @ tl rest))
                  (\<lambda>p. Returns (p, if value = [] then None else Some value)))
          else extract_key key (pos + 9) params)"
  by pat_completeness auto
termination
proof (relation "measure (\<lambda>(key, start, params). length params - start)")
  fix key start params pos
  assume "strstr (key_text key) start (drop start params) = Some pos"
  then have "start \<le> pos" "pos + 9 \<le> start + (length params - start)"
    using strstr_bounds by fastforce+
  then show "((key, pos + 9, params), (key, start, params)) \<in> measure (\<lambda>(key, start, params). length params - start)"
    by auto
qed simp

declare extract_key.simps [simp del]

record cnc_parts =
  cnc_params :: "string option"
  provider :: "string option"
  username :: "string option"
  password :: "string option"

definition no_parts :: cnc_parts where
  "no_parts = \<lparr>cnc_params = None, provider = None, username = None, password = None\<rparr>"

text \<open>\<open>want_pass\<close> tells whether \<open>out_password\<close> is not NULL.\<close>

definition gda_connection_string_split :: "bool \<Rightarrow> string \<Rightarrow> cnc_parts outcome" where
  "gda_connection_string_split want_pass s =
     (case cnc_scan s 0 None 0 s of
        None \<Rightarrow> Returns no_parts
      | Some (prov, ap, at) \<Rightarrow>
          (let (params, user, pass) =
             (case at of
                Some k \<Rightarrow>
                  (let (u, w) = login (drop ap (take k s))
                   in (drop (k + 1) s, Some u, if want_pass then w else None))
              | None \<Rightarrow> (drop ap s, None, None))
           in bind_outcome (extract_key Username 0 params) (\<lambda>(params, u).
              bind_outcome (extract_key Password 0 params) (\<lambda>(params, w).
                Returns
                  \<lparr>cnc_params = Some params,
                   provider = fst (gda_rfc1738_decode prov),
                   username = fst (gda_rfc1738_decode (case u of None \<Rightarrow> user | Some _ \<Rightarrow> u)),
                   password = fst (gda_rfc1738_decode
                     (if want_pass then (case w of None \<Rightarrow> pass | Some _ \<Rightarrow> w) else None))\<rparr>))))"

section \<open>Searching and scanning\<close>

lemma strstr_first:
  assumes "\<forall>j < length pre. take (length pat) (drop j (pre @ pat @ r)) \<noteq> pat" and "pat \<noteq> []"
  shows "strstr pat k (pre @ pat @ r) = Some (k + length pre)"
  using assms(1)
proof (induction pre arbitrary: k)
  case Nil
  from assms(2) obtain c cs where "pat = c # cs" by (cases pat) auto
  then show ?case by simp
next
  case (Cons c pre)
  have "take (length pat) ((c # pre) @ pat @ r) \<noteq> pat" using Cons.prems by force
  moreover have "strstr pat (k + 1) (pre @ pat @ r) = Some (k + 1 + length pre)"
    by (rule Cons.IH) (use Cons.prems in force)
  ultimately show ?case by simp
qed

lemma strstr_None:
  "pat \<noteq> [] \<Longrightarrow> strstr pat k s = None \<Longrightarrow> take (length pat) (drop j s) \<noteq> pat"
proof (induction pat k s arbitrary: j rule: strstr.induct)
  case (2 pat k c s)
  then show ?case by (cases j) (auto split: if_splits)
qed auto

text \<open>An occurrence cannot extend over a byte that the pattern does not contain.\<close>

lemma strstr_after_separator:
  assumes "strstr pat k' pre = None" and "pat \<noteq> []" and "pre = [] \<or> last pre \<notin> set pat"
  shows "strstr pat k (pre @ pat @ r) = Some (k + length pre)"
proof (rule strstr_first [OF _ assms(2)], intro allI impI notI)
  fix j assume j: "j < length pre" and eq: "take (length pat) (drop j (pre @ pat @ r)) = pat"
  show False
  proof (cases "j + length pat \<le> length pre")
    case True
    then have "take (length pat) (drop j pre) = pat" using eq by simp
    then show False using strstr_None [OF assms(2,1)] by blast
  next
    case False
    then have "length pre - 1 - j < length pat" using j by linarith
    then have "pat ! (length pre - 1 - j) = (drop j (pre @ pat @ r)) ! (length pre - 1 - j)"
      using eq by (metis nth_take)
    also have "\<dots> = last pre" using j by (cases pre rule: rev_cases) (simp_all add: nth_append)
    finally have "last pre \<in> set pat" using \<open>length pre - 1 - j < length pat\<close> by (metis nth_mem)
    with assms(3) j show False by auto
  qed
qed

lemma key_text_props [simp]:
  "key_text k \<noteq> []" "CHR '';'' \<notin> set (key_text k)"
  by (cases k; simp)+

lemma extract_none:
  "strstr (key_text k) 0 params = None \<Longrightarrow> extract_key k 0 params = Returns (params, None)"
  by (subst extract_key.simps) simp

lemma extract_found:
  assumes "strstr (key_text k) 0 pre = None" and "pre = [] \<or> last pre = CHR '';''"
    and "CHR '';'' \<notin> set v" and "rest = [] \<or> hd rest = CHR '';''"
  shows "extract_key k 0 (pre @ key_text k @ v @ rest) =
    bind_outcome (strip_last_semicolon (pre @ tl rest)) (\<lambda>p. Returns (p, if v = [] then None else Some v))"
proof -
  have pos: "strstr (key_text k) 0 (pre @ key_text k @ v @ rest) = Some (length pre)"
    using strstr_after_separator [OF assms(1), of 0 "v @ rest"] assms(2) by auto
  have before: "length pre = 0 \<or> (pre @ key_text k @ v @ rest) ! (length pre - 1) = CHR '';''"
    using assms(2) by (cases pre rule: rev_cases) (auto simp: nth_append)
  have val: "takeWhile (\<lambda>c. c \<noteq> CHR '';'') (v @ rest) = v"
    using assms(3,4) by (cases rest) auto
  show ?thesis
    by (subst extract_key.simps) (use pos before val in \<open>simp add: Let_def\<close>)
qed

lemma cnc_scan_skip:
  assumes "CHR ''@'' \<notin> set x" and "ap \<noteq> 0 \<or> CHR ''/'' \<notin> set x" and "r \<noteq> []"
  shows "cnc_scan s ap prov i (x @ r) = cnc_scan s ap prov (i + length x) r"
  using assms(1,2)
proof (induction x arbitrary: i)
  case (Cons c x)
  obtain d y where dy: "x @ r = d # y" using assms(3) by (cases "x @ r") auto
  have "cnc_scan s ap prov i (c # d # y) = cnc_scan s ap prov (i + 1) (d # y)"
    using Cons.prems by auto
  also have "\<dots> = cnc_scan s ap prov (i + 1 + length x) r"
    unfolding dy [symmetric] by (rule Cons.IH) (use Cons.prems in auto)
  finally show ?case by (simp add: dy)
qed simp

lemma cnc_scan_no_at:
  "CHR ''@'' \<notin> set x \<Longrightarrow> ap \<noteq> 0 \<Longrightarrow> cnc_scan s ap prov i x = Some (prov, ap, None)"
  by (induction s ap prov i x rule: cnc_scan.induct) auto

lemma strstr_no_equal: "CHR ''='' \<notin> set s \<Longrightarrow> strstr (key_text k) n s = None"
proof (induction s arbitrary: n)
  case (Cons c s)
  have "CHR ''='' \<in> set (key_text k)" by (cases k) simp_all
  then have "take (length (key_text k)) (c # s) \<noteq> key_text k"
    using Cons.prems by (metis in_set_takeD)
  then show ?case using Cons by simp
qed (simp del: key_text.simps)

lemma enc_seps [simp]:
  assumes "cstring s"
  shows "CHR '':'' \<notin> set (rfc1738_encode_loop s)" "CHR ''@'' \<notin> set (rfc1738_encode_loop s)"
    "CHR ''/'' \<notin> set (rfc1738_encode_loop s)" "CHR '';'' \<notin> set (rfc1738_encode_loop s)"
    "CHR ''='' \<notin> set (rfc1738_encode_loop s)"
  using assms by (auto dest!: rfc1738_encode_safe simp: rfc1738_enc_def rfc1738_reserved_chars_def)

lemma cnc_scan_provider:
  assumes "cstring p" and "r \<noteq> []"
  shows "cnc_scan (rfc1738_encode_loop p @ ''://'' @ r) 0 None 0 (rfc1738_encode_loop p @ ''://'' @ r) =
         cnc_scan (rfc1738_encode_loop p @ ''://'' @ r) (length (rfc1738_encode_loop p) + 3)
           (Some (rfc1738_encode_loop p)) (length (rfc1738_encode_loop p) + 3) r"
proof -
  let ?e = "rfc1738_encode_loop p"
  let ?s = "?e @ ''://'' @ r"
  have "cnc_scan ?s 0 None 0 ((?e @ '':'') @ ''//'' @ r) = cnc_scan ?s 0 None (0 + length (?e @ '':'')) (''//'' @ r)"
    by (rule cnc_scan_skip) (use assms(1) in simp_all)
  also have "\<dots> = cnc_scan ?s (length ?e + 3) (Some ?e) (length ?e + 3) r"
    by (simp add: nth_append numeral_3_eq_3)
  finally show ?thesis by simp
qed

lemma cnc_scan_full:
  assumes "cstring p" and "CHR ''@'' \<notin> set l"
  shows "cnc_scan (rfc1738_encode_loop p @ ''://'' @ l @ CHR ''@'' # q) 0 None 0
           (rfc1738_encode_loop p @ ''://'' @ l @ CHR ''@'' # q) =
         Some (Some (rfc1738_encode_loop p), length (rfc1738_encode_loop p) + 3,
               Some (length (rfc1738_encode_loop p) + 3 + length l))"
  using cnc_scan_provider [OF assms(1), of "l @ CHR ''@'' # q"]
    cnc_scan_skip [OF assms(2), of _ "CHR ''@'' # q"]
  by (cases q) simp_all

lemma dsn_split_at:
  assumes "CHR ''@'' \<notin> set l" and "login l = (u, w)"
  shows "gda_dsn_split (l @ CHR ''@'' # dsn) = (dsn, Some (rfc1738_decoded u), map_option rfc1738_decoded w)"
  by (cases w) (simp_all add: gda_dsn_split_def takeWhile_sep [OF assms(1)] dropWhile_sep [OF assms(1)] assms(2))

lemma dsn_split_no_at: "CHR ''@'' \<notin> set d \<Longrightarrow> gda_dsn_split d = (d, None, None)"
  by (simp add: gda_dsn_split_def dropWhile_sep del: dropWhile_eq_Nil_conv)

section \<open>Properties\<close>

text \<open>C9: Splitting a DSN string gives back the user name, the password and the data source name it was
  built from, whatever the user name and the password contain once encoded, and whatever the data
  source name contains; a part that is absent is NULL. When the user name is not encoded and has colons,
  the last colon before the \<open>@\<close> is the separator.\<close>

theorem dsn_split_round_trip:
  assumes "cstring u" and "cstring w" and "CHR ''@'' \<notin> set d"
  shows "gda_dsn_split (rfc1738_encode_loop u @ CHR '':'' # rfc1738_encode_loop w @ CHR ''@'' # dsn) =
           (dsn, Some u, Some w)
       \<and> gda_dsn_split (rfc1738_encode_loop u @ CHR ''@'' # dsn) = (dsn, Some u, None)
       \<and> gda_dsn_split d = (d, None, None)
       \<and> login (v @ CHR '':'' # rfc1738_encode_loop w) = (v, Some (rfc1738_encode_loop w))"
proof -
  let ?l = "rfc1738_encode_loop u @ CHR '':'' # rfc1738_encode_loop w"
  have "gda_dsn_split (?l @ CHR ''@'' # dsn) = (dsn, Some u, Some w)"
    by (subst dsn_split_at [OF _ login_colon]) (use assms in simp_all)
  moreover have "gda_dsn_split (rfc1738_encode_loop u @ CHR ''@'' # dsn) = (dsn, Some u, None)"
    by (subst dsn_split_at [OF _ login_no_colon]) (use assms in simp_all)
  ultimately show ?thesis using assms by (simp add: login_colon dsn_split_no_at)
qed

lemma dsn_split_round_trip_witness:
  "gda_dsn_split (rfc1738_encode_loop ''a:b'' @ CHR '':'' # rfc1738_encode_loop ''c@d'' @ CHR ''@'' # ''dsn'') =
     (''dsn'', Some ''a:b'', Some ''c@d'')"
  using dsn_split_round_trip [of "''a:b''" "''c@d''" "''x''" "''dsn''"] by simp

text \<open>C2: The ten connection strings of the documentation of \<open>gda_connection_string_split\<close> all give
  the four parts it announces.\<close>

definition documented_strings :: "string list" where
  "documented_strings =
    [''PostgreSQL://meme:pass@DB_NAME=mydb;HOST=server'',
     ''PostgreSQL://meme@DB_NAME=mydb;HOST=server;PASSWORD=pass'',
     ''PostgreSQL://meme@DB_NAME=mydb;PASSWORD=pass;HOST=server'',
     ''PostgreSQL://meme@PASSWORD=pass;DB_NAME=mydb;HOST=server'',
     ''PostgreSQL://DB_NAME=mydb;HOST=server;USERNAME=meme;PASSWORD=pass'',
     ''PostgreSQL://DB_NAME=mydb;HOST=server;PASSWORD=pass;USERNAME=meme'',
     ''PostgreSQL://DB_NAME=mydb;USERNAME=meme;PASSWORD=pass;HOST=server'',
     ''PostgreSQL://PASSWORD=pass;USERNAME=meme;DB_NAME=mydb;HOST=server'',
     ''PostgreSQL://:pass@USERNAME=meme;DB_NAME=mydb;HOST=server'',
     ''PostgreSQL://:pass@DB_NAME=mydb;HOST=server;USERNAME=meme'']"

theorem connection_string_documented:
  "map (gda_connection_string_split True) documented_strings =
     replicate 10 (Returns \<lparr>cnc_params = Some ''DB_NAME=mydb;HOST=server'', provider = Some ''PostgreSQL'',
                            username = Some ''meme'', password = Some ''pass''\<rparr>)"
  by code_simp

text \<open>Remark: A connection string made of an encoded provider, user name and password and of parameters
  that do not hold authentication keys is split back into its parts; the parameters are kept verbatim,
  even with \<open>@\<close>, \<open>:\<close> or \<open>//\<close> in them.\<close>

theorem connection_string_round_trip:
  assumes "cstring p" and "cstring u" and "cstring w"
    and "strstr (key_text Username) 0 q = None" and "strstr (key_text Password) 0 q = None"
  shows "gda_connection_string_split True
      (rfc1738_encode_loop p @ ''://'' @ (rfc1738_encode_loop u @ CHR '':'' # rfc1738_encode_loop w) @
       CHR ''@'' # q) =
    Returns \<lparr>cnc_params = Some q, provider = Some p, username = Some u, password = Some w\<rparr>"
proof -
  let ?e = "rfc1738_encode_loop p"
  let ?l = "rfc1738_encode_loop u @ CHR '':'' # rfc1738_encode_loop w"
  let ?s = "?e @ ''://'' @ ?l @ CHR ''@'' # q"
  have scan: "cnc_scan ?s 0 None 0 ?s = Some (Some ?e, length ?e + 3, Some (length ?e + 3 + length ?l))"
    by (rule cnc_scan_full) (use assms(1-3) in simp_all)
  have "drop (length ?e + 3) (take (length ?e + 3 + length ?l) ?s) = ?l"
    and "drop (length ?e + 3 + length ?l + 1) ?s = q"
    by (simp_all add: drop_take eval_nat_numeral)
  then show ?thesis
    unfolding gda_connection_string_split_def scan
    using assms by (simp add: login_colon extract_none Let_def)
qed

lemma connection_string_round_trip_witness:
  "gda_connection_string_split True
      (rfc1738_encode_loop ''a/b'' @ ''://'' @ (rfc1738_encode_loop ''me@x'' @ CHR '':'' # rfc1738_encode_loop '''')
       @ CHR ''@'' # ''URL=http://x:1'') =
    Returns \<lparr>cnc_params = Some ''URL=http://x:1'', provider = Some ''a/b'', username = Some ''me@x'',
             password = Some ''''\<rparr>"
  by (rule connection_string_round_trip; code_simp)

text \<open>Remark: An authentication key that starts a parameter, at any place, is taken out of the parameters with
  its value: followed by others, only it is removed; as the last one, the semicolon before it goes
  too. When it is the only parameter the code reads the byte before an empty string, which is undefined.\<close>

theorem authentication_key_extracted:
  assumes "strstr (key_text k) 0 pre = None" and "pre = [] \<or> last pre = CHR '';''"
    and "CHR '';'' \<notin> set v" and "v \<noteq> []" and "post \<noteq> []" and "last post \<noteq> CHR '';''"
  shows "extract_key k 0 (pre @ key_text k @ v @ CHR '';'' # post) = Returns (pre @ post, Some v)
       \<and> extract_key k 0 (pre @ key_text k @ v) = (if pre = [] then Undefined else Returns (butlast pre, Some v))"
  using extract_found [OF assms(1-3), of "CHR '';'' # post"] extract_found [OF assms(1-3), of "[]"] assms
  by (auto simp: strip_last_semicolon_def)

lemma authentication_key_extracted_witness:
  "extract_key Username 0 (''DB=x;'' @ key_text Username @ ''al'' @ CHR '';'' # ''HOST=h'') =
     Returns (''DB=x;HOST=h'', Some ''al'')"
proof -
  have "strstr (key_text Username) 0 ''DB=x;'' = None" by code_simp
  from authentication_key_extracted [OF this, of "''al''" "''HOST=h''"] show ?thesis by simp
qed

text \<open>Remark: A connection string whose only parameter is an authentication key makes the function read
  outside of its block, with any provider and any value of the key.\<close>

theorem connection_string_underrun:
  assumes "cstring p" and "cstring v"
  shows "gda_connection_string_split want
      (rfc1738_encode_loop p @ ''://'' @ key_text k @ rfc1738_encode_loop v) = Undefined"
proof -
  let ?e = "rfc1738_encode_loop p"
  let ?r = "key_text k @ rfc1738_encode_loop v"
  let ?s = "?e @ ''://'' @ ?r"
  have "CHR ''@'' \<notin> set ?r"
    using assms(2) by (cases k) simp_all
  then have scan: "cnc_scan ?s 0 None 0 ?s = Some (Some ?e, length ?e + 3, None)"
    using cnc_scan_provider [OF assms(1), of ?r] cnc_scan_no_at [of ?r "length ?e + 3"] by simp
  have found: "extract_key k 0 ?r = Undefined"
    using extract_found [of k "[]" "rfc1738_encode_loop v" "[]"] assms(2)
    by (simp add: strip_last_semicolon_def)
  have other: "extract_key Username 0 ?r = Returns (?r, None)" if "k = Password"
  proof (rule extract_none)
    have "CHR ''='' \<notin> set (rfc1738_encode_loop v)" using assms(2) by simp
    then show "strstr (key_text Username) 0 ?r = None"
      using that strstr_no_equal [of "rfc1738_encode_loop v" Username] by simp
  qed
  show ?thesis
    unfolding gda_connection_string_split_def scan
    by (cases k) (use found other in \<open>auto simp: Let_def simp del: key_text.simps\<close>)
qed

lemma connection_string_underrun_witness:
  "gda_connection_string_split True ''SQLite://USERNAME=al'' = Undefined"
  using connection_string_underrun [of "''SQLite''" "''al''" True Username]
  by (simp add: rfc1738_enc_def rfc1738_reserved_chars_def rfc1738_unsafe_chars_def char_defs)

end
