(* ===== verification/Gda_Quark_List.thy ===== *)
theory Gda_Quark_List
  imports Gda_Escape "HOL-Library.AList"
begin

unbundle bit_operations_syntax

text \<open>
  Lists of \<open>key=value\<close> pairs (\<open>libgda/gda-quark-list.c\<close>): a hash table with the plain values and one
  in which the values of the keys that name passwords and users are kept XORed with a random block.

  A hash table is an association list with distinct keys: its order is that of the insertions, while
  the order in which GLib enumerates a table is not specified, and no statement depends on it.
\<close>

section \<open>The random block and the protected values\<close>

definition RANDOM_BLOB_SIZE :: nat where "RANDOM_BLOB_SIZE = 1024"

text \<open>
  What the code reads from outside: the draws that fill the random block, the draws of the offsets
  (one for each part of the string that is parsed), and the bytes behind a heap block.
\<close>

record env =
  blob_draw :: "nat \<Rightarrow> nat"
  offset_draw :: "nat \<Rightarrow> nat"
  beyond :: "nat \<Rightarrow> char"

text \<open>\<open>g_random_int_range (lo, hi)\<close>: a number of \<open>[lo, hi)\<close>, and 0 with a warning if that is empty.\<close>

definition g_random_int_range :: "nat \<Rightarrow> int \<Rightarrow> int \<Rightarrow> int" where
  "g_random_int_range draw lo hi = (if lo < hi then lo + int draw mod (hi - lo) else 0)"

definition random_blob :: "env \<Rightarrow> nat \<Rightarrow> char" where
  "random_blob e i = char_of (nat (g_random_int_range (blob_draw e i) 1 255))"

definition xor_char :: "char \<Rightarrow> char \<Rightarrow> char" where
  "xor_char c d = char_of (code c XOR code d)"

record protected_value =
  offset :: nat
  pvalue :: "char list"
  cvalue :: "string option"

definition protected_get_length :: "env \<Rightarrow> char list \<Rightarrow> nat \<Rightarrow> nat" where
  "protected_get_length e str off =
     length (takeWhile (\<lambda>i. xor_char (mem_at (beyond e) str i) (random_blob e (off + i)) \<noteq> NUL)
       [0..<RANDOM_BLOB_SIZE - off - 1])"

definition protected_value_xor :: "env \<Rightarrow> bool \<Rightarrow> protected_value \<Rightarrow> protected_value" where
  "protected_value_xor e to_clear pv =
     (if to_clear then
        (if cvalue pv = None then
           (let l = protected_get_length e (pvalue pv) (offset pv)
            in pv\<lparr>cvalue := Some (map (\<lambda>i. xor_char (pvalue pv ! i) (random_blob e (offset pv + i))) [0..<l])\<rparr>)
         else pv)
      else (if cvalue pv \<noteq> None then pv\<lparr>cvalue := None\<rparr> else pv))"

text \<open>The new value, with the draw for its offset; None when the string is too long.\<close>

definition protected_bytes :: "env \<Rightarrow> nat \<Rightarrow> string \<Rightarrow> char list" where
  "protected_bytes e off clear =
     map (\<lambda>i. xor_char (cat clear i) (random_blob e (off + i))) [0..<length clear + 1]"

definition protected_value_new :: "env \<Rightarrow> nat \<Rightarrow> string \<Rightarrow> protected_value option" where
  "protected_value_new e draw clear =
     (if RANDOM_BLOB_SIZE \<le> length clear then None
      else (let off = nat (g_random_int_range draw 0 (int RANDOM_BLOB_SIZE - int (length clear) - 2))
            in Some \<lparr>offset = off, pvalue = protected_bytes e off clear, cvalue = None\<rparr>))"

section \<open>The list\<close>

record quark_list =
  hash_table :: "(string \<times> string) list option"
  hash_protected :: "(string \<times> protected_value) list option"

definition table :: "('k \<times> 'v) list option \<Rightarrow> ('k \<times> 'v) list" where
  "table h = (case h of None \<Rightarrow> [] | Some t \<Rightarrow> t)"

definition gda_quark_list_new :: quark_list where
  "gda_quark_list_new = \<lparr>hash_table = None, hash_protected = None\<rparr>"

definition gda_quark_list_clear :: "quark_list \<Rightarrow> quark_list" where
  "gda_quark_list_clear q =
     \<lparr>hash_table = map_option (\<lambda>_. []) (hash_table q), hash_protected = map_option (\<lambda>_. []) (hash_protected q)\<rparr>"

definition copy_protected :: "env \<Rightarrow> protected_value \<Rightarrow> protected_value" where
  "copy_protected e p1 =
     (let l = protected_get_length e (pvalue p1) (offset p1)
      in \<lparr>offset = offset p1, pvalue = take (l + 1) (pvalue p1), cvalue = None\<rparr>)"

definition gda_quark_list_copy :: "env \<Rightarrow> quark_list \<Rightarrow> quark_list" where
  "gda_quark_list_copy e q =
     \<lparr>hash_table = hash_table q,
      hash_protected = map_option (map (\<lambda>(k, pv). (k, copy_protected e pv))) (hash_protected q)\<rparr>"

text \<open>\<open>g_ascii_strncasecmp\<close> with the length of the second string.\<close>

definition name_is_protected :: "string \<Rightarrow> bool" where
  "name_is_protected name \<longleftrightarrow>
     map g_ascii_tolower (take 4 name) = ''pass'' \<or> map g_ascii_tolower (take 8 name) = ''username''"

definition insert_plain :: "string \<Rightarrow> string \<Rightarrow> quark_list \<Rightarrow> quark_list" where
  "insert_plain name v q = q\<lparr>hash_table := Some (AList.update name v (table (hash_table q)))\<rparr>"

definition insert_protected :: "string \<Rightarrow> protected_value \<Rightarrow> quark_list \<Rightarrow> quark_list" where
  "insert_protected name pv q =
     q\<lparr>hash_protected := Some (AList.update name pv (table (hash_protected q)))\<rparr>"

definition add_pair :: "env \<Rightarrow> nat \<Rightarrow> quark_list \<Rightarrow> string \<Rightarrow> quark_list" where
  "add_pair e n q seg =
     (if CHR ''='' \<notin> set seg then q
      else
        (let name = rfc1738_decoded (g_strstrip (takeWhile (\<lambda>c. c \<noteq> CHR ''='') seg));
             val = rfc1738_decoded (g_strstrip (tl (dropWhile (\<lambda>c. c \<noteq> CHR ''='') seg)))
         in if \<not> name_is_protected name then insert_plain name val q
            else case protected_value_new e (offset_draw e n) val of
                Some pv \<Rightarrow> insert_protected name pv q
              | None \<Rightarrow> insert_plain name val q))"

text \<open>The loop over the parts stops at the first empty one.\<close>

fun add_segments :: "env \<Rightarrow> nat \<Rightarrow> quark_list \<Rightarrow> string list \<Rightarrow> quark_list" where
  "add_segments e n q [] = q"
| "add_segments e n q (seg # segs) =
     (if seg = [] then q else add_segments e (n + 1) (add_pair e n q seg) segs)"

fun split_on :: "char \<Rightarrow> string \<Rightarrow> string list" where
  "split_on c [] = [[]]"
| "split_on c (x # s) =
     (if x = c then [] # split_on c s else (x # hd (split_on c s)) # tl (split_on c s))"

definition gda_quark_list_add_from_string :: "env \<Rightarrow> quark_list \<Rightarrow> string option \<Rightarrow> bool \<Rightarrow> quark_list" where
  "gda_quark_list_add_from_string e q str cleanup =
     (case str of
        None \<Rightarrow> q
      | Some s \<Rightarrow>
          if s = [] then q
          else add_segments e 0 (if cleanup then gda_quark_list_clear q else q) (split_on CHR '';'' s))"

definition gda_quark_list_new_from_string :: "env \<Rightarrow> string option \<Rightarrow> quark_list" where
  "gda_quark_list_new_from_string e str = gda_quark_list_add_from_string e gda_quark_list_new str False"

definition gda_quark_list_find :: "env \<Rightarrow> quark_list \<Rightarrow> string \<Rightarrow> string option \<times> quark_list" where
  "gda_quark_list_find e q name =
     (case map_of (table (hash_table q)) name of
        Some v \<Rightarrow> (Some v, q)
      | None \<Rightarrow>
          (case map_of (table (hash_protected q)) name of
             Some pv \<Rightarrow>
               (let pv' = protected_value_xor e True pv
                in (cvalue pv', insert_protected name pv' q))
           | None \<Rightarrow> (None, q)))"

definition gda_quark_list_remove :: "quark_list \<Rightarrow> string \<Rightarrow> quark_list" where
  "gda_quark_list_remove q name =
     (if map_of (table (hash_table q)) name \<noteq> None
      then q\<lparr>hash_table := map_option (AList.delete name) (hash_table q)\<rparr>
      else q\<lparr>hash_protected := map_option (AList.delete name) (hash_protected q)\<rparr>)"

text \<open>
  The pairs that \<open>gda_quark_list_foreach\<close> gives to its function. A protected value that is not in
  clear is put in clear for the call only.
\<close>

definition p_foreach :: "env \<Rightarrow> string \<times> protected_value \<Rightarrow> (string \<times> string option) \<times> protected_value" where
  "p_foreach e kp =
     (case kp of (k, pv) \<Rightarrow>
        if cvalue pv \<noteq> None then ((k, cvalue pv), pv)
        else (let pv' = protected_value_xor e True pv in ((k, cvalue pv'), protected_value_xor e False pv')))"

definition gda_quark_list_foreach :: "env \<Rightarrow> quark_list \<Rightarrow> (string \<times> string option) list \<times> quark_list" where
  "gda_quark_list_foreach e q =
     (map (\<lambda>(k, v). (k, Some v)) (table (hash_table q)) @ map (fst \<circ> p_foreach e) (table (hash_protected q)),
      q\<lparr>hash_protected := map_option (map (\<lambda>kp. (fst kp, snd (p_foreach e kp)))) (hash_protected q)\<rparr>)"

definition gda_quark_list_protect_values :: "env \<Rightarrow> quark_list \<Rightarrow> quark_list" where
  "gda_quark_list_protect_values e q =
     q\<lparr>hash_protected := map_option (map (\<lambda>(k, pv).
          (k, if cvalue pv \<noteq> None then protected_value_xor e False pv else pv))) (hash_protected q)\<rparr>"

section \<open>Protecting a value\<close>

lemma code_take_bit: "take_bit 8 (code c) = code c"
  using code_less [of c] by (simp add: take_bit_nat_eq_self_iff)

lemma code_xor_less: "code a XOR code b < 256"
proof -
  have "take_bit 8 (code a XOR code b) = code a XOR code b"
    by (simp add: take_bit_xor code_take_bit)
  then show ?thesis using take_bit_nat_less_exp [of 8 "code a XOR code b"] by simp
qed

lemma xor_char_twice [simp]: "xor_char (xor_char a b) b = a"
  by (simp add: xor_char_def code_xor_less xor.assoc)

lemma xor_char_same: "xor_char a b = a \<longleftrightarrow> b = NUL"
proof
  assume "xor_char a b = a"
  then have "code a XOR code b = code a"
    using code_xor_less code_char_of by (metis xor_char_def)
  then have "code a XOR (code a XOR code b) = 0" by simp
  then have "code b = 0" by (simp add: xor.assoc [symmetric])
  then show "b = NUL" by (simp add: code_NUL)
next
  assume "b = NUL"
  then have "code b = 0" by (simp add: code_NUL)
  then show "xor_char a b = a" by (simp add: xor_char_def)
qed

lemma random_blob_nonzero: "random_blob e i \<noteq> NUL"
proof -
  have "code (random_blob e i) = 1 + blob_draw e i mod 254"
    by (simp add: random_blob_def g_random_int_range_def nat_add_distrib nat_mod_distrib)
  then show ?thesis by (metis Suc_eq_plus1_left code_NUL nat.distinct(1))
qed

text \<open>The length loop finds the length of the text that was protected, inside the block.\<close>

lemma protected_length:
  assumes "cstring s" and "off + length s < RANDOM_BLOB_SIZE"
  shows "protected_get_length e (protected_bytes e off s) off = length s"
proof -
  let ?P = "\<lambda>i. xor_char (mem_at (beyond e) (protected_bytes e off s) i) (random_blob e (off + i)) \<noteq> NUL"
  have c: "xor_char (mem_at (beyond e) (protected_bytes e off s) i) (random_blob e (off + i)) = cat s i"
    if "i \<le> length s" for i
    using that by (simp add: mem_at_def protected_bytes_def del: upt_Suc)
  have "\<forall>i \<in> set [0..<length s]. ?P i"
    using c assms(1) nth_mem by (fastforce simp: cat_def cstring_def)
  moreover have "[0..<RANDOM_BLOB_SIZE - off - 1] = [0..<length s] @ [length s..<RANDOM_BLOB_SIZE - off - 1]"
    using assms(2) upt_add_eq_append [of 0 "length s" "RANDOM_BLOB_SIZE - off - 1 - length s"] by simp
  moreover have "takeWhile ?P [length s..<RANDOM_BLOB_SIZE - off - 1] = []"
    using c [of "length s"] by (cases "length s < RANDOM_BLOB_SIZE - off - 1") (simp_all add: upt_rec cat_def)
  moreover have "takeWhile ?P ([0..<length s] @ r) = [0..<length s] @ takeWhile ?P r" for r
    by (rule takeWhile_append2) (use calculation(1) in blast)
  ultimately show ?thesis
    by (simp only: protected_get_length_def append_Nil2 length_upt diff_zero)
qed

definition unprotect :: "env \<Rightarrow> nat \<Rightarrow> char list \<Rightarrow> string" where
  "unprotect e off m =
     map (\<lambda>i. xor_char (m ! i) (random_blob e (off + i))) [0..<protected_get_length e m off]"

lemma unprotect_protected:
  assumes "cstring s" and "off + length s < RANDOM_BLOB_SIZE"
  shows "unprotect e off (protected_bytes e off s) = s"
proof -
  have "unprotect e off (protected_bytes e off s) = map (cat s) [0..<length s]"
    by (simp add: unprotect_def protected_length [OF assms])
       (simp add: protected_bytes_def del: upt_Suc)
  also have "\<dots> = s"
    by (rule nth_equalityI) (simp_all add: cat_def)
  finally show ?thesis .
qed

interpretation protection: codec
  "protected_bytes e off" "\<lambda>m. Some (unprotect e off m)"
  "\<lambda>s. cstring s \<and> off + length s < RANDOM_BLOB_SIZE"
  for e off
  by unfold_locales (simp add: unprotect_protected)

text \<open>A protected value holds a text, in clear or not.\<close>

definition holds :: "env \<Rightarrow> protected_value \<Rightarrow> string \<Rightarrow> bool" where
  "holds e pv s \<longleftrightarrow>
     cstring s \<and> offset pv + length s < RANDOM_BLOB_SIZE \<and>
     pvalue pv = protected_bytes e (offset pv) s \<and> (cvalue pv = None \<or> cvalue pv = Some s)"

lemma offset_bound:
  assumes "l < RANDOM_BLOB_SIZE"
  shows "nat (g_random_int_range d 0 (int RANDOM_BLOB_SIZE - int l - 2)) + l < RANDOM_BLOB_SIZE"
proof (cases "0 < int RANDOM_BLOB_SIZE - int l - 2")
  case True
  then have "int d mod (int RANDOM_BLOB_SIZE - int l - 2) < int RANDOM_BLOB_SIZE - int l - 2"
    by simp
  then have "nat (int d mod (int RANDOM_BLOB_SIZE - int l - 2)) + l + 2 < RANDOM_BLOB_SIZE"
    using True by linarith
  then show ?thesis using True by (simp add: g_random_int_range_def)
qed (use assms in \<open>simp add: g_random_int_range_def\<close>)

lemma value_new_holds:
  assumes "cstring s" and "length s < RANDOM_BLOB_SIZE"
  shows "\<exists>pv. protected_value_new e d s = Some pv \<and> holds e pv s \<and> cvalue pv = None"
  using assms offset_bound [OF assms(2), of d]
  by (simp add: protected_value_new_def holds_def Let_def)

lemma xor_holds:
  assumes "holds e pv s"
  shows "cvalue (protected_value_xor e True pv) = Some s"
    and "holds e (protected_value_xor e b pv) s"
    and "cvalue (protected_value_xor e False pv) = None"
proof -
  have "unprotect e (offset pv) (pvalue pv) = s"
    using assms unprotect_protected by (simp add: holds_def)
  with assms show "cvalue (protected_value_xor e True pv) = Some s"
    and "holds e (protected_value_xor e b pv) s"
    and "cvalue (protected_value_xor e False pv) = None"
    by (auto simp: protected_value_xor_def holds_def unprotect_def Let_def)
qed

lemma copy_holds:
  assumes "holds e pv s"
  shows "holds e (copy_protected e pv) s \<and> cvalue (copy_protected e pv) = None"
proof -
  have "protected_get_length e (pvalue pv) (offset pv) = length s"
    using assms protected_length by (simp add: holds_def)
  then show ?thesis using assms by (simp add: holds_def copy_protected_def protected_bytes_def del: upt_Suc)
qed

lemma holds_inject: "holds e pv s \<Longrightarrow> holds e pv s' \<Longrightarrow> s = s'"
  by (metis option.inject xor_holds(1))

section \<open>The list as a map\<close>

definition clear_of :: "env \<Rightarrow> protected_value \<Rightarrow> string" where
  "clear_of e pv = unprotect e (offset pv) (pvalue pv)"

definition contents :: "env \<Rightarrow> quark_list \<Rightarrow> string \<Rightarrow> string option" where
  "contents e q k =
     (case map_of (table (hash_table q)) k of
        Some v \<Rightarrow> Some v
      | None \<Rightarrow> map_option (clear_of e) (map_of (table (hash_protected q)) k))"

definition quark_wf :: "env \<Rightarrow> quark_list \<Rightarrow> bool" where
  "quark_wf e q \<longleftrightarrow>
     distinct (map fst (table (hash_table q))) \<and> distinct (map fst (table (hash_protected q))) \<and>
     (\<forall>k v. map_of (table (hash_table q)) k = Some v \<longrightarrow> name_is_protected k \<longrightarrow> RANDOM_BLOB_SIZE \<le> length v) \<and>
     (\<forall>k pv. map_of (table (hash_protected q)) k = Some pv \<longrightarrow>
        name_is_protected k \<and> holds e pv (clear_of e pv))"

lemma holds_clear_of: "holds e pv s \<Longrightarrow> clear_of e pv = s"
  by (simp add: holds_def clear_of_def unprotect_protected)

lemma xor_clear_of:
  assumes "holds e pv (clear_of e pv)"
  shows "clear_of e (protected_value_xor e b pv) = clear_of e pv"
    and "holds e (protected_value_xor e b pv) (clear_of e pv)"
  using xor_holds(2) [OF assms, of b] holds_clear_of by auto

lemma table_simps [simp]: "table None = []" "table (Some t) = t"
  "table (map_option f h) = (case h of None \<Rightarrow> [] | Some t \<Rightarrow> f t)"
  by (simp_all add: table_def split: option.split)

lemma case_table [simp]: "(case h of None \<Rightarrow> [] | Some t \<Rightarrow> map f t) = map f (table h)"
  "(case h of None \<Rightarrow> [] | Some t \<Rightarrow> AList.delete k t) = AList.delete k (table h)"
  by (simp_all add: table_def split: option.split)

lemma map_of_map_snd:
  "map_of (map (\<lambda>(k, v). (k, f v)) t) k = map_option f (map_of t k)"
  by (induction t) auto

text \<open>Replacing every protected value by one that holds the same text changes nothing.\<close>

lemma update_protected:
  assumes "quark_wf e q"
    and "\<And>pv. holds e pv (clear_of e pv) \<Longrightarrow> holds e (f pv) (clear_of e pv)"
  shows "quark_wf e (q\<lparr>hash_protected := map_option (map (\<lambda>(k, pv). (k, f pv))) (hash_protected q)\<rparr>)
    \<and> contents e (q\<lparr>hash_protected := map_option (map (\<lambda>(k, pv). (k, f pv))) (hash_protected q)\<rparr>) =
      contents e q"
proof -
  let ?q = "q\<lparr>hash_protected := map_option (map (\<lambda>(k, pv). (k, f pv))) (hash_protected q)\<rparr>"
  have keys: "fst \<circ> (\<lambda>(k :: string, pv). (k, f pv)) = fst" by auto
  have c: "clear_of e (f pv) = clear_of e pv" if "holds e pv (clear_of e pv)" for pv
    using holds_clear_of assms(2) that by blast
  have "contents e ?q k = contents e q k" for k
    using assms(1) c
    by (cases "map_of (table (hash_protected q)) k")
       (auto simp: quark_wf_def contents_def map_of_map_snd split: option.split)
  then show ?thesis
    using assms c keys by (auto simp: quark_wf_def map_of_map_snd)
qed

lemma find_contents:
  assumes "quark_wf e q"
  shows "fst (gda_quark_list_find e q k) = contents e q k
    \<and> quark_wf e (snd (gda_quark_list_find e q k))
    \<and> contents e (snd (gda_quark_list_find e q k)) = contents e q"
proof (cases "map_of (table (hash_table q)) k")
  case (Some v)
  then show ?thesis using assms by (simp add: gda_quark_list_find_def contents_def)
next
  case plain: None
  show ?thesis
  proof (cases "map_of (table (hash_protected q)) k")
    case None
    then show ?thesis using plain assms by (simp add: gda_quark_list_find_def contents_def)
  next
    case (Some pv)
    then have pv: "holds e pv (clear_of e pv)" "name_is_protected k"
      using assms by (auto simp: quark_wf_def)
    from xor_clear_of [OF pv(1), of True] xor_holds(1) [OF pv(1)] Some plain assms pv(2)
    show ?thesis
      by (auto simp: gda_quark_list_find_def contents_def quark_wf_def insert_protected_def
          AList.update_conv' AList.distinct_update fun_eq_iff Let_def split: option.split)
  qed
qed

lemma same_finds:
  "quark_wf e q \<Longrightarrow> quark_wf e q' \<and> contents e q' = contents e q \<Longrightarrow>
   fst (gda_quark_list_find e q' k) = fst (gda_quark_list_find e q k)"
  using find_contents by simp

text \<open>Adding a formatted pair.\<close>

definition quark :: "string \<times> string \<Rightarrow> string" where
  "quark kv = rfc1738_encode_loop (fst kv) @ CHR ''='' # rfc1738_encode_loop (snd kv)"

lemma enc_no_space: "c \<in> set (rfc1738_encode_loop s) \<Longrightarrow> \<not> g_ascii_isspace c"
proof -
  have "code (CHR '' '') = 32" "code (CHR ''%'') = 37" by (simp_all add: code_def)
  then show "c \<in> set (rfc1738_encode_loop s) \<Longrightarrow> \<not> g_ascii_isspace c"
    using code_inject [of c "CHR '' ''"] rfc1738_encode_safe [of c s]
    by (auto simp: rfc1738_enc_def rfc1738_unsafe_chars_def g_ascii_isspace_def)
qed

lemma strip_enc [simp]: "g_strstrip (rfc1738_encode_loop s) = rfc1738_encode_loop s"
  by (rule g_strstrip_plain) (use enc_no_space in blast)

lemma enc_no_sep [simp]:
  "CHR ''='' \<notin> set (rfc1738_encode_loop s)" "CHR '';'' \<notin> set (rfc1738_encode_loop s)"
  by (auto dest!: rfc1738_encode_safe simp: rfc1738_enc_def rfc1738_reserved_chars_def)

lemma add_quark:
  assumes "cstring k" and "cstring v"
  shows "add_pair e n q (quark (k, v)) =
     (if \<not> name_is_protected k then insert_plain k v q
      else case protected_value_new e (offset_draw e n) v of
          Some pv \<Rightarrow> insert_protected k pv q
        | None \<Rightarrow> insert_plain k v q)"
  using assms
  by (simp add: add_pair_def quark_def Let_def)

text \<open>
  The law of insertion: the new pair wins, except that a protected value does not replace a value
  that was too long to be protected.
\<close>

definition shadowed :: "quark_list \<Rightarrow> string \<times> string \<Rightarrow> bool" where
  "shadowed q kv \<longleftrightarrow>
     name_is_protected (fst kv) \<and> length (snd kv) < RANDOM_BLOB_SIZE \<and>
     map_of (table (hash_table q)) (fst kv) \<noteq> None"

lemma insert_plain_contents:
  assumes "quark_wf e q" and "name_is_protected k \<longrightarrow> RANDOM_BLOB_SIZE \<le> length v"
  shows "quark_wf e (insert_plain k v q) \<and> contents e (insert_plain k v q) = (contents e q)(k \<mapsto> v)"
  using assms
  by (auto simp: quark_wf_def contents_def insert_plain_def AList.update_conv' AList.distinct_update
      fun_eq_iff split: option.split)

lemma insert_protected_contents:
  assumes "quark_wf e q" and "name_is_protected k" and "holds e pv v"
    and "map_of (table (hash_table q)) k = None"
  shows "quark_wf e (insert_protected k pv q) \<and> contents e (insert_protected k pv q) = (contents e q)(k \<mapsto> v)"
  using assms holds_clear_of [OF assms(3)]
  by (auto simp: quark_wf_def contents_def insert_protected_def AList.update_conv' AList.distinct_update
      fun_eq_iff split: option.split)

lemma insert_shadowed:
  assumes "quark_wf e q" and "name_is_protected k" and "holds e pv v"
    and "map_of (table (hash_table q)) k \<noteq> None"
  shows "quark_wf e (insert_protected k pv q) \<and> contents e (insert_protected k pv q) = contents e q"
  using assms holds_clear_of [OF assms(3)]
  by (auto simp: quark_wf_def contents_def insert_protected_def AList.update_conv' AList.distinct_update
      fun_eq_iff split: option.split)

lemma add_quark_contents:
  assumes "quark_wf e q" and "cstring k" and "cstring v"
  shows "quark_wf e (add_pair e n q (quark (k, v))) \<and>
    contents e (add_pair e n q (quark (k, v))) =
      (if shadowed q (k, v) then contents e q else (contents e q)(k \<mapsto> v))"
proof (cases "name_is_protected k \<and> length v < RANDOM_BLOB_SIZE")
  case True
  from value_new_holds [OF assms(3), of e "offset_draw e n"] True obtain pv where
    "protected_value_new e (offset_draw e n) v = Some pv" "holds e pv v" by auto
  then show ?thesis
    using True assms insert_protected_contents [OF assms(1)] insert_shadowed [OF assms(1)]
    by (auto simp: add_quark shadowed_def)
next
  case False
  then have "add_pair e n q (quark (k, v)) = insert_plain k v q"
    using assms by (auto simp: add_quark protected_value_new_def)
  then show ?thesis
    using insert_plain_contents [OF assms(1), of k v] False by (auto simp: shadowed_def)
qed

section \<open>Strings with several parts\<close>

fun joined :: "string list \<Rightarrow> string" where
  "joined [] = []"
| "joined [s] = s"
| "joined (s # t # ss) = s @ CHR '';'' # joined (t # ss)"

lemma split_on_append [simp]:
  "c \<notin> set s \<Longrightarrow> split_on c (s @ c # r) = s # split_on c r"
  "c \<notin> set s \<Longrightarrow> split_on c s = [s]"
  by (induction s) auto

lemma split_on_joined:
  "ss \<noteq> [] \<Longrightarrow> \<forall>s \<in> set ss. CHR '';'' \<notin> set s \<Longrightarrow> split_on CHR '';'' (joined ss) = ss"
  by (induction ss rule: joined.induct) auto

lemma joined_nonempty: "ss \<noteq> [] \<Longrightarrow> hd ss \<noteq> [] \<Longrightarrow> joined ss \<noteq> []"
  by (induction ss rule: joined.induct) auto

lemma quark_props [simp]: "quark kv \<noteq> []" "CHR '';'' \<notin> set (quark kv)"
  by (simp_all add: quark_def)

lemma add_segments_contents:
  assumes "quark_wf e q" and "distinct (map fst kvs)" and "\<forall>kv \<in> set kvs. cstring (fst kv) \<and> cstring (snd kv)"
    and "\<forall>kv \<in> set kvs. contents e q (fst kv) = None"
  shows "quark_wf e (add_segments e n q (map quark kvs)) \<and>
    contents e (add_segments e n q (map quark kvs)) = contents e q ++ map_of kvs"
  using assms
proof (induction kvs arbitrary: n q)
  case (Cons kv kvs)
  obtain k v where kv: "kv = (k, v)" by (cases kv)
  have "contents e q k = None" using Cons.prems(4) kv by simp
  then have "\<not> shadowed q (k, v)"
    by (auto simp: shadowed_def contents_def split: option.splits)
  with add_quark_contents [OF Cons.prems(1), of k v n] Cons.prems(3) kv
  have step: "quark_wf e (add_pair e n q (quark kv))"
    "contents e (add_pair e n q (quark kv)) = (contents e q)(k \<mapsto> v)" by simp_all
  have "k \<notin> dom (map_of kvs)" using Cons.prems(2) kv by (simp add: dom_map_of_conv_image_fst)
  moreover have "\<forall>kv \<in> set kvs. contents e (add_pair e n q (quark kv')) (fst kv) = None" if "kv' = kv" for kv'
    using Cons.prems(2,4) step(2) kv that by force
  ultimately have "quark_wf e (add_segments e n q (map quark (kv # kvs))) \<and>
      contents e (add_segments e n q (map quark (kv # kvs))) = (contents e q)(k \<mapsto> v) ++ map_of kvs"
    using Cons.IH [OF step(1), of "n + 1"] Cons.prems(2,3) step(2) by (simp del: fun_upd_apply)
  moreover have "(contents e q)(k \<mapsto> v) ++ map_of kvs = contents e q ++ map_of (kv # kvs)"
    using \<open>k \<notin> dom (map_of kvs)\<close> by (simp add: map_add_upd_left kv)
  ultimately show ?case by (simp only: simp_thms)
qed simp

lemma add_segments_empty_part:
  "\<forall>s \<in> set ss. s \<noteq> [] \<Longrightarrow> add_segments e n q (ss @ [] # rest) = add_segments e n q ss"
  by (induction ss arbitrary: n q) auto

lemma new_wf: "quark_wf e gda_quark_list_new" "contents e gda_quark_list_new = Map.empty"
  by (simp_all add: quark_wf_def gda_quark_list_new_def contents_def fun_eq_iff)

lemma add_string_contents:
  assumes "quark_wf e q" and "cstring k" and "cstring v"
  shows "quark_wf e (gda_quark_list_add_from_string e q (Some (quark (k, v))) False) \<and>
    contents e (gda_quark_list_add_from_string e q (Some (quark (k, v))) False) =
      (if shadowed q (k, v) then contents e q else (contents e q)(k \<mapsto> v))"
  using add_quark_contents [OF assms, of 0]
  by (simp add: gda_quark_list_add_from_string_def)

lemma remove_contents:
  assumes "quark_wf e q"
  shows "quark_wf e (gda_quark_list_remove q k) \<and>
    contents e (gda_quark_list_remove q k) =
      (contents e q)(k := if map_of (table (hash_table q)) k = None then None
                          else map_option (clear_of e) (map_of (table (hash_protected q)) k))"
proof (cases "map_of (table (hash_table q)) k")
  case None
  with assms show ?thesis
    by (auto simp: quark_wf_def contents_def gda_quark_list_remove_def AList.delete_conv'
        AList.distinct_delete fun_eq_iff simp del: map_of_eq_Some_iff split: option.split if_splits)
next
  case (Some v)
  with assms show ?thesis
    by (auto simp: quark_wf_def contents_def gda_quark_list_remove_def AList.delete_conv'
        AList.distinct_delete fun_eq_iff simp del: map_of_eq_Some_iff split: option.split if_splits)
qed

definition sample_env :: env where
  "sample_env = \<lparr>blob_draw = (\<lambda>i. 7 * i + 3), offset_draw = (\<lambda>n. 11 * n), beyond = (\<lambda>_. NUL)\<rparr>"

section \<open>Properties\<close>

text \<open>C7: A list made from a string of encoded \<open>key=value\<close> parts with distinct keys holds exactly these
  pairs: looking a key up gives its value, protected or not, of any length, and any other key is not
  found.\<close>

theorem quark_list_round_trip:
  assumes "distinct (map fst kvs)" and "\<forall>kv \<in> set kvs. cstring (fst kv) \<and> cstring (snd kv)"
  shows "fst (gda_quark_list_find e (gda_quark_list_new_from_string e (Some (joined (map quark kvs)))) k) =
    map_of kvs k"
proof (cases "kvs = []")
  case True
  then show ?thesis
    by (simp add: gda_quark_list_new_from_string_def gda_quark_list_add_from_string_def
        gda_quark_list_find_def gda_quark_list_new_def)
next
  case False
  then have ne: "map quark kvs \<noteq> []" "hd (map quark kvs) \<noteq> []" by (simp_all add: list.map_sel)
  have "gda_quark_list_new_from_string e (Some (joined (map quark kvs))) =
      add_segments e 0 gda_quark_list_new (map quark kvs)"
    using joined_nonempty [OF ne] split_on_joined [OF ne(1)]
    by (simp add: gda_quark_list_new_from_string_def gda_quark_list_add_from_string_def)
  moreover have "quark_wf e (add_segments e 0 gda_quark_list_new (map quark kvs)) \<and>
      contents e (add_segments e 0 gda_quark_list_new (map quark kvs)) = Map.empty ++ map_of kvs"
    using add_segments_contents [OF new_wf(1) assms, of e 0] by (simp add: new_wf)
  ultimately show ?thesis
    using find_contents by simp
qed

lemma quark_list_round_trip_witness:
  "fst (gda_quark_list_find sample_env (gda_quark_list_new_from_string sample_env
     (Some (joined (map quark [(''DB'', ''a;b''), (''PASSWORD'', ''x=y'')])))) ''PASSWORD'') = Some ''x=y''"
  by (subst quark_list_round_trip) auto

text \<open>Remark: The laws of insertion and removal on a well-formed list. Adding one encoded pair makes its key have
  the new value and keeps the other keys, except that a value of a protected key never replaces an
  earlier one that was too long to be protected: the old value stays. Removing a key removes it, unless
  it has both a plain and a protected value: then the protected one comes back.\<close>

theorem quark_list_insert_remove:
  assumes "quark_wf e q" and "cstring k" and "cstring v"
  shows "fst (gda_quark_list_find e (gda_quark_list_add_from_string e q (Some (quark (k, v))) False) k') =
      (if k' = k \<and> \<not> shadowed q (k, v) then Some v else fst (gda_quark_list_find e q k')) \<and>
    fst (gda_quark_list_find e (gda_quark_list_remove q k) k') =
      (if k' \<noteq> k then fst (gda_quark_list_find e q k')
       else if map_of (table (hash_table q)) k = None then None
       else map_option (clear_of e) (map_of (table (hash_protected q)) k))"
  using find_contents [OF assms(1)] add_string_contents [OF assms] remove_contents [OF assms(1), of k]
    find_contents [of e "gda_quark_list_remove q k"]
    find_contents [of e "gda_quark_list_add_from_string e q (Some (quark (k, v))) False"]
  by simp

lemma quark_list_insert_remove_witness:
  "fst (gda_quark_list_find sample_env (gda_quark_list_add_from_string sample_env gda_quark_list_new
     (Some (quark (''username'', ''me''))) False) ''username'') = Some ''me''"
  using quark_list_insert_remove [OF new_wf(1), of "''username''" "''me''"]
  by (simp add: shadowed_def gda_quark_list_new_def)

text \<open>Remark: A value shorter than the random block is protected so that its offset keeps it inside the block,
  no byte of the stored text is the one of the clear text, and unmangling gives the value back; a
  longer value is refused.\<close>

theorem protected_value_round_trip:
  assumes "cstring s"
  shows "(case protected_value_new e d s of
      None \<Rightarrow> RANDOM_BLOB_SIZE \<le> length s
    | Some pv \<Rightarrow>
        length s < RANDOM_BLOB_SIZE \<and> length (pvalue pv) = length s + 1 \<and>
        offset pv + length (pvalue pv) \<le> RANDOM_BLOB_SIZE \<and>
        list_all (\<lambda>i. pvalue pv ! i \<noteq> cat s i) [0..<length (pvalue pv)] \<and>
        cvalue pv = None \<and> cvalue (protected_value_xor e True pv) = Some s)"
proof (cases "protected_value_new e d s")
  case None
  then show ?thesis by (simp add: protected_value_new_def Let_def split: if_splits)
next
  case (Some pv)
  then have len: "length s < RANDOM_BLOB_SIZE"
    by (simp add: protected_value_new_def split: if_splits)
  from value_new_holds [OF assms len, of e d] Some have pv: "holds e pv s" "cvalue pv = None" by auto
  then have "list_all (\<lambda>i. pvalue pv ! i \<noteq> cat s i) [0..<length (pvalue pv)]"
    by (simp add: holds_def protected_bytes_def list_all_iff xor_char_same random_blob_nonzero del: upt_Suc)
  with pv len Some xor_holds(1) [OF pv(1)] show ?thesis
    by (simp add: holds_def protected_bytes_def)
qed

lemma protected_value_round_trip_witness:
  "map_option (\<lambda>pv. cvalue (protected_value_xor sample_env True pv)) (protected_value_new sample_env 5 ''secret'') =
     Some (Some ''secret'')"
  using protected_value_round_trip [of "''secret''" sample_env 5]
  by (auto simp: RANDOM_BLOB_SIZE_def split: option.splits)

text \<open>Remark: Protecting the values, copying the list and going over all its pairs keep what every key finds;
  after protecting or copying no protected value is left in clear.\<close>

theorem quark_list_protect_copy:
  assumes "quark_wf e q"
  shows "fst (gda_quark_list_find e (gda_quark_list_protect_values e q) k) = fst (gda_quark_list_find e q k) \<and>
    fst (gda_quark_list_find e (gda_quark_list_copy e q) k) = fst (gda_quark_list_find e q k) \<and>
    fst (gda_quark_list_find e (snd (gda_quark_list_foreach e q)) k) = fst (gda_quark_list_find e q k) \<and>
    list_all (\<lambda>kp. cvalue (snd kp) = None) (table (hash_protected (gda_quark_list_protect_values e q))) \<and>
    list_all (\<lambda>kp. cvalue (snd kp) = None) (table (hash_protected (gda_quark_list_copy e q)))"
proof -
  let ?f = "\<lambda>pv. if cvalue pv \<noteq> None then protected_value_xor e False pv else pv"
  have f: "holds e (?f pv) (clear_of e pv)" if "holds e pv (clear_of e pv)" for pv
    using xor_clear_of(2) [OF that] that by simp
  have g: "holds e (snd (p_foreach e (k, pv))) (clear_of e pv)" if "holds e pv (clear_of e pv)" for pv k
    using xor_holds(2) [OF xor_holds(2) [OF that]] that by (simp add: p_foreach_def Let_def)
  have key: "snd (p_foreach e kp) = snd (p_foreach e ([], snd kp))" for kp
    by (cases kp) (simp add: p_foreach_def Let_def)
  have "(\<lambda>kp. (fst kp, snd (p_foreach e kp))) = (\<lambda>(k, pv). (k, snd (p_foreach e ([], pv))))"
    using key by (auto simp: fun_eq_iff)
  then have fe: "snd (gda_quark_list_foreach e q) =
      q\<lparr>hash_protected := map_option (map (\<lambda>(k, pv). (k, snd (p_foreach e ([], pv))))) (hash_protected q)\<rparr>"
    by (simp add: gda_quark_list_foreach_def)
  have cp: "gda_quark_list_copy e q =
      q\<lparr>hash_protected := map_option (map (\<lambda>(k, pv). (k, copy_protected e pv))) (hash_protected q)\<rparr>"
    by (simp add: gda_quark_list_copy_def)
  have "list_all (\<lambda>kp. cvalue (snd kp) = None) (table (hash_protected (gda_quark_list_protect_values e q)))"
    by (auto simp: gda_quark_list_protect_values_def list_all_iff protected_value_xor_def)
  moreover have "list_all (\<lambda>kp. cvalue (snd kp) = None) (table (hash_protected (gda_quark_list_copy e q)))"
    by (auto simp: gda_quark_list_copy_def list_all_iff copy_protected_def Let_def)
  moreover have "fst (gda_quark_list_find e (gda_quark_list_protect_values e q) k) = fst (gda_quark_list_find e q k)"
    unfolding gda_quark_list_protect_values_def by (rule same_finds [OF assms update_protected [OF assms f]])
  moreover have "fst (gda_quark_list_find e (gda_quark_list_copy e q) k) = fst (gda_quark_list_find e q k)"
    unfolding cp by (rule same_finds [OF assms update_protected [OF assms]]) (simp add: copy_holds)
  moreover have "fst (gda_quark_list_find e (snd (gda_quark_list_foreach e q)) k) = fst (gda_quark_list_find e q k)"
    unfolding fe by (rule same_finds [OF assms update_protected [OF assms g]])
  ultimately show ?thesis by simp
qed

lemma quark_list_protect_copy_witness:
  "fst (gda_quark_list_find sample_env (gda_quark_list_protect_values sample_env
     (gda_quark_list_new_from_string sample_env (Some (quark (''PASS'', ''x''))))) ''PASS'') = Some ''x''"
proof -
  have "quark_wf sample_env (gda_quark_list_new_from_string sample_env (Some (quark (''PASS'', ''x''))))"
    using add_string_contents [OF new_wf(1), of "''PASS''" "''x''" sample_env]
    by (simp add: gda_quark_list_new_from_string_def)
  from quark_list_protect_copy [OF this, of "''PASS''"] find_contents [OF this, of "''PASS''"]
    add_string_contents [OF new_wf(1), of "''PASS''" "''x''" sample_env]
  show ?thesis by (simp add: gda_quark_list_new_from_string_def shadowed_def gda_quark_list_new_def)
qed

text \<open>Remark: An empty part ends the parsing: the parts after two semicolons in a row are ignored, silently.\<close>

theorem quark_list_empty_part:
  assumes "ss \<noteq> []" and "\<forall>s \<in> set ss. s \<noteq> [] \<and> CHR '';'' \<notin> set s"
    and "\<forall>s \<in> set rest. CHR '';'' \<notin> set s"
  shows "gda_quark_list_add_from_string e q (Some (joined (ss @ [] # rest))) cleanup =
    gda_quark_list_add_from_string e q (Some (joined ss)) cleanup"
proof -
  have "joined ss \<noteq> []" "joined (ss @ [] # rest) \<noteq> []"
    by (rule joined_nonempty; use assms in \<open>auto simp: hd_append\<close>)+
  moreover have "split_on CHR '';'' (joined (ss @ [] # rest)) = ss @ [] # rest"
    by (rule split_on_joined) (use assms in auto)
  moreover have "split_on CHR '';'' (joined ss) = ss"
    by (rule split_on_joined) (use assms in auto)
  ultimately show ?thesis
    using add_segments_empty_part [of ss] assms(2) by (simp add: gda_quark_list_add_from_string_def)
qed

lemma quark_list_empty_part_witness:
  "gda_quark_list_add_from_string sample_env gda_quark_list_new (Some ''A=1;;B=2'') False =
   gda_quark_list_add_from_string sample_env gda_quark_list_new (Some ''A=1'') False"
  using quark_list_empty_part [of "[''A=1'']" "[''B=2'']" sample_env gda_quark_list_new False] by simp

end
