(* ===== verification/Gda_Datetime.thy ===== *)
theory Gda_Datetime
  imports Gda_Prelude
begin

text \<open>
  Dates, times and time stamps: the parsers of \<open>libgda/gda-util.c\<close> (\<open>gda_parse_iso8601_date\<close> and the
  like) and, from \<open>libgda/gda-value.c\<close>, the conversions to and from strings, the validity checks and
  the changes of time zone.

  Integers have the widths of the code on a 64 bit target: \<open>gulong\<close> wraps at \<open>2 ^ 64\<close>, \<open>guint16\<close> at
  \<open>2 ^ 16\<close>, and \<open>gshort\<close> is signed. The calendar is GLib's: a parameter of the model.
\<close>

section \<open>Data\<close>

record gda_time =
  tm_hour :: nat
  tm_minute :: nat
  tm_second :: nat
  tm_fraction :: nat
  tm_timezone :: int

record gda_timestamp =
  ts_year :: int
  ts_month :: nat
  ts_day :: nat
  ts_hour :: nat
  ts_minute :: nat
  ts_second :: nat
  ts_fraction :: nat
  ts_timezone :: int

definition GDA_TIMEZONE_INVALID :: int where "GDA_TIMEZONE_INVALID = 2 * 12 * 60 * 60"

definition ULONG :: nat where "ULONG = 2 ^ 64"

definition time0 :: "int \<Rightarrow> gda_time" where
  "time0 tz = \<lparr>tm_hour = 0, tm_minute = 0, tm_second = 0, tm_fraction = 0, tm_timezone = tz\<rparr>"

text \<open>A \<open>GDateYear\<close> stored in the \<open>gshort\<close> field of a time stamp.\<close>

definition gshort :: "nat \<Rightarrow> int" where
  "gshort y = (if y mod 2 ^ 16 < 2 ^ 15 then int (y mod 2 ^ 16) else int (y mod 2 ^ 16) - 2 ^ 16)"

text \<open>
  The functions of GLib on dates, as year, month and day: \<open>g_date_valid_dmy\<close>, \<open>g_date_add_days\<close> and
  \<open>g_date_subtract_days\<close> with one day; and what \<open>g_time_zone_new\<close> and
  \<open>g_time_zone_get_offset\<close> find for a time zone name.
\<close>

type_synonym ymd = "nat \<times> nat \<times> nat"

record glib =
  g_date_valid :: "ymd \<Rightarrow> bool"
  g_date_next :: "ymd \<Rightarrow> ymd"
  g_date_previous :: "ymd \<Rightarrow> ymd"
  g_time_zone_offset :: "string \<Rightarrow> int option"

section \<open>Parsing dates\<close>

datatype dmy = G_DATE_DAY | G_DATE_MONTH | G_DATE_YEAR | OtherDMY

text \<open>
  The digit loops of \<open>_parse_formatted_date\<close>. Their condition \<open>iter < 4\<close> never fails, as \<open>iter\<close>
  is not incremented.
\<close>

fun date_digits :: "nat \<Rightarrow> string \<Rightarrow> nat \<times> string" where
  "date_digits tmp [] = (tmp, [])"
| "date_digits tmp (c # s) =
     (if is_digit c then date_digits ((tmp * 10 + digit_val c) mod ULONG) s else (tmp, c # s))"

definition date_value :: "string \<Rightarrow> nat \<times> string" where
  "date_value s = (case date_digits 0 s of (tmp, r) \<Rightarrow> (tmp mod 2 ^ 16, r))"

text \<open>
  The date parsed and the text after it. The separator is not NUL, as the comment of the function
  requires.
\<close>

definition parse_formatted_date ::
    "glib \<Rightarrow> string \<Rightarrow> dmy \<Rightarrow> dmy \<Rightarrow> dmy \<Rightarrow> char \<Rightarrow> (ymd \<times> string) option" where
  "parse_formatted_date g s first second third sep =
     (if first = second \<or> first = third \<or> second = third then None
      else if is_digit sep then None
      else (case date_value s of (v0, r0) \<Rightarrow>
        if cat r0 0 \<noteq> sep then None
        else (case date_value (tl r0) of (v1, r1) \<Rightarrow>
          if cat r1 0 \<noteq> sep then None
          else (case date_value (tl r1) of (v2, r2) \<Rightarrow>
            if first = OtherDMY \<or> second = OtherDMY \<or> third = OtherDMY then None
            else
              (let field = (\<lambda>f. if first = f then v0 else if second = f then v1 else v2);
                   year = field G_DATE_YEAR; month = field G_DATE_MONTH; day = field G_DATE_DAY
               in if month = 0 \<or> 12 < month \<or> day = 0 \<or> 255 < day then None
                  else if g_date_valid g (year, month, day) then Some ((year, month, day), r2)
                  else None)))))"

definition gda_parse_formatted_date ::
    "glib \<Rightarrow> string option \<Rightarrow> dmy \<Rightarrow> dmy \<Rightarrow> dmy \<Rightarrow> char \<Rightarrow> ymd option" where
  "gda_parse_formatted_date g val first second third sep =
     (case val of
        None \<Rightarrow> None
      | Some s \<Rightarrow> (case parse_formatted_date g s first second third sep of
                    Some (d, []) \<Rightarrow> Some d
                  | _ \<Rightarrow> None))"

definition gda_parse_iso8601_date :: "glib \<Rightarrow> string option \<Rightarrow> ymd option" where
  "gda_parse_iso8601_date g val =
     gda_parse_formatted_date g val G_DATE_YEAR G_DATE_MONTH G_DATE_DAY (CHR ''-'')"

section \<open>Parsing times\<close>

text \<open>The loops that read at most two digits, with the largest value accepted.\<close>

fun two_digits :: "nat \<Rightarrow> nat \<Rightarrow> nat \<Rightarrow> string \<Rightarrow> (nat \<times> string) option" where
  "two_digits lim iter tmp [] = Some (tmp, [])"
| "two_digits lim iter tmp (c # s) =
     (if is_digit c \<and> iter < 2 then
        (let t = tmp * 10 + digit_val c in if lim < t then None else two_digits lim (iter + 1) t s)
      else Some (tmp, c # s))"

fun fraction_digits :: "nat \<Rightarrow> string \<Rightarrow> (nat \<times> string) option" where
  "fraction_digits tmp [] = Some (tmp, [])"
| "fraction_digits tmp (c # s) =
     (if is_digit c then
        (if (ULONG - 1) div 10 < tmp then None
         else fraction_digits ((tmp * 10 + digit_val c) mod ULONG) s)
      else Some (tmp, c # s))"

fun zone_digits :: "nat \<Rightarrow> string \<Rightarrow> (nat \<times> string) option" where
  "zone_digits tmp [] = Some (tmp, [])"
| "zone_digits tmp (c # s) =
     (if is_digit c then
        (let t = tmp * 10 + digit_val c in if 24 \<le> t then None else zone_digits t s)
      else Some (tmp, c # s))"

text \<open>The zone names that are compared, in the order of the code.\<close>

definition is_one_of :: "char \<Rightarrow> string \<Rightarrow> bool" where
  "is_one_of c cs \<longleftrightarrow> c \<in> set cs"

definition zone_name :: "glib \<Rightarrow> string \<Rightarrow> int option" where
  "zone_name g s =
     (if length s = 3 \<and> is_one_of (cat s 0) ''Gg'' \<and> is_one_of (cat s 1) ''Mm'' \<and> is_one_of (cat s 2) ''Tt''
      then Some 0
      else if length s = 3 \<and> is_one_of (cat s 0) ''Uu'' \<and> is_one_of (cat s 1) ''Tt'' \<and> is_one_of (cat s 2) ''Cc''
      then Some 0
      else if length s = 2 \<and> is_one_of (cat s 0) ''Tu'' \<and> is_one_of (cat s 1) ''Uu''
      then Some 0
      else if length s = 1 \<and> is_one_of (cat s 0) ''Zz''
      then Some 0
      else (case g_time_zone_offset g s of
              Some off \<Rightarrow> if off = 0 then None else Some off
            | None \<Rightarrow> None))"

text \<open>
  What follows the fraction: a numeric zone, a name, or nothing. A failure leaves what was
  already stored.
\<close>

definition parse_zone :: "glib \<Rightarrow> gda_time \<Rightarrow> string \<Rightarrow> gda_time \<times> string option" where
  "parse_zone g t s =
     (if s \<noteq> [] \<and> (hd s = CHR ''+'' \<or> hd s = CHR ''-'') then
        (case zone_digits 0 (tl s) of
           None \<Rightarrow> (t, None)
         | Some (tmp, r) \<Rightarrow>
             (t\<lparr>tm_timezone := int tmp * 60 * 60 * (if hd s = CHR ''-'' then -1 else 1)\<rparr>, Some r))
      else if s \<noteq> [] then
        (case zone_name g (dropWhile g_ascii_isspace s) of
           Some off \<Rightarrow> (t\<lparr>tm_timezone := off\<rparr>, Some [])
         | None \<Rightarrow> (t, None))
      else (t, Some []))"

definition parse_fraction :: "glib \<Rightarrow> gda_time \<Rightarrow> string \<Rightarrow> gda_time \<times> string option" where
  "parse_fraction g t s =
     (if s \<noteq> [] \<and> hd s \<noteq> CHR ''.'' \<and> hd s \<noteq> CHR ''+'' \<and> hd s \<noteq> CHR ''-'' then (t, Some s)
      else if s \<noteq> [] \<and> hd s = CHR ''.'' then
        (if tl s = [] then (t, None)
         else case fraction_digits 0 (tl s) of
             None \<Rightarrow> (t, None)
           | Some (tmp, r) \<Rightarrow> parse_zone g (t\<lparr>tm_fraction := tmp\<rparr>) r)
      else parse_zone g t s)"

text \<open>The separator test between two numbers; the separator NUL stands for none.\<close>

definition separator :: "char \<Rightarrow> string \<Rightarrow> string option" where
  "separator sep s =
     (if (sep \<noteq> NUL \<and> cat s 0 \<noteq> sep) \<or> s = [] then None
      else Some (if sep \<noteq> NUL then tl s else s))"

text \<open>The contents of the time, and the text after it when the function returns TRUE.\<close>

definition parse_iso8601_time :: "glib \<Rightarrow> string \<Rightarrow> char \<Rightarrow> int \<Rightarrow> gda_time \<times> string option" where
  "parse_iso8601_time g s sep tz =
     (let t = time0 tz in
      if s = [] \<or> \<not> is_digit (hd s) then (t, None)
      else case two_digits 23 0 0 s of
        None \<Rightarrow> (t, None)
      | Some (h, r) \<Rightarrow>
          (let t = t\<lparr>tm_hour := h\<rparr> in
           case separator sep r of
             None \<Rightarrow> (t, None)
           | Some r \<Rightarrow>
               (case two_digits 59 0 0 r of
                  None \<Rightarrow> (t, None)
                | Some (m, r) \<Rightarrow>
                    (let t = t\<lparr>tm_minute := m\<rparr> in
                     case separator sep r of
                       None \<Rightarrow> (t, None)
                     | Some r \<Rightarrow>
                         (case two_digits 59 0 0 r of
                            None \<Rightarrow> (t, None)
                          | Some (sec, r) \<Rightarrow> parse_fraction g (t\<lparr>tm_second := sec\<rparr>) r)))))"

definition gda_parse_formatted_time :: "glib \<Rightarrow> string option \<Rightarrow> char \<Rightarrow> gda_time option" where
  "gda_parse_formatted_time g val sep =
     (case val of
        None \<Rightarrow> None
      | Some s \<Rightarrow> (case parse_iso8601_time g s sep GDA_TIMEZONE_INVALID of
                    (t, Some []) \<Rightarrow> Some t
                  | _ \<Rightarrow> None))"

definition gda_parse_iso8601_time :: "glib \<Rightarrow> string option \<Rightarrow> gda_time option" where
  "gda_parse_iso8601_time g val =
     (case val of
        None \<Rightarrow> None
      | Some s \<Rightarrow> (case parse_iso8601_time g s (CHR '':'') GDA_TIMEZONE_INVALID of
                    (t, Some []) \<Rightarrow> Some t
                  | _ \<Rightarrow> None))"

section \<open>Parsing time stamps\<close>

definition ts_of :: "ymd \<Rightarrow> gda_time \<Rightarrow> gda_timestamp" where
  "ts_of d t =
     \<lparr>ts_year = gshort (fst d), ts_month = fst (snd d), ts_day = snd (snd d), ts_hour = tm_hour t,
      ts_minute = tm_minute t, ts_second = tm_second t, ts_fraction = tm_fraction t,
      ts_timezone = tm_timezone t\<rparr>"

text \<open>The contents of the time stamp, which is written on failures too, and the return value.\<close>

definition gda_parse_formatted_timestamp ::
    "glib \<Rightarrow> string option \<Rightarrow> dmy \<Rightarrow> dmy \<Rightarrow> dmy \<Rightarrow> char \<Rightarrow> gda_timestamp \<times> bool" where
  "gda_parse_formatted_timestamp g val first second third sep =
     (let t0 = time0 GDA_TIMEZONE_INVALID in
      case val of
        None \<Rightarrow> (ts_of (0, 0, 0) (time0 0), False)
      | Some s \<Rightarrow>
          (case parse_formatted_date g s first second third sep of
             None \<Rightarrow> (ts_of (0, 0, 0) t0, False)
           | Some (d, r) \<Rightarrow>
               if r = [] then (ts_of d t0, True)
               else if hd r \<noteq> CHR '' '' then (ts_of d t0, False)
               else if tl r = [] then (ts_of d t0, True)
               else (case parse_iso8601_time g (tl r) (CHR '':'') GDA_TIMEZONE_INVALID of
                       (t, rest) \<Rightarrow> (ts_of d t, rest = Some []))))"

definition gda_parse_iso8601_timestamp :: "glib \<Rightarrow> string option \<Rightarrow> gda_timestamp \<times> bool" where
  "gda_parse_iso8601_timestamp g val =
     gda_parse_formatted_timestamp g val G_DATE_YEAR G_DATE_MONTH G_DATE_DAY (CHR ''-'')"

section \<open>Conversions between strings and values\<close>

text \<open>\<open>%+02d\<close>: the sign, and at least one digit.\<close>

definition print_zone :: "int \<Rightarrow> string" where
  "print_zone tz =
     (let q = (if tz < 0 then - (- tz div 3600) else tz div 3600)
      in (if q < 0 then CHR ''-'' else CHR ''+'') # dec (nat \<bar>q\<bar>))"

definition print_time :: "nat \<Rightarrow> nat \<Rightarrow> nat \<Rightarrow> nat \<Rightarrow> int \<Rightarrow> string" where
  "print_time h m s f tz =
     pad 2 (dec h) @ CHR '':'' # pad 2 (dec m) @ CHR '':'' # pad 2 (dec s)
     @ (if f \<noteq> 0 then CHR ''.'' # dec f else [])
     @ (if tz \<noteq> GDA_TIMEZONE_INVALID then print_zone tz else [])"

definition time_to_string :: "gda_time \<Rightarrow> string" where
  "time_to_string t = print_time (tm_hour t) (tm_minute t) (tm_second t) (tm_fraction t) (tm_timezone t)"

text \<open>The year is printed with \<open>%u\<close>: a negative one as a 32 bit number.\<close>

definition timestamp_to_string :: "gda_timestamp \<Rightarrow> string" where
  "timestamp_to_string ts =
     pad 4 (dec (nat (ts_year ts mod 2 ^ 32))) @ CHR ''-'' # pad 2 (dec (ts_month ts)) @ CHR ''-''
     # pad 2 (dec (ts_day ts)) @ CHR '' ''
     # print_time (ts_hour ts) (ts_minute ts) (ts_second ts) (ts_fraction ts) (ts_timezone ts)"

text \<open>
  \<open>string_to_time\<close>: the new value, None when the destination is not set. The reads at \<open>i\<close> and \<open>i + 1\<close>
  are those of two digits; after the seconds \<open>ptr\<close> is moved by two whether there were digits or not,
  so that it can be behind the NUL.
\<close>

definition digits_at :: "string \<Rightarrow> nat \<Rightarrow> nat option" where
  "digits_at s i =
     (if is_digit (cat s i) \<and> is_digit (cat s (i + 1))
      then Some (digit_val (cat s i) * 10 + digit_val (cat s (i + 1))) else None)"

definition skip_colon :: "string \<Rightarrow> nat \<Rightarrow> nat" where
  "skip_colon s i = (if cat s i = CHR '':'' then i + 1 else i)"

fun zone_loop :: "int \<Rightarrow> int \<Rightarrow> string \<Rightarrow> int" where
  "zone_loop sign tz [] = tz"
| "zone_loop sign tz (c # s) =
     (if is_digit c then zone_loop sign (tz * 10 + sign * int (digit_val c)) s else tz)"

definition string_to_time_tail :: "gda_time \<Rightarrow> string \<Rightarrow> gda_time option" where
  "string_to_time_tail t s =
     (let s = (if s \<noteq> [] \<and> hd s = CHR ''.'' then dropWhile is_digit (tl s) else s);
          t = (if s \<noteq> [] \<and> (hd s = CHR ''+'' \<or> hd s = CHR ''-'')
               then t\<lparr>tm_timezone := zone_loop (if hd s = CHR ''+'' then 1 else -1) 0 s * 3600\<rparr> else t)
      in if tm_hour t \<le> 24 \<or> tm_minute t \<le> 60 \<or> tm_second t \<le> 60 then Some t else None)"

definition string_to_time :: "string option \<Rightarrow> gda_time option outcome" where
  "string_to_time val =
     (case val of
        None \<Rightarrow> Returns None
      | Some s \<Rightarrow>
          (case digits_at s 0 of
             None \<Rightarrow> Returns None
           | Some h \<Rightarrow>
               if cat s 2 = NUL then Returns None
               else
                 (let i = skip_colon s 2 in
                  case digits_at s i of
                    None \<Rightarrow> Returns None
                  | Some m \<Rightarrow>
                      (let t = (time0 GDA_TIMEZONE_INVALID)\<lparr>tm_hour := h, tm_minute := m\<rparr>; i = i + 2 in
                       if cat s i = NUL then Returns (if h \<le> 24 \<and> m \<le> 60 then Some t else None)
                       else
                         (let i = skip_colon s i;
                              t = (case digits_at s i of None \<Rightarrow> t | Some sec \<Rightarrow> t\<lparr>tm_second := sec\<rparr>);
                              i = i + 2
                          in if length s < i then Undefined
                             else if cat s i = NUL
                             then Returns (if h \<le> 24 \<and> m \<le> 60 \<and> tm_second t \<le> 60 then Some t else None)
                             else Returns (string_to_time_tail t (drop i s)))))))"

text \<open>\<open>string_to_timestamp\<close> does not test the return value of the parser.\<close>

definition string_to_timestamp :: "glib \<Rightarrow> string option \<Rightarrow> gda_timestamp" where
  "string_to_timestamp g val = fst (gda_parse_iso8601_timestamp g val)"

section \<open>Validity and changes of time zone\<close>

definition hms_valid :: "nat \<Rightarrow> nat \<Rightarrow> nat \<Rightarrow> nat \<Rightarrow> int \<Rightarrow> bool" where
  "hms_valid h m s f tz \<longleftrightarrow>
     \<not> (23 < h \<or> 59 < m \<or> 59 < s) \<and> \<not> (1000000 \<le> f \<or> tz \<le> -12 * 3600 \<or> 12 * 3600 \<le> tz)"

definition gda_time_valid :: "gda_time \<Rightarrow> bool" where
  "gda_time_valid t \<longleftrightarrow> hms_valid (tm_hour t) (tm_minute t) (tm_second t) (tm_fraction t) (tm_timezone t)"

text \<open>The casts to \<open>GDateDay\<close> and \<open>GDateYear\<close> keep 8 and 16 bits.\<close>

definition ts_ymd :: "gda_timestamp \<Rightarrow> ymd" where
  "ts_ymd ts = (nat (ts_year ts mod 2 ^ 16), ts_month ts, ts_day ts mod 2 ^ 8)"

definition gda_timestamp_valid :: "glib \<Rightarrow> gda_timestamp \<Rightarrow> bool" where
  "gda_timestamp_valid g ts \<longleftrightarrow>
     g_date_valid g (ts_ymd ts) \<and>
     hms_valid (ts_hour ts) (ts_minute ts) (ts_second ts) (ts_fraction ts) (ts_timezone ts)"

text \<open>The hours, minutes and seconds of a number of seconds that is not negative.\<close>

definition split_seconds :: "int \<Rightarrow> nat \<times> nat \<times> nat" where
  "split_seconds nsec =
     (let n = nsec div 3600; r = nsec - n * 3600; m = r div 60
      in (nat n mod 2 ^ 16, nat m mod 2 ^ 16, nat (r - m * 60) mod 2 ^ 16))"

definition gda_time_change_timezone :: "gda_time \<Rightarrow> int \<Rightarrow> gda_time" where
  "gda_time_change_timezone t ntz =
     (if \<not> gda_time_valid t then t
      else if \<not> (-12 * 3600 < ntz \<and> ntz < 12 * 3600) then t
      else if tm_timezone t = ntz then t
      else if tm_timezone t \<noteq> GDA_TIMEZONE_INVALID then
        (let nsec = int (tm_hour t) * 3600 + int (tm_minute t) * 60 + int (tm_second t) - tm_timezone t + ntz;
             nsec = (if nsec < 0 then nsec + 86400 else if 86400 \<le> nsec then nsec - 86400 else nsec)
         in case split_seconds nsec of (h, m, s) \<Rightarrow>
              t\<lparr>tm_hour := h, tm_minute := m, tm_second := s, tm_timezone := ntz\<rparr>)
      else t\<lparr>tm_timezone := ntz\<rparr>)"

definition set_ymd :: "ymd \<Rightarrow> gda_timestamp \<Rightarrow> gda_timestamp" where
  "set_ymd d ts = ts\<lparr>ts_year := gshort (fst d), ts_month := fst (snd d), ts_day := snd (snd d)\<rparr>"

definition gda_timestamp_change_timezone :: "glib \<Rightarrow> gda_timestamp \<Rightarrow> int \<Rightarrow> gda_timestamp" where
  "gda_timestamp_change_timezone g ts ntz =
     (if \<not> gda_timestamp_valid g ts then ts
      else if \<not> (-12 * 3600 < ntz \<and> ntz < 12 * 3600) then ts
      else if ts_timezone ts = ntz then ts
      else if ts_timezone ts \<noteq> GDA_TIMEZONE_INVALID then
        (let nsec = int (ts_hour ts) * 3600 + int (ts_minute ts) * 60 + int (ts_second ts) - ts_timezone ts + ntz;
             (ts, nsec) =
               (if nsec < 0 then (set_ymd (g_date_previous g (ts_ymd ts)) ts, nsec + 86400)
                else if 86400 \<le> nsec then (set_ymd (g_date_next g (ts_ymd ts)) ts, nsec - 86400)
                else (ts, nsec))
         in case split_seconds nsec of (h, m, s) \<Rightarrow>
              ts\<lparr>ts_hour := h, ts_minute := m, ts_second := s, ts_timezone := ntz\<rparr>)
      else ts\<lparr>ts_timezone := ntz\<rparr>)"

section \<open>Numbers\<close>

lemma numval_mono: "acc \<le> numval acc ds"
proof (induction ds arbitrary: acc)
  case (Cons c ds)
  have "acc \<le> acc * 10 + digit_val c" by simp
  also have "\<dots> \<le> numval (acc * 10 + digit_val c) ds" by (rule Cons.IH)
  finally show ?case by simp
qed simp

lemma numval_mod: "numval (a mod m) ds mod m = numval a ds mod m"
proof (induction ds arbitrary: a)
  case (Cons c ds)
  have "numval (a mod m * 10 + digit_val c) ds mod m = numval ((a mod m * 10 + digit_val c) mod m) ds mod m"
    by (rule Cons.IH [symmetric])
  also have "(a mod m * 10 + digit_val c) mod m = (a * 10 + digit_val c) mod m"
    by (metis mod_add_left_eq mod_mult_left_eq)
  also have "numval ((a * 10 + digit_val c) mod m) ds mod m = numval (a * 10 + digit_val c) ds mod m"
    by (rule Cons.IH)
  finally show ?case by simp
qed simp

definition all_digits :: "string \<Rightarrow> bool" where
  "all_digits ds \<longleftrightarrow> list_all is_digit ds"

definition no_digit :: "string \<Rightarrow> bool" where
  "no_digit r \<longleftrightarrow> r = [] \<or> \<not> is_digit (hd r)"

lemma all_digits_simps [simp]:
  "all_digits []" "all_digits (c # ds) \<longleftrightarrow> is_digit c \<and> all_digits ds"
  "all_digits (dec n)" "all_digits (pad w (dec n))"
  using dec_digits pad_digits by (auto simp: all_digits_def list_all_iff)

lemma no_digit_simps [simp]: "no_digit []" "no_digit (c # r) \<longleftrightarrow> \<not> is_digit c"
  by (simp_all add: no_digit_def)

lemma date_digits_run:
  "all_digits ds \<Longrightarrow> no_digit r \<Longrightarrow> acc < ULONG \<Longrightarrow>
   date_digits acc (ds @ r) = (numval acc ds mod ULONG, r)"
proof (induction ds arbitrary: acc)
  case Nil
  then show ?case by (cases r) auto
next
  case (Cons c ds)
  have "(acc * 10 + digit_val c) mod ULONG < ULONG" by (simp add: ULONG_def)
  then show ?case using Cons by (simp add: numval_mod)
qed

lemma date_value_run:
  assumes "all_digits ds" and "no_digit r"
  shows "date_value (ds @ r) = (numval 0 ds mod 2 ^ 16, r)"
proof -
  have "numval 0 ds mod ULONG mod 2 ^ 16 = numval 0 ds mod 2 ^ 16"
    by (rule mod_mod_cancel) (simp add: ULONG_def)
  then show ?thesis using date_digits_run [OF assms, of 0]
    by (simp add: date_value_def ULONG_def)
qed

lemma date_value_end: "all_digits ds \<Longrightarrow> date_value ds = (numval 0 ds mod 2 ^ 16, [])"
  using date_value_run [of ds "[]"] by simp

lemma digit_val_bound: "is_digit c \<Longrightarrow> digit_val c \<le> 9"
  by (auto simp: is_digit_def digit_val_def)

lemma fraction_run:
  "all_digits ds \<Longrightarrow> no_digit r \<Longrightarrow> numval acc ds < ULONG \<Longrightarrow>
   fraction_digits acc (ds @ r) = Some (numval acc ds, r)"
proof (induction ds arbitrary: acc)
  case Nil
  then show ?case by (cases r) auto
next
  case (Cons c ds)
  have "acc * 10 + digit_val c \<le> numval acc (c # ds)"
    using numval_mono [of "acc * 10 + digit_val c" ds] by simp
  with Cons.prems(3) have "acc * 10 + digit_val c < ULONG" by linarith
  moreover from this have "\<not> (ULONG - 1) div 10 < acc" by (simp add: ULONG_def)
  ultimately show ?case using Cons by simp
qed

lemma zone_run:
  "all_digits ds \<Longrightarrow> no_digit r \<Longrightarrow> numval acc ds < 24 \<Longrightarrow>
   zone_digits acc (ds @ r) = Some (numval acc ds, r)"
proof (induction ds arbitrary: acc)
  case Nil
  then show ?case by (cases r) auto
next
  case (Cons c ds)
  have "acc * 10 + digit_val c \<le> numval acc (c # ds)"
    using numval_mono [of "acc * 10 + digit_val c" ds] by simp
  with Cons.prems(3) have "\<not> 24 \<le> acc * 10 + digit_val c" by linarith
  then show ?case using Cons by (simp add: Let_def)
qed

lemma dec_digit_0 [simp]: "dec_digit 0 = CHR ''0''"
  using char_of_code [of "CHR ''0''"] by (simp add: dec_digit_def code_def)

lemma pad2: "n < 100 \<Longrightarrow> pad 2 (dec n) = [dec_digit (n div 10), dec_digit (n mod 10)]"
proof (cases "n < 10")
  case True
  then show ?thesis
    by (subst dec.simps) (simp add: pad_def numeral_2_eq_2)
next
  case False
  moreover assume "n < 100"
  moreover have "dec (n div 10) = [dec_digit (n div 10)]"
    using \<open>n < 100\<close> by (subst dec.simps) simp
  ultimately show ?thesis by (subst dec.simps) (simp add: pad_def)
qed

lemma two_digits_pad:
  "n \<le> lim \<Longrightarrow> lim < 100 \<Longrightarrow> two_digits lim 0 0 (pad 2 (dec n) @ r) = Some (n, r)"
  by (cases r) (simp_all add: pad2 Let_def)

lemma pad2_ne: "n < 100 \<Longrightarrow> pad 2 (dec n) \<noteq> [] \<and> is_digit (hd (pad 2 (dec n)))"
  by (simp add: pad2)

section \<open>Printing and parsing times\<close>

lemma not_digit [simp]:
  "\<not> is_digit (CHR '':'')" "\<not> is_digit (CHR ''.'')" "\<not> is_digit (CHR ''+'')" "\<not> is_digit (CHR ''-'')"
  "\<not> is_digit (CHR '' '')" "\<not> is_digit NUL"
  by (simp_all add: is_digit_def code_def)

lemma print_zone_digits: "\<exists>c ds. print_zone tz = c # ds \<and> (c = CHR ''+'' \<or> c = CHR ''-'') \<and> ds \<noteq> []"
  by (simp add: print_zone_def Let_def)

text \<open>A whole number of hours is read back.\<close>

lemma parse_zone_print:
  assumes "tz = 3600 * k" and "\<bar>k\<bar> < 24"
  shows "parse_zone g t (print_zone tz) = (t\<lparr>tm_timezone := tz\<rparr>, Some [])"
proof -
  have "- tz = 3600 * (- k)" using assms(1) by simp
  then have "- tz div 3600 = - k" by (simp only: nonzero_mult_div_cancel_left)
  moreover have "tz div 3600 = k" using assms(1) by simp
  ultimately have "(if tz < 0 then - (- tz div 3600) else tz div 3600) = k" by simp
  then have p: "print_zone tz = (if k < 0 then CHR ''-'' else CHR ''+'') # dec (nat \<bar>k\<bar>)"
    by (simp add: print_zone_def)
  have "zone_digits 0 (dec (nat \<bar>k\<bar>)) = Some (nat \<bar>k\<bar>, [])"
    using zone_run [of "dec (nat \<bar>k\<bar>)" "[]" 0] assms(2) by simp
  then show ?thesis unfolding p parse_zone_def by (simp add: assms(1))
qed

lemma parse_fraction_print:
  assumes "f < ULONG" and "tz = GDA_TIMEZONE_INVALID \<or> (\<exists>k. tz = 3600 * k \<and> \<bar>k\<bar> < 24)"
    and "tm_fraction t = 0" and "tm_timezone t = GDA_TIMEZONE_INVALID"
  shows "parse_fraction g t ((if f \<noteq> 0 then CHR ''.'' # dec f else [])
            @ (if tz \<noteq> GDA_TIMEZONE_INVALID then print_zone tz else [])) =
    (t\<lparr>tm_fraction := f, tm_timezone := tz\<rparr>, Some [])"
proof -
  let ?z = "if tz \<noteq> GDA_TIMEZONE_INVALID then print_zone tz else []"
  have z: "parse_zone g t' ?z = (t'\<lparr>tm_timezone := tz\<rparr>, Some [])" if "tm_timezone t' = GDA_TIMEZONE_INVALID" for t'
  proof (cases "tz = GDA_TIMEZONE_INVALID")
    case True
    then show ?thesis using that by (simp add: parse_zone_def)
  next
    case False
    then show ?thesis using assms(2) parse_zone_print [of tz _ g t'] by auto
  qed
  have nd: "no_digit ?z" and hd: "?z = [] \<or> hd ?z = CHR ''+'' \<or> hd ?z = CHR ''-''"
    using print_zone_digits [of tz] by auto
  show ?thesis
  proof (cases "f = 0")
    case True
    then show ?thesis using z [of t] hd assms(3,4) by (auto simp: parse_fraction_def)
  next
    case False
    have "fraction_digits 0 (dec f @ ?z) = Some (f, ?z)"
      using fraction_run [of "dec f" ?z 0] nd assms(1) by simp
    then show ?thesis using False z [of "t\<lparr>tm_fraction := f\<rparr>"] assms(4)
      by (auto simp: parse_fraction_def)
  qed
qed

lemma separator_colon [simp]: "separator (CHR '':'') (CHR '':'' # s) = Some s"
  by (simp add: separator_def cat_def)

lemma hd_pad2 [simp]: "n < 100 \<Longrightarrow> hd (pad 2 (dec n) @ r) = dec_digit (n div 10)"
  by (simp add: pad2)

lemma parse_hms:
  assumes "h \<le> 23" and "m \<le> 59" and "s \<le> 59"
  shows "parse_iso8601_time g (pad 2 (dec h) @ CHR '':'' # pad 2 (dec m) @ CHR '':'' # pad 2 (dec s) @ r)
           (CHR '':'') tz =
    parse_fraction g \<lparr>tm_hour = h, tm_minute = m, tm_second = s, tm_fraction = 0, tm_timezone = tz\<rparr> r"
  using assms pad2_ne [of h]
  by (simp add: parse_iso8601_time_def two_digits_pad time0_def Let_def)

definition printable :: "nat \<Rightarrow> nat \<Rightarrow> nat \<Rightarrow> nat \<Rightarrow> int \<Rightarrow> bool" where
  "printable h m s f tz \<longleftrightarrow>
     h \<le> 23 \<and> m \<le> 59 \<and> s \<le> 59 \<and> f < ULONG \<and>
     (tz = GDA_TIMEZONE_INVALID \<or> (3600 dvd tz \<and> \<bar>tz\<bar> < 24 * 3600))"

lemma parse_print_time:
  assumes "printable h m s f tz"
  shows "parse_iso8601_time g (print_time h m s f tz) (CHR '':'') GDA_TIMEZONE_INVALID =
    (\<lparr>tm_hour = h, tm_minute = m, tm_second = s, tm_fraction = f, tm_timezone = tz\<rparr>, Some [])"
proof -
  have "tz = GDA_TIMEZONE_INVALID \<or> (\<exists>k. tz = 3600 * k \<and> \<bar>k\<bar> < 24)"
    using assms by (auto simp: printable_def elim!: dvdE)
  then show ?thesis
    using assms parse_fraction_print [of f tz]
    by (simp add: printable_def print_time_def parse_hms)
qed

lemma print_time_ne: "h < 100 \<Longrightarrow> print_time h m s f tz \<noteq> []"
  using pad2_ne by (simp add: print_time_def)

section \<open>Changing the time zone\<close>

definition day_seconds :: "nat \<Rightarrow> nat \<Rightarrow> nat \<Rightarrow> int" where
  "day_seconds h m s = int h * 3600 + int m * 60 + int s"

lemma split_seconds_spec:
  assumes "0 \<le> n" and "n < 86400"
  shows "case split_seconds n of (h, m, s) \<Rightarrow>
    h \<le> 23 \<and> m \<le> 59 \<and> s \<le> 59 \<and> day_seconds h m s = n"
proof -
  define h where "h = n div 3600"
  define r where "r = n - h * 3600"
  define m where "m = r div 60"
  define s where "s = r - m * 60"
  have bound: "0 \<le> x div c \<and> x div c \<le> (c * d - 1) div c" if "0 \<le> x" "x < c * d" "0 < c" for x c d :: int
    using that zdiv_mono1 [of x "c * d - 1" c] by (simp add: pos_imp_zdiv_nonneg_iff)
  have r: "0 \<le> r" "r < 3600" by (simp_all add: r_def h_def minus_div_mult_eq_mod)
  have h: "0 \<le> h" "h < 24" using bound [of n 3600 24] assms by (simp_all add: h_def)
  have m: "0 \<le> m" "m < 60" using bound [of r 60 60] r by (simp_all add: m_def)
  have s: "0 \<le> s" "s < 60" by (simp_all add: s_def m_def minus_div_mult_eq_mod)
  have "split_seconds n = (nat h mod 2 ^ 16, nat m mod 2 ^ 16, nat s mod 2 ^ 16)"
    by (simp add: split_seconds_def Let_def h_def r_def m_def s_def)
  then have "split_seconds n = (nat h, nat m, nat s)"
    using h m s by (simp add: nat_less_iff)
  moreover have "h * 3600 + m * 60 + s = n" by (simp add: s_def r_def)
  ultimately show ?thesis using h m s by (simp add: day_seconds_def nat_le_iff)
qed

lemma day_seconds_inject:
  assumes "day_seconds h m s = day_seconds h' m' s'" and "m \<le> 59" "s \<le> 59" "m' \<le> 59" "s' \<le> 59"
  shows "h = h' \<and> m = m' \<and> s = s'"
proof -
  have dm: "(60 * a + b) div 60 = a" "(60 * a + b) mod 60 = b" if "b \<le> 59" for a b :: nat
    using that by simp_all
  then have u: "a = a' \<and> b = b'" if "60 * a + b = 60 * a' + b'" "b \<le> 59" "b' \<le> 59" for a b a' b' :: nat
    using that by metis
  have "60 * (60 * h + m) + s = 60 * (60 * h' + m') + s'"
    using arg_cong [OF assms(1), of nat] by (simp add: day_seconds_def nat_add_distrib nat_mult_distrib)
  then show ?thesis using u assms(2-5) by metis
qed

lemma day_seconds_bounds:
  "h \<le> 23 \<Longrightarrow> m \<le> 59 \<Longrightarrow> s \<le> 59 \<Longrightarrow> 0 \<le> day_seconds h m s \<and> day_seconds h m s < 86400"
  by (simp add: day_seconds_def)

definition in_zone :: "int \<Rightarrow> bool" where
  "in_zone tz \<longleftrightarrow> -12 * 3600 < tz \<and> tz < 12 * 3600"

definition time_seconds :: "gda_time \<Rightarrow> int" where
  "time_seconds t = day_seconds (tm_hour t) (tm_minute t) (tm_second t)"

lemma valid_bounds:
  assumes "gda_time_valid t"
  shows "tm_hour t \<le> 23" "tm_minute t \<le> 59" "tm_second t \<le> 59" "in_zone (tm_timezone t)"
    "tm_fraction t < 1000000" "tm_timezone t \<noteq> GDA_TIMEZONE_INVALID"
    "0 \<le> time_seconds t" "time_seconds t < 86400"
  using assms day_seconds_bounds
  by (auto simp: gda_time_valid_def hms_valid_def in_zone_def GDA_TIMEZONE_INVALID_def time_seconds_def)

lemma time_eqI:
  fixes t u :: gda_time
  assumes "gda_time_valid t" and "gda_time_valid u" and "time_seconds t = time_seconds u"
    and "tm_timezone t = tm_timezone u" and "tm_fraction t = tm_fraction u"
  shows "t = u"
  using day_seconds_inject [OF assms(3) [unfolded time_seconds_def]] valid_bounds(2,3) assms
  by (intro gda_time.equality) simp_all

text \<open>The time of the day in the new zone, brought back into the day.\<close>

definition shifted :: "int \<Rightarrow> int \<Rightarrow> int \<Rightarrow> int" where
  "shifted sec tz ntz =
     (let n = sec - tz + ntz in if n < 0 then n + 86400 else if 86400 \<le> n then n - 86400 else n)"

lemma shifted_bounds:
  assumes "0 \<le> sec" "sec < 86400" "in_zone tz" "in_zone ntz"
  shows "0 \<le> shifted sec tz ntz" "shifted sec tz ntz < 86400"
    "(shifted sec tz ntz - ntz) mod 86400 = (sec - tz) mod 86400"
    "shifted (shifted sec tz ntz) ntz tz = sec"
proof -
  consider "shifted sec tz ntz = sec - tz + ntz" | "shifted sec tz ntz = sec - tz + ntz + 86400"
    | "shifted sec tz ntz = sec - tz + ntz - 86400"
    unfolding shifted_def Let_def by presburger
  then show "(shifted sec tz ntz - ntz) mod 86400 = (sec - tz) mod 86400"
  proof cases
    case 2
    then have "shifted sec tz ntz - ntz = sec - tz + 86400" by simp
    then show ?thesis by simp
  next
    case 3
    then have "shifted sec tz ntz - ntz = sec - tz - 86400" by simp
    then show ?thesis by (metis minus_mod_self2)
  qed simp
qed (use assms in \<open>auto simp: shifted_def in_zone_def Let_def\<close>)

lemma change_zone_spec:
  assumes "gda_time_valid t" and "in_zone ntz"
  shows "time_seconds (gda_time_change_timezone t ntz) =
      (if tm_timezone t = ntz then time_seconds t else shifted (time_seconds t) (tm_timezone t) ntz)
    \<and> tm_timezone (gda_time_change_timezone t ntz) = ntz
    \<and> tm_fraction (gda_time_change_timezone t ntz) = tm_fraction t
    \<and> gda_time_valid (gda_time_change_timezone t ntz)"
proof (cases "tm_timezone t = ntz")
  case True
  then show ?thesis using assms by (auto simp: gda_time_change_timezone_def)
next
  case False
  note b = valid_bounds [OF assms(1)]
  have n: "(let n = int (tm_hour t) * 3600 + int (tm_minute t) * 60 + int (tm_second t) - tm_timezone t + ntz
     in if n < 0 then n + 86400 else if 86400 \<le> n then n - 86400 else n) =
     shifted (time_seconds t) (tm_timezone t) ntz"
    by (simp add: shifted_def time_seconds_def day_seconds_def Let_def)
  obtain h m s where hms: "split_seconds (shifted (time_seconds t) (tm_timezone t) ntz) = (h, m, s)"
    by (metis surj_pair)
  then have "gda_time_change_timezone t ntz =
      t\<lparr>tm_hour := h, tm_minute := m, tm_second := s, tm_timezone := ntz\<rparr>"
    using False assms b(6) n by (auto simp: gda_time_change_timezone_def in_zone_def Let_def)
  moreover have "h \<le> 23 \<and> m \<le> 59 \<and> s \<le> 59 \<and> day_seconds h m s = shifted (time_seconds t) (tm_timezone t) ntz"
    using split_seconds_spec [OF shifted_bounds(1,2) [OF b(7,8,4) assms(2)]] hms by simp
  ultimately show ?thesis using False b assms(2)
    by (simp add: time_seconds_def gda_time_valid_def hms_valid_def in_zone_def)
qed

subsection \<open>Time stamps\<close>

text \<open>The seconds since the start of the calendar, in GMT.\<close>

definition instant :: "(ymd \<Rightarrow> int) \<Rightarrow> gda_timestamp \<Rightarrow> int" where
  "instant day_no ts =
     day_no (ts_ymd ts) * 86400 + day_seconds (ts_hour ts) (ts_minute ts) (ts_second ts) - ts_timezone ts"

text \<open>
  What is relied on of GLib's calendar: the days are numbered so that the next and the previous day of
  a valid date are valid, one number away, in the same year or the neighbouring one.
\<close>

locale calendar =
  fixes g :: glib and day_no :: "ymd \<Rightarrow> int"
  assumes next_day: "g_date_valid g (y, m, d) \<Longrightarrow>
      day_no (g_date_next g (y, m, d)) = day_no (y, m, d) + 1 \<and> g_date_valid g (g_date_next g (y, m, d)) \<and>
      fst (g_date_next g (y, m, d)) \<le> y + 1 \<and> snd (snd (g_date_next g (y, m, d))) \<le> 31"
    and previous_day: "g_date_valid g (y, m, d) \<Longrightarrow> (y, m, d) \<noteq> (1, 1, 1) \<Longrightarrow>
      day_no (g_date_previous g (y, m, d)) = day_no (y, m, d) - 1 \<and> g_date_valid g (g_date_previous g (y, m, d)) \<and>
      fst (g_date_previous g (y, m, d)) \<le> y \<and> snd (snd (g_date_previous g (y, m, d))) \<le> 31"
begin

lemma ymd_set_ymd:
  assumes "fst d < 2 ^ 15" and "snd (snd d) \<le> 31"
  shows "ts_ymd (set_ymd d ts) = d"
  using assms by (cases d) (simp add: ts_ymd_def set_ymd_def gshort_def)

text \<open>The date and the seconds after the correction of the day.\<close>

lemma corrected_day:
  assumes "g_date_valid g (ts_ymd ts)" and "ts_ymd ts \<noteq> (1, 1, 1)" and "fst (ts_ymd ts) + 1 < 2 ^ 15"
    and "- 86400 \<le> n" and "n < 2 * 86400"
    and "(ts', n') = (if n < 0 then (set_ymd (g_date_previous g (ts_ymd ts)) ts, n + 86400)
           else if 86400 \<le> n then (set_ymd (g_date_next g (ts_ymd ts)) ts, n - 86400) else (ts, n))"
  shows "day_no (ts_ymd ts') * 86400 + n' = day_no (ts_ymd ts) * 86400 + n \<and> 0 \<le> n' \<and> n' < 86400
    \<and> g_date_valid g (ts_ymd ts') \<and> ts_fraction ts' = ts_fraction ts"
proof -
  obtain y m d where ymd: "ts_ymd ts = (y, m, d)" by (cases "ts_ymd ts") auto
  have nx: "ts_ymd (set_ymd (g_date_next g (ts_ymd ts)) ts) = g_date_next g (ts_ymd ts)"
    using next_day [of y m d] assms(1,3) ymd by (intro ymd_set_ymd) auto
  have pv: "ts_ymd (set_ymd (g_date_previous g (ts_ymd ts)) ts) = g_date_previous g (ts_ymd ts)"
    using previous_day [of y m d] assms(1,2,3) ymd by (intro ymd_set_ymd) auto
  have fr: "ts_fraction (set_ymd x ts) = ts_fraction ts" for x by (simp add: set_ymd_def)
  consider "n < 0" | "0 \<le> n" "n < 86400" | "86400 \<le> n" by linarith
  then show ?thesis
  proof cases
    case 1
    with assms(6) have "ts' = set_ymd (g_date_previous g (ts_ymd ts)) ts" "n' = n + 86400" by simp_all
    then show ?thesis using previous_day [of y m d] assms(1,2,4) ymd pv fr 1 by simp
  next
    case 2
    with assms(1,6) show ?thesis by simp
  next
    case 3
    with assms(6) have "ts' = set_ymd (g_date_next g (ts_ymd ts)) ts" "n' = n - 86400" by simp_all
    then show ?thesis using next_day [of y m d] assms(1,5) ymd nx fr 3 by simp
  qed
qed

lemma change_instant:
  assumes "gda_timestamp_valid g ts" and "in_zone ntz"
    and "ts_ymd ts \<noteq> (1, 1, 1)" and "fst (ts_ymd ts) + 1 < 2 ^ 15"
  shows "instant day_no (gda_timestamp_change_timezone g ts ntz) = instant day_no ts
    \<and> ts_timezone (gda_timestamp_change_timezone g ts ntz) = ntz
    \<and> gda_timestamp_valid g (gda_timestamp_change_timezone g ts ntz)"
proof (cases "ts_timezone ts = ntz")
  case True
  then show ?thesis using assms by (auto simp: gda_timestamp_change_timezone_def)
next
  case False
  have v: "ts_hour ts \<le> 23" "ts_minute ts \<le> 59" "ts_second ts \<le> 59" "ts_fraction ts < 1000000"
    "in_zone (ts_timezone ts)" "g_date_valid g (ts_ymd ts)"
    using assms(1) by (auto simp: gda_timestamp_valid_def hms_valid_def in_zone_def)
  let ?n = "day_seconds (ts_hour ts) (ts_minute ts) (ts_second ts) - ts_timezone ts + ntz"
  have n: "- 86400 \<le> ?n" "?n < 2 * 86400"
    using day_seconds_bounds [OF v(1-3)] v(5) assms(2) by (auto simp: in_zone_def)
  obtain ts' n' where c: "(ts', n') = (if ?n < 0 then (set_ymd (g_date_previous g (ts_ymd ts)) ts, ?n + 86400)
      else if 86400 \<le> ?n then (set_ymd (g_date_next g (ts_ymd ts)) ts, ?n - 86400) else (ts, ?n))"
    by (metis surj_pair)
  obtain h m s where hms: "split_seconds n' = (h, m, s)" by (metis surj_pair)
  have tz: "ts_timezone ts \<noteq> GDA_TIMEZONE_INVALID"
    using v(5) by (auto simp: in_zone_def GDA_TIMEZONE_INVALID_def)
  have e: "int (ts_hour ts) * 3600 + int (ts_minute ts) * 60 + int (ts_second ts) - ts_timezone ts + ntz = ?n"
    by (simp add: day_seconds_def)
  have res: "gda_timestamp_change_timezone g ts ntz =
      ts'\<lparr>ts_hour := h, ts_minute := m, ts_second := s, ts_timezone := ntz\<rparr>"
    unfolding gda_timestamp_change_timezone_def Let_def e c [symmetric]
    using False assms(1,2) tz hms by (simp add: in_zone_def)
  note k = corrected_day [OF v(6) assms(3,4) n c]
  have "h \<le> 23 \<and> m \<le> 59 \<and> s \<le> 59 \<and> day_seconds h m s = n'"
    using split_seconds_spec [of n'] k hms by simp
  moreover have "ts_ymd (ts'\<lparr>ts_hour := h, ts_minute := m, ts_second := s, ts_timezone := ntz\<rparr>) = ts_ymd ts'"
    by (simp add: ts_ymd_def)
  ultimately show ?thesis using k v(4) assms(2)
    by (simp add: res instant_def gda_timestamp_valid_def hms_valid_def in_zone_def)
qed

end

section \<open>A concrete calendar\<close>

text \<open>The Gregorian rules, which GLib documents; no time zone name is known to it.\<close>

definition leap :: "nat \<Rightarrow> bool" where
  "leap y \<longleftrightarrow> (4 dvd y \<and> \<not> 100 dvd y) \<or> 400 dvd y"

definition month_days :: "nat \<Rightarrow> nat \<Rightarrow> nat" where
  "month_days y m = (if m = 2 then (if leap y then 29 else 28) else if m \<in> {4, 6, 9, 11} then 30 else 31)"

fun gregorian_valid :: "ymd \<Rightarrow> bool" where
  "gregorian_valid (y, m, d) \<longleftrightarrow> 1 \<le> y \<and> 1 \<le> m \<and> m \<le> 12 \<and> 1 \<le> d \<and> d \<le> month_days y m"

fun gregorian_next :: "ymd \<Rightarrow> ymd" where
  "gregorian_next (y, m, d) =
     (if d < month_days y m then (y, m, d + 1) else if m < 12 then (y, m + 1, 1) else (y + 1, 1, 1))"

fun gregorian_previous :: "ymd \<Rightarrow> ymd" where
  "gregorian_previous (y, m, d) =
     (if 1 < d then (y, m, d - 1) else if 1 < m then (y, m - 1, month_days y (m - 1)) else (y - 1, 12, 31))"

definition gregorian :: glib where
  "gregorian = \<lparr>g_date_valid = gregorian_valid, g_date_next = gregorian_next,
                g_date_previous = gregorian_previous, g_time_zone_offset = (\<lambda>_. None)\<rparr>"

fun days_before_year :: "nat \<Rightarrow> int" where
  "days_before_year 0 = 0"
| "days_before_year (Suc y) = days_before_year y + (if leap y then 366 else 365)"

fun days_before_month :: "nat \<Rightarrow> nat \<Rightarrow> int" where
  "days_before_month y 0 = 0"
| "days_before_month y (Suc m) = days_before_month y m + (if m = 0 then 0 else int (month_days y m))"

fun gregorian_day :: "ymd \<Rightarrow> int" where
  "gregorian_day (y, m, d) = days_before_year y + days_before_month y m + int d"

lemma month_days_bounds: "28 \<le> month_days y m \<and> month_days y m \<le> 31"
  by (simp add: month_days_def)

lemma year_days: "days_before_month y 12 + 31 = (if leap y then 366 else 365)"
  by (simp add: month_days_def numeral_eq_Suc)

interpretation gregorian: calendar gregorian gregorian_day
proof unfold_locales
  fix y m d
  assume v: "g_date_valid gregorian (y, m, d)"
  then have m12: "\<not> m < 12 \<Longrightarrow> m = 12" "month_days y 12 = 31"
    by (auto simp: gregorian_def month_days_def)
  show "gregorian_day (g_date_next gregorian (y, m, d)) = gregorian_day (y, m, d) + 1 \<and>
      g_date_valid gregorian (g_date_next gregorian (y, m, d)) \<and>
      fst (g_date_next gregorian (y, m, d)) \<le> y + 1 \<and> snd (snd (g_date_next gregorian (y, m, d))) \<le> 31"
    using v m12 month_days_bounds [of y m] month_days_bounds [of y "m + 1"] year_days [of y]
      month_days_bounds [of "y + 1" 1]
    by (auto simp: gregorian_def split: if_splits)
  assume "(y, m, d) \<noteq> (1, 1, 1)"
  with v have "m \<le> 1 \<Longrightarrow> d \<le> 1 \<Longrightarrow> m = 1 \<and> d = 1 \<and> 1 < y" "0 < d" "0 < m" "0 < y"
    by (auto simp: gregorian_def)
  with v show "gregorian_day (g_date_previous gregorian (y, m, d)) = gregorian_day (y, m, d) - 1 \<and>
      g_date_valid gregorian (g_date_previous gregorian (y, m, d)) \<and>
      fst (g_date_previous gregorian (y, m, d)) \<le> y \<and> snd (snd (g_date_previous gregorian (y, m, d))) \<le> 31"
    using month_days_bounds [of y m] month_days_bounds [of y "m - 1"] year_days [of "y - 1"]
    by (cases y; cases m; cases d) (auto simp: gregorian_def month_days_def split: if_splits)
qed

section \<open>Reading a time digit by digit\<close>

lemma digits_at_append:
  "is_digit a \<Longrightarrow> is_digit b \<Longrightarrow> i = length pre \<Longrightarrow>
   digits_at (pre @ a # b # r) i = Some (digit_val a * 10 + digit_val b)"
  by (simp add: digits_at_def cat_def nth_append)

lemma skip_colon_append: "i = length pre \<Longrightarrow> skip_colon (pre @ CHR '':'' # r) i = i + 1"
  by (simp add: skip_colon_def cat_def nth_append)

lemma cat_append: "i = length pre \<Longrightarrow> cat (pre @ r) i = (if r = [] then NUL else hd r)"
  by (cases r) (simp_all add: cat_def nth_append)

lemma digit_not_NUL: "is_digit c \<Longrightarrow> c \<noteq> NUL"
  using not_digit(6) by blast

lemma string_to_time_minutes:
  assumes "is_digit a" "is_digit b" "is_digit c" "is_digit d"
  shows "digits_at (a # b # CHR '':'' # c # d # r) 0 = Some (digit_val a * 10 + digit_val b)"
    "cat (a # b # CHR '':'' # c # d # r) 2 = CHR '':''"
    "skip_colon (a # b # CHR '':'' # c # d # r) 2 = 3"
    "digits_at (a # b # CHR '':'' # c # d # r) 3 = Some (digit_val c * 10 + digit_val d)"
    "cat (a # b # CHR '':'' # c # d # r) 5 = (if r = [] then NUL else hd r)"
  using digits_at_append [of a b 0 "[]"] digits_at_append [of c d 3 "[a, b, CHR '':'']"]
    skip_colon_append [of 2 "[a, b]"] cat_append [of 2 "[a, b]"]
    cat_append [of 5 "[a, b, CHR '':'', c, d]"] assms
  by simp_all

lemma string_to_time_hms:
  assumes "is_digit a" "is_digit b" "is_digit c" "is_digit d" "is_digit e" "is_digit f"
    and "digit_val a * 10 + digit_val b \<le> 23" "digit_val c * 10 + digit_val d \<le> 59"
      "digit_val e * 10 + digit_val f \<le> 59" and "r = [] \<or> hd r \<noteq> NUL"
  shows "string_to_time (Some (a # b # CHR '':'' # c # d # CHR '':'' # e # f # r)) =
    (let t = (time0 GDA_TIMEZONE_INVALID)\<lparr>tm_hour := digit_val a * 10 + digit_val b,
           tm_minute := digit_val c * 10 + digit_val d, tm_second := digit_val e * 10 + digit_val f\<rparr>
     in Returns (if r = [] then Some t else string_to_time_tail t r))"
proof -
  let ?s = "a # b # CHR '':'' # c # d # CHR '':'' # e # f # r"
  have "skip_colon ?s 5 = 6" "digits_at ?s 6 = Some (digit_val e * 10 + digit_val f)"
    "cat ?s 8 = (if r = [] then NUL else hd r)" "drop 8 ?s = r"
    using skip_colon_append [of 5 "[a, b, CHR '':'', c, d]"] digits_at_append [of e f 6 "[a, b, CHR '':'', c, d, CHR '':'']"]
      cat_append [of 8 "[a, b, CHR '':'', c, d, CHR '':'', e, f]"] assms by simp_all
  then show ?thesis
    using string_to_time_minutes [OF assms(1-4)] assms
    by (auto simp add: string_to_time_def Let_def)
qed

lemma string_to_time_pad:
  assumes "h \<le> 23" "m \<le> 59" "s \<le> 59" and "r = [] \<or> hd r \<noteq> NUL"
  shows "string_to_time (Some (pad 2 (dec h) @ CHR '':'' # pad 2 (dec m) @ CHR '':'' # pad 2 (dec s) @ r)) =
    (let t = \<lparr>tm_hour = h, tm_minute = m, tm_second = s, tm_fraction = 0, tm_timezone = GDA_TIMEZONE_INVALID\<rparr>
     in Returns (if r = [] then Some t else string_to_time_tail t r))"
  using string_to_time_hms [of "dec_digit (h div 10)" "dec_digit (h mod 10)" "dec_digit (m div 10)"
      "dec_digit (m mod 10)" "dec_digit (s div 10)" "dec_digit (s mod 10)" r] assms
  by (simp add: pad2 time0_def)

lemma time_tail:
  assumes "z = [] \<or> (\<exists>c ds. z = c # ds \<and> (c = CHR ''+'' \<or> c = CHR ''-''))" and "tm_hour u \<le> 24"
  shows "string_to_time_tail u ((if f \<noteq> 0 then CHR ''.'' # dec f else []) @ z) =
    Some (if z = [] then u else u\<lparr>tm_timezone := 0\<rparr>)"
proof -
  have d: "dropWhile is_digit (dec f @ z) = z"
    using dec_digits [of f] assms(1) by (subst dropWhile_append2) auto
  have "string_to_time_tail u z = Some (if z = [] then u else u\<lparr>tm_timezone := 0\<rparr>)"
    using assms by (auto simp: string_to_time_tail_def Let_def)
  moreover have "string_to_time_tail u (CHR ''.'' # dec f @ z) = string_to_time_tail u z"
    using assms(1) by (auto simp: string_to_time_tail_def d)
  ultimately show ?thesis by (cases "z = []") auto
qed

lemma string_to_time_overread:
  assumes "is_digit a" "is_digit b" "is_digit c" "is_digit d" "x \<noteq> NUL"
  shows "string_to_time (Some (a # b # CHR '':'' # c # d # [x])) = Undefined"
proof -
  have "digits_at [a, b, CHR '':'', c, d, x] 5 = None" "digits_at [a, b, CHR '':'', c, d, x] 6 = None"
    by (simp_all add: digits_at_def cat_def)
  then show ?thesis
    using string_to_time_minutes [OF assms(1-4)] assms
    by (simp add: string_to_time_def Let_def skip_colon_def)
qed

section \<open>Properties\<close>

text \<open>Remark: A date is read from any number of digits for the year, the month and the day: each number is
  taken modulo 65536, and the date is accepted when the month is in 1..12, the day in 1..255 and GLib
  finds it valid. So a year above 65535 is not refused but reduced.\<close>

theorem parse_date_digits:
  assumes "all_digits ys" and "all_digits ms" and "all_digits ds"
  shows "gda_parse_iso8601_date g (Some (ys @ CHR ''-'' # ms @ CHR ''-'' # ds)) =
    (let y = numval 0 ys mod 2 ^ 16; m = numval 0 ms mod 2 ^ 16; d = numval 0 ds mod 2 ^ 16
     in if 1 \<le> m \<and> m \<le> 12 \<and> 1 \<le> d \<and> d \<le> 255 \<and> g_date_valid g (y, m, d)
        then Some (y, m, d) else None)"
proof -
  have "date_value (ys @ CHR ''-'' # ms @ CHR ''-'' # ds) = (numval 0 ys mod 2 ^ 16, CHR ''-'' # ms @ CHR ''-'' # ds)"
    and "date_value (ms @ CHR ''-'' # ds) = (numval 0 ms mod 2 ^ 16, CHR ''-'' # ds)"
    and "date_value ds = (numval 0 ds mod 2 ^ 16, [])"
    using assms date_value_run date_value_end by simp_all
  then show ?thesis
    unfolding gda_parse_iso8601_date_def gda_parse_formatted_date_def parse_formatted_date_def
    by (simp add: cat_def Let_def not_less not_le)
qed

lemma parse_date_digits_witness:
  "gda_parse_iso8601_date gregorian (Some ''65537-2-28'') = Some (1, 2, 28)"
  using parse_date_digits [of "''65537''" "''2''" "''28''" gregorian]
  by (simp add: is_digit_def code_def digit_val_def gregorian_def month_days_def leap_def)

text \<open>Remark: Printing a time and parsing it gives it back, with its fraction and its time zone, when the
  time zone is unset or a whole number of hours less than a day away.\<close>

theorem time_round_trip:
  assumes "printable (tm_hour t) (tm_minute t) (tm_second t) (tm_fraction t) (tm_timezone t)"
  shows "gda_parse_iso8601_time g (Some (time_to_string t)) = Some t"
  using parse_print_time [OF assms]
  by (simp add: gda_parse_iso8601_time_def time_to_string_def)

lemma time_round_trip_witness:
  "gda_parse_iso8601_time gregorian (Some ''09:05:00.120-3'') =
     Some \<lparr>tm_hour = 9, tm_minute = 5, tm_second = 0, tm_fraction = 120, tm_timezone = -10800\<rparr>"
proof -
  let ?t = "\<lparr>tm_hour = 9, tm_minute = 5, tm_second = 0, tm_fraction = 120, tm_timezone = -10800\<rparr>"
  have "time_to_string ?t = ''09:05:00.120-3''" by code_simp
  moreover have "gda_parse_iso8601_time gregorian (Some (time_to_string ?t)) = Some ?t"
    by (rule time_round_trip) (simp add: printable_def ULONG_def)
  ultimately show ?thesis by simp
qed

text \<open>Remark: Printing a time stamp and parsing it gives it back and reports success, for a date that GLib finds
  valid with a year that fits the signed field.\<close>

theorem timestamp_round_trip:
  assumes "printable (ts_hour ts) (ts_minute ts) (ts_second ts) (ts_fraction ts) (ts_timezone ts)"
    and "1 \<le> ts_year ts" and "ts_year ts < 2 ^ 15" and "1 \<le> ts_month ts" and "ts_month ts \<le> 12"
    and "1 \<le> ts_day ts" and "ts_day ts \<le> 31" and "g_date_valid g (nat (ts_year ts), ts_month ts, ts_day ts)"
  shows "gda_parse_iso8601_timestamp g (Some (timestamp_to_string ts)) = (ts, True)"
proof -
  let ?y = "nat (ts_year ts)"
  let ?pt = "print_time (ts_hour ts) (ts_minute ts) (ts_second ts) (ts_fraction ts) (ts_timezone ts)"
  have s: "timestamp_to_string ts = pad 4 (dec ?y) @ CHR ''-'' # pad 2 (dec (ts_month ts)) @ CHR ''-''
      # pad 2 (dec (ts_day ts)) @ CHR '' '' # ?pt"
    using assms(2,3) by (simp add: timestamp_to_string_def)
  have v: "?y mod 2 ^ 16 = ?y" using assms(2,3) by simp
  have "date_value (pad 4 (dec ?y) @ CHR ''-'' # r) = (?y, CHR ''-'' # r)" for r
    using date_value_run [of "pad 4 (dec ?y)" "CHR ''-'' # r"] v by simp
  moreover have "date_value (pad 2 (dec (ts_month ts)) @ CHR ''-'' # r) = (ts_month ts, CHR ''-'' # r)" for r
    using date_value_run [of "pad 2 (dec (ts_month ts))" "CHR ''-'' # r"] assms by simp
  moreover have "date_value (pad 2 (dec (ts_day ts)) @ CHR '' '' # r) = (ts_day ts, CHR '' '' # r)" for r
    using date_value_run [of "pad 2 (dec (ts_day ts))" "CHR '' '' # r"] assms by simp
  ultimately have "parse_formatted_date g (timestamp_to_string ts) G_DATE_YEAR G_DATE_MONTH G_DATE_DAY (CHR ''-'') =
      Some ((?y, ts_month ts, ts_day ts), CHR '' '' # ?pt)"
    unfolding parse_formatted_date_def s using assms by (simp add: cat_def)
  moreover have "gshort ?y = ts_year ts"
    using assms(2,3) v by (simp add: gshort_def)
  moreover have "?pt \<noteq> []"
    using print_time_ne assms(1) by (simp add: printable_def)
  ultimately show ?thesis
    using parse_print_time [OF assms(1)]
    by (simp add: gda_parse_iso8601_timestamp_def gda_parse_formatted_timestamp_def ts_of_def Let_def)
qed

lemma timestamp_round_trip_witness:
  "snd (gda_parse_iso8601_timestamp gregorian (Some ''2024-02-29 23:59:59+1'')) = True"
proof -
  let ?t = "\<lparr>ts_year = 2024, ts_month = 2, ts_day = 29, ts_hour = 23, ts_minute = 59, ts_second = 59,
             ts_fraction = 0, ts_timezone = 3600\<rparr>"
  have "timestamp_to_string ?t = ''2024-02-29 23:59:59+1''" by code_simp
  moreover have "gda_parse_iso8601_timestamp gregorian (Some (timestamp_to_string ?t)) = (?t, True)"
    by (rule timestamp_round_trip)
       (simp_all add: printable_def ULONG_def gregorian_def month_days_def leap_def)
  ultimately show ?thesis by simp
qed


text \<open>Remark: Changing the time zone of a valid time to another one less than twelve hours away keeps the time
  valid, keeps the fraction and the instant (the seconds of the day minus the zone, modulo a day), and
  changing it back gives the time it was.\<close>

theorem change_timezone_instant:
  assumes "gda_time_valid t" and "in_zone ntz"
  shows "gda_time_valid (gda_time_change_timezone t ntz) \<and>
    tm_timezone (gda_time_change_timezone t ntz) = ntz \<and>
    tm_fraction (gda_time_change_timezone t ntz) = tm_fraction t \<and>
    (time_seconds (gda_time_change_timezone t ntz) - ntz) mod 86400 = (time_seconds t - tm_timezone t) mod 86400 \<and>
    gda_time_change_timezone (gda_time_change_timezone t ntz) (tm_timezone t) = t"
proof -
  note b = valid_bounds [OF assms(1)]
  note sh = shifted_bounds [OF b(7,8,4) assms(2)]
  let ?u = "gda_time_change_timezone t ntz"
  note u = change_zone_spec [OF assms]
  then have "gda_time_valid ?u" by simp
  note w = change_zone_spec [OF this b(4)]
  have "time_seconds (gda_time_change_timezone ?u (tm_timezone t)) = time_seconds t"
    using u w sh by (auto split: if_splits)
  moreover have "gda_time_valid (gda_time_change_timezone ?u (tm_timezone t))" using w by simp
  ultimately have "gda_time_change_timezone ?u (tm_timezone t) = t"
    using u w assms(1) by (intro time_eqI) simp_all
  with u sh show ?thesis by (auto split: if_splits)
qed

lemma change_timezone_instant_witness:
  "gda_time_change_timezone \<lparr>tm_hour = 23, tm_minute = 30, tm_second = 0, tm_fraction = 7, tm_timezone = 0\<rparr> 5400 =
     \<lparr>tm_hour = 1, tm_minute = 0, tm_second = 0, tm_fraction = 7, tm_timezone = 5400\<rparr> \<and>
   gda_time_change_timezone \<lparr>tm_hour = 1, tm_minute = 0, tm_second = 0, tm_fraction = 7, tm_timezone = 5400\<rparr> 0 =
     \<lparr>tm_hour = 23, tm_minute = 30, tm_second = 0, tm_fraction = 7, tm_timezone = 0\<rparr>"
proof -
  let ?t = "\<lparr>tm_hour = 23, tm_minute = 30, tm_second = 0, tm_fraction = 7, tm_timezone = 0\<rparr>"
  have c: "gda_time_change_timezone ?t 5400 =
     \<lparr>tm_hour = 1, tm_minute = 0, tm_second = 0, tm_fraction = 7, tm_timezone = 5400\<rparr>"
    by (simp add: gda_time_change_timezone_def gda_time_valid_def hms_valid_def split_seconds_def
        GDA_TIMEZONE_INVALID_def Let_def)
  have "gda_time_valid ?t" "in_zone 5400" by (simp_all add: gda_time_valid_def hms_valid_def in_zone_def)
  from change_timezone_instant [OF this] c show ?thesis by simp
qed

text \<open>Remark: Changing the time zone of a valid time stamp keeps the instant, with the date moved by a day when
  midnight is passed, and keeps the time stamp valid; for years that stay in the signed field, and not on
  the first day of the calendar, which has no day before.\<close>

theorem change_timestamp_instant:
  assumes "calendar g day_no" and "gda_timestamp_valid g ts" and "in_zone ntz"
    and "ts_ymd ts \<noteq> (1, 1, 1)" and "fst (ts_ymd ts) + 1 < 2 ^ 15"
  shows "instant day_no (gda_timestamp_change_timezone g ts ntz) = instant day_no ts
    \<and> ts_timezone (gda_timestamp_change_timezone g ts ntz) = ntz
    \<and> gda_timestamp_valid g (gda_timestamp_change_timezone g ts ntz)"
  by (rule calendar.change_instant [OF assms])

lemma change_timestamp_instant_witness:
  "instant gregorian_day (gda_timestamp_change_timezone gregorian
     \<lparr>ts_year = 2023, ts_month = 12, ts_day = 31, ts_hour = 23, ts_minute = 0, ts_second = 0,
      ts_fraction = 0, ts_timezone = 0\<rparr> 7200) =
   instant gregorian_day
     \<lparr>ts_year = 2023, ts_month = 12, ts_day = 31, ts_hour = 23, ts_minute = 0, ts_second = 0,
      ts_fraction = 0, ts_timezone = 0\<rparr>"
proof -
  let ?t = "\<lparr>ts_year = 2023, ts_month = 12, ts_day = 31, ts_hour = 23, ts_minute = 0, ts_second = 0,
      ts_fraction = 0, ts_timezone = 0\<rparr>"
  have "gda_timestamp_valid gregorian ?t" "in_zone 7200" "ts_ymd ?t \<noteq> (1, 1, 1)" "fst (ts_ymd ?t) + 1 < 2 ^ 15"
    by (simp_all add: gda_timestamp_valid_def hms_valid_def in_zone_def ts_ymd_def gregorian_def month_days_def)
  from change_timestamp_instant [OF gregorian.calendar_axioms this] show ?thesis by simp
qed

text \<open>Remark: A time or a time stamp that was parsed without a time zone has the unset one, which the validity
  checks refuse: it is not valid and changing its time zone does nothing, although the documentation says
  that it sets an unset time zone.\<close>

theorem unset_timezone_not_valid:
  "\<not> gda_time_valid (t\<lparr>tm_timezone := GDA_TIMEZONE_INVALID\<rparr>) \<and>
   gda_time_change_timezone (t\<lparr>tm_timezone := GDA_TIMEZONE_INVALID\<rparr>) ntz = t\<lparr>tm_timezone := GDA_TIMEZONE_INVALID\<rparr> \<and>
   gda_timestamp_change_timezone g (ts\<lparr>ts_timezone := GDA_TIMEZONE_INVALID\<rparr>) ntz =
     ts\<lparr>ts_timezone := GDA_TIMEZONE_INVALID\<rparr>"
  by (simp add: gda_time_change_timezone_def gda_timestamp_change_timezone_def gda_time_valid_def
      gda_timestamp_valid_def hms_valid_def GDA_TIMEZONE_INVALID_def)

text \<open>Remark: \<open>string_to_time\<close>, which transforms the text of a time into a value, loses the fraction and sets
  every time zone to GMT: applied to the text of a time it gives the hour, the minute and the second only.
  And it reads behind its string when one single character follows the minutes.\<close>

theorem string_to_time_losses:
  assumes "printable (tm_hour t) (tm_minute t) (tm_second t) (tm_fraction t) (tm_timezone t)"
    and "h < 100" and "m < 100" and "c \<noteq> NUL"
  shows "string_to_time (Some (time_to_string t)) =
      Returns (Some (t\<lparr>tm_fraction := 0,
        tm_timezone := if tm_timezone t = GDA_TIMEZONE_INVALID then GDA_TIMEZONE_INVALID else 0\<rparr>))
    \<and> string_to_time (Some (pad 2 (dec h) @ CHR '':'' # pad 2 (dec m) @ [c])) = Undefined"
proof
  have b: "tm_hour t \<le> 23" "tm_minute t \<le> 59" "tm_second t \<le> 59" using assms(1) by (simp_all add: printable_def)
  let ?z = "if tm_timezone t \<noteq> GDA_TIMEZONE_INVALID then print_zone (tm_timezone t) else []"
  let ?r = "(if tm_fraction t \<noteq> 0 then CHR ''.'' # dec (tm_fraction t) else []) @ ?z"
  let ?u = "\<lparr>tm_hour = tm_hour t, tm_minute = tm_minute t, tm_second = tm_second t, tm_fraction = 0,
             tm_timezone = GDA_TIMEZONE_INVALID\<rparr>"
  have head: "string_to_time (Some (time_to_string t)) =
      (if ?r = [] then Returns (Some ?u) else Returns (string_to_time_tail ?u ?r))"
  proof -
    have "?r = [] \<or> hd ?r \<noteq> NUL" using print_zone_digits [of "tm_timezone t"] by auto
    from string_to_time_pad [OF b this] show ?thesis
      unfolding time_to_string_def print_time_def Let_def by simp
  qed
  have "string_to_time_tail ?u ?r = Some (if ?z = [] then ?u else ?u\<lparr>tm_timezone := 0\<rparr>)"
    using print_zone_digits [of "tm_timezone t"] b by (intro time_tail) auto
  then have "string_to_time_tail ?u ?r = Some (t\<lparr>tm_fraction := 0,
        tm_timezone := if tm_timezone t = GDA_TIMEZONE_INVALID then GDA_TIMEZONE_INVALID else 0\<rparr>)"
    using print_zone_digits [of "tm_timezone t"] by (cases t) (simp split: if_splits)
  moreover have "?u = t\<lparr>tm_fraction := 0,
        tm_timezone := if tm_timezone t = GDA_TIMEZONE_INVALID then GDA_TIMEZONE_INVALID else 0\<rparr>" if "?r = []"
    using that print_zone_digits [of "tm_timezone t"] by (cases t) (simp split: if_splits)
  ultimately show "string_to_time (Some (time_to_string t)) =
      Returns (Some (t\<lparr>tm_fraction := 0,
        tm_timezone := if tm_timezone t = GDA_TIMEZONE_INVALID then GDA_TIMEZONE_INVALID else 0\<rparr>))"
    unfolding head by (cases "?r = []") (simp_all only: if_True if_False simp_thms)
next
  show "string_to_time (Some (pad 2 (dec h) @ CHR '':'' # pad 2 (dec m) @ [c])) = Undefined"
    using assms(2-4) string_to_time_overread by (simp add: pad2)
qed

lemma string_to_time_losses_witness:
  "string_to_time (Some ''09:05:00.120-3'') =
     Returns (Some \<lparr>tm_hour = 9, tm_minute = 5, tm_second = 0, tm_fraction = 0, tm_timezone = 0\<rparr>)
   \<and> string_to_time (Some ''09:05x'') = Undefined"
proof -
  let ?t = "\<lparr>tm_hour = 9, tm_minute = 5, tm_second = 0, tm_fraction = 120, tm_timezone = -10800\<rparr>"
  have s: "time_to_string ?t = ''09:05:00.120-3''" "pad 2 (dec 9) @ CHR '':'' # pad 2 (dec 5) @ ''x'' = ''09:05x''"
    by code_simp+
  have "printable (tm_hour ?t) (tm_minute ?t) (tm_second ?t) (tm_fraction ?t) (tm_timezone ?t)"
    by (simp add: printable_def ULONG_def)
  from string_to_time_losses [OF this, of 9 5 "CHR ''x''"] s
  show ?thesis by (simp add: GDA_TIMEZONE_INVALID_def)
qed

text \<open>Remark: The designators of GMT (\<open>Z\<close>, \<open>GMT\<close>, \<open>UTC\<close>, with or without white space before) are
  understood after a fraction only: a time without a fraction that ends with one is refused.\<close>

theorem gmt_only_after_fraction:
  assumes "h \<le> 23" and "m \<le> 59" and "s \<le> 59" and "f < ULONG"
    and "zone \<in> {''Z'', ''z'', ''GMT'', ''gmt'', ''UTC'', ''utc'', '' GMT'', '' UTC'', '' Z''}"
  shows "gda_parse_iso8601_time g (Some (pad 2 (dec h) @ CHR '':'' # pad 2 (dec m) @ CHR '':'' # pad 2 (dec s)
             @ zone)) = None
    \<and> gda_parse_iso8601_time g (Some (pad 2 (dec h) @ CHR '':'' # pad 2 (dec m) @ CHR '':'' # pad 2 (dec s)
             @ CHR ''.'' # dec f @ zone)) =
        Some \<lparr>tm_hour = h, tm_minute = m, tm_second = s, tm_fraction = f, tm_timezone = 0\<rparr>"
proof -
  have nd: "no_digit zone" using assms(5) by (auto simp: is_digit_def code_def)
  have "zone_name g (dropWhile g_ascii_isspace zone) = Some 0"
    using assms(5) by (elim insertE emptyE; simp only:; code_simp)
  moreover have "zone \<noteq> []" "hd zone \<noteq> CHR ''+''" "hd zone \<noteq> CHR ''-''" "hd zone \<noteq> CHR ''.''"
    using assms(5) by auto
  ultimately have z: "parse_zone g t zone = (t\<lparr>tm_timezone := 0\<rparr>, Some [])"
    and hd: "zone \<noteq> []" "hd zone \<noteq> CHR ''+''" "hd zone \<noteq> CHR ''-''" "hd zone \<noteq> CHR ''.''" for t
    by (simp_all add: parse_zone_def)
  have "fraction_digits 0 (dec f @ zone) = Some (f, zone)"
    using fraction_run [of "dec f" zone 0] nd assms(4) by simp
  then show ?thesis
    using assms(1-3) z hd
    by (simp add: gda_parse_iso8601_time_def parse_hms parse_fraction_def split: list.split)
qed

lemma gmt_only_after_fraction_witness:
  "gda_parse_iso8601_time gregorian (Some ''12:30:15Z'') = None \<and>
   gda_parse_iso8601_time gregorian (Some ''12:30:15.0Z'') =
     Some \<lparr>tm_hour = 12, tm_minute = 30, tm_second = 15, tm_fraction = 0, tm_timezone = 0\<rparr>"
proof -
  have "pad 2 (dec 12) @ CHR '':'' # pad 2 (dec 30) @ CHR '':'' # pad 2 (dec 15) @ ''Z'' = ''12:30:15Z''"
    "pad 2 (dec 12) @ CHR '':'' # pad 2 (dec 30) @ CHR '':'' # pad 2 (dec 15) @ CHR ''.'' # dec 0 @ ''Z'' = ''12:30:15.0Z''"
    by code_simp+
  with gmt_only_after_fraction [of 12 30 15 0 "''Z''" gregorian] show ?thesis by (simp add: ULONG_def)
qed

end
