(* ===== verification/Gda_Xa.thy ===== *)
theory Gda_Xa
  imports Gda_Prelude "HOL-Library.AList"
begin

text \<open>
  The distributed transaction manager (\<open>libgda/gda-xa-transaction.c\<close>): registration of connections, the
  two phase protocol, recovery, and the textual form of transaction identifiers.

  A connection is its number. The providers are parameters: for each connection the table of its XA
  functions, in which every function may be missing (NULL), and the three functions of plain
  transactions; they act on the state of the databases, of any type. A call through a NULL pointer
  or an access outside of the identifier's 128 bytes is \<open>Undefined\<close>.
\<close>

section \<open>Data\<close>

record xid =
  xid_format :: nat
  gtrid_length :: nat
  bqual_length :: nat
  xid_data :: "char list"

type_synonym cid = nat
type_synonym 'w xa_call = "cid \<Rightarrow> xid \<Rightarrow> 'w \<Rightarrow> bool \<times> 'w"

record 'w xa_funcs =
  xa_start :: "'w xa_call option"
  xa_end :: "'w xa_call option"
  xa_prepare :: "'w xa_call option"
  xa_commit :: "'w xa_call option"
  xa_rollback :: "'w xa_call option"
  xa_recover :: "(cid \<Rightarrow> 'w \<Rightarrow> xid option list \<times> 'w) option"

record 'w providers =
  funcs :: "cid \<Rightarrow> 'w xa_funcs option"
  begin_transaction :: "cid \<Rightarrow> 'w \<Rightarrow> bool \<times> 'w"
  commit_transaction :: "cid \<Rightarrow> 'w \<Rightarrow> bool \<times> 'w"
  rollback_transaction :: "cid \<Rightarrow> 'w \<Rightarrow> bool \<times> 'w"

text \<open>
  A transaction object: its number, its identifier, the branch qualifiers with their NUL, the list
  of connections and the one connection that has no XA functions. \<open>registry\<close> is the data
  \<open>"_gda_xa_transaction"\<close> of each connection.
\<close>

record xa_trans =
  self :: nat
  xa_xid :: xid
  cnc_hash :: "(cid \<times> char list) list"
  cnc_list :: "cid list"
  non_xa_cnc :: "cid option"

type_synonym registry = "cid \<Rightarrow> nat option"

datatype xa_error = AlreadyRegistered | DtpNotSupported | BranchLength | ArgumentCheck

definition gda_xa_transaction_init :: "nat \<Rightarrow> xa_trans" where
  "gda_xa_transaction_init n =
     \<lparr>self = n, xa_xid = \<lparr>xid_format = 1, gtrid_length = 0, bqual_length = 0, xid_data = replicate 128 NUL\<rparr>,
      cnc_hash = [], cnc_list = [], non_xa_cnc = None\<rparr>"

text \<open>\<open>memcpy\<close> into the 128 bytes of the identifier.\<close>

definition copy_data :: "char list \<Rightarrow> nat \<Rightarrow> char list \<Rightarrow> char list" where
  "copy_data d off src = take off d @ src @ drop (off + length src) d"

definition set_transaction_id :: "xa_trans \<Rightarrow> string \<Rightarrow> xa_trans" where
  "set_transaction_id t s =
     (if 64 < length s then t
      else t\<lparr>xa_xid := (xa_xid t)\<lparr>gtrid_length := length s, xid_data := copy_data (xid_data (xa_xid t)) 0 s\<rparr>\<rparr>)"

section \<open>Registration\<close>

definition gda_xa_transaction_register_connection ::
    "'w providers \<Rightarrow> xa_trans \<Rightarrow> registry \<Rightarrow> cid \<Rightarrow> string \<Rightarrow> (xa_error + unit) \<times> xa_trans \<times> registry" where
  "gda_xa_transaction_register_connection env t reg c branch =
     (if branch = [] then (Inl ArgumentCheck, t, reg)
      else if 64 \<le> length branch then (Inl BranchLength, t, reg)
      else if map_of (cnc_hash t) c \<noteq> None
      then (Inr (), t\<lparr>cnc_hash := AList.update c (branch @ [NUL]) (cnc_hash t)\<rparr>, reg)
      else if reg c \<noteq> None then (Inl AlreadyRegistered, t, reg)
      else if funcs env c = None \<and> non_xa_cnc t \<noteq> None then (Inl DtpNotSupported, t, reg)
      else (Inr (),
            t\<lparr>non_xa_cnc := (if funcs env c = None then Some c else non_xa_cnc t),
              cnc_list := c # cnc_list t,
              cnc_hash := AList.update c (branch @ [NUL]) (cnc_hash t)\<rparr>,
            reg(c := Some (self t))))"

definition gda_xa_transaction_unregister_connection ::
    "xa_trans \<Rightarrow> registry \<Rightarrow> cid \<Rightarrow> xa_trans \<times> registry" where
  "gda_xa_transaction_unregister_connection t reg c =
     (if c \<notin> set (cnc_list t) then (t, reg)
      else (t\<lparr>cnc_list := remove1 c (cnc_list t), cnc_hash := AList.delete c (cnc_hash t)\<rparr>, reg(c := None)))"

section \<open>The protocol\<close>

text \<open>The branch qualifier of the connection is copied behind the global transaction identifier.\<close>

definition set_branch :: "xa_trans \<Rightarrow> cid \<Rightarrow> xa_trans outcome" where
  "set_branch t c =
     (case map_of (cnc_hash t) c of
        None \<Rightarrow> Undefined
      | Some b \<Rightarrow>
          if gtrid_length (xa_xid t) + length b \<le> 128
          then Returns (t\<lparr>xa_xid := (xa_xid t)\<lparr>xid_data := copy_data (xid_data (xa_xid t)) (gtrid_length (xa_xid t)) b\<rparr>\<rparr>)
          else Undefined)"

text \<open>An XA function called with the identifier of the branch.\<close>

definition xa_call :: "'w xa_call \<Rightarrow> xa_trans \<Rightarrow> cid \<Rightarrow> 'w \<Rightarrow> (bool \<times> xa_trans \<times> 'w) outcome" where
  "xa_call f t c w =
     bind_outcome (set_branch t c) (\<lambda>t. case f c (xa_xid t) w of (ok, w) \<Rightarrow> Returns (ok, t, w))"

definition start_one :: "'w providers \<Rightarrow> xa_trans \<Rightarrow> cid \<Rightarrow> 'w \<Rightarrow> (bool \<times> xa_trans \<times> 'w) outcome" where
  "start_one env t c w =
     (if Some c \<noteq> non_xa_cnc t then
        (case funcs env c of
           None \<Rightarrow> Undefined
         | Some f \<Rightarrow> (case xa_start f of None \<Rightarrow> Returns (False, t, w) | Some g \<Rightarrow> xa_call g t c w))
      else (case begin_transaction env c w of (ok, w) \<Rightarrow> Returns (ok, t, w)))"

text \<open>The result of a roll back is not looked at.\<close>

definition rollback_one :: "'w providers \<Rightarrow> xa_trans \<Rightarrow> cid \<Rightarrow> 'w \<Rightarrow> (xa_trans \<times> 'w) outcome" where
  "rollback_one env t c w =
     (if Some c \<noteq> non_xa_cnc t then
        (case funcs env c of
           None \<Rightarrow> Undefined
         | Some f \<Rightarrow>
             (case xa_rollback f of
                None \<Rightarrow> Returns (t, w)
              | Some g \<Rightarrow> bind_outcome (xa_call g t c w) (\<lambda>(ok, t, w). Returns (t, w))))
      else Returns (t, snd (rollback_transaction env c w)))"

fun rollback_loop :: "'w providers \<Rightarrow> xa_trans \<Rightarrow> 'w \<Rightarrow> cid list \<Rightarrow> (xa_trans \<times> 'w) outcome" where
  "rollback_loop env t w [] = Returns (t, w)"
| "rollback_loop env t w (c # cs) =
     bind_outcome (rollback_one env t c w) (\<lambda>(t, w). rollback_loop env t w cs)"

text \<open>\<open>visited\<close> holds the connections before the current one, the last one first (\<open>list->prev\<close>).\<close>

fun begin_loop :: "'w providers \<Rightarrow> xa_trans \<Rightarrow> 'w \<Rightarrow> cid list \<Rightarrow> cid list \<Rightarrow> (bool \<times> xa_trans \<times> 'w) outcome" where
  "begin_loop env t w visited [] = Returns (True, t, w)"
| "begin_loop env t w visited (c # cs) =
     bind_outcome (start_one env t c w) (\<lambda>(ok, t, w).
       if ok then begin_loop env t w (c # visited) cs
       else bind_outcome (rollback_loop env t w (c # visited)) (\<lambda>(t, w). Returns (False, t, w)))"

definition gda_xa_transaction_begin :: "'w providers \<Rightarrow> xa_trans \<Rightarrow> 'w \<Rightarrow> (bool \<times> xa_trans \<times> 'w) outcome" where
  "gda_xa_transaction_begin env t w = begin_loop env t w [] (cnc_list t)"

text \<open>In the other two roll backs the branch is copied before the function is looked for.\<close>

definition rollback_xa :: "'w providers \<Rightarrow> xa_trans \<Rightarrow> cid \<Rightarrow> 'w \<Rightarrow> (xa_trans \<times> 'w) outcome" where
  "rollback_xa env t c w =
     bind_outcome (set_branch t c) (\<lambda>t.
        case funcs env c of
          None \<Rightarrow> Undefined
        | Some f \<Rightarrow> (case xa_rollback f of None \<Rightarrow> Returns (t, w)
                     | Some g \<Rightarrow> Returns (t, snd (g c (xa_xid t) w))))"

fun rollback_all :: "'w providers \<Rightarrow> xa_trans \<Rightarrow> 'w \<Rightarrow> cid list \<Rightarrow> (xa_trans \<times> 'w) outcome" where
  "rollback_all env t w [] = Returns (t, w)"
| "rollback_all env t w (c # cs) =
     bind_outcome
       (if Some c = non_xa_cnc t then Returns (t, snd (rollback_transaction env c w)) else rollback_xa env t c w)
       (\<lambda>(t, w). rollback_all env t w cs)"

definition gda_xa_transaction_rollback :: "'w providers \<Rightarrow> xa_trans \<Rightarrow> 'w \<Rightarrow> (bool \<times> xa_trans \<times> 'w) outcome" where
  "gda_xa_transaction_rollback env t w =
     bind_outcome (rollback_all env t w (cnc_list t)) (\<lambda>(t, w). Returns (True, t, w))"

text \<open>
  In \<open>gda_xa_transaction_commit\<close> the variable \<open>cnc\<close> is NULL when it is compared with
  \<open>non_xa_cnc\<close>, in all its loops.
\<close>

definition prepare_one :: "'w providers \<Rightarrow> xa_trans \<Rightarrow> cid \<Rightarrow> 'w \<Rightarrow> (bool \<times> xa_trans \<times> 'w) outcome" where
  "prepare_one env t c w =
     bind_outcome (set_branch t c) (\<lambda>t.
       case funcs env c of
         None \<Rightarrow> Undefined
       | Some f \<Rightarrow>
           (case (case xa_end f of None \<Rightarrow> (True, w) | Some g \<Rightarrow> g c (xa_xid t) w) of
              (False, w) \<Rightarrow> Returns (False, t, w)
            | (True, w) \<Rightarrow>
                (case (xa_prepare f, xa_commit f) of
                   (Some g, Some _) \<Rightarrow> (case g c (xa_xid t) w of (ok, w) \<Rightarrow> Returns (ok, t, w))
                 | _ \<Rightarrow> Returns (False, t, w))))"

definition commit_rollback_one :: "'w providers \<Rightarrow> xa_trans \<Rightarrow> cid \<Rightarrow> 'w \<Rightarrow> (xa_trans \<times> 'w) outcome" where
  "commit_rollback_one env t c w =
     (if non_xa_cnc t = None then Returns (t, w) else rollback_xa env t c w)"

fun commit_rollback_loop :: "'w providers \<Rightarrow> xa_trans \<Rightarrow> 'w \<Rightarrow> cid list \<Rightarrow> (xa_trans \<times> 'w) outcome" where
  "commit_rollback_loop env t w [] = Returns (t, w)"
| "commit_rollback_loop env t w (c # cs) =
     bind_outcome (commit_rollback_one env t c w) (\<lambda>(t, w). commit_rollback_loop env t w cs)"

fun prepare_loop :: "'w providers \<Rightarrow> xa_trans \<Rightarrow> 'w \<Rightarrow> cid list \<Rightarrow> cid list \<Rightarrow> (bool \<times> xa_trans \<times> 'w) outcome" where
  "prepare_loop env t w visited [] = Returns (True, t, w)"
| "prepare_loop env t w visited (c # cs) =
     (if non_xa_cnc t = None then prepare_loop env t w (c # visited) cs
      else bind_outcome (prepare_one env t c w) (\<lambda>(ok, t, w).
        if ok then prepare_loop env t w (c # visited) cs
        else bind_outcome (commit_rollback_loop env t w (c # visited)) (\<lambda>(t, w). Returns (False, t, w))))"

fun commit_loop :: "'w providers \<Rightarrow> xa_trans \<Rightarrow> 'w \<Rightarrow> cid list \<Rightarrow> cid list \<Rightarrow> (cid list \<times> xa_trans \<times> 'w) outcome" where
  "commit_loop env t w failed [] = Returns (failed, t, w)"
| "commit_loop env t w failed (c # cs) =
     (if non_xa_cnc t = None then commit_loop env t w failed cs
      else bind_outcome (set_branch t c) (\<lambda>t.
        case funcs env c of
          None \<Rightarrow> Undefined
        | Some f \<Rightarrow>
            (case xa_commit f of
               None \<Rightarrow> Undefined
             | Some g \<Rightarrow> (case g c (xa_xid t) w of
                           (ok, w) \<Rightarrow> commit_loop env t w (if ok then failed else c # failed) cs))))"

text \<open>The return value, the connections to recover, and the states.\<close>

definition gda_xa_transaction_commit ::
    "'w providers \<Rightarrow> xa_trans \<Rightarrow> 'w \<Rightarrow> (bool \<times> cid list \<times> xa_trans \<times> 'w) outcome" where
  "gda_xa_transaction_commit env t w =
     bind_outcome (prepare_loop env t w [] (cnc_list t)) (\<lambda>(ok, t, w).
       if \<not> ok then Returns (False, [], t, w)
       else
         (case (case non_xa_cnc t of None \<Rightarrow> (True, w) | Some c \<Rightarrow> commit_transaction env c w) of
            (True, w) \<Rightarrow>
              bind_outcome (commit_loop env t w [] (cnc_list t)) (\<lambda>(failed, t, w). Returns (True, failed, t, w))
          | (False, w) \<Rightarrow>
              bind_outcome (commit_rollback_loop env t w (cnc_list t)) (\<lambda>(t, w). Returns (False, [], t, w))))"

text \<open>
  The comparison of a recovered identifier with that of the transaction: the number of bytes
  compared is twice the length of the branch qualifier.
\<close>

definition xid_matches :: "xid \<Rightarrow> xid \<Rightarrow> bool" where
  "xid_matches mine x \<longleftrightarrow>
     xid_format x = xid_format mine \<and> gtrid_length x = gtrid_length mine \<and> bqual_length x = bqual_length mine \<and>
     take (bqual_length x + bqual_length x) (xid_data mine) = take (bqual_length x + bqual_length x) (xid_data x)"

fun recover_loop :: "'w providers \<Rightarrow> xa_trans \<Rightarrow> 'w \<Rightarrow> bool \<Rightarrow> cid list \<Rightarrow> cid list \<Rightarrow>
    (bool \<times> cid list \<times> xa_trans \<times> 'w) outcome" where
  "recover_loop env t w retval failed [] = Returns (retval, failed, t, w)"
| "recover_loop env t w retval failed (c # cs) =
     (if Some c = non_xa_cnc t then recover_loop env t w retval failed cs
      else
        (case funcs env c of
           None \<Rightarrow> Undefined
         | Some f \<Rightarrow>
             (case xa_recover f of
                None \<Rightarrow> recover_loop env t w retval failed cs
              | Some r \<Rightarrow>
                  (case r c w of (xids, w) \<Rightarrow>
                     if xids = [] then recover_loop env t w retval failed cs
                     else bind_outcome (set_branch t c) (\<lambda>t.
                       if \<not> list_ex (\<lambda>x. case x of None \<Rightarrow> False | Some x \<Rightarrow> xid_matches (xa_xid t) x) xids
                       then recover_loop env t w retval failed cs
                       else
                         (case xa_commit f of
                            None \<Rightarrow> recover_loop env t w False failed cs
                          | Some g \<Rightarrow>
                              (case g c (xa_xid t) w of (ok, w) \<Rightarrow>
                                 recover_loop env t w ok (if ok then failed else c # failed) cs)))))))"

definition gda_xa_transaction_commit_recovered ::
    "'w providers \<Rightarrow> xa_trans \<Rightarrow> 'w \<Rightarrow> (bool \<times> cid list \<times> xa_trans \<times> 'w) outcome" where
  "gda_xa_transaction_commit_recovered env t w = recover_loop env t w True [] (cnc_list t)"

section \<open>Identifiers as text\<close>

definition XID_SIZE :: nat where "XID_SIZE = 128 * 3 + 15"

text \<open>
  \<open>sprintf ("%%%02x", c)\<close> with a signed \<open>char\<close>: a byte above 127 is printed as a negative \<open>int\<close>, with eight
  digits.
\<close>

definition hex_escape :: "char \<Rightarrow> string" where
  "hex_escape c = CHR ''%'' # (if code c < 128 then hex2 (code c) else ''ffffff'' @ hex2 (code c))"

text \<open>The text written so far; a write behind the block is undefined. \<open>sprintf\<close> also writes a NUL.\<close>

definition put_id_char :: "string \<Rightarrow> char \<Rightarrow> string outcome" where
  "put_id_char out c =
     (if g_ascii_isalnum c then (if length out < XID_SIZE then Returns (out @ [c]) else Undefined)
      else if length out + length (hex_escape c) < XID_SIZE then Returns (out @ hex_escape c) else Undefined)"

definition put_comma :: "string \<Rightarrow> string outcome" where
  "put_comma out = (if length out < XID_SIZE then Returns (out @ '','') else Undefined)"

fun put_id_chars :: "string \<Rightarrow> char list \<Rightarrow> string outcome" where
  "put_id_chars out [] = Returns out"
| "put_id_chars out (c # cs) = bind_outcome (put_id_char out c) (\<lambda>out. put_id_chars out cs)"

text \<open>\<open>%d\<close> of the 32 bit format.\<close>

definition print_d :: "nat \<Rightarrow> string" where
  "print_d f =
     (let n = f mod 2 ^ 32 in if n < 2 ^ 31 then dec n else CHR ''-'' # dec (2 ^ 32 - n))"

text \<open>
  The block returned: the last \<open>sprintf\<close> writes the format at the start of the block, over what
  was put there. (The bytes of the identifier that are read are within \<open>data\<close>.)
\<close>

definition gda_xa_transaction_id_to_string :: "xid \<Rightarrow> char list outcome" where
  "gda_xa_transaction_id_to_string x =
     (if 128 < gtrid_length x + bqual_length x then Undefined
      else
        bind_outcome (put_id_chars [] (take (gtrid_length x) (xid_data x))) (\<lambda>out.
        bind_outcome (put_comma out) (\<lambda>out.
        bind_outcome (put_id_chars out (take (bqual_length x) (drop (gtrid_length x) (xid_data x)))) (\<lambda>out.
        bind_outcome (put_comma out) (\<lambda>out.
          Returns (copy_data (out @ replicate (XID_SIZE - length out) NUL) 0 (print_d (xid_format x) @ [NUL])))))))"

text \<open>
  One part of the text: the bytes up to a comma or the end, at most up to the index \<open>lim\<close>. The
  second hexadecimal digit overwrites the byte that the first one set.
\<close>

fun id_part :: "nat \<Rightarrow> nat \<Rightarrow> string \<Rightarrow> (char list \<times> string) option" where
  "id_part lim index [] = Some ([], [])"
| "id_part lim index (c # s) =
     (if c = CHR '','' then Some ([], c # s)
      else if lim \<le> index then None
      else if c = CHR ''%'' then
        (case s of
           d # e # r \<Rightarrow>
             if is_lhex d \<and> is_lhex e
             then map_option (\<lambda>(bs, r). (char_of (hex_val e) # bs, r)) (id_part lim (index + 1) r)
             else None
         | _ \<Rightarrow> None)
      else if g_ascii_isalnum c
      then map_option (\<lambda>(bs, r). (c # bs, r)) (id_part lim (index + 1) s)
      else None)"

text \<open>\<open>g_ascii_strtoll (ptr, &endptr, 10)\<close>: the value and what \<open>endptr\<close> points to.\<close>

definition g_ascii_strtoll :: "string \<Rightarrow> int \<times> string" where
  "g_ascii_strtoll s =
     (let r = dropWhile (\<lambda>c. g_ascii_isspace c \<or> code c = 11) s;
          neg = (r \<noteq> [] \<and> hd r = CHR ''-'');
          r = (if r \<noteq> [] \<and> (hd r = CHR ''-'' \<or> hd r = CHR ''+'') then tl r else r);
          ds = takeWhile is_digit r;
          n = int (numval 0 ds)
      in if ds = [] then (0, s)
         else (if neg then max (- (2 ^ 63)) (- n) else min (2 ^ 63 - 1) n, dropWhile is_digit r))"

definition gda_xa_transaction_string_to_id :: "string \<Rightarrow> xid option" where
  "gda_xa_transaction_string_to_id s =
     (case id_part 64 0 s of
        None \<Rightarrow> None
      | Some (g, r) \<Rightarrow>
          if r = [] then None
          else
            (case id_part 128 (length g) (tl r) of
               None \<Rightarrow> None
             | Some (b, r) \<Rightarrow>
                 if r = [] then None
                 else
                   (case g_ascii_strtoll (tl r) of
                      (tmp, rest) \<Rightarrow>
                        if rest \<noteq> [] \<or> tmp < 0 \<or> 2 ^ 32 - 1 \<le> tmp then None
                        else Some \<lparr>xid_format = nat tmp, gtrid_length = length g, bqual_length = length b,
                                   xid_data = g @ b @ replicate (128 - length g - length b) NUL\<rparr>)))"

section \<open>Well-formed transaction objects\<close>

text \<open>
  \<open>stable t t'\<close>: only the bytes of the identifier changed, as all the phases of the protocol do.
\<close>

definition stable :: "xa_trans \<Rightarrow> xa_trans \<Rightarrow> bool" where
  "stable t t' \<longleftrightarrow>
     self t' = self t \<and> cnc_hash t' = cnc_hash t \<and> cnc_list t' = cnc_list t \<and> non_xa_cnc t' = non_xa_cnc t \<and>
     xid_format (xa_xid t') = xid_format (xa_xid t) \<and> gtrid_length (xa_xid t') = gtrid_length (xa_xid t) \<and>
     bqual_length (xa_xid t') = bqual_length (xa_xid t) \<and>
     length (xid_data (xa_xid t')) = length (xid_data (xa_xid t))"

lemma stable_refl [simp]: "stable t t"
  by (simp add: stable_def)

lemma stable_trans: "stable t u \<Longrightarrow> stable u v \<Longrightarrow> stable t v"
  by (simp add: stable_def)

definition xa_wf :: "'w providers \<Rightarrow> xa_trans \<Rightarrow> bool" where
  "xa_wf env t \<longleftrightarrow>
     distinct (cnc_list t) \<and> dom (map_of (cnc_hash t)) = set (cnc_list t) \<and>
     (\<forall>c b. map_of (cnc_hash t) c = Some b \<longrightarrow> length b \<le> 64) \<and>
     (\<forall>c \<in> set (cnc_list t). funcs env c = None \<longrightarrow> non_xa_cnc t = Some c) \<and>
     gtrid_length (xa_xid t) \<le> 64 \<and> bqual_length (xa_xid t) = 0 \<and> length (xid_data (xa_xid t)) = 128"

lemma stable_wf: "stable t t' \<Longrightarrow> xa_wf env t \<Longrightarrow> xa_wf env t'"
  by (simp add: stable_def xa_wf_def)

lemma length_copy_data: "off + length src \<le> length d \<Longrightarrow> length (copy_data d off src) = length d"
  by (simp add: copy_data_def)

lemma set_branch_wf:
  assumes "xa_wf env t" and "c \<in> set (cnc_list t)"
  shows "\<exists>t'. set_branch t c = Returns t' \<and> stable t t'"
proof -
  have "c \<in> dom (map_of (cnc_hash t))" using assms by (simp add: xa_wf_def)
  then obtain b where b: "map_of (cnc_hash t) c = Some b" by blast
  then have "gtrid_length (xa_xid t) + length b \<le> 128" using assms(1) by (force simp: xa_wf_def)
  with b assms(1) show ?thesis
    by (simp add: set_branch_def stable_def xa_wf_def length_copy_data)
qed

lemma xa_call_wf:
  assumes "xa_wf env t" and "c \<in> set (cnc_list t)"
  shows "\<exists>ok t' w'. xa_call f t c w = Returns (ok, t', w') \<and> stable t t'"
  using set_branch_wf [OF assms] by (auto simp: xa_call_def split: prod.split)

lemma start_one_wf:
  assumes "xa_wf env t" and "c \<in> set (cnc_list t)"
  shows "\<exists>ok t' w'. start_one env t c w = Returns (ok, t', w') \<and> stable t t'"
proof (cases "Some c = non_xa_cnc t")
  case True
  then show ?thesis by (simp add: start_one_def split: prod.split)
next
  case False
  then obtain f where "funcs env c = Some f" using assms by (force simp: xa_wf_def)
  with False show ?thesis
    using xa_call_wf [OF assms] by (auto simp: start_one_def split: option.split)
qed

lemma rollback_one_wf:
  assumes "xa_wf env t" and "c \<in> set (cnc_list t)"
  shows "\<exists>t' w'. rollback_one env t c w = Returns (t', w') \<and> stable t t'"
proof (cases "Some c = non_xa_cnc t")
  case True
  then show ?thesis by (simp add: rollback_one_def)
next
  case False
  then obtain f where f: "funcs env c = Some f" using assms by (force simp: xa_wf_def)
  show ?thesis
  proof (cases "xa_rollback f")
    case None
    then show ?thesis using False f by (simp add: rollback_one_def)
  next
    case (Some g)
    obtain ok t' w' where "xa_call g t c w = Returns (ok, t', w')" "stable t t'"
      using xa_call_wf [OF assms, of g w] by blast
    then show ?thesis using False f Some by (simp add: rollback_one_def)
  qed
qed

lemma rollback_xa_wf:
  assumes "xa_wf env t" and "c \<in> set (cnc_list t)" and "Some c \<noteq> non_xa_cnc t"
  shows "\<exists>t' w'. rollback_xa env t c w = Returns (t', w') \<and> stable t t'"
proof -
  obtain f where f: "funcs env c = Some f" using assms by (force simp: xa_wf_def)
  obtain t' where "set_branch t c = Returns t'" "stable t t'" using set_branch_wf [OF assms(1,2)] by blast
  then show ?thesis using f by (cases "xa_rollback f") (simp_all add: rollback_xa_def)
qed

lemma rollback_loop_wf:
  "xa_wf env t \<Longrightarrow> set cs \<subseteq> set (cnc_list t) \<Longrightarrow>
   \<exists>t' w'. rollback_loop env t w cs = Returns (t', w') \<and> stable t t'"
proof (induction cs arbitrary: t w)
  case (Cons c cs)
  then obtain t1 w1 where 1: "rollback_one env t c w = Returns (t1, w1)" "stable t t1"
    using rollback_one_wf [of env t c w] by auto
  moreover have "xa_wf env t1" "set cs \<subseteq> set (cnc_list t1)"
    using stable_wf [OF 1(2)] 1(2) Cons.prems by (auto simp: stable_def)
  ultimately show ?case using Cons.IH [of t1 w1] stable_trans [OF 1(2)] by auto
qed simp

lemma rollback_all_wf:
  "xa_wf env t \<Longrightarrow> set cs \<subseteq> set (cnc_list t) \<Longrightarrow>
   \<exists>t' w'. rollback_all env t w cs = Returns (t', w') \<and> stable t t'"
proof (induction cs arbitrary: t w)
  case (Cons c cs)
  then obtain t1 w1 where 1: "(if Some c = non_xa_cnc t then Returns (t, snd (rollback_transaction env c w))
      else rollback_xa env t c w) = Returns (t1, w1)" "stable t t1"
    using rollback_xa_wf [of env t c w] by (cases "Some c = non_xa_cnc t") (simp, fastforce)
  moreover have "xa_wf env t1" "set cs \<subseteq> set (cnc_list t1)"
    using stable_wf [OF 1(2)] 1(2) Cons.prems by (auto simp: stable_def)
  ultimately obtain t2 w2 where "rollback_all env t1 w1 cs = Returns (t2, w2)" "stable t1 t2"
    using Cons.IH [of t1 w1] by blast
  then show ?case using 1 stable_trans [OF 1(2)] by (simp only: rollback_all.simps bind_outcome.simps) auto
qed simp

lemma begin_loop_wf:
  "xa_wf env t \<Longrightarrow> set cs \<subseteq> set (cnc_list t) \<Longrightarrow> set visited \<subseteq> set (cnc_list t) \<Longrightarrow>
   \<exists>ok t' w'. begin_loop env t w visited cs = Returns (ok, t', w') \<and> stable t t'"
proof (induction cs arbitrary: t w visited)
  case (Cons c cs)
  then obtain ok t1 w1 where 1: "start_one env t c w = Returns (ok, t1, w1)" "stable t t1"
    using start_one_wf [of env t c w] by auto
  have w: "xa_wf env t1" "cnc_list t1 = cnc_list t"
    using stable_wf [OF 1(2)] 1(2) Cons.prems by (auto simp: stable_def)
  show ?case
  proof (cases ok)
    case True
    then show ?thesis using 1 w Cons.IH [of t1 "c # visited" w1] Cons.prems stable_trans [OF 1(2)] by auto
  next
    case False
    then show ?thesis using 1 w rollback_loop_wf [of env t1 "c # visited" w1] Cons.prems stable_trans [OF 1(2)]
      by auto
  qed
qed auto


section \<open>Beginning a distributed transaction\<close>






section \<open>The invariant of transaction objects\<close>

lemma set_branch_stable:
  "set_branch t c = Returns t' \<Longrightarrow> length (xid_data (xa_xid t)) = 128 \<Longrightarrow> stable t t'"
  by (auto simp: set_branch_def stable_def length_copy_data split: option.splits if_splits)

lemma stable_length: "stable t t' \<Longrightarrow> length (xid_data (xa_xid t)) = 128 \<Longrightarrow> length (xid_data (xa_xid t')) = 128"
  by (simp add: stable_def)

lemma rollback_xa_stable:
  "rollback_xa env t c w = Returns (t', w') \<Longrightarrow> length (xid_data (xa_xid t)) = 128 \<Longrightarrow> stable t t'"
  by (auto simp: rollback_xa_def bind_outcome_Returns split: option.splits intro: set_branch_stable)

lemma commit_rollback_loop_stable:
  "commit_rollback_loop env t w cs = Returns (t', w') \<Longrightarrow> length (xid_data (xa_xid t)) = 128 \<Longrightarrow> stable t t'"
proof (induction cs arbitrary: t w)
  case (Cons c cs)
  then obtain t1 w1 where 1: "commit_rollback_one env t c w = Returns (t1, w1)"
    and 2: "commit_rollback_loop env t1 w1 cs = Returns (t', w')" by (auto simp: bind_outcome_Returns)
  have "stable t t1"
    using 1 Cons.prems(2) by (auto simp: commit_rollback_one_def split: if_splits intro: rollback_xa_stable)
  with 2 show ?case using Cons.IH Cons.prems(2) stable_length stable_trans by blast
qed simp

lemma prepare_one_stable:
  assumes "prepare_one env t c w = Returns (ok, t', w')" and "length (xid_data (xa_xid t)) = 128"
  shows "stable t t'"
proof -
  obtain t1 f where 1: "set_branch t c = Returns t1" "funcs env c = Some f"
    using assms(1) by (auto simp: prepare_one_def bind_outcome_Returns split: option.split_asm)
  obtain b w1 where "(case xa_end f of None \<Rightarrow> (True, w) | Some g \<Rightarrow> g c (xa_xid t1) w) = (b, w1)"
    by fastforce
  then have "t' = t1"
    using assms(1) 1
    by (cases b; cases "xa_prepare f"; cases "xa_commit f") (auto simp: prepare_one_def split: prod.split_asm)
  then show ?thesis using set_branch_stable [OF 1(1)] assms(2) by simp
qed

lemma prepare_loop_stable:
  "prepare_loop env t w visited cs = Returns (ok, t', w') \<Longrightarrow> length (xid_data (xa_xid t)) = 128 \<Longrightarrow> stable t t'"
proof (induction cs arbitrary: t w visited)
  case (Cons c cs)
  show ?case
  proof (cases "non_xa_cnc t = None")
    case True
    then show ?thesis using Cons by simp
  next
    case False
    then obtain ok1 t1 w1 where 1: "prepare_one env t c w = Returns (ok1, t1, w1)"
      and 2: "(if ok1 then prepare_loop env t1 w1 (c # visited) cs
         else bind_outcome (commit_rollback_loop env t1 w1 (c # visited)) (\<lambda>(t, w). Returns (False, t, w)))
         = Returns (ok, t', w')"
      using Cons.prems(1) by (auto simp: bind_outcome_Returns)
    have s: "stable t t1" using prepare_one_stable [OF 1] Cons.prems(2) .
    then have l: "length (xid_data (xa_xid t1)) = 128" using Cons.prems(2) stable_length by blast
    have "stable t1 t'"
    proof (cases ok1)
      case True
      then show ?thesis using 2 Cons.IH [OF _ l] by simp
    next
      case False
      then show ?thesis using 2 commit_rollback_loop_stable [OF _ l]
        by (auto simp: bind_outcome_Returns simp del: commit_rollback_loop.simps)
    qed
    with s show ?thesis by (rule stable_trans)
  qed
qed simp

lemma commit_loop_stable:
  "commit_loop env t w failed cs = Returns (failed', t', w') \<Longrightarrow> length (xid_data (xa_xid t)) = 128 \<Longrightarrow> stable t t'"
proof (induction cs arbitrary: t w failed)
  case (Cons c cs)
  show ?case
  proof (cases "non_xa_cnc t = None")
    case True
    then show ?thesis using Cons by simp
  next
    case False
    then obtain t1 where 1: "set_branch t c = Returns t1"
      using Cons.prems(1) by (auto simp: bind_outcome_Returns)
    have s: "stable t t1" using set_branch_stable [OF 1] Cons.prems(2) .
    then have l: "length (xid_data (xa_xid t1)) = 128" using Cons.prems(2) stable_length by blast
    have "stable t1 t'"
      using False 1 Cons.prems(1) Cons.IH [OF _ l]
      by (auto split: option.split_asm prod.split_asm)
    with s show ?thesis by (rule stable_trans)
  qed
qed simp

lemma gda_xa_transaction_commit_stable:
  assumes "gda_xa_transaction_commit env t w = Returns (ok, failed, t', w')" "length (xid_data (xa_xid t)) = 128"
  shows "stable t t'"
proof -
  obtain ok1 t1 w1 where 1: "prepare_loop env t w [] (cnc_list t) = Returns (ok1, t1, w1)"
    using assms(1) by (auto simp: gda_xa_transaction_commit_def bind_outcome_Returns)
  have s: "stable t t1" using prepare_loop_stable [OF 1] assms(2) .
  then have l: "length (xid_data (xa_xid t1)) = 128" using assms(2) stable_length by blast
  have "stable t1 t'"
    using assms(1) 1 commit_loop_stable [OF _ l] commit_rollback_loop_stable [OF _ l]
    by (auto simp: gda_xa_transaction_commit_def bind_outcome_Returns
        split: prod.split_asm bool.split_asm if_split_asm option.split_asm)
  with s show ?thesis by (rule stable_trans)
qed


lemma recover_loop_stable:
  "recover_loop env t w retval failed cs = Returns (ok, failed', t', w') \<Longrightarrow>
   length (xid_data (xa_xid t)) = 128 \<Longrightarrow> stable t t'"
proof (induction cs arbitrary: t w retval failed)
  case (Cons c cs)
  show ?case
  proof (cases "Some c = non_xa_cnc t")
    case True
    then show ?thesis using Cons by simp
  next
    case False
    then obtain f where f: "funcs env c = Some f" using Cons.prems(1) by (auto split: option.split_asm)
    show ?thesis
    proof (cases "xa_recover f")
      case None
      then show ?thesis using Cons False f by simp
    next
      case (Some r)
      obtain xids w1 where r: "r c w = (xids, w1)" by fastforce
      show ?thesis
      proof (cases "xids = []")
        case True
        then show ?thesis using Cons False f Some r by simp
      next
        case nonempty: False
        then obtain t1 where 1: "set_branch t c = Returns t1"
          using Cons.prems(1) False f Some r by (auto simp: bind_outcome_Returns)
        have s: "stable t t1" using set_branch_stable [OF 1] Cons.prems(2) .
        then have l: "length (xid_data (xa_xid t1)) = 128" using Cons.prems(2) stable_length by blast
        have "stable t1 t'"
          using Cons.prems(1) False f Some r nonempty 1 Cons.IH [OF _ l]
          by (auto split: option.split_asm prod.split_asm if_split_asm)
        with s show ?thesis by (rule stable_trans)
      qed
    qed
  qed
qed simp

text \<open>
  The histories of a transaction object and of the \<open>"_gda_xa_transaction"\<close> data of all connections:
  creation, the setting of the identifier, (un)registration, and the four phases; other transaction objects
  may change the data of connections that are not registered here.
\<close>

inductive xa_reachable :: "'w providers \<Rightarrow> xa_trans \<Rightarrow> registry \<Rightarrow> bool" for env where
  init: "xa_reachable env (gda_xa_transaction_init n) reg"
| set_id: "xa_reachable env t reg \<Longrightarrow> xa_reachable env (set_transaction_id t s) reg"
| register: "xa_reachable env t reg \<Longrightarrow>
    gda_xa_transaction_register_connection env t reg c branch = (res, t', reg') \<Longrightarrow> xa_reachable env t' reg'"
| unregister: "xa_reachable env t reg \<Longrightarrow>
    gda_xa_transaction_unregister_connection t reg c = (t', reg') \<Longrightarrow> xa_reachable env t' reg'"
| start: "xa_reachable env t reg \<Longrightarrow> gda_xa_transaction_begin env t w = Returns (ok, t', w') \<Longrightarrow>
    xa_reachable env t' reg"
| rollback: "xa_reachable env t reg \<Longrightarrow> gda_xa_transaction_rollback env t w = Returns (ok, t', w') \<Longrightarrow>
    xa_reachable env t' reg"
| commit: "xa_reachable env t reg \<Longrightarrow> gda_xa_transaction_commit env t w = Returns (ok, failed, t', w') \<Longrightarrow>
    xa_reachable env t' reg"
| recover: "xa_reachable env t reg \<Longrightarrow>
    gda_xa_transaction_commit_recovered env t w = Returns (ok, failed, t', w') \<Longrightarrow> xa_reachable env t' reg"
| others: "xa_reachable env t reg \<Longrightarrow> \<forall>c \<in> set (cnc_list t). reg' c = reg c \<Longrightarrow> xa_reachable env t reg'"

definition xa_inv :: "'w providers \<Rightarrow> xa_trans \<Rightarrow> registry \<Rightarrow> bool" where
  "xa_inv env t reg \<longleftrightarrow> xa_wf env t \<and> (\<forall>c \<in> set (cnc_list t). reg c = Some (self t))"

lemma xa_inv_init: "xa_inv env (gda_xa_transaction_init n) reg"
  by (simp add: xa_inv_def xa_wf_def gda_xa_transaction_init_def)

lemma xa_inv_set_id: "xa_inv env t reg \<Longrightarrow> xa_inv env (set_transaction_id t s) reg"
  by (auto simp: xa_inv_def xa_wf_def set_transaction_id_def length_copy_data)

lemma dom_map_of_update [simp]: "dom (map_of (AList.update k v al)) = insert k (dom (map_of al))"
  by (simp add: update_conv')

lemma dom_map_of_delete [simp]: "dom (map_of (AList.delete k al)) = dom (map_of al) - {k}"
  by (auto simp: delete_conv' dom_def)

lemma xa_inv_register:
  assumes inv: "xa_inv env t reg"
    and reg: "gda_xa_transaction_register_connection env t reg c branch = (res, t', reg')"
  shows "xa_inv env t' reg'"
proof -
  have *: "c \<in> set (cnc_list t) \<longleftrightarrow> map_of (cnc_hash t) c \<noteq> None"
    using inv by (auto simp: xa_inv_def xa_wf_def)
  show ?thesis
  proof (cases "branch = [] \<or> 64 \<le> length branch")
    case True
    then show ?thesis using assms by (auto simp: gda_xa_transaction_register_connection_def split: if_split_asm)
  next
    case False
    then have l: "length (branch @ [NUL]) \<le> 64" by simp
    show ?thesis
    proof (cases "c \<in> set (cnc_list t)")
      case True
      then have "t' = t\<lparr>cnc_hash := AList.update c (branch @ [NUL]) (cnc_hash t)\<rparr>" "reg' = reg"
        using reg False * by (auto simp: gda_xa_transaction_register_connection_def)
      then show ?thesis using inv l True by (simp add: xa_inv_def xa_wf_def insert_absorb) (simp add: update_conv')
    next
      case new: False
      show ?thesis
        using reg False * new inv l
        by (simp add: gda_xa_transaction_register_connection_def xa_inv_def xa_wf_def split: if_split_asm)
          (force simp: update_conv' split: if_split_asm)+
    qed
  qed
qed

lemma xa_inv_unregister:
  assumes "xa_inv env t reg" and "gda_xa_transaction_unregister_connection t reg c = (t', reg')"
  shows "xa_inv env t' reg'"
proof (cases "c \<in> set (cnc_list t)")
  case True
  then have "t' = t\<lparr>cnc_list := remove1 c (cnc_list t), cnc_hash := AList.delete c (cnc_hash t)\<rparr>" "reg' = reg(c := None)"
    using assms(2) by (auto simp: gda_xa_transaction_unregister_connection_def)
  moreover have "set (remove1 c (cnc_list t)) = set (cnc_list t) - {c}" "distinct (remove1 c (cnc_list t))"
    using assms(1) by (simp_all add: xa_inv_def xa_wf_def)
  ultimately show ?thesis
    using assms(1) by (simp add: xa_inv_def xa_wf_def) (auto simp: delete_conv' split: if_split_asm)
next
  case False
  then show ?thesis using assms by (auto simp: gda_xa_transaction_unregister_connection_def)
qed

lemma xa_inv_stable: "xa_inv env t reg \<Longrightarrow> stable t t' \<Longrightarrow> xa_inv env t' reg"
  by (simp add: xa_inv_def xa_wf_def stable_def)

lemma xa_inv_begin:
  assumes "xa_inv env t reg" and "gda_xa_transaction_begin env t w = Returns (ok, t', w')"
  shows "xa_inv env t' reg"
proof -
  have "xa_wf env t" using assms(1) by (simp add: xa_inv_def)
  then have "stable t t'"
    using begin_loop_wf [of env t "cnc_list t" "[]" w] assms(2) by (auto simp: gda_xa_transaction_begin_def)
  then show ?thesis using assms(1) xa_inv_stable by blast
qed

lemma xa_inv_rollback:
  assumes "xa_inv env t reg" and "gda_xa_transaction_rollback env t w = Returns (ok, t', w')"
  shows "xa_inv env t' reg"
proof -
  have "xa_wf env t" using assms(1) by (simp add: xa_inv_def)
  then obtain t1 w1 where "rollback_all env t w (cnc_list t) = Returns (t1, w1)" "stable t t1"
    using rollback_all_wf [of env t "cnc_list t" w] by blast
  then show ?thesis using assms xa_inv_stable by (auto simp: gda_xa_transaction_rollback_def)
qed

lemma xa_reachable_inv: "xa_reachable env t reg \<Longrightarrow> xa_inv env t reg"
proof (induction rule: xa_reachable.induct)
  case (commit t reg w ok failed t' w')
  then have "length (xid_data (xa_xid t)) = 128" by (simp add: xa_inv_def xa_wf_def)
  with commit(2) have "stable t t'" by (rule gda_xa_transaction_commit_stable)
  with commit(3) show ?case by (rule xa_inv_stable)
next
  case (recover t reg w ok failed t' w')
  then have "length (xid_data (xa_xid t)) = 128" by (simp add: xa_inv_def xa_wf_def)
  with recover(2) have "stable t t'"
    unfolding gda_xa_transaction_commit_recovered_def by (rule recover_loop_stable)
  with recover(3) show ?case by (rule xa_inv_stable)
next
  case (others t reg reg')
  then show ?case by (simp add: xa_inv_def)
qed (rule xa_inv_init | erule xa_inv_set_id
    | erule (1) xa_inv_register xa_inv_unregister xa_inv_begin xa_inv_rollback)+

text \<open>
  Remark: In every history of a transaction object, its list of connections has no duplicates and holds exactly the
  keys of the table of branches, every branch with its NUL has at most 64 bytes and the global identifier at
  most 64, the connections of the list are marked as belonging to this object and to no other, and a connection
  without XA functions is the one in \<open>non_xa_cnc\<close>. So beginning and rolling back never write
  outside of the 128 bytes of the identifier nor call through a missing table, whatever the providers do.
\<close>

theorem transaction_object_invariant:
  assumes "xa_reachable env t reg"
  shows "xa_wf env t \<and> list_all (\<lambda>c. reg c = Some (self t)) (cnc_list t) \<and>
         gda_xa_transaction_begin env t w \<noteq> Undefined \<and> gda_xa_transaction_rollback env t w \<noteq> Undefined"
proof -
  have inv: "xa_inv env t reg" using xa_reachable_inv [OF assms] .
  then have wf: "xa_wf env t" by (simp add: xa_inv_def)
  obtain ok t1 w1 where 1: "begin_loop env t w [] (cnc_list t) = Returns (ok, t1, w1)"
    using begin_loop_wf [OF wf, of "cnc_list t" "[]" w] by auto
  obtain t2 w2 where 2: "rollback_all env t w (cnc_list t) = Returns (t2, w2)"
    using rollback_all_wf [OF wf, of "cnc_list t" w] by auto
  show ?thesis
    using inv 1 2
    by (auto simp: xa_inv_def list_all_iff gda_xa_transaction_begin_def gda_xa_transaction_rollback_def)
qed


text \<open>A provider that logs its calls, for the concrete runs: connection 3 has no XA functions.\<close>

definition log_call :: "nat \<Rightarrow> bool \<Rightarrow> (nat \<times> cid) list xa_call" where
  "log_call k ok c x w = (ok, w @ [(k, c)])"

definition sample_funcs :: "bool \<Rightarrow> (nat \<times> cid) list xa_funcs" where
  "sample_funcs ok = \<lparr>xa_start = Some (log_call 1 ok), xa_end = None, xa_prepare = Some (log_call 2 True),
     xa_commit = Some (log_call 3 True), xa_rollback = Some (log_call 4 True), xa_recover = None\<rparr>"

definition sample_providers :: "(nat \<times> cid) list providers" where
  "sample_providers = \<lparr>funcs = (\<lambda>c. if c = 3 then None else Some (sample_funcs (c \<noteq> 2))),
     begin_transaction = (\<lambda>c w. (True, w @ [(5, c)])), commit_transaction = (\<lambda>c w. (True, w @ [(6, c)])),
     rollback_transaction = (\<lambda>c w. (True, w @ [(7, c)]))\<rparr>"

lemmas sample_defs = sample_providers_def sample_funcs_def log_call_def

definition registered :: "cid list \<Rightarrow> xa_trans" where
  "registered cs = fold (\<lambda>c t. fst (snd (gda_xa_transaction_register_connection sample_providers t (\<lambda>_. None) c ''b'')))
     cs (gda_xa_transaction_init 0)"

lemma sample_reachable:
  "xa_reachable sample_providers (registered [1, 3]) (Map.empty(1 \<mapsto> 0, 3 \<mapsto> 0))"
  "xa_reachable sample_providers (registered [1]) (Map.empty(1 \<mapsto> 0))"
proof -
  have 1: "xa_reachable sample_providers (registered [1]) (Map.empty(1 \<mapsto> 0))"
    by (rule register [OF init [of _ 0 Map.empty], where c = 1 and branch = "''b''"])
      (simp add: registered_def gda_xa_transaction_register_connection_def gda_xa_transaction_init_def sample_defs)
  then show "xa_reachable sample_providers (registered [1]) (Map.empty(1 \<mapsto> 0))" .
  show "xa_reachable sample_providers (registered [1, 3]) (Map.empty(1 \<mapsto> 0, 3 \<mapsto> 0))"
    by (rule register [OF 1, where c = 3 and branch = "''b''"])
      (simp add: registered_def gda_xa_transaction_register_connection_def gda_xa_transaction_init_def sample_defs)
qed

theorem transaction_object_invariant_witness:
  "xa_wf sample_providers (registered [1, 3]) \<and>
   gda_xa_transaction_begin sample_providers (registered [1, 3]) [] \<noteq> Undefined"
  using transaction_object_invariant [OF sample_reachable(1), of "[]"] by blast

section \<open>Committing\<close>

text \<open>
  Remark: \<open>gda_xa_transaction_commit\<close> compares a NULL pointer with \<open>non_xa_cnc\<close>. So when all the
  registered connections support distributed transactions (\<open>non_xa_cnc\<close> is NULL), the commit reports
  success with nothing to recover, and it neither prepared nor committed anything: the databases are as before,
  for every provider and whatever transactions were begun.
\<close>

theorem commit_of_xa_connections_does_nothing:
  assumes "non_xa_cnc t = None"
  shows "gda_xa_transaction_commit env t w = Returns (True, [], t, w)"
proof -
  have "prepare_loop env t w visited cs = Returns (True, t, w)" for visited cs
    using assms by (induction cs arbitrary: visited) auto
  moreover have "commit_loop env t w [] cs = Returns ([], t, w)" for cs
    using assms by (induction cs) auto
  ultimately show ?thesis using assms by (simp add: gda_xa_transaction_commit_def)
qed

theorem commit_of_xa_connections_does_nothing_witness:
  "(\<exists>t. gda_xa_transaction_begin sample_providers (registered [1]) [] = Returns (True, t, [(1, 1)]) \<and>
        gda_xa_transaction_commit sample_providers t [(1, 1)] = Returns (True, [], t, [(1, 1)]))"
proof -
  have "\<exists>t. gda_xa_transaction_begin sample_providers (registered [1]) [] = Returns (True, t, [(1, 1)]) \<and>
      non_xa_cnc t = None"
    by (simp add: registered_def gda_xa_transaction_register_connection_def gda_xa_transaction_init_def sample_defs
        gda_xa_transaction_begin_def start_one_def xa_call_def set_branch_def copy_data_def)
  then show ?thesis using commit_of_xa_connections_does_nothing by metis
qed

lemma prepare_loop_True:
  "prepare_loop env t w visited cs = Returns (True, t', w') \<Longrightarrow> length (xid_data (xa_xid t)) = 128 \<Longrightarrow>
   non_xa_cnc t \<noteq> None \<Longrightarrow> c \<in> set cs \<Longrightarrow> funcs env c \<noteq> None"
proof (induction cs arbitrary: t w visited)
  case (Cons d cs)
  then obtain t1 w1 where 1: "prepare_one env t d w = Returns (True, t1, w1)"
    and 2: "prepare_loop env t1 w1 (d # visited) cs = Returns (True, t', w')"
    by (auto simp: bind_outcome_Returns split: if_split_asm)
  have s: "stable t t1" using prepare_one_stable [OF 1 Cons.prems(2)] .
  show ?case
  proof (cases "c = d")
    case True
    then show ?thesis using 1 by (auto simp: prepare_one_def bind_outcome_Returns split: option.split_asm)
  next
    case False
    then show ?thesis using Cons.IH [OF 2] Cons.prems s by (simp add: stable_def)
  qed
qed simp

text \<open>
  Remark: When a connection without distributed transactions is registered, which the registration allows for one
  connection, \<open>gda_xa_transaction_commit\<close> never returns TRUE: it treats that connection as the
  others and calls through its missing table of functions, unless it failed before.
\<close>

theorem commit_with_plain_connection_never_succeeds:
  assumes "xa_reachable env t reg" and "c \<in> set (cnc_list t)" and "funcs env c = None"
  shows "gda_xa_transaction_commit env t w \<noteq> Returns (True, failed, t', w')"
proof
  assume r: "gda_xa_transaction_commit env t w = Returns (True, failed, t', w')"
  have wf: "xa_wf env t" using xa_reachable_inv [OF assms(1)] by (simp add: xa_inv_def)
  then have l: "non_xa_cnc t \<noteq> None" "length (xid_data (xa_xid t)) = 128"
    using assms(2,3) by (auto simp: xa_wf_def)
  from r obtain t1 w1 where "prepare_loop env t w [] (cnc_list t) = Returns (True, t1, w1)"
    by (auto simp: gda_xa_transaction_commit_def bind_outcome_Returns split: if_split_asm)
  from prepare_loop_True [OF this l(2,1) assms(2)] assms(3) show False by simp
qed

theorem commit_with_plain_connection_never_succeeds_witness:
  "gda_xa_transaction_commit sample_providers (registered [1, 3]) [] \<noteq> Returns (True, [], registered [1, 3], [])"
  by (rule commit_with_plain_connection_never_succeeds [OF sample_reachable(1), of 3])
    (simp_all add: registered_def gda_xa_transaction_register_connection_def gda_xa_transaction_init_def sample_defs)


section \<open>Recovery\<close>

text \<open>
  Remark: In the recovery, a prepared transaction found in a database is committed on the strength of its format and of the
  lengths of its identifiers alone: no byte of the identifiers is compared, because the length of the branch
  qualifier of the transaction is never set. A prepared transaction of another application with a global
  identifier of the same length and no branch qualifier is taken for one of this object.
\<close>

theorem recovery_ignores_the_identifier:
  assumes "xa_reachable env t reg"
  shows "xid_matches (xa_xid t) x \<longleftrightarrow>
           xid_format x = xid_format (xa_xid t) \<and> gtrid_length x = gtrid_length (xa_xid t) \<and> bqual_length x = 0"
  using xa_reachable_inv [OF assms] by (auto simp: xid_matches_def xa_inv_def xa_wf_def)

theorem recovery_ignores_the_identifier_witness:
  "xid_matches (xa_xid (registered [1]))
     \<lparr>xid_format = 1, gtrid_length = 0, bqual_length = 0, xid_data = replicate 128 (CHR ''z'')\<rparr>"
  by (subst recovery_ignores_the_identifier [OF sample_reachable(2)])
    (simp add: registered_def gda_xa_transaction_register_connection_def gda_xa_transaction_init_def sample_defs)

text \<open>
  A failed commit of one connection is forgotten when a later one succeeds: TRUE is returned although a
  connection is still to recover.
\<close>

definition recovering :: "(nat \<times> cid) list providers" where
  "recovering = \<lparr>funcs = (\<lambda>c. Some \<lparr>xa_start = None, xa_end = None, xa_prepare = None,
        xa_commit = Some (log_call 3 (c \<noteq> 2)), xa_rollback = None,
        xa_recover = Some (\<lambda>c w. ([Some \<lparr>xid_format = 1, gtrid_length = 0, bqual_length = 0, xid_data = []\<rparr>], w))\<rparr>),
     begin_transaction = (\<lambda>c w. (True, w)), commit_transaction = (\<lambda>c w. (True, w)),
     rollback_transaction = (\<lambda>c w. (True, w))\<rparr>"

lemma recovery_forgets_failure:
  "\<exists>t'. gda_xa_transaction_commit_recovered recovering (registered [1, 2]) [] = Returns (True, [2], t', [(3, 2), (3, 1)])"
  by (simp add: registered_def gda_xa_transaction_register_connection_def gda_xa_transaction_init_def sample_defs
      gda_xa_transaction_commit_recovered_def recovering_def set_branch_def copy_data_def xid_matches_def)

section \<open>Round trips of identifiers\<close>

lemma id_part_no_comma: "CHR '','' \<notin> set s \<Longrightarrow> id_part lim i s = Some (bs, r) \<Longrightarrow> r = []"
proof (induction lim i s arbitrary: bs r rule: id_part.induct)
  case (2 lim index c s)
  from 2(3) have c: "c \<noteq> CHR '','' \<and> CHR '','' \<notin> set s" by auto
  show ?case
  proof (cases "c = CHR ''%''")
    case True
    then obtain d e q where s: "s = d # e # q" "is_lhex d \<and> is_lhex e" "\<not> lim \<le> index"
      using 2(4) c by (simp split: list.split_asm if_split_asm)
    then obtain bs' where "id_part lim (index + 1) q = Some (bs', r)" using True 2(4) by auto
    then show ?thesis using 2(1) [OF _ s(3) True s(1)] c s by simp
  next
    case False
    then obtain bs' where "id_part lim (index + 1) s = Some (bs', r)"
      using 2(4) c by (simp split: if_split_asm) auto
    then show ?thesis using 2(2) c False 2(4) by (simp split: if_split_asm)
  qed
qed simp

lemma print_d_chars: "CHR '','' \<notin> set (print_d f)" "cstring (print_d f)"
proof -
  have *: "\<forall>c \<in> set (dec n). c \<noteq> CHR '','' \<and> c \<noteq> NUL" for n
    using dec_digits [of n] by (auto simp: is_digit_def code_def)
  have "\<forall>c \<in> set (print_d f). c \<noteq> CHR '','' \<and> c \<noteq> NUL"
    using * by (simp add: print_d_def Let_def)
  then show "CHR '','' \<notin> set (print_d f)" "cstring (print_d f)" by (auto simp: cstring_def)
qed

text \<open>
  Remark: \<open>gda_xa_transaction_id_to_string\<close> prints the format at the start of the block, over the
  rest: whatever the identifier, the C string returned is only the decimal format, from which
  \<open>gda_xa_transaction_string_to_id\<close>, documented as the opposite, gets nothing.
\<close>

theorem id_to_string_is_only_the_format:
  assumes "gda_xa_transaction_id_to_string x = Returns m"
  shows "c_str m = print_d (xid_format x) \<and> gda_xa_transaction_string_to_id (c_str m) = None"
proof -
  obtain out where "m = copy_data out 0 (print_d (xid_format x) @ [NUL])"
    using assms by (auto simp: gda_xa_transaction_id_to_string_def bind_outcome_Returns split: if_split_asm)
  then have c: "c_str m = print_d (xid_format x)"
    by (simp add: copy_data_def c_str_append_NUL print_d_chars)
  have "gda_xa_transaction_string_to_id (print_d (xid_format x)) = None"
    using id_part_no_comma [OF print_d_chars(1), of 64 0 "xid_format x"]
    by (auto simp: gda_xa_transaction_string_to_id_def split: option.split)
  with c show ?thesis by simp
qed

theorem id_to_string_is_only_the_format_witness:
  "\<exists>m. gda_xa_transaction_id_to_string \<lparr>xid_format = 7, gtrid_length = 1, bqual_length = 0, xid_data = replicate 128 (CHR ''a'')\<rparr>
        = Returns m \<and> c_str m = print_d 7"
proof -
  let ?x = "\<lparr>xid_format = 7, gtrid_length = 1, bqual_length = 0, xid_data = replicate 128 (CHR ''a'')\<rparr>"
  have "\<exists>m. gda_xa_transaction_id_to_string ?x = Returns m"
    by (simp add: gda_xa_transaction_id_to_string_def put_id_char_def put_comma_def XID_SIZE_def
        g_ascii_isalnum_def is_digit_def is_lower_def code_def)
  then obtain m where "gda_xa_transaction_id_to_string ?x = Returns m" by blast
  with id_to_string_is_only_the_format [OF this] show ?thesis by auto
qed

text \<open>The documented text of an identifier, and what the reader makes of a byte of it.\<close>

definition id_escape :: "char \<Rightarrow> string" where
  "id_escape c = (if g_ascii_isalnum c then [c] else CHR ''%'' # hex2 (code c))"

definition id_text :: "nat \<Rightarrow> char list \<Rightarrow> char list \<Rightarrow> string" where
  "id_text f g b = concat (map id_escape g) @ '','' @ concat (map id_escape b) @ '','' @ dec f"

definition low_nibble :: "char \<Rightarrow> char" where
  "low_nibble c = (if g_ascii_isalnum c then c else char_of (code c mod 16))"

lemma id_part_escaped:
  "r = [] \<or> hd r = CHR '','' \<Longrightarrow> i + length g \<le> lim \<Longrightarrow>
   id_part lim i (concat (map id_escape g) @ r) = Some (map low_nibble g, r)"
proof (induction g arbitrary: i)
  case Nil
  then show ?case by (cases r) auto
next
  case (Cons c g)
  show ?case
  proof (cases "g_ascii_isalnum c")
    case True
    then have "c \<noteq> CHR '',''" "c \<noteq> CHR ''%''"
      by (auto simp: g_ascii_isalnum_def is_digit_def is_lower_def is_upper_def code_def)
    then show ?thesis using True Cons by (simp add: id_escape_def low_nibble_def)
  next
    case False
    then show ?thesis
      using Cons lhex_hex_digit [of "code c div 16"] lhex_hex_digit [of "code c mod 16"]
      by (simp add: id_escape_def low_nibble_def hex2_def hex_val_hex_digit)
  qed
qed

lemma strtoll_dec:
  assumes "f < 2 ^ 63"
  shows "g_ascii_strtoll (dec f) = (int f, [])"
proof -
  obtain c ds where c: "dec f = c # ds" "is_digit c" using dec_nonempty [of f] dec_digits [of f] by (cases "dec f") auto
  then have n: "\<not> (g_ascii_isspace c \<or> code c = 11)" "c \<noteq> CHR ''-''" "c \<noteq> CHR ''+''"
    by (auto simp: is_digit_def g_ascii_isspace_def code_def)
  have d: "takeWhile is_digit (dec f) = dec f" "dropWhile is_digit (dec f) = []"
    using dec_digits [of f] by (simp_all add: takeWhile_eq_all_conv dropWhile_eq_Nil_conv)
  have "int f \<le> 2 ^ 63 - 1" using assms by simp
  moreover have r: "dropWhile (\<lambda>c. g_ascii_isspace c \<or> code c = 11) (dec f) = dec f" "hd (dec f) = c"
    using c n by auto
  ultimately show ?thesis using n by (simp add: g_ascii_strtoll_def Let_def d r)
qed

text \<open>
  Remark: \<open>gda_xa_transaction_string_to_id\<close> reads every text in the documented form, for a format below
  \<open>2 ^ 32 - 1\<close>, a global part of at most 64 bytes and both parts in 128: the format and the lengths are
  exact and the alphanumeric bytes are kept, but of a byte written as \<open>%ab\<close> only the last
  digit is kept.
\<close>

theorem string_to_id_of_documented_text:
  assumes "f < 2 ^ 32 - 1" and "length g \<le> 64" and "length g + length b \<le> 128"
  shows "gda_xa_transaction_string_to_id (id_text f g b) =
           Some \<lparr>xid_format = f, gtrid_length = length g, bqual_length = length b,
                 xid_data = map low_nibble g @ map low_nibble b @ replicate (128 - length g - length b) NUL\<rparr>"
proof -
  have 1: "id_part 64 0 (id_text f g b) = Some (map low_nibble g, '','' @ concat (map id_escape b) @ '','' @ dec f)"
    unfolding id_text_def using assms(2) by (intro id_part_escaped) simp_all
  have 2: "id_part 128 (length g) (concat (map id_escape b) @ '','' @ dec f) = Some (map low_nibble b, '','' @ dec f)"
    using assms(3) by (intro id_part_escaped) simp_all
  have 3: "g_ascii_strtoll (dec f) = (int f, [])" using assms(1) by (intro strtoll_dec) simp
  have "int f < 2 ^ 32 - 1" using assms(1) by simp
  then show ?thesis using 1 2 3 by (simp add: gda_xa_transaction_string_to_id_def)
qed

theorem string_to_id_of_documented_text_witness:
  "gda_xa_transaction_string_to_id (id_text 7 ''a'' ''b'') =
     Some \<lparr>xid_format = 7, gtrid_length = 1, bqual_length = 1,
           xid_data = map low_nibble ''a'' @ map low_nibble ''b'' @ replicate 126 NUL\<rparr>"
  using string_to_id_of_documented_text [of 7 "''a''" "''b''"] by simp

end
