(* ===== verification/Gda_Attributes.thy ===== *)
theory Gda_Attributes
  imports Gda_Prelude "HOL-Library.AList"
begin

text \<open>
  The attributes manager (\<open>libgda/gda-attributes-manager.c\<close>): named values attached to objects, with
  blocks of attributes that are shared between objects until one of them is written.

  The heap of the \<open>ObjAttrs\<close> blocks is explicit, because the manager is about sharing: \<open>store\<close> maps
  an address to its block, or to nothing when it was freed, and an access to a freed block is
  \<open>Undefined\<close>. Hash tables are association lists. The weak references that the manager holds on its
  objects are a list of pairs. The mutex and the storage of the names are not modelled.
\<close>

section \<open>Data\<close>

type_synonym obj = nat
type_synonym addr = nat

record 'v objattrs =
  oa_objects :: "obj list"
  oa_values :: "(string \<times> 'v) list"

record 'v mgr =
  for_objects :: bool
  has_signal :: bool
  store :: "addr \<Rightarrow> 'v objattrs option"
  next_addr :: addr
  obj_hash :: "(obj \<times> addr) list"
  weak_refs :: "(obj \<times> addr) list"
  signals :: "(obj \<times> string \<times> 'v option) list"

definition gda_attributes_manager_new :: "bool \<Rightarrow> bool \<Rightarrow> 'v mgr" where
  "gda_attributes_manager_new objs sig =
     \<lparr>for_objects = objs, has_signal = sig, store = Map.empty, next_addr = 0, obj_hash = [], weak_refs = [], signals = []\<rparr>"

definition deref :: "'v mgr \<Rightarrow> addr \<Rightarrow> 'v objattrs outcome" where
  "deref m a = (case store m a of None \<Rightarrow> Undefined | Some oa \<Rightarrow> Returns oa)"

section \<open>Blocks and the table of objects\<close>

definition alloc :: "'v mgr \<Rightarrow> 'v objattrs \<Rightarrow> 'v mgr \<times> addr" where
  "alloc m oa = (m\<lparr>store := (store m)(next_addr m \<mapsto> oa), next_addr := next_addr m + 1\<rparr>, next_addr m)"

text \<open>The destroy function of the values of the table: the block goes with its last object.\<close>

definition objattrs_unref :: "'v mgr \<Rightarrow> addr \<Rightarrow> 'v mgr outcome" where
  "objattrs_unref m a =
     bind_outcome (deref m a) (\<lambda>oa.
       Returns (if oa_objects oa = [] then m\<lparr>store := (store m)(a := None)\<rparr> else m))"

definition hash_remove :: "'v mgr \<Rightarrow> obj \<Rightarrow> 'v mgr outcome" where
  "hash_remove m p =
     (case map_of (obj_hash m) p of
        None \<Rightarrow> Returns m
      | Some a \<Rightarrow> objattrs_unref (m\<lparr>obj_hash := AList.delete p (obj_hash m)\<rparr>) a)"

definition hash_insert :: "'v mgr \<Rightarrow> obj \<Rightarrow> addr \<Rightarrow> 'v mgr outcome" where
  "hash_insert m p a =
     (case map_of (obj_hash m) p of
        None \<Rightarrow> Returns (m\<lparr>obj_hash := (p, a) # obj_hash m\<rparr>)
      | Some b \<Rightarrow> objattrs_unref (m\<lparr>obj_hash := AList.update p a (obj_hash m)\<rparr>) b)"

definition weak_ref :: "'v mgr \<Rightarrow> obj \<Rightarrow> addr \<Rightarrow> 'v mgr" where
  "weak_ref m p a = (if for_objects m then m\<lparr>weak_refs := weak_refs m @ [(p, a)]\<rparr> else m)"

definition weak_unref :: "'v mgr \<Rightarrow> obj \<Rightarrow> addr \<Rightarrow> 'v mgr" where
  "weak_unref m p a = (if for_objects m then m\<lparr>weak_refs := remove1 (p, a) (weak_refs m)\<rparr> else m)"

text \<open>\<open>objects = g_slist_remove (objects, p)\<close> in the block \<open>a\<close>.\<close>

definition forget_object :: "'v mgr \<Rightarrow> obj \<Rightarrow> addr \<Rightarrow> 'v mgr outcome" where
  "forget_object m p a =
     bind_outcome (deref m a) (\<lambda>oa.
       Returns (m\<lparr>store := (store m)(a \<mapsto> oa\<lparr>oa_objects := remove1 p (oa_objects oa)\<rparr>)\<rparr>))"

section \<open>Operations\<close>

definition put_value :: "'v mgr \<Rightarrow> addr \<Rightarrow> obj \<Rightarrow> string \<Rightarrow> 'v option \<Rightarrow> 'v mgr outcome" where
  "put_value m a p n v =
     bind_outcome (deref m a) (\<lambda>oa.
       Returns (m\<lparr>store := (store m)(a \<mapsto> oa\<lparr>oa_values :=
                    (case v of Some x \<Rightarrow> AList.update n x (oa_values oa) | None \<Rightarrow> AList.delete n (oa_values oa))\<rparr>),
                  signals := (if has_signal m \<and> for_objects m then signals m @ [(p, n, v)] else signals m)\<rparr>))"

text \<open>\<open>g_hash_table_foreach\<close> with a function that may fail.\<close>

fun copy_values :: "('m \<Rightarrow> string \<Rightarrow> 'v \<Rightarrow> 'm outcome) \<Rightarrow> 'm \<Rightarrow> (string \<times> 'v) list \<Rightarrow> 'm outcome" where
  "copy_values f m [] = Returns m"
| "copy_values f m ((n, v) # r) = bind_outcome (f m n v) (\<lambda>m. copy_values f m r)"

text \<open>The block of an object, created and referenced when there is none.\<close>

definition pick_objattrs :: "'v mgr \<Rightarrow> obj \<Rightarrow> ('v mgr \<times> addr) outcome" where
  "pick_objattrs m p =
     (case map_of (obj_hash m) p of
        Some a \<Rightarrow> Returns (m, a)
      | None \<Rightarrow>
          (case alloc m \<lparr>oa_objects = [p], oa_values = []\<rparr> of (m, a) \<Rightarrow>
             bind_outcome (hash_insert m p a) (\<lambda>m. Returns (weak_ref m p a, a))))"

text \<open>Taking an object out of a shared block into an empty one of its own.\<close>

definition split_objattrs :: "'v mgr \<Rightarrow> obj \<Rightarrow> addr \<Rightarrow> ('v mgr \<times> addr) outcome" where
  "split_objattrs m p a =
     (case alloc m \<lparr>oa_objects = [p], oa_values = []\<rparr> of (m, b) \<Rightarrow>
        bind_outcome (forget_object m p a) (\<lambda>m.
        bind_outcome (hash_remove m p) (\<lambda>m.
        bind_outcome (hash_insert m p b) (\<lambda>m.
          Returns (weak_ref (weak_unref m p a) p b, b)))))"

text \<open>
  \<open>manager_real_set\<close> calls itself, through \<open>foreach_copy_func\<close>, for every value of a block that is
  split. The first argument bounds the depth of these calls.
\<close>

fun manager_real_set :: "nat \<Rightarrow> 'v mgr \<Rightarrow> obj \<Rightarrow> string \<Rightarrow> 'v option \<Rightarrow> 'v mgr outcome" where
  "manager_real_set 0 m p n v = Undefined"
| "manager_real_set (Suc k) m p n v =
     bind_outcome (pick_objattrs m p) (\<lambda>(m, a).
     bind_outcome (deref m a) (\<lambda>oa.
       if oa_objects oa = [] then Undefined
       else if tl (oa_objects oa) \<noteq> [] then
         bind_outcome (split_objattrs m p a) (\<lambda>(m, b).
         bind_outcome (copy_values (\<lambda>m n v. manager_real_set k m p n (Some v)) m (oa_values oa)) (\<lambda>m.
           put_value m b p n v))
       else put_value m a p n v))"

definition gda_attributes_manager_set :: "'v mgr \<Rightarrow> obj \<Rightarrow> string \<Rightarrow> 'v option \<Rightarrow> 'v mgr outcome" where
  "gda_attributes_manager_set m p n v = manager_real_set 2 m p n v"


text \<open>Copying within one manager, which shares the block, and from one manager to another.\<close>

definition copy_same :: "'v mgr \<Rightarrow> obj \<Rightarrow> obj \<Rightarrow> 'v mgr outcome" where
  "copy_same m from to =
     (case map_of (obj_hash m) from of
        None \<Rightarrow> Returns m
      | Some a \<Rightarrow>
          bind_outcome (deref m a) (\<lambda>oa.
            if map_of (obj_hash m) to = None
            then bind_outcome
                   (hash_insert (m\<lparr>store := (store m)(a \<mapsto> oa\<lparr>oa_objects := to # oa_objects oa\<rparr>)\<rparr>) to a)
                   (\<lambda>m. Returns (weak_ref m to a))
            else copy_values (\<lambda>m n v. manager_real_set 2 m to n (Some v)) m (oa_values oa)))"

definition copy_other :: "'v mgr \<Rightarrow> obj \<Rightarrow> 'v mgr \<Rightarrow> obj \<Rightarrow> 'v mgr outcome" where
  "copy_other m from to_mgr to =
     (case map_of (obj_hash m) from of
        None \<Rightarrow> Returns to_mgr
      | Some a \<Rightarrow>
          bind_outcome (deref m a) (\<lambda>oa.
            copy_values (\<lambda>m n v. manager_real_set 2 m to n (Some v)) to_mgr (oa_values oa)))"

definition gda_attributes_manager_clear :: "'v mgr \<Rightarrow> obj \<Rightarrow> 'v mgr outcome" where
  "gda_attributes_manager_clear m p =
     (case map_of (obj_hash m) p of
        None \<Rightarrow> Returns m
      | Some a \<Rightarrow> bind_outcome (forget_object m p a) (\<lambda>m. hash_remove m p))"


text \<open>The destruction of an object runs \<open>obj_destroyed_cb\<close> for each weak reference on it.\<close>

definition obj_destroyed_cb :: "'v mgr \<Rightarrow> obj \<Rightarrow> addr \<Rightarrow> 'v mgr outcome" where
  "obj_destroyed_cb m p a = bind_outcome (forget_object m p a) (\<lambda>m. hash_remove m p)"

fun notify_all :: "'v mgr \<Rightarrow> obj \<Rightarrow> addr list \<Rightarrow> 'v mgr outcome" where
  "notify_all m p [] = Returns m"
| "notify_all m p (a # as) = bind_outcome (obj_destroyed_cb m p a) (\<lambda>m. notify_all m p as)"

definition object_destroyed :: "'v mgr \<Rightarrow> obj \<Rightarrow> 'v mgr outcome" where
  "object_destroyed m p =
     notify_all (m\<lparr>weak_refs := filter (\<lambda>r. fst r \<noteq> p) (weak_refs m)\<rparr>) p
       (map snd (filter (\<lambda>r. fst r = p) (weak_refs m)))"

fun foreach_destroy :: "'v mgr \<Rightarrow> (obj \<times> addr) list \<Rightarrow> 'v mgr outcome" where
  "foreach_destroy m [] = Returns m"
| "foreach_destroy m ((p, a) # r) =
     bind_outcome (forget_object (weak_unref m p a) p a) (\<lambda>m. foreach_destroy m r)"

fun destroy_table :: "'v mgr \<Rightarrow> (obj \<times> addr) list \<Rightarrow> 'v mgr outcome" where
  "destroy_table m [] = Returns m"
| "destroy_table m ((p, a) # r) = bind_outcome (objattrs_unref m a) (\<lambda>m. destroy_table m r)"

definition gda_attributes_manager_free :: "'v mgr \<Rightarrow> 'v mgr outcome" where
  "gda_attributes_manager_free m =
     bind_outcome (foreach_destroy m (obj_hash m)) (\<lambda>m. destroy_table m (obj_hash m))"


section \<open>The attributes of the objects\<close>

text \<open>
  The specification of the manager: to each object its names and their values. The blocks are well formed
  when each live block belongs to exactly the objects of its list and every other is free.
\<close>

definition attrs_of :: "'v mgr \<Rightarrow> obj \<Rightarrow> string \<Rightarrow> 'v option" where
  "attrs_of m p =
     (case map_of (obj_hash m) p of
        None \<Rightarrow> Map.empty
      | Some a \<Rightarrow> (case store m a of None \<Rightarrow> Map.empty | Some oa \<Rightarrow> map_of (oa_values oa)))"

definition wf_mgr :: "'v mgr \<Rightarrow> bool" where
  "wf_mgr m \<longleftrightarrow>
     distinct (map fst (obj_hash m)) \<and> (\<forall>a \<ge> next_addr m. store m a = None) \<and>
     (\<forall>p a. map_of (obj_hash m) p = Some a \<longrightarrow> store m a \<noteq> None) \<and>
     (\<forall>a oa. store m a = Some oa \<longrightarrow>
        oa_objects oa \<noteq> [] \<and> distinct (oa_objects oa) \<and> set (oa_objects oa) = {p. map_of (obj_hash m) p = Some a} \<and>
        distinct (map fst (oa_values oa)))"

text \<open>The weak references are those of the table: what holds as long as nothing was cleared.\<close>

definition wf_refs :: "'v mgr \<Rightarrow> bool" where
  "wf_refs m \<longleftrightarrow> for_objects m \<longrightarrow>
     distinct (weak_refs m) \<and> (\<forall>p a. (p, a) \<in> set (weak_refs m) \<longleftrightarrow> map_of (obj_hash m) p = Some a)"

definition sole :: "'v mgr \<Rightarrow> obj \<Rightarrow> addr \<Rightarrow> bool" where
  "sole m p a \<longleftrightarrow> map_of (obj_hash m) p = Some a \<and> map_option oa_objects (store m a) = Some [p]"

declare map_of_eq_Some_iff [simp del] Some_eq_map_of_iff [simp del]

lemma wf_block:
  assumes "wf_mgr m" and "map_of (obj_hash m) p = Some a"
  obtains oa where "store m a = Some oa" "oa_objects oa \<noteq> []" "distinct (oa_objects oa)"
    "set (oa_objects oa) = {p. map_of (obj_hash m) p = Some a}" "distinct (map fst (oa_values oa))"
proof -
  obtain oa where "store m a = Some oa" using assms unfolding wf_mgr_def by blast
  with assms(1) that show thesis by (auto simp: wf_mgr_def)
qed

lemma wf_new [simp]: "wf_mgr (gda_attributes_manager_new objs sig)" "wf_refs (gda_attributes_manager_new objs sig)"
  by (simp_all add: wf_mgr_def wf_refs_def gda_attributes_manager_new_def)

lemma ref_simps [simp]:
  "obj_hash (weak_ref m p a) = obj_hash m" "obj_hash (weak_unref m p a) = obj_hash m"
  "store (weak_ref m p a) = store m" "store (weak_unref m p a) = store m"
  "next_addr (weak_ref m p a) = next_addr m" "next_addr (weak_unref m p a) = next_addr m"
  "for_objects (weak_ref m p a) = for_objects m" "for_objects (weak_unref m p a) = for_objects m"
  "weak_refs (weak_ref m p a) = (if for_objects m then weak_refs m @ [(p, a)] else weak_refs m)"
  "weak_refs (weak_unref m p a) = (if for_objects m then remove1 (p, a) (weak_refs m) else weak_refs m)"
  by (simp_all add: weak_ref_def weak_unref_def)

lemma wf_ref [simp]: "wf_mgr (weak_ref m p a) \<longleftrightarrow> wf_mgr m" "wf_mgr (weak_unref m p a) \<longleftrightarrow> wf_mgr m"
  by (simp_all add: wf_mgr_def)

lemma attrs_of_ref [simp]: "attrs_of (weak_ref m p a) = attrs_of m" "attrs_of (weak_unref m p a) = attrs_of m"
  by (simp_all add: attrs_of_def fun_eq_iff split: option.split)

lemma put_value_ok:
  assumes wf: "wf_mgr m" and a: "map_of (obj_hash m) p' = Some a"
  obtains m' where "put_value m a p n v = Returns m'" "wf_mgr m'" "obj_hash m' = obj_hash m"
    "weak_refs m' = weak_refs m" "for_objects m' = for_objects m"
    "attrs_of m' = (\<lambda>q. if map_of (obj_hash m) q = Some a then (attrs_of m q)(n := v) else attrs_of m q)"
    "\<forall>q c. sole m q c \<longrightarrow> sole m' q c"
proof -
  obtain oa where oa: "store m a = Some oa" "distinct (map fst (oa_values oa))"
    using wf_block [OF wf a] by metis
  let ?vs = "case v of Some x \<Rightarrow> AList.update n x (oa_values oa) | None \<Rightarrow> AList.delete n (oa_values oa)"
  let ?m = "m\<lparr>store := (store m)(a \<mapsto> oa\<lparr>oa_values := ?vs\<rparr>),
      signals := (if has_signal m \<and> for_objects m then signals m @ [(p, n, v)] else signals m)\<rparr>"
  have d: "distinct (map fst ?vs)"
    using oa(2) by (cases v) (simp_all add: distinct_update distinct_delete)
  have vs: "map_of ?vs = (map_of (oa_values oa))(n := v)"
    by (cases v) (simp_all add: update_conv' delete_conv')
  show thesis
  proof
    show "put_value m a p n v = Returns ?m" using oa by (simp add: put_value_def deref_def)
    show "wf_mgr ?m" using wf oa d by (auto simp: wf_mgr_def)
    show "attrs_of ?m = (\<lambda>q. if map_of (obj_hash m) q = Some a then (attrs_of m q)(n := v) else attrs_of m q)"
      using oa(1) vs by (auto simp: attrs_of_def fun_eq_iff split: option.split)
    show "\<forall>q c. sole m q c \<longrightarrow> sole ?m q c"
      using oa(1) by (auto simp: sole_def)
  qed simp_all
qed

lemma pick_objattrs_ok:
  assumes wf: "wf_mgr m"
  obtains m' a where "pick_objattrs m p = Returns (m', a)" "wf_mgr m'" "map_of (obj_hash m') p = Some a"
    "for_objects m' = for_objects m" "attrs_of m' = attrs_of m" "wf_refs m \<Longrightarrow> wf_refs m'"
proof (cases "map_of (obj_hash m) p")
  case (Some a)
  then show thesis using that [of m a] wf by (simp add: pick_objattrs_def)
next
  case None
  let ?a = "next_addr m"
  let ?m = "m\<lparr>store := (store m)(?a \<mapsto> \<lparr>oa_objects = [p], oa_values = []\<rparr>), next_addr := ?a + 1,
      obj_hash := (p, ?a) # obj_hash m\<rparr>"
  have fresh: "store m ?a = None" "\<And>q. map_of (obj_hash m) q \<noteq> Some ?a"
    using wf unfolding wf_mgr_def by (blast, metis order_refl)
  have p: "p \<notin> fst ` set (obj_hash m)" using None by (simp add: map_of_eq_None_iff)
  have wf': "wf_mgr ?m"
    using wf fresh p None by (auto simp: wf_mgr_def split: if_split_asm)
  have at: "attrs_of ?m = attrs_of m"
    using fresh None by (auto simp: attrs_of_def fun_eq_iff split: option.split)
  show thesis
  proof
    show "pick_objattrs m p = Returns (weak_ref ?m p ?a, ?a)"
      using None by (simp add: pick_objattrs_def alloc_def hash_insert_def)
    show "wf_refs (weak_ref ?m p ?a)" if "wf_refs m"
      using that None fresh by (auto simp: wf_refs_def)
  qed (use wf' at in simp_all)
qed

text \<open>Splitting a shared block gives the object an empty block of its own.\<close>

lemma split_objattrs_ok:
  assumes wf: "wf_mgr m" and a: "map_of (obj_hash m) p = Some a" "store m a = Some oa"
    and shared: "tl (oa_objects oa) \<noteq> []"
  obtains m' b where "split_objattrs m p a = Returns (m', b)" "wf_mgr m'" "map_of (obj_hash m') p = Some b"
    "for_objects m' = for_objects m" "attrs_of m' = (attrs_of m)(p := Map.empty)"
    "sole m' p b" "wf_refs m \<Longrightarrow> wf_refs m'"
proof -
  let ?b = "next_addr m"
  let ?oa = "oa\<lparr>oa_objects := remove1 p (oa_objects oa)\<rparr>"
  let ?m = "m\<lparr>next_addr := ?b + 1, store := (store m)(?b \<mapsto> \<lparr>oa_objects = [p], oa_values = []\<rparr>, a \<mapsto> ?oa),
      obj_hash := (p, ?b) # AList.delete p (obj_hash m)\<rparr>"
  have objs: "distinct (oa_objects oa)" "set (oa_objects oa) = {p. map_of (obj_hash m) p = Some a}"
    using wf a unfolding wf_mgr_def by blast+
  then have p: "p \<in> set (oa_objects oa)" using a by simp
  have rest: "remove1 p (oa_objects oa) \<noteq> []" "distinct (remove1 p (oa_objects oa))"
    using p shared by (cases "oa_objects oa"; cases "tl (oa_objects oa)"; simp add: objs(1); use objs(1) in auto)+
  have set_rest: "set (remove1 p (oa_objects oa)) = {q. q \<noteq> p \<and> map_of (obj_hash m) q = Some a}"
    using objs by auto
  have fresh: "store m ?b = None" "\<And>q. map_of (obj_hash m) q \<noteq> Some ?b"
    using wf unfolding wf_mgr_def by (blast, metis order_refl)
  have ab: "a \<noteq> ?b" using fresh a by auto
  let ?h = "map_of (obj_hash m)"
  have hash: "map_of (obj_hash ?m) = ?h(p \<mapsto> ?b)" by (simp add: delete_conv' fun_eq_iff)
  have wf': "wf_mgr ?m"
    unfolding wf_mgr_def hash
  proof (intro conjI allI impI)
    show "distinct (map fst (obj_hash ?m))"
      using wf by (simp add: wf_mgr_def delete_keys distinct_removeAll)
    show "store ?m c = None" if "next_addr ?m \<le> c" for c
      using wf that a fresh unfolding wf_mgr_def by auto
    show "store ?m c \<noteq> None" if "(?h(p \<mapsto> ?b)) q = Some c" for q c
      using wf that unfolding wf_mgr_def by (auto split: if_split_asm)
  next
    fix c oc assume c: "store ?m c = Some oc"
    consider "c = a" "oc = ?oa" | "c = ?b" "c \<noteq> a" "oc = \<lparr>oa_objects = [p], oa_values = []\<rparr>"
      | "c \<noteq> a" "c \<noteq> ?b" "store m c = Some oc"
      using c by (auto split: if_split_asm)
    then have "oa_objects oc \<noteq> [] \<and> distinct (oa_objects oc) \<and> set (oa_objects oc) = {q. (?h(p \<mapsto> ?b)) q = Some c} \<and>
        distinct (map fst (oa_values oc))"
    proof cases
      case 1
      have "distinct (map fst (oa_values oa))" using wf a(2) unfolding wf_mgr_def by blast
      then show ?thesis using 1 rest set_rest ab by auto
    next
      case 2
      then show ?thesis using fresh by auto
    next
      case 3
      then have "oa_objects oc \<noteq> []" "distinct (oa_objects oc)" "set (oa_objects oc) = {q. ?h q = Some c}"
        "distinct (map fst (oa_values oc))"
        using wf unfolding wf_mgr_def by blast+
      then show ?thesis using 3 a(1) by auto
    qed
    then show "oa_objects oc \<noteq> []" "distinct (oa_objects oc)" "set (oa_objects oc) = {q. (?h(p \<mapsto> ?b)) q = Some c}"
      "distinct (map fst (oa_values oc))" by blast+
  qed
  have at: "attrs_of ?m = (attrs_of m)(p := Map.empty)"
    using fresh a ab unfolding attrs_of_def hash by (auto simp: fun_eq_iff split: option.split)
  show thesis
  proof
    show "split_objattrs m p a = Returns (weak_ref (weak_unref ?m p a) p ?b, ?b)"
      using a ab rest
      by (simp add: split_objattrs_def alloc_def forget_object_def deref_def hash_remove_def objattrs_unref_def
          hash_insert_def delete_conv' fun_upd_twist)
    show "wf_refs (weak_ref (weak_unref ?m p a) p ?b)" if "wf_refs m"
      using that a fresh unfolding wf_refs_def ref_simps hash by auto
    show "sole (weak_ref (weak_unref ?m p a) p ?b) p ?b"
      using hash ab by (simp add: sole_def)
  qed (use wf' at hash in auto)
qed


section \<open>Writing\<close>

text \<open>
  The contract of a routine that writes one named value, and what a loop that copies values with it then does.
\<close>

locale value_writer =
  fixes writev :: "'m \<Rightarrow> string \<Rightarrow> 'v \<Rightarrow> 'm outcome"
    and inv :: "'m \<Rightarrow> bool"
    and vals :: "'m \<Rightarrow> string \<Rightarrow> 'v option"
  assumes writev: "inv m \<Longrightarrow> \<exists>m'. writev m n v = Returns m' \<and> inv m' \<and> vals m' = (vals m)(n \<mapsto> v)"
begin

lemma copy_all:
  "inv m \<Longrightarrow> distinct (map fst al) \<Longrightarrow>
   \<exists>m'. copy_values writev m al = Returns m' \<and> inv m' \<and> vals m' = vals m ++ map_of al"
proof (induction al arbitrary: m)
  case (Cons nv al)
  obtain n v where nv: "nv = (n, v)" by fastforce
  obtain m1 where 1: "writev m n v = Returns m1" "inv m1" "vals m1 = (vals m)(n \<mapsto> v)"
    using writev [OF Cons.prems(1)] by blast
  have "distinct (map fst al)" using Cons.prems(2) by simp
  then obtain m2 where 2: "copy_values writev m1 al = Returns m2" "inv m2" "vals m2 = vals m1 ++ map_of al"
    using Cons.IH [OF 1(2)] by blast
  have "map_of al n = None" using Cons.prems(2) nv by (simp add: map_of_eq_None_iff)
  moreover have "map_of (nv # al) = (map_of al)(n \<mapsto> v)" by (simp add: nv)
  ultimately have "vals m2 = vals m ++ map_of (nv # al)"
    unfolding 1(3) 2(3) by (simp only: map_add_upd) (simp add: map_add_upd_left domIff)
  moreover have "copy_values writev m (nv # al) = Returns m2" using 1(1) 2(1) nv by simp
  ultimately show ?case using 2(2) by blast
qed simp

end

text \<open>
  What a write keeps: the block structure, the attributes of the other objects, and, unless something was cleared
  before, the weak references.
\<close>

definition kept :: "'v mgr \<Rightarrow> obj \<Rightarrow> 'v mgr \<Rightarrow> bool" where
  "kept m0 p m \<longleftrightarrow>
     wf_mgr m \<and> for_objects m = for_objects m0 \<and> (\<forall>q. q \<noteq> p \<longrightarrow> attrs_of m q = attrs_of m0 q) \<and>
     (wf_refs m0 \<longrightarrow> wf_refs m)"

lemma real_set_sole:
  assumes k: "kept m0 p m" and s: "sole m p a"
  shows "\<exists>m'. manager_real_set (Suc k) m p n v = Returns m' \<and> put_value m a p n v = Returns m' \<and>
           (kept m0 p m' \<and> sole m' p a) \<and> attrs_of m' p = (attrs_of m p)(n := v)"
proof -
  have wf: "wf_mgr m" using k by (simp add: kept_def)
  obtain oa where a: "map_of (obj_hash m) p = Some a" "store m a = Some oa" "oa_objects oa = [p]"
    using s by (auto simp: sole_def)
  obtain m' where m': "put_value m a p n v = Returns m'" "wf_mgr m'" "obj_hash m' = obj_hash m"
    "weak_refs m' = weak_refs m" "for_objects m' = for_objects m"
    "attrs_of m' = (\<lambda>q. if map_of (obj_hash m) q = Some a then (attrs_of m q)(n := v) else attrs_of m q)"
    "\<forall>q c. sole m q c \<longrightarrow> sole m' q c"
    using put_value_ok [OF wf a(1), of p n v] by blast
  have only: "map_of (obj_hash m) q = Some a \<longleftrightarrow> q = p" for q
  proof -
    have "set (oa_objects oa) = {q. map_of (obj_hash m) q = Some a}" using wf a(2) unfolding wf_mgr_def by blast
    then show ?thesis using a(3) by auto
  qed
  have "manager_real_set (Suc k) m p n v = Returns m'"
    using a m'(1) by (simp add: pick_objattrs_def deref_def)
  moreover have "kept m0 p m'"
    using k m' only by (simp add: kept_def wf_refs_def)
  moreover have "attrs_of m' p = (attrs_of m p)(n := v)" using m' a by simp
  ultimately show ?thesis using m'(1,7) s by blast
qed

interpretation sole: value_writer "\<lambda>m n v. manager_real_set (Suc k) m p n (Some v)"
  "\<lambda>m. kept m0 p m \<and> sole m p a" "\<lambda>m. attrs_of m p" for k m0 p a
proof unfold_locales
  fix m :: "'a mgr" and n v
  assume "kept m0 p m \<and> sole m p a"
  with real_set_sole [of m0 p m a k n "Some v"]
  show "\<exists>m'. manager_real_set (Suc k) m p n (Some v) = Returns m' \<and> (kept m0 p m' \<and> sole m' p a) \<and>
      attrs_of m' p = (attrs_of m p)(n \<mapsto> v)" by auto
qed

text \<open>The depth of the calls is two at most: any bound above one gives this result.\<close>

lemma manager_real_set_ok:
  assumes wf: "wf_mgr m"
  shows "\<exists>m'. manager_real_set (Suc (Suc k)) m p n v = Returns m' \<and> kept m p m' \<and>
           attrs_of m' p = (attrs_of m p)(n := v)"
proof -
  obtain m1 a where 1: "pick_objattrs m p = Returns (m1, a)" "wf_mgr m1" "map_of (obj_hash m1) p = Some a"
    "for_objects m1 = for_objects m" "attrs_of m1 = attrs_of m" "wf_refs m \<Longrightarrow> wf_refs m1"
    using pick_objattrs_ok [OF wf, of p] by blast
  obtain oa where oa: "store m1 a = Some oa" "oa_objects oa \<noteq> []" "distinct (oa_objects oa)"
    "set (oa_objects oa) = {p. map_of (obj_hash m1) p = Some a}" "distinct (map fst (oa_values oa))"
    using wf_block [OF 1(2,3)] by blast
  have p: "p \<in> set (oa_objects oa)" using oa(4) 1(3) by simp
  have k1: "kept m p m1" using 1 by (simp add: kept_def)
  show ?thesis
  proof (cases "tl (oa_objects oa) = []")
    case True
    then have "sole m1 p a" using oa(1,2) p 1(3) by (cases "oa_objects oa") (auto simp: sole_def)
    from real_set_sole [OF k1 this, of "Suc k" n v] show ?thesis
      using 1 oa(1,2) True by (simp add: deref_def) metis
  next
    case False
    obtain m2 b where 2: "split_objattrs m1 p a = Returns (m2, b)" "wf_mgr m2" "map_of (obj_hash m2) p = Some b"
      "for_objects m2 = for_objects m1" "attrs_of m2 = (attrs_of m1)(p := Map.empty)" "sole m2 p b"
      "wf_refs m1 \<Longrightarrow> wf_refs m2"
      using split_objattrs_ok [OF 1(2,3) oa(1) False] by blast
    have k2: "kept m p m2" using k1 2 by (simp add: kept_def)
    then obtain m3 where 3: "copy_values (\<lambda>m n v. manager_real_set (Suc k) m p n (Some v)) m2 (oa_values oa) = Returns m3"
      "kept m p m3" "sole m3 p b" "attrs_of m3 p = attrs_of m2 p ++ map_of (oa_values oa)"
      using sole.copy_all [of m p m2 b "oa_values oa" k] 2(6) oa(5) by blast
    obtain m4 where 4: "put_value m3 b p n v = Returns m4" "kept m p m4" "attrs_of m4 p = (attrs_of m3 p)(n := v)"
      using real_set_sole [OF 3(2,3)] by blast
    have "attrs_of m1 p = map_of (oa_values oa)" using 1(3) oa(1) by (simp add: attrs_of_def)
    then have "attrs_of m3 p = attrs_of m p" using 3(4) 2(5) 1(5) by simp
    then show ?thesis using 1 2 3 4 oa False by (simp add: deref_def)
  qed
qed


section \<open>Copying and clearing\<close>

interpretation writer: value_writer "\<lambda>m n v. manager_real_set (Suc (Suc k)) m p n (Some v)"
  "kept m0 p" "\<lambda>m. attrs_of m p" for k m0 p
proof unfold_locales
  fix m :: "'a mgr" and n v
  assume k: "kept m0 p m"
  then obtain m' where "manager_real_set (Suc (Suc k)) m p n (Some v) = Returns m'" "kept m p m'"
    "attrs_of m' p = (attrs_of m p)(n \<mapsto> v)"
    using manager_real_set_ok [of m k p n "Some v"] by (auto simp: kept_def)
  moreover from this(2) k have "kept m0 p m'" by (simp add: kept_def)
  ultimately show "\<exists>m'. manager_real_set (Suc (Suc k)) m p n (Some v) = Returns m' \<and> kept m0 p m' \<and>
      attrs_of m' p = (attrs_of m p)(n \<mapsto> v)" by blast
qed

lemma kept_refl: "wf_mgr m \<Longrightarrow> kept m p m"
  by (simp add: kept_def)

lemma attrs_of_block: "map_of (obj_hash m) p = Some a \<Longrightarrow> store m a = Some oa \<Longrightarrow> attrs_of m p = map_of (oa_values oa)"
  by (simp add: attrs_of_def)

text \<open>A block gets another object.\<close>

lemma share_ok:
  assumes wf: "wf_mgr m" and a: "map_of (obj_hash m) p = Some a" "store m a = Some oa"
    and q: "map_of (obj_hash m) q = None"
  defines "n \<equiv> weak_ref (m\<lparr>store := (store m)(a \<mapsto> oa\<lparr>oa_objects := q # oa_objects oa\<rparr>), obj_hash := (q, a) # obj_hash m\<rparr>) q a"
  shows "copy_same m p q = Returns n" "kept m q n" "attrs_of n q = attrs_of m p" "map_of (obj_hash n) q = Some a"
    "tl (oa_objects (the (store n a))) \<noteq> []"
proof -
  have objs: "oa_objects oa \<noteq> []" "distinct (oa_objects oa)" "set (oa_objects oa) = {p. map_of (obj_hash m) p = Some a}"
    "distinct (map fst (oa_values oa))"
    using wf a unfolding wf_mgr_def by blast+
  have fresh: "q \<notin> fst ` set (obj_hash m)" using q by (simp add: map_of_eq_None_iff)
  show "copy_same m p q = Returns n" using a q by (simp add: copy_same_def deref_def hash_insert_def n_def)
  have "wf_mgr n"
    unfolding wf_mgr_def
  proof (intro conjI allI impI)
    show "distinct (map fst (obj_hash n))" using wf fresh by (simp add: n_def wf_mgr_def)
    show "store n c = None" if "next_addr n \<le> c" for c
      using wf that a unfolding n_def wf_mgr_def by auto
    show "store n c \<noteq> None" if "map_of (obj_hash n) r = Some c" for r c
      using wf that unfolding n_def wf_mgr_def by (auto split: if_split_asm)
  next
    fix c oc assume c: "store n c = Some oc"
    have "oa_objects oc \<noteq> [] \<and> distinct (oa_objects oc) \<and> set (oa_objects oc) = {r. map_of (obj_hash n) r = Some c} \<and>
        distinct (map fst (oa_values oc))"
    proof (cases "c = a")
      case True
      then have "oc = oa\<lparr>oa_objects := q # oa_objects oa\<rparr>" using c by (simp add: n_def)
      moreover have "{r. map_of (obj_hash n) r = Some a} = insert q {r. map_of (obj_hash m) r = Some a}"
        by (auto simp: n_def)
      moreover have "q \<notin> set (oa_objects oa)" using objs(3) q by simp
      ultimately show ?thesis using True objs by simp
    next
      case False
      then have "store m c = Some oc" using c by (simp add: n_def)
      then have "oa_objects oc \<noteq> []" "distinct (oa_objects oc)" "set (oa_objects oc) = {r. map_of (obj_hash m) r = Some c}"
        "distinct (map fst (oa_values oc))" using wf unfolding wf_mgr_def by blast+
      then show ?thesis using False q by (auto simp: n_def)
    qed
    then show "oa_objects oc \<noteq> []" "distinct (oa_objects oc)" "set (oa_objects oc) = {r. map_of (obj_hash n) r = Some c}"
      "distinct (map fst (oa_values oc))" by blast+
  qed
  moreover have "attrs_of n r = attrs_of m r" if "r \<noteq> q" for r
    using that a(2) by (auto simp: n_def attrs_of_def fun_eq_iff split: option.split)
  moreover have "wf_refs m \<longrightarrow> wf_refs n"
    using q by (auto simp: wf_refs_def n_def)
  ultimately show "kept m q n" by (simp add: kept_def n_def)
  show "attrs_of n q = attrs_of m p" using a by (simp add: n_def attrs_of_def)
  show "map_of (obj_hash n) q = Some a" "tl (oa_objects (the (store n a))) \<noteq> []" using objs(1) by (simp_all add: n_def)
qed

lemma copy_same_ok:
  assumes wf: "wf_mgr m"
  shows "\<exists>m'. copy_same m p q = Returns m' \<and> kept m q m' \<and> attrs_of m' q = attrs_of m q ++ attrs_of m p"
proof (cases "map_of (obj_hash m) p")
  case None
  then show ?thesis using wf by (simp add: copy_same_def kept_refl attrs_of_def)
next
  case (Some a)
  then obtain oa where oa: "store m a = Some oa" "distinct (map fst (oa_values oa))"
    using wf_block [OF wf Some] by blast
  show ?thesis
  proof (cases "map_of (obj_hash m) q")
    case None
    then have "attrs_of m q = Map.empty" by (simp add: attrs_of_def)
    then show ?thesis using share_ok [OF wf Some oa(1) None] by auto
  next
    case (Some b)
    obtain m' where "copy_values (\<lambda>m n v. manager_real_set (Suc (Suc 0)) m q n (Some v)) m (oa_values oa) = Returns m'"
      "kept m q m'" "attrs_of m' q = attrs_of m q ++ map_of (oa_values oa)"
      using writer.copy_all [OF kept_refl [OF wf] oa(2), of 0 q] by blast
    then show ?thesis
      using Some \<open>map_of (obj_hash m) p = Some a\<close> oa(1)
      by (simp add: copy_same_def deref_def attrs_of_block numeral_2_eq_2)
  qed
qed

lemma copy_other_ok:
  assumes "wf_mgr m" and wf: "wf_mgr t"
  shows "\<exists>t'. copy_other m p t q = Returns t' \<and> kept t q t' \<and> attrs_of t' q = attrs_of t q ++ attrs_of m p"
proof (cases "map_of (obj_hash m) p")
  case None
  then show ?thesis using wf by (simp add: copy_other_def kept_refl attrs_of_def)
next
  case (Some a)
  then obtain oa where oa: "store m a = Some oa" "distinct (map fst (oa_values oa))"
    using wf_block [OF assms(1) Some] by blast
  obtain t' where "copy_values (\<lambda>m n v. manager_real_set (Suc (Suc 0)) m q n (Some v)) t (oa_values oa) = Returns t'"
    "kept t q t'" "attrs_of t' q = attrs_of t q ++ map_of (oa_values oa)"
    using writer.copy_all [OF kept_refl [OF wf] oa(2), of 0 q] by blast
  then show ?thesis using Some oa(1) by (simp add: copy_other_def deref_def attrs_of_block numeral_2_eq_2)
qed


text \<open>An object leaves its block, which is freed with the last one.\<close>

lemma detach_ok:
  assumes wf: "wf_mgr m" and a: "map_of (obj_hash m) p = Some a" "store m a = Some oa"
  defines "n \<equiv> m\<lparr>store := (store m)(a := (if oa_objects oa = [p] then None
        else Some (oa\<lparr>oa_objects := remove1 p (oa_objects oa)\<rparr>))), obj_hash := AList.delete p (obj_hash m)\<rparr>"
  shows "bind_outcome (forget_object m p a) (\<lambda>m. hash_remove m p) = Returns n" "wf_mgr n"
    "attrs_of n = (attrs_of m)(p := Map.empty)" "map_of (obj_hash n) = (map_of (obj_hash m))(p := None)"
proof -
  have objs: "distinct (oa_objects oa)" "set (oa_objects oa) = {p. map_of (obj_hash m) p = Some a}"
    "distinct (map fst (oa_values oa))"
    using wf a unfolding wf_mgr_def by blast+
  then have p: "p \<in> set (oa_objects oa)" using a by simp
  have last: "remove1 p (oa_objects oa) = [] \<longleftrightarrow> oa_objects oa = [p]"
    using p objs(1) by (cases "oa_objects oa"; cases "tl (oa_objects oa)") auto
  have rest: "set (remove1 p (oa_objects oa)) = {q. q \<noteq> p \<and> map_of (obj_hash m) q = Some a}"
    using objs by auto
  show "bind_outcome (forget_object m p a) (\<lambda>m. hash_remove m p) = Returns n"
    using a last by (simp add: forget_object_def deref_def hash_remove_def objattrs_unref_def n_def)
  show hash: "map_of (obj_hash n) = (map_of (obj_hash m))(p := None)" by (simp add: n_def delete_conv')
  show "wf_mgr n"
    unfolding wf_mgr_def hash
  proof (intro conjI allI impI)
    show "distinct (map fst (obj_hash n))" using wf by (simp add: n_def wf_mgr_def distinct_delete)
    show "store n c = None" if "next_addr n \<le> c" for c
      using wf that a unfolding n_def wf_mgr_def by auto
    show "store n c \<noteq> None" if "((map_of (obj_hash m))(p := None)) q = Some c" for q c
    proof (cases "c = a \<and> oa_objects oa = [p]")
      case True
      then show ?thesis using that objs(2) by (auto split: if_split_asm)
    next
      case False
      then show ?thesis using wf that unfolding n_def wf_mgr_def by (auto split: if_split_asm)
    qed
  next
    fix c oc assume c: "store n c = Some oc"
    have "oa_objects oc \<noteq> [] \<and> distinct (oa_objects oc) \<and>
        set (oa_objects oc) = {q. ((map_of (obj_hash m))(p := None)) q = Some c} \<and> distinct (map fst (oa_values oc))"
    proof (cases "c = a")
      case True
      then have "oc = oa\<lparr>oa_objects := remove1 p (oa_objects oa)\<rparr>" "oa_objects oa \<noteq> [p]"
        using c by (simp_all add: n_def split: if_split_asm)
      then show ?thesis using True last rest objs by (auto simp: distinct_remove1)
    next
      case False
      then have "store m c = Some oc" using c by (simp add: n_def)
      then have "oa_objects oc \<noteq> []" "distinct (oa_objects oc)" "set (oa_objects oc) = {q. map_of (obj_hash m) q = Some c}"
        "distinct (map fst (oa_values oc))" using wf unfolding wf_mgr_def by blast+
      then show ?thesis using False a(1) by auto
    qed
    then show "oa_objects oc \<noteq> []" "distinct (oa_objects oc)"
      "set (oa_objects oc) = {q. ((map_of (obj_hash m))(p := None)) q = Some c}" "distinct (map fst (oa_values oc))" by blast+
  qed
  show "attrs_of n = (attrs_of m)(p := Map.empty)"
  proof
    fix q
    show "attrs_of n q = ((attrs_of m)(p := Map.empty)) q"
    proof (cases "q \<noteq> p \<and> map_of (obj_hash m) q = Some a")
      case True
      then have "q \<in> set (oa_objects oa)" using objs(2) by simp
      then have "oa_objects oa \<noteq> [p]" using True by auto
      then show ?thesis using True a by (simp add: attrs_of_def hash) (simp add: n_def)
    next
      case False
      have "store n b = store m b" if "b \<noteq> a" for b using that by (simp add: n_def)
      with False show ?thesis
        by (cases "q = p"; cases "map_of (obj_hash m) q") (auto simp: attrs_of_def hash)
    qed
  qed
qed

lemma clear_ok:
  assumes wf: "wf_mgr m"
  shows "\<exists>m'. gda_attributes_manager_clear m p = Returns m' \<and> wf_mgr m' \<and> attrs_of m' = (attrs_of m)(p := Map.empty)"
proof (cases "map_of (obj_hash m) p")
  case None
  then show ?thesis using wf by (simp add: gda_attributes_manager_clear_def attrs_of_def fun_upd_idem)
next
  case (Some a)
  then obtain oa where "store m a = Some oa" using wf_block [OF wf Some] by blast
  from detach_ok [OF wf Some this] Some show ?thesis by (auto simp: gda_attributes_manager_clear_def)
qed

lemma distinct_single: "distinct xs \<Longrightarrow> set xs = {x} \<Longrightarrow> xs = [x]"
  by (cases xs; cases "tl xs") auto

lemma destroyed_ok:
  assumes wf: "wf_mgr m" and refs: "wf_refs m" and objs: "for_objects m"
  shows "\<exists>m'. object_destroyed m p = Returns m' \<and> wf_mgr m' \<and> wf_refs m' \<and> for_objects m' \<and>
           attrs_of m' = (attrs_of m)(p := Map.empty)"
proof -
  let ?m = "m\<lparr>weak_refs := filter (\<lambda>r. fst r \<noteq> p) (weak_refs m)\<rparr>"
  have wf': "wf_mgr ?m" using wf by (simp add: wf_mgr_def)
  have at: "attrs_of ?m = attrs_of m" by (simp add: attrs_of_def fun_eq_iff split: option.split)
  have r: "distinct (weak_refs m)" "(q, b) \<in> set (weak_refs m) \<longleftrightarrow> map_of (obj_hash m) q = Some b" for q b
    using refs objs by (simp_all add: wf_refs_def)
  show ?thesis
  proof (cases "map_of (obj_hash m) p")
    case None
    then have "filter (\<lambda>r. fst r = p) (weak_refs m) = []" using r(2) by (auto simp: filter_empty_conv)
    moreover have "wf_refs ?m" using r None by (auto simp: wf_refs_def)
    ultimately show ?thesis
      using wf' at None objs by (simp add: object_destroyed_def) (simp add: attrs_of_def fun_upd_idem)
  next
    case (Some a)
    then obtain oa where oa: "store m a = Some oa" using wf_block [OF wf Some] by blast
    have "set (filter (\<lambda>r. fst r = p) (weak_refs m)) = {(p, a)}" using r(2) Some by auto
    moreover have "distinct (filter (\<lambda>r. fst r = p) (weak_refs m))" using r(1) by simp
    ultimately have f: "filter (\<lambda>r. fst r = p) (weak_refs m) = [(p, a)]" by (simp only: distinct_single)
    obtain n where n: "n = ?m\<lparr>store := (store ?m)(a := (if oa_objects oa = [p] then None
        else Some (oa\<lparr>oa_objects := remove1 p (oa_objects oa)\<rparr>))), obj_hash := AList.delete p (obj_hash ?m)\<rparr>" by blast
    have "bind_outcome (forget_object ?m p a) (\<lambda>m. hash_remove m p) = Returns n" "wf_mgr n"
      "attrs_of n = (attrs_of ?m)(p := Map.empty)" "map_of (obj_hash n) = (map_of (obj_hash ?m))(p := None)"
      unfolding n by (rule detach_ok; use wf' Some oa in simp)+
    moreover have "for_objects n" "weak_refs n = filter (\<lambda>r. fst r \<noteq> p) (weak_refs m)"
      using objs by (simp_all add: n)
    ultimately show ?thesis
      using f r at by (auto simp: object_destroyed_def obj_destroyed_cb_def wf_refs_def)
  qed
qed


section \<open>Histories\<close>

text \<open>
  The histories of a manager. The flag tells whether attributes were ever cleared; the destruction of objects is
  only in the histories where they were not, for the reason stated below.
\<close>

inductive mgr_reachable :: "bool \<Rightarrow> 'v mgr \<Rightarrow> bool" where
  new: "mgr_reachable c (gda_attributes_manager_new objs sig)"
| set: "mgr_reachable c m \<Longrightarrow> gda_attributes_manager_set m p n v = Returns m' \<Longrightarrow> mgr_reachable c m'"
| copy: "mgr_reachable c m \<Longrightarrow> copy_same m p q = Returns m' \<Longrightarrow> mgr_reachable c m'"
| copy_from: "mgr_reachable c m \<Longrightarrow> mgr_reachable d s \<Longrightarrow> copy_other s p m q = Returns m' \<Longrightarrow> mgr_reachable c m'"
| clear: "mgr_reachable c m \<Longrightarrow> gda_attributes_manager_clear m p = Returns m' \<Longrightarrow> mgr_reachable True m'"
| destroyed: "mgr_reachable False m \<Longrightarrow> for_objects m \<Longrightarrow> object_destroyed m p = Returns m' \<Longrightarrow> mgr_reachable False m'"

lemma set_ok:
  "wf_mgr m \<Longrightarrow> \<exists>m'. gda_attributes_manager_set m p n v = Returns m' \<and> kept m p m' \<and>
     attrs_of m' p = (attrs_of m p)(n := v)"
  using manager_real_set_ok [of m 0 p n v] by (simp add: gda_attributes_manager_set_def numeral_2_eq_2)

lemma mgr_reachable_wf: "mgr_reachable c m \<Longrightarrow> wf_mgr m \<and> (\<not> c \<longrightarrow> wf_refs m)"
proof (induction rule: mgr_reachable.induct)
  case (set c m p n v m')
  then show ?case using set_ok [of m p n v] by (auto simp: kept_def)
next
  case (copy c m p q m')
  then show ?case using copy_same_ok [of m p q] by (auto simp: kept_def)
next
  case (copy_from c m d s p q m')
  then show ?case using copy_other_ok [of s m p q] by (auto simp: kept_def)
next
  case (clear c m p m')
  then show ?case using clear_ok [of m p] by auto
next
  case (destroyed m p m')
  then show ?case using destroyed_ok [of m p] by auto
qed simp



text \<open>A manager with the attribute \<open>''a''\<close> on the object 1, shared with the object 2.\<close>

definition sample_mgr :: "nat mgr" where
  "sample_mgr = returned (bind_outcome (gda_attributes_manager_set (gda_attributes_manager_new True False) 1 ''a'' (Some 5))
     (\<lambda>m. copy_same m 1 2))"

lemma sample_mgr:
  "obj_hash sample_mgr = [(2, 0), (1, 0)]" "map_option oa_objects (store sample_mgr 0) = Some [2, 1]"
  "for_objects sample_mgr" "mgr_reachable False sample_mgr"
proof -
  obtain m1 where 1: "gda_attributes_manager_set (gda_attributes_manager_new True False) 1 ''a'' (Some 5) = Returns m1"
    "obj_hash m1 = [(1, 0)]" "store m1 0 = Some \<lparr>oa_objects = [1], oa_values = [(''a'', 5::nat)]\<rparr>" "for_objects m1"
    by (simp add: gda_attributes_manager_set_def gda_attributes_manager_new_def numeral_2_eq_2 pick_objattrs_def
        alloc_def hash_insert_def weak_ref_def deref_def put_value_def)
  then obtain m2 where 2: "copy_same m1 1 2 = Returns m2" "obj_hash m2 = [(2, 0), (1, 0)]"
    "map_option oa_objects (store m2 0) = Some [2, 1]" "for_objects m2"
    by (simp add: copy_same_def deref_def hash_insert_def)
  have "sample_mgr = m2" using 1(1) 2(1) by (simp add: sample_mgr_def)
  moreover have "mgr_reachable False m2" using 1(1) 2(1) mgr_reachable.new set copy by metis
  ultimately show "obj_hash sample_mgr = [(2, 0), (1, 0)]" "map_option oa_objects (store sample_mgr 0) = Some [2, 1]"
    "for_objects sample_mgr" "mgr_reachable False sample_mgr" using 2 by simp_all
qed


text \<open>
  Remark: As long as nothing was cleared, the weak references are exactly the entries of the table, and the
  destruction of any object is safe and only removes its attributes.
\<close>

theorem object_destruction_is_safe:
  assumes "mgr_reachable False m" and "for_objects m"
  shows "\<exists>m'. object_destroyed m p = Returns m' \<and> attrs_of m' = (attrs_of m)(p := Map.empty) \<and> wf_refs m'"
  using destroyed_ok [of m p] mgr_reachable_wf [OF assms(1)] assms(2) by blast

theorem object_destruction_is_safe_witness:
  "\<exists>m'. object_destroyed sample_mgr 1 = Returns m' \<and> attrs_of m' = (attrs_of sample_mgr)(1 := Map.empty) \<and> wf_refs m'"
  by (rule object_destruction_is_safe [OF sample_mgr(4,3)])


text \<open>
  Remark: \<open>gda_attributes_manager_clear\<close> keeps the weak reference on the object while it frees its block:
  clearing the attributes of an object that shares them with no other and then destroying the object
  makes the callback read the freed block.
\<close>

theorem clear_then_destroy_reads_freed_block:
  assumes "mgr_reachable False m" and "for_objects m"
    and "map_of (obj_hash m) p = Some a" and "map_option oa_objects (store m a) = Some [p]"
  shows "\<exists>m'. gda_attributes_manager_clear m p = Returns m' \<and> object_destroyed m' p = Undefined"
proof -
  have wf: "wf_mgr m" "wf_refs m" using mgr_reachable_wf [OF assms(1)] by simp_all
  obtain oa where oa: "store m a = Some oa" "oa_objects oa = [p]" using assms(4) by auto
  define m' where "m' = m\<lparr>store := (store m)(a := None), obj_hash := AList.delete p (obj_hash m)\<rparr>"
  have m': "gda_attributes_manager_clear m p = Returns m'" "store m' a = None" "weak_refs m' = weak_refs m"
    using detach_ok(1) [OF wf(1) assms(3) oa(1)] assms(3) oa(2)
    by (simp_all add: gda_attributes_manager_clear_def m'_def)
  define L where "L = filter (\<lambda>r. fst r = p) (weak_refs m')"
  have refs: "(q, b) \<in> set (weak_refs m) \<longleftrightarrow> map_of (obj_hash m) q = Some b" for q b
    using wf(2) assms(2) by (simp add: wf_refs_def)
  have "(p, a) \<in> set L" using refs assms(3) by (simp add: L_def m'(3))
  moreover have "r = (p, a)" if "r \<in> set L" for r
  proof -
    obtain q b where "r = (q, b)" by fastforce
    moreover from this that have "(q, b) \<in> set (weak_refs m)" "q = p" by (auto simp: L_def m'(3))
    ultimately show ?thesis using refs [of p b] assms(3) by simp
  qed
  ultimately have "set L = {(p, a)}" by blast
  then obtain rs where "L = (p, a) # rs" by (cases L) auto
  then have "object_destroyed m' p = Undefined"
    using m'(2) unfolding object_destroyed_def L_def [symmetric]
    by (simp add: obj_destroyed_cb_def forget_object_def deref_def)
  with m'(1) show ?thesis by blast
qed

lemma sample_single:
  "\<exists>m. mgr_reachable False m \<and> for_objects m \<and> map_of (obj_hash m) 1 = Some 0 \<and>
       map_option oa_objects (store m 0) = Some [1] \<and>
       gda_attributes_manager_set (gda_attributes_manager_new True False) 1 ''a'' (Some (5::nat)) = Returns m"
proof -
  obtain m1 where 1: "gda_attributes_manager_set (gda_attributes_manager_new True False) 1 ''a'' (Some 5) = Returns m1"
    "obj_hash m1 = [(1, 0)]" "store m1 0 = Some \<lparr>oa_objects = [1], oa_values = [(''a'', 5::nat)]\<rparr>" "for_objects m1"
    by (simp add: gda_attributes_manager_set_def gda_attributes_manager_new_def numeral_2_eq_2 pick_objattrs_def
        alloc_def hash_insert_def weak_ref_def deref_def put_value_def)
  moreover have "mgr_reachable False m1" using 1(1) mgr_reachable.new set by metis
  ultimately show ?thesis by auto
qed

theorem clear_then_destroy_reads_freed_block_witness:
  "\<exists>m m'. gda_attributes_manager_set (gda_attributes_manager_new True False) 1 ''a'' (Some (5::nat)) = Returns m \<and>
     gda_attributes_manager_clear m 1 = Returns m' \<and> object_destroyed m' 1 = Undefined"
proof -
  obtain m where m: "mgr_reachable False m" "for_objects m" "map_of (obj_hash m) 1 = Some 0"
    "map_option oa_objects (store m 0) = Some [1]"
    "gda_attributes_manager_set (gda_attributes_manager_new True False) 1 ''a'' (Some (5::nat)) = Returns m"
    using sample_single by blast
  from clear_then_destroy_reads_freed_block [OF m(1-4)] m(5) show ?thesis by blast
qed

section \<open>Freeing the manager\<close>

lemma foreach_destroy_ok:
  "\<forall>r \<in> set L. store m (snd r) \<noteq> None \<Longrightarrow>
   \<exists>m'. foreach_destroy m L = Returns m' \<and> obj_hash m' = obj_hash m \<and>
     (\<forall>a oa. store m a = Some oa \<longrightarrow> distinct (oa_objects oa) \<longrightarrow>
        (\<exists>oa'. store m' a = Some oa' \<and> distinct (oa_objects oa') \<and>
               set (oa_objects oa') = set (oa_objects oa) - {p. (p, a) \<in> set L}))"
proof (induction L arbitrary: m)
  case (Cons r L)
  obtain p a where r: "r = (p, a)" by fastforce
  obtain oa where oa: "store m a = Some oa" using Cons.prems r by auto
  let ?m = "(weak_unref m p a)\<lparr>store := (store m)(a \<mapsto> oa\<lparr>oa_objects := remove1 p (oa_objects oa)\<rparr>)\<rparr>"
  have "\<forall>r \<in> set L. store ?m (snd r) \<noteq> None" using Cons.prems by auto
  then obtain m' where m': "foreach_destroy ?m L = Returns m'" "obj_hash m' = obj_hash ?m"
    and *: "\<forall>b ob. store ?m b = Some ob \<longrightarrow> distinct (oa_objects ob) \<longrightarrow>
        (\<exists>ob'. store m' b = Some ob' \<and> distinct (oa_objects ob') \<and>
               set (oa_objects ob') = set (oa_objects ob) - {p. (p, b) \<in> set L})"
    using Cons.IH [of ?m] by blast
  have "\<exists>ob'. store m' b = Some ob' \<and> distinct (oa_objects ob') \<and>
      set (oa_objects ob') = set (oa_objects ob) - {p. (p, b) \<in> set (r # L)}"
    if b: "store m b = Some ob" "distinct (oa_objects ob)" for b ob
  proof (cases "b = a")
    case True
    then have "store ?m b = Some (ob\<lparr>oa_objects := remove1 p (oa_objects ob)\<rparr>)" using b oa by simp
    moreover have "distinct (oa_objects (ob\<lparr>oa_objects := remove1 p (oa_objects ob)\<rparr>))" using b(2) by simp
    ultimately have "\<exists>ob'. store m' b = Some ob' \<and> distinct (oa_objects ob') \<and>
      set (oa_objects ob') = set (oa_objects (ob\<lparr>oa_objects := remove1 p (oa_objects ob)\<rparr>)) - {p. (p, b) \<in> set L}"
      using * by blast
    then obtain ob' where "store m' b = Some ob'" "distinct (oa_objects ob')"
      "set (oa_objects ob') = set (remove1 p (oa_objects ob)) - {p. (p, b) \<in> set L}" by auto
    then show ?thesis using b(2) True r by auto
  next
    case False
    then have "store ?m b = Some ob" using b by simp
    with * b(2) obtain ob' where "store m' b = Some ob'" "distinct (oa_objects ob')"
      "set (oa_objects ob') = set (oa_objects ob) - {p. (p, b) \<in> set L}" by blast
    then show ?thesis using False r by auto
  qed
  moreover have "foreach_destroy m (r # L) = Returns m'" "obj_hash m' = obj_hash m"
    using m' oa r by (simp_all add: forget_object_def deref_def)
  ultimately show ?case by blast
qed auto

lemma destroy_table_Undefined:
  "\<forall>r \<in> set L. store m (snd r) = None \<or> map_option oa_objects (store m (snd r)) = Some [] \<Longrightarrow>
   destroy_table m L = Undefined \<longleftrightarrow> (\<exists>r \<in> set L. store m (snd r) = None) \<or> \<not> distinct (map snd L)"
proof (induction L arbitrary: m)
  case (Cons r L)
  obtain p a where r: "r = (p, a)" by fastforce
  show ?case
  proof (cases "store m a")
    case None
    then show ?thesis using r by (auto simp: objattrs_unref_def deref_def)
  next
    case (Some oa)
    then have e: "oa_objects oa = []" using Cons.prems r by auto
    let ?m = "m\<lparr>store := (store m)(a := None)\<rparr>"
    have "destroy_table m (r # L) = destroy_table ?m L"
      using Some e r by (simp add: objattrs_unref_def deref_def)
    also have "\<dots> = Undefined \<longleftrightarrow> (\<exists>r \<in> set L. store ?m (snd r) = None) \<or> \<not> distinct (map snd L)"
      using Cons.prems by (intro Cons.IH) auto
    finally show ?thesis using Some r by auto
  qed
qed simp

text \<open>
  Remark: Freeing a manager frees a block once for each of its objects: it accesses a freed block exactly when two
  objects share their attributes, as they do after a copy.
\<close>

theorem free_undefined_iff_shared:
  assumes "mgr_reachable c m"
  shows "gda_attributes_manager_free m = Undefined \<longleftrightarrow>
           (\<exists>p q a. p \<noteq> q \<and> map_of (obj_hash m) p = Some a \<and> map_of (obj_hash m) q = Some a)"
proof -
  have wf: "wf_mgr m" using mgr_reachable_wf [OF assms] by simp
  then have d: "distinct (map fst (obj_hash m))" by (simp add: wf_mgr_def)
  have in_hash: "(p, a) \<in> set (obj_hash m) \<longleftrightarrow> map_of (obj_hash m) p = Some a" for p a
    using d by (simp add: map_of_eq_Some_iff)
  have live: "\<forall>r \<in> set (obj_hash m). store m (snd r) \<noteq> None"
  proof
    fix r assume "r \<in> set (obj_hash m)"
    then have "map_of (obj_hash m) (fst r) = Some (snd r)" using in_hash [of "fst r" "snd r"] by simp
    then show "store m (snd r) \<noteq> None" using wf unfolding wf_mgr_def by blast
  qed
  obtain m' where m': "foreach_destroy m (obj_hash m) = Returns m'" "obj_hash m' = obj_hash m"
    and *: "\<forall>a oa. store m a = Some oa \<longrightarrow> distinct (oa_objects oa) \<longrightarrow>
        (\<exists>oa'. store m' a = Some oa' \<and> distinct (oa_objects oa') \<and>
               set (oa_objects oa') = set (oa_objects oa) - {p. (p, a) \<in> set (obj_hash m)})"
    using foreach_destroy_ok [OF live] by blast
  have empty: "map_option oa_objects (store m' (snd r)) = Some []" if "r \<in> set (obj_hash m)" for r
  proof -
    obtain oa where oa: "store m (snd r) = Some oa" using live \<open>r \<in> set (obj_hash m)\<close> by auto
    then have "distinct (oa_objects oa)" "set (oa_objects oa) = {p. map_of (obj_hash m) p = Some (snd r)}"
      using wf unfolding wf_mgr_def by blast+
    with * oa obtain oa' where "store m' (snd r) = Some oa'" "set (oa_objects oa') = {}"
      unfolding in_hash by fastforce
    then show ?thesis by simp
  qed
  have "gda_attributes_manager_free m = Undefined \<longleftrightarrow> \<not> distinct (map snd (obj_hash m))"
    using m' destroy_table_Undefined [of "obj_hash m" m'] empty
    by (fastforce simp: gda_attributes_manager_free_def)
  also have "distinct (map snd (obj_hash m)) \<longleftrightarrow> inj_on snd (set (obj_hash m))"
    using d by (auto simp: distinct_map)
  also have "\<not> inj_on snd (set (obj_hash m)) \<longleftrightarrow>
      (\<exists>p q a. p \<noteq> q \<and> map_of (obj_hash m) p = Some a \<and> map_of (obj_hash m) q = Some a)"
    unfolding inj_on_def in_hash [symmetric] by fastforce
  finally show ?thesis .
qed

theorem free_undefined_iff_shared_witness:
  "gda_attributes_manager_free sample_mgr = Undefined"
  using free_undefined_iff_shared [OF sample_mgr(4)] sample_mgr(1)
  by (metis map_of_Cons_code(2) one_eq_numeral_iff semiring_norm(85))

section \<open>The depth of the recursion\<close>

lemma copy_values_mono:
  "\<forall>m n v r. f m n v = Returns r \<longrightarrow> g m n v = Returns r \<Longrightarrow>
   copy_values f m al = Returns r \<Longrightarrow> copy_values g m al = Returns r"
  by (induction al arbitrary: m) (fastforce simp: bind_outcome_Returns)+

lemma manager_real_set_mono:
  "manager_real_set k m p n v = Returns r \<Longrightarrow> manager_real_set (Suc k) m p n v = Returns r"
proof (induction k arbitrary: m p n v r)
  case (Suc k)
  have *: "\<forall>(m :: 'a mgr) n' v r. manager_real_set k m p n' (Some v) = Returns r \<longrightarrow> manager_real_set (Suc k) m p n' (Some v) = Returns r"
    by (intro allI impI) (rule Suc.IH)
  obtain m1 a oa where 1: "pick_objattrs m p = Returns (m1, a)" "store m1 a = Some oa" "oa_objects oa \<noteq> []"
    using Suc.prems by (auto simp: bind_outcome_Returns deref_def split: option.split_asm if_split_asm)
  show ?case
  proof (cases "tl (oa_objects oa) = []")
    case True
    then show ?thesis using Suc.prems 1 by (simp add: deref_def)
  next
    case False
    then obtain m2 b m3 where 2: "split_objattrs m1 p a = Returns (m2, b)"
      "copy_values (\<lambda>m n v. manager_real_set k m p n (Some v)) m2 (oa_values oa) = Returns m3"
      "put_value m3 b p n v = Returns r"
      using Suc.prems 1 by (auto simp: bind_outcome_Returns deref_def)
    from copy_values_mono [OF * 2(2)] show ?thesis
      unfolding manager_real_set.simps(2) [of "Suc k"] 1(1) bind_outcome.simps prod.case
      using 1(2,3) 2 False by (simp add: deref_def del: manager_real_set.simps)
  qed
qed simp

text \<open>
  Remark: The recursion of \<open>manager_real_set\<close> through \<open>foreach_copy_func\<close> ends at the second call: with any
  larger bound on its depth the result is the same, and it is a result.
\<close>

theorem manager_real_set_depth:
  assumes "mgr_reachable c m" and "2 \<le> k"
  shows "manager_real_set k m p n v = manager_real_set 2 m p n v \<and> manager_real_set k m p n v \<noteq> Undefined"
proof -
  obtain r where r: "manager_real_set 2 m p n v = Returns r"
    using set_ok [of m p n v] mgr_reachable_wf [OF assms(1)] by (auto simp: gda_attributes_manager_set_def)
  have "manager_real_set (2 + d) m p n v = Returns r" for d
  proof (induction d)
    case (Suc d)
    from manager_real_set_mono [OF this] show ?case by (simp only: add_Suc_right)
  qed (use r in simp)
  from this [of "k - 2"] assms(2) have "manager_real_set k m p n v = Returns r" by (simp only: le_add_diff_inverse)
  then show ?thesis using r by simp
qed

theorem manager_real_set_depth_witness:
  "manager_real_set 7 sample_mgr 1 ''b'' (Some 3) = manager_real_set 2 sample_mgr 1 ''b'' (Some 3) \<and>
   manager_real_set 7 sample_mgr 1 ''b'' (Some 3) \<noteq> Undefined"
  by (rule manager_real_set_depth [OF sample_mgr(4)]) simp

end
