(* ===== verification/Gda_Types.thy ===== *)
theory Gda_Types
  imports Gda_Prelude
begin

text \<open>
  Types and values as the rest of the library sees them (\<open>GType\<close> and \<open>GValue\<close> of GLib, \<open>libgda/gda-value.h\<close>): a value
  has a type and contents, or is the null value.
\<close>

section \<open>Types\<close>

type_synonym gtype = nat

definition G_TYPE_INVALID :: gtype where "G_TYPE_INVALID = 0"

text \<open>
  \<open>GDA_TYPE_NULL\<close> is registered when it is first asked for, so its number depends on the run; the model takes one that
  GLib gives to no other type.
\<close>

definition GDA_TYPE_NULL :: gtype where "GDA_TYPE_NULL = 1"

section \<open>Values\<close>

text \<open>A value of a type other than \<open>GDA_TYPE_NULL\<close> with its contents, or a null value.\<close>

datatype 'v gvalue = GNull | GValue gtype 'v

fun G_VALUE_TYPE :: "'v gvalue \<Rightarrow> gtype" where
  "G_VALUE_TYPE GNull = GDA_TYPE_NULL"
| "G_VALUE_TYPE (GValue t c) = t"

text \<open>An argument or a result of the type \<open>const GValue *\<close>, which may be NULL.\<close>

type_synonym 'v gptr = "'v gvalue option"

definition is_null :: "'v gptr \<Rightarrow> bool" where
  "is_null p \<longleftrightarrow> (case p of None \<Rightarrow> True | Some v \<Rightarrow> G_VALUE_TYPE v = GDA_TYPE_NULL)"

definition contents_of :: "'v gptr \<Rightarrow> 'v gvalue" where
  "contents_of p = (case p of None \<Rightarrow> GNull | Some v \<Rightarrow> v)"

end
