(* ===== verification/Gda_Holder.thy ===== *)
theory Gda_Holder
  imports Gda_Types
begin

text \<open>
  Value holders (\<open>libgda/gda-holder.c\<close>): validity, default values, static values, and the bindings by
  which holders follow each other.

  A system of holders maps numbers to holders, with the handlers that bindings connected to the \<open>changed\<close>
  signal of each, in the order of their connection, and the log of the emissions. The callbacks of
  \<open>validate-change\<close>, and the comparison of two values of one type, are parameters. A missing value and a
  \<open>GValue\<close> of the type \<open>GDA_TYPE_NULL\<close> in a holder are both \<open>GNull\<close>: \<open>gda_holder_get_value\<close> turns the first into
  the second. Signal emission and the following of bindings are recursive and may not end, so these routines have a bound on the
  depth of the calls and \<open>Undefined\<close> is a call that went deeper. Locks, names, descriptions and source
  models are not modelled.
\<close>

section \<open>Data\<close>

type_synonym hid = nat

record 'v gda_holder =
  g_type :: gtype
  full_bind :: "hid option"
  simple_bind :: "hid option"
  invalid_forced :: bool
  invalid_error :: "nat option"
  valid :: bool
  is_freeable :: bool
  hvalue :: "'v gvalue"
  default_value :: "'v gptr"
  default_forced :: bool
  not_null :: bool
  validate_changes :: bool

datatype binding = SimpleBind | FullBind

record 'v hsys =
  holders :: "hid \<Rightarrow> 'v gda_holder"
  handlers :: "hid \<Rightarrow> (binding \<times> hid) list"
  emitted :: "hid list"

record 'v henv =
  accepts :: "hid \<Rightarrow> 'v gptr \<Rightarrow> bool"
  gda_value_differ :: "'v gvalue \<Rightarrow> 'v gvalue \<Rightarrow> bool"
  gda_value_equal :: "'v gvalue \<Rightarrow> 'v gvalue \<Rightarrow> bool"

datatype holder_error = StringConversion | ValueType | ValueNull | ValueRefused

definition gda_holder_new :: "gtype \<Rightarrow> 'v gda_holder" where
  "gda_holder_new t =
     \<lparr>g_type = t, full_bind = None, simple_bind = None, invalid_forced = False, invalid_error = None, valid = True,
      is_freeable = True, hvalue = GNull, default_value = None, default_forced = False, not_null = False,
      validate_changes = True\<rparr>"

definition upd :: "hid \<Rightarrow> ('v gda_holder \<Rightarrow> 'v gda_holder) \<Rightarrow> 'v hsys \<Rightarrow> 'v hsys" where
  "upd h f s = s\<lparr>holders := (holders s)(h := f (holders s h))\<rparr>"

section \<open>Reading\<close>

text \<open>What a holder that is not an alias answers.\<close>

definition own_value :: "'v gda_holder \<Rightarrow> 'v gptr" where
  "own_value x =
     (if valid x then
        if default_forced x then
          (case default_value x of None \<Rightarrow> None | Some d \<Rightarrow> if G_VALUE_TYPE d = g_type x then Some d else None)
        else Some (hvalue x)
      else None)"

definition own_valid :: "'v gda_holder \<Rightarrow> bool" where
  "own_valid x \<longleftrightarrow>
     \<not> invalid_forced x \<and> (if default_forced x then default_value x \<noteq> None else valid x)"

fun gda_holder_get_value :: "nat \<Rightarrow> 'v hsys \<Rightarrow> hid \<Rightarrow> 'v gptr outcome" where
  "gda_holder_get_value 0 s h = Undefined"
| "gda_holder_get_value (Suc n) s h =
     (case full_bind (holders s h) of
        Some m \<Rightarrow> gda_holder_get_value n s m
      | None \<Rightarrow> Returns (own_value (holders s h)))"

fun gda_holder_is_valid :: "nat \<Rightarrow> 'v hsys \<Rightarrow> hid \<Rightarrow> bool outcome" where
  "gda_holder_is_valid 0 s h = Undefined"
| "gda_holder_is_valid (Suc n) s h =
     (case full_bind (holders s h) of
        Some m \<Rightarrow> gda_holder_is_valid n s m
      | None \<Rightarrow> Returns (own_valid (holders s h)))"

section \<open>Writing\<close>

text \<open>The validity of a value for a holder, with the error that is set.\<close>

definition check_value :: "'v gda_holder \<Rightarrow> 'v gptr \<Rightarrow> holder_error option" where
  "check_value x v =
     (if is_null v \<and> not_null x then Some ValueNull
      else if \<not> is_null v \<and> G_VALUE_TYPE (contents_of v) \<noteq> g_type x then Some ValueType
      else None)"

definition value_changed :: "'v henv \<Rightarrow> 'v gptr \<Rightarrow> 'v gptr \<Rightarrow> bool" where
  "value_changed env v cur =
     (if is_null cur \<and> is_null v then False
      else
        (case (v, cur) of
           (Some a, Some b) \<Rightarrow> if G_VALUE_TYPE a = G_VALUE_TYPE b then gda_value_differ env a b else True
         | _ \<Rightarrow> True))"

text \<open>Whether a new value is the default one.\<close>

definition is_default :: "'v henv \<Rightarrow> 'v gda_holder \<Rightarrow> 'v gptr \<Rightarrow> bool" where
  "is_default env x v =
     (case default_value x of
        None \<Rightarrow> False
      | Some d \<Rightarrow>
          if G_VALUE_TYPE d = GDA_TYPE_NULL \<and> is_null v then True
          else if G_VALUE_TYPE d = g_type x
          then (case v of None \<Rightarrow> False | Some a \<Rightarrow> G_VALUE_TYPE a = g_type x \<and> gda_value_equal env d a)
          else False)"

definition make_valid :: "bool \<Rightarrow> 'v gda_holder \<Rightarrow> 'v gda_holder" where
  "make_valid ok x = x\<lparr>invalid_forced := False, invalid_error := None, valid := ok\<rparr>"

text \<open>
  Setting a value: the result, the error that is reported, and the system. Emitting \<open>changed\<close> runs the handlers
  of the bindings: a bound holder is set to the new value, and an alias emits the signal in turn.
\<close>

function (sequential) real_gda_holder_set_value ::
    "'v henv \<Rightarrow> nat \<Rightarrow> 'v hsys \<Rightarrow> hid \<Rightarrow> 'v gptr \<Rightarrow> (bool \<times> holder_error option \<times> 'v hsys) outcome"
  and emit_changed :: "'v henv \<Rightarrow> nat \<Rightarrow> 'v hsys \<Rightarrow> hid \<Rightarrow> 'v hsys outcome"
  and run_handlers :: "'v henv \<Rightarrow> nat \<Rightarrow> 'v hsys \<Rightarrow> hid \<Rightarrow> (binding \<times> hid) list \<Rightarrow> 'v hsys outcome" where
  "real_gda_holder_set_value env 0 s h v = Undefined"
| "real_gda_holder_set_value env (Suc n) s h v =
     bind_outcome (gda_holder_is_valid (Suc n) s h) (\<lambda>was_valid.
       let x = holders s h in
       if \<not> is_freeable x then Returns (False, None, s)
       else bind_outcome (gda_holder_get_value (Suc n) s h) (\<lambda>cur.
         let err = check_value x v in
         if was_valid \<and> err = None \<and> \<not> value_changed env v cur
         then Returns (True, None, upd h (make_valid True) s)
         else if validate_changes x \<and> \<not> accepts env h v
         then Returns (False, Some (case err of None \<Rightarrow> ValueRefused | Some e \<Rightarrow> e), s)
         else
           let s = upd h (\<lambda>x. make_valid (err = None) (x\<lparr>is_freeable := True, default_forced := is_default env x v\<rparr>)) s in
           case full_bind x of
             Some m \<Rightarrow> real_gda_holder_set_value env n s m v
           | None \<Rightarrow>
               bind_outcome
                 (emit_changed env n (upd h (\<lambda>x. x\<lparr>hvalue := (if err = None then contents_of v else GNull)\<rparr>) s) h)
                 (\<lambda>s. Returns (err = None, err, s))))"
| "emit_changed env 0 s h = Undefined"
| "emit_changed env (Suc n) s h = run_handlers env n (s\<lparr>emitted := emitted s @ [h]\<rparr>) h (handlers s h)"
| "run_handlers env n s h [] = Returns s"
| "run_handlers env n s h ((FullBind, k) # r) =
     bind_outcome (emit_changed env n s k) (\<lambda>s. run_handlers env n s h r)"
| "run_handlers env n s h ((SimpleBind, k) # r) =
     bind_outcome (gda_holder_get_value n s h) (\<lambda>cv.
     bind_outcome (real_gda_holder_set_value env n s k cv) (\<lambda>(ok, err, s). run_handlers env n s h r))"
  by pat_completeness auto
termination
  by (relation "measures [\<lambda>x. case x of Inl (_, n, _) \<Rightarrow> n | Inr (Inl (_, n, _)) \<Rightarrow> n | Inr (Inr (_, n, _)) \<Rightarrow> n,
        \<lambda>x. case x of Inr (Inr (_, _, _, _, l)) \<Rightarrow> length l + 1 | _ \<Rightarrow> 0]") auto

text \<open>
  The static variant keeps the given value itself and returns the one it replaces. It sets the value also when it did
  not change, and reports in the third result whether it did.
\<close>

fun real_gda_holder_set_const_value ::
    "'v henv \<Rightarrow> nat \<Rightarrow> 'v hsys \<Rightarrow> hid \<Rightarrow> 'v gptr \<Rightarrow> ('v gvalue \<times> holder_error option \<times> bool \<times> 'v hsys) outcome" where
  "real_gda_holder_set_const_value env 0 s h v = Undefined"
| "real_gda_holder_set_const_value env (Suc n) s h v =
     bind_outcome (gda_holder_get_value (Suc n) s h) (\<lambda>cur.
       let x = holders s h; err = check_value x v;
           changed = (err \<noteq> None \<or> value_changed env v cur);
           s = (if changed then s else upd h (make_valid True) s)
       in
         if validate_changes x \<and> \<not> accepts env h v
         then Returns (GNull, Some (case err of None \<Rightarrow> ValueRefused | Some e \<Rightarrow> e), changed, s)
         else
           let s = upd h (\<lambda>x. make_valid (err = None) (x\<lparr>is_freeable := False, default_forced := is_default env x v\<rparr>)) s in
           case full_bind x of
             Some m \<Rightarrow> real_gda_holder_set_const_value env n s m v
           | None \<Rightarrow>
               bind_outcome
                 (emit_changed env n (upd h (\<lambda>x. x\<lparr>hvalue := (if err = None then contents_of v else GNull)\<rparr>) s) h)
                 (\<lambda>s. Returns (hvalue x, err, changed, s)))"

fun gda_holder_force_invalid_e :: "'v henv \<Rightarrow> nat \<Rightarrow> 'v hsys \<Rightarrow> hid \<Rightarrow> nat option \<Rightarrow> 'v hsys outcome" where
  "gda_holder_force_invalid_e env 0 s h e = Undefined"
| "gda_holder_force_invalid_e env (Suc n) s h e =
     (let x = holders s h; s = upd h (\<lambda>x. x\<lparr>invalid_error := e\<rparr>) s in
      if invalid_forced x then Returns s
      else
        let s = upd h (\<lambda>x. x\<lparr>invalid_forced := True, valid := False, hvalue := GNull\<rparr>) s in
        case full_bind x of
          Some m \<Rightarrow> gda_holder_force_invalid_e env n s m None
        | None \<Rightarrow> emit_changed env n s h)"

definition gda_holder_set_value_to_default :: "'v henv \<Rightarrow> nat \<Rightarrow> 'v hsys \<Rightarrow> hid \<Rightarrow> (bool \<times> 'v hsys) outcome" where
  "gda_holder_set_value_to_default env n s h =
     (let x = holders s h in
      if default_forced x then Returns (True, s)
      else if default_value x = None then Returns (False, s)
      else bind_outcome
             (emit_changed env n
               (upd h (\<lambda>x. x\<lparr>default_forced := True, invalid_forced := False, invalid_error := None, hvalue := GNull\<rparr>) s) h)
             (\<lambda>s. Returns (True, s)))"

text \<open>
  The old default is first given to the holder when it is in force. (The pointer is the one that
  \<open>gda_holder_get_value\<close> returns, which counts as unchanged, as does a value that does not differ.)
\<close>

definition leave_default :: "'v henv \<Rightarrow> nat \<Rightarrow> 'v hsys \<Rightarrow> hid \<Rightarrow> 'v hsys outcome" where
  "leave_default env n s h =
     bind_outcome
       (if default_value (holders s h) \<noteq> None \<and> default_forced (holders s h)
        then bind_outcome (real_gda_holder_set_value env n s h (default_value (holders s h))) (\<lambda>(ok, err, s). Returns s)
        else Returns s)
       (\<lambda>s. Returns (upd h (\<lambda>x. x\<lparr>default_value := None, default_forced := False\<rparr>) s))"

definition gda_holder_set_default_value :: "'v henv \<Rightarrow> nat \<Rightarrow> 'v hsys \<Rightarrow> hid \<Rightarrow> 'v gptr \<Rightarrow> 'v hsys outcome" where
  "gda_holder_set_default_value env n s h v =
     bind_outcome (leave_default env n s h) (\<lambda>s.
       case v of
         None \<Rightarrow> Returns s
       | Some d \<Rightarrow>
           bind_outcome (gda_holder_get_value n s h) (\<lambda>cur.
             Returns (upd h (\<lambda>x. x\<lparr>default_value := Some d,
               default_forced :=
                 (if G_VALUE_TYPE d = GDA_TYPE_NULL \<and> is_null cur then True
                  else G_VALUE_TYPE d = g_type x \<and> cur \<noteq> None \<and> gda_value_equal env d (contents_of cur))\<rparr>) s)))"

text \<open>The property \<open>not-null\<close>.\<close>

definition set_not_null :: "'v henv \<Rightarrow> nat \<Rightarrow> 'v hsys \<Rightarrow> hid \<Rightarrow> bool \<Rightarrow> 'v hsys outcome" where
  "set_not_null env n s h b =
     (if b = not_null (holders s h) then Returns s
      else emit_changed env n
             (upd h (\<lambda>x. x\<lparr>not_null := b, valid := (if G_VALUE_TYPE (hvalue x) = GDA_TYPE_NULL then \<not> b else valid x)\<rparr>) s) h)"

definition set_g_type :: "'v hsys \<Rightarrow> hid \<Rightarrow> gtype \<Rightarrow> 'v hsys" where
  "set_g_type s h t = (if g_type (holders s h) = GDA_TYPE_NULL then upd h (\<lambda>x. x\<lparr>g_type := t\<rparr>) s else s)"

section \<open>Bindings\<close>

definition connect :: "hid \<Rightarrow> binding \<times> hid \<Rightarrow> 'v hsys \<Rightarrow> 'v hsys" where
  "connect h k s = s\<lparr>handlers := (handlers s)(h := handlers s h @ [k])\<rparr>"

definition disconnect :: "hid \<Rightarrow> binding \<times> hid \<Rightarrow> 'v hsys \<Rightarrow> 'v hsys" where
  "disconnect h k s = s\<lparr>handlers := (handlers s)(h := removeAll k (handlers s h))\<rparr>"

text \<open>
  (The handler of \<open>notify::g-type\<close>, for a holder that is bound while the other has no type yet, is not
  modelled.)
\<close>

definition gda_holder_set_bind ::
    "'v henv \<Rightarrow> nat \<Rightarrow> 'v hsys \<Rightarrow> hid \<Rightarrow> hid option \<Rightarrow> (bool \<times> holder_error option \<times> 'v hsys) outcome" where
  "gda_holder_set_bind env n s h b =
     (let x = holders s h in
      if b = Some h then Returns (False, None, s)
      else if simple_bind x = b then Returns (True, None, s)
      else if (case b of None \<Rightarrow> False
               | Some k \<Rightarrow> g_type x \<noteq> GDA_TYPE_NULL \<and> g_type (holders s k) \<noteq> GDA_TYPE_NULL \<and>
                            g_type x \<noteq> g_type (holders s k))
      then Returns (False, Some ValueType, s)
      else
        bind_outcome (case b of None \<Rightarrow> Returns None | Some k \<Rightarrow> gda_holder_get_value n s k) (\<lambda>value2.
        bind_outcome (gda_holder_get_value n s h) (\<lambda>value1.
          let s = (case simple_bind x of None \<Rightarrow> s | Some k \<Rightarrow> disconnect k (SimpleBind, h) s);
              s = upd h (\<lambda>x. x\<lparr>simple_bind := b\<rparr>) s
          in
            case b of
              None \<Rightarrow> real_gda_holder_set_value env n s h value1
            | Some k \<Rightarrow>
                real_gda_holder_set_value env n
                  (set_g_type (connect k (SimpleBind, h) s) h (g_type (holders s k))) h value2)))"

definition gda_holder_set_full_bind :: "'v henv \<Rightarrow> nat \<Rightarrow> 'v hsys \<Rightarrow> hid \<Rightarrow> hid option \<Rightarrow> 'v hsys outcome" where
  "gda_holder_set_full_bind env n s h b =
     (let x = holders s h in
      if full_bind x = b then Returns s
      else if (case b of None \<Rightarrow> False | Some m \<Rightarrow> g_type x \<noteq> g_type (holders s m)) then Returns s
      else
        bind_outcome (case b of None \<Rightarrow> Returns None | Some m \<Rightarrow> gda_holder_get_value n s m) (\<lambda>value2.
        bind_outcome (gda_holder_get_value n s h) (\<lambda>value1.
          let s = (case full_bind x of None \<Rightarrow> s | Some m \<Rightarrow> disconnect m (FullBind, h) s) in
          case b of
            None \<Rightarrow> Returns (upd h (\<lambda>x. x\<lparr>full_bind := None, hvalue := contents_of value1\<rparr>) s)
          | Some m \<Rightarrow>
              let s = connect m (FullBind, h) (upd h (\<lambda>x. x\<lparr>full_bind := Some m, hvalue := GNull\<rparr>) s) in
              if (if \<not> is_null value1 \<and> \<not> is_null value2 \<and> G_VALUE_TYPE (contents_of value1) = G_VALUE_TYPE (contents_of value2)
                  then gda_value_equal env (contents_of value1) (contents_of value2)
                  else is_null value1 \<and> is_null value2)
              then Returns s else emit_changed env n s h)))"


text \<open>The text is converted by the data handler of the type, a parameter.\<close>

definition gda_holder_set_value_str ::
    "(gtype \<Rightarrow> string \<Rightarrow> 'v gvalue option) \<Rightarrow> 'v henv \<Rightarrow> nat \<Rightarrow> 'v hsys \<Rightarrow> hid \<Rightarrow> string option \<Rightarrow>
     (bool \<times> holder_error option \<times> 'v hsys) outcome" where
  "gda_holder_set_value_str convert env n s h str =
     (case str of
        None \<Rightarrow> real_gda_holder_set_value env n s h None
      | Some t \<Rightarrow>
          if map g_ascii_tolower t = ''null'' then real_gda_holder_set_value env n s h None
          else
            (case convert (g_type (holders s h)) t of
               None \<Rightarrow> Returns (False, Some StringConversion, s)
             | Some v \<Rightarrow> real_gda_holder_set_value env n s h (Some v)))"

text \<open>The copy \<open>k\<close> of a holder is bound as the original is, and then gets its fields.\<close>

definition gda_holder_copy :: "'v henv \<Rightarrow> nat \<Rightarrow> 'v hsys \<Rightarrow> hid \<Rightarrow> hid \<Rightarrow> (bool \<times> 'v hsys) outcome" where
  "gda_holder_copy env n s h k =
     (let x = holders s h; s = upd k (\<lambda>_. gda_holder_new (g_type x)) s in
      bind_outcome (case full_bind x of None \<Rightarrow> Returns s | Some m \<Rightarrow> gda_holder_set_full_bind env n s k (Some m)) (\<lambda>s.
      bind_outcome (case simple_bind x of None \<Rightarrow> Returns (True, None, s) | Some m \<Rightarrow> gda_holder_set_bind env n s k (Some m))
        (\<lambda>(ok, err, s).
          if \<not> ok then Returns (False, s)
          else Returns (True, upd k (\<lambda>y. y\<lparr>invalid_forced := invalid_forced x, invalid_error := invalid_error x,
                 valid := valid x, is_freeable := True, default_forced := default_forced x, hvalue := hvalue x,
                 default_value := default_value x, not_null := not_null x\<rparr>) s))))"

section \<open>The types of the values\<close>

text \<open>
  A holder is well typed when its value is null or of its type, and when the default that is in force exists (the
  assertion of \<open>gda_holder_get_value\<close>).
\<close>

definition typed :: "'v gda_holder \<Rightarrow> bool" where
  "typed x \<longleftrightarrow> G_VALUE_TYPE (hvalue x) \<in> {GDA_TYPE_NULL, g_type x} \<and> (default_forced x \<longrightarrow> default_value x \<noteq> None)"

definition all_typed :: "'v hsys \<Rightarrow> bool" where
  "all_typed s \<longleftrightarrow> (\<forall>h. typed (holders s h))"

text \<open>Writing changes no configuration: types, bindings, defaults and handlers.\<close>

definition same_config :: "'v hsys \<Rightarrow> 'v hsys \<Rightarrow> bool" where
  "same_config s s' \<longleftrightarrow> handlers s' = handlers s \<and>
     (\<forall>h. g_type (holders s' h) = g_type (holders s h) \<and> full_bind (holders s' h) = full_bind (holders s h) \<and>
          simple_bind (holders s' h) = simple_bind (holders s h) \<and>
          default_value (holders s' h) = default_value (holders s h) \<and> not_null (holders s' h) = not_null (holders s h) \<and>
          validate_changes (holders s' h) = validate_changes (holders s h))"

lemma same_config_refl [simp]: "same_config s s"
  by (simp add: same_config_def)

lemma same_config_trans: "same_config s t \<Longrightarrow> same_config t u \<Longrightarrow> same_config s u"
  by (simp add: same_config_def)

lemma holders_upd [simp]: "holders (upd h f s) k = (if k = h then f (holders s h) else holders s k)"
  by (simp add: upd_def)

lemma handlers_upd [simp]: "handlers (upd h f s) = handlers s" "emitted (upd h f s) = emitted s"
  by (simp_all add: upd_def)

lemma all_typed_upd: "all_typed s \<Longrightarrow> (typed (holders s h) \<Longrightarrow> typed (f (holders s h))) \<Longrightarrow> all_typed (upd h f s)"
  by (auto simp: all_typed_def)

lemma is_default_Some: "is_default env x v \<Longrightarrow> default_value x \<noteq> None"
  by (cases "default_value x") (auto simp: is_default_def)

lemma check_value_None: "check_value x v = None \<Longrightarrow> G_VALUE_TYPE (contents_of v) \<in> {GDA_TYPE_NULL, g_type x}"
  by (auto simp: check_value_def is_null_def contents_of_def split: option.split_asm if_split_asm)

lemma typed_set: "typed x \<Longrightarrow> check_value x v = None \<or> c = GNull \<Longrightarrow> c = contents_of v \<or> c = GNull \<Longrightarrow>
    typed (make_valid ok (x\<lparr>is_freeable := b, default_forced := is_default env x v\<rparr>)\<lparr>hvalue := c\<rparr>)"
  using check_value_None [of x v] is_default_Some [of env x v] by (auto simp: typed_def make_valid_def)

text \<open>What a write keeps.\<close>

definition write_keeps :: "'v hsys \<Rightarrow> 'v hsys \<Rightarrow> bool" where
  "write_keeps s s' \<longleftrightarrow> same_config s s' \<and> (all_typed s \<longrightarrow> all_typed s')"

lemma write_keeps_trans: "write_keeps s t \<Longrightarrow> write_keeps t u \<Longrightarrow> write_keeps s u"
  using same_config_trans by (auto simp: write_keeps_def)

lemma write_keeps_upd:
  assumes "\<And>x. g_type (f x) = g_type x \<and> full_bind (f x) = full_bind x \<and> simple_bind (f x) = simple_bind x \<and>
             default_value (f x) = default_value x \<and> not_null (f x) = not_null x \<and> validate_changes (f x) = validate_changes x"
    and "typed (holders s h) \<Longrightarrow> typed (f (holders s h))"
  shows "write_keeps s (upd h f s)"
  using assms by (auto simp: write_keeps_def same_config_def intro: all_typed_upd)

lemma write_keeps_emitted: "write_keeps s s' \<Longrightarrow> write_keeps s (s'\<lparr>emitted := l\<rparr>)" "write_keeps (s\<lparr>emitted := l\<rparr>) s' \<Longrightarrow> write_keeps s s'"
  by (simp_all add: write_keeps_def same_config_def all_typed_def)

text \<open>The ends of a write: nothing, only the validity, the master of an alias, or the holder itself.\<close>

abbreviation settle :: "'v henv \<Rightarrow> hid \<Rightarrow> 'v gptr \<Rightarrow> 'v hsys \<Rightarrow> 'v hsys" where
  "settle env h v s \<equiv>
     upd h (\<lambda>x. make_valid (check_value (holders s h) v = None) (x\<lparr>is_freeable := True, default_forced := is_default env x v\<rparr>)) s"

lemma real_set_value_cases:
  assumes "real_gda_holder_set_value env (Suc n) s h v = Returns (ok, err, s')"
  shows "s' = s \<or> s' = upd h (make_valid True) s \<or>
    (\<exists>m. real_gda_holder_set_value env n (settle env h v s) m v = Returns (ok, err, s')) \<or>
    emit_changed env n (upd h (\<lambda>x. x\<lparr>hvalue := (if check_value (holders s h) v = None then contents_of v else GNull)\<rparr>)
      (settle env h v s)) h = Returns s'"
  using assms
  by (auto simp: bind_outcome_Returns Let_def split: if_split_asm option.split_asm)

lemma write_keeps_settle:
  "write_keeps s (settle env h v s)"
  "write_keeps s (upd h (\<lambda>x. x\<lparr>hvalue := (if check_value (holders s h) v = None then contents_of v else GNull)\<rparr>) (settle env h v s))"
  "write_keeps s (upd h (make_valid True) s)"
proof -
  have u: "upd h g (upd h f s) = upd h (\<lambda>x. g (f x)) s" for f g by (simp add: upd_def)
  show "write_keeps s (settle env h v s)" "write_keeps s (upd h (make_valid True) s)"
    using is_default_Some [of env "holders s h" v] by (auto intro!: write_keeps_upd simp: make_valid_def typed_def)
  show "write_keeps s (upd h (\<lambda>x. x\<lparr>hvalue := (if check_value (holders s h) v = None then contents_of v else GNull)\<rparr>)
      (settle env h v s))"
    unfolding u by (rule write_keeps_upd) (auto simp: make_valid_def intro: typed_set [unfolded make_valid_def, simplified])
qed

lemma write_keeps_refl [simp]: "write_keeps s s"
  by (simp add: write_keeps_def)

lemma run_handlers_keeps:
  assumes "\<And>s h v ok err s'. real_gda_holder_set_value env n s h v = Returns (ok, err, s') \<Longrightarrow> write_keeps s s'"
    and "\<And>s h s'. emit_changed env n s h = Returns s' \<Longrightarrow> write_keeps s s'"
  shows "run_handlers env n s h l = Returns s' \<Longrightarrow> write_keeps s s'"
proof (induction l arbitrary: s)
  case (Cons b l)
  obtain t k where b: "b = (t, k)" by fastforce
  show ?case
  proof (cases t)
    case SimpleBind
    then obtain cv ok err s1 where 1: "real_gda_holder_set_value env n s k cv = Returns (ok, err, s1)"
      "run_handlers env n s1 h l = Returns s'"
      using Cons.prems b by (auto simp: bind_outcome_Returns)
    from write_keeps_trans [OF assms(1) [OF 1(1)] Cons.IH [OF 1(2)]] show ?thesis .
  next
    case FullBind
    then obtain s1 where 1: "emit_changed env n s k = Returns s1" "run_handlers env n s1 h l = Returns s'"
      using Cons.prems b by (auto simp: bind_outcome_Returns)
    from write_keeps_trans [OF assms(2) [OF 1(1)] Cons.IH [OF 1(2)]] show ?thesis .
  qed
qed simp

lemma write_keeps_all:
  "(\<forall>s h v ok err s'. real_gda_holder_set_value env n s h v = Returns (ok, err, s') \<longrightarrow> write_keeps s s') \<and>
   (\<forall>s h s'. emit_changed env n s h = Returns s' \<longrightarrow> write_keeps s s')"
proof (induction n)
  case (Suc n)
  then have set_value: "\<And>s h v ok err s'. real_gda_holder_set_value env n s h v = Returns (ok, err, s') \<Longrightarrow> write_keeps s s'"
    and emit: "\<And>s h s'. emit_changed env n s h = Returns s' \<Longrightarrow> write_keeps s s'" by blast+
  have "write_keeps s s'" if r: "real_gda_holder_set_value env (Suc n) s h v = Returns (ok, err, s')" for s h v ok err s'
    using real_set_value_cases [OF r] write_keeps_settle(1,2) [where s = s and env = env and h = h and v = v] write_keeps_settle(3) [of s h] set_value emit
    by (auto intro: write_keeps_trans)
  moreover have "write_keeps s s'" if "emit_changed env (Suc n) s h = Returns s'" for s h s'
    using that run_handlers_keeps [OF set_value emit] write_keeps_emitted(2) by fastforce
  ultimately show ?case by blast
qed simp

lemmas write_keeps_set = write_keeps_all [THEN conjunct1, rule_format]
lemmas write_keeps_emit = write_keeps_all [THEN conjunct2, rule_format]


lemma force_invalid_keeps:
  "gda_holder_force_invalid_e env n s h e = Returns s' \<Longrightarrow> write_keeps s s'"
proof (induction env n s h e arbitrary: s' rule: gda_holder_force_invalid_e.induct)
  case (2 env n s h e)
  let ?s1 = "upd h (\<lambda>x. x\<lparr>invalid_error := e\<rparr>) s"
  let ?s2 = "upd h (\<lambda>x. x\<lparr>invalid_forced := True, valid := False, hvalue := GNull\<rparr>) ?s1"
  have k: "write_keeps s ?s1" "write_keeps ?s1 ?s2"
    by (rule write_keeps_upd; simp add: typed_def)+
  have k2: "write_keeps s ?s2" using k by (rule write_keeps_trans)
  show ?case
    using 2 k(1) write_keeps_trans [OF k2]
    by (auto simp: Let_def split: if_split_asm option.split_asm dest: write_keeps_emit)
qed simp

abbreviation static_settle :: "'v henv \<Rightarrow> hid \<Rightarrow> 'v gptr \<Rightarrow> holder_error option \<Rightarrow> 'v hsys \<Rightarrow> 'v hsys" where
  "static_settle env h v err s \<equiv>
     upd h (\<lambda>x. make_valid (err = None) (x\<lparr>is_freeable := False, default_forced := is_default env x v\<rparr>)) s"

lemma static_settle_keeps:
  assumes "check_value (holders s h) v = err" and "g_type (holders t h) = g_type (holders s h)"
  shows "write_keeps t (static_settle env h v err t)"
    "write_keeps t (upd h (\<lambda>x. x\<lparr>hvalue := (if err = None then contents_of v else GNull)\<rparr>) (static_settle env h v err t))"
proof -
  have u: "upd h g (upd h f s) = upd h (\<lambda>x. g (f x)) s" for f g and s :: "'a hsys" by (simp add: upd_def)
  have d: "is_default env (holders t h) v \<Longrightarrow> default_value (holders t h) \<noteq> None"
    by (rule is_default_Some)
  show "write_keeps t (static_settle env h v err t)"
    using d by (intro write_keeps_upd) (auto simp: make_valid_def typed_def)
  show "write_keeps t (upd h (\<lambda>x. x\<lparr>hvalue := (if err = None then contents_of v else GNull)\<rparr>) (static_settle env h v err t))"
    unfolding u using d check_value_None [of "holders s h" v] assms
    by (intro write_keeps_upd) (auto simp: make_valid_def typed_def)
qed

lemma set_const_keeps:
  "real_gda_holder_set_const_value env n s h v = Returns (old, err, changed, s') \<Longrightarrow> write_keeps s s'"
proof (induction n arbitrary: s h v old err changed s')
  case (Suc n)
  let ?x = "holders s h" and ?err = "check_value (holders s h) v"
  obtain cur where cur: "gda_holder_get_value (Suc n) s h = Returns cur"
    using Suc.prems by (auto simp: bind_outcome_Returns simp del: gda_holder_get_value.simps)
  define ch where "ch = (?err \<noteq> None \<or> value_changed env v cur)"
  define t where "t = (if ch then s else upd h (make_valid True) s)"
  have t: "write_keeps s t" using write_keeps_settle(3) [of s h] by (simp add: t_def)
  have "g_type (holders t h) = g_type ?x" by (simp add: t_def make_valid_def)
  note keeps = static_settle_keeps [OF refl this, of v env]
  let ?r = "static_settle env h v ?err t"
  let ?w = "upd h (\<lambda>x. x\<lparr>hvalue := (if ?err = None then contents_of v else GNull)\<rparr>) ?r"
  have step: "real_gda_holder_set_const_value env (Suc n) s h v =
      (if validate_changes ?x \<and> \<not> accepts env h v
       then Returns (GNull, Some (case ?err of None \<Rightarrow> ValueRefused | Some e \<Rightarrow> e), ch, t)
       else case full_bind ?x of
              Some m \<Rightarrow> real_gda_holder_set_const_value env n ?r m v
            | None \<Rightarrow> bind_outcome (emit_changed env n ?w h) (\<lambda>s. Returns (hvalue ?x, ?err, ch, s)))"
    by (simp only: real_gda_holder_set_const_value.simps(2) cur bind_outcome.simps Let_def ch_def t_def)
  consider "s' = t" | m where "real_gda_holder_set_const_value env n ?r m v = Returns (old, err, changed, s')"
    | "emit_changed env n ?w h = Returns s'"
    using Suc.prems unfolding step by (auto simp: bind_outcome_Returns split: if_split_asm option.split_asm)
  then show ?case
  proof cases
    case 2
    from Suc.IH [OF this] t keeps(1) show ?thesis by (blast intro: write_keeps_trans)
  next
    case 3
    from write_keeps_emit [OF this] t keeps(2) show ?thesis by (blast intro: write_keeps_trans)
  qed (simp add: t)
qed simp

text \<open>
  The histories of a system that starts with unbound new holders of any types. (Dissolving a full binding is not
  among the steps: the holder then gets the value of its former master, whose type may have been set since.)
\<close>

inductive hsys_reachable :: "'v henv \<Rightarrow> 'v hsys \<Rightarrow> bool" for env where
  init: "\<forall>h. \<exists>t. holders s h = gda_holder_new t \<Longrightarrow> handlers s = (\<lambda>_. []) \<Longrightarrow> hsys_reachable env s"
| set_value: "hsys_reachable env s \<Longrightarrow> real_gda_holder_set_value env n s h v = Returns (ok, err, s') \<Longrightarrow> hsys_reachable env s'"
| set_str: "hsys_reachable env s \<Longrightarrow> gda_holder_set_value_str conv env n s h str = Returns (ok, err, s') \<Longrightarrow> hsys_reachable env s'"
| set_const: "hsys_reachable env s \<Longrightarrow>
    real_gda_holder_set_const_value env n s h v = Returns (old, err, changed, s') \<Longrightarrow> hsys_reachable env s'"
| force_invalid: "hsys_reachable env s \<Longrightarrow> gda_holder_force_invalid_e env n s h e = Returns s' \<Longrightarrow> hsys_reachable env s'"
| to_default: "hsys_reachable env s \<Longrightarrow> gda_holder_set_value_to_default env n s h = Returns (ok, s') \<Longrightarrow> hsys_reachable env s'"
| set_default: "hsys_reachable env s \<Longrightarrow> gda_holder_set_default_value env n s h v = Returns s' \<Longrightarrow> hsys_reachable env s'"
| not_null: "hsys_reachable env s \<Longrightarrow> set_not_null env n s h b = Returns s' \<Longrightarrow> hsys_reachable env s'"
| g_type: "hsys_reachable env s \<Longrightarrow> hsys_reachable env (set_g_type s h t)"
| bind: "hsys_reachable env s \<Longrightarrow> gda_holder_set_bind env n s h b = Returns (ok, err, s') \<Longrightarrow> hsys_reachable env s'"
| full_bind: "hsys_reachable env s \<Longrightarrow> gda_holder_set_full_bind env n s h (Some m) = Returns s' \<Longrightarrow> hsys_reachable env s'"
| copy: "hsys_reachable env s \<Longrightarrow> gda_holder_copy env n s h k = Returns (ok, s') \<Longrightarrow> hsys_reachable env s'"


lemma all_typed_keeps: "write_keeps s s' \<Longrightarrow> all_typed s \<Longrightarrow> all_typed s'"
  by (simp add: write_keeps_def)

lemma all_typed_emit:
  "emit_changed env n (upd h f s) h = Returns s' \<Longrightarrow> all_typed s \<Longrightarrow> (typed (holders s h) \<Longrightarrow> typed (f (holders s h))) \<Longrightarrow> all_typed s'"
  using write_keeps_emit all_typed_keeps all_typed_upd by blast

lemma all_typed_set: "real_gda_holder_set_value env n s h v = Returns (ok, err, s') \<Longrightarrow> all_typed s \<Longrightarrow> all_typed s'"
  using write_keeps_set all_typed_keeps by blast

lemma all_typed_set_default:
  assumes r: "gda_holder_set_default_value env n s h v = Returns s'" and t: "all_typed s"
  shows "all_typed s'"
proof -
  obtain s1 where 1: "leave_default env n s h = Returns s1"
    using r by (auto simp: gda_holder_set_default_value_def bind_outcome_Returns)
  then obtain s0 where "all_typed s0" "s1 = upd h (\<lambda>x. x\<lparr>default_value := None, default_forced := False\<rparr>) s0"
    using t by (auto simp: leave_default_def bind_outcome_Returns split: if_split_asm dest: all_typed_set)
  then have "all_typed s1" by (auto simp: typed_def intro: all_typed_upd)
  then show ?thesis
    using r 1 by (auto simp: gda_holder_set_default_value_def bind_outcome_Returns typed_def split: option.split_asm
        intro!: all_typed_upd)
qed

text \<open>Binding may also set a type that was not set yet.\<close>

definition bind_keeps :: "'v hsys \<Rightarrow> 'v hsys \<Rightarrow> bool" where
  "bind_keeps s s' \<longleftrightarrow> (all_typed s \<longrightarrow> all_typed s') \<and>
     (\<forall>k. g_type (holders s k) \<noteq> GDA_TYPE_NULL \<longrightarrow> g_type (holders s' k) = g_type (holders s k))"

lemma bind_keeps_refl [simp]: "bind_keeps s s"
  by (simp add: bind_keeps_def)

lemma bind_keeps_trans: "bind_keeps s t \<Longrightarrow> bind_keeps t u \<Longrightarrow> bind_keeps s u"
  by (simp add: bind_keeps_def)

lemma write_bind_keeps: "write_keeps s s' \<Longrightarrow> bind_keeps s s'"
  by (simp add: write_keeps_def bind_keeps_def same_config_def)

lemma bind_keeps_set: "real_gda_holder_set_value env n s h v = Returns (ok, err, s') \<Longrightarrow> bind_keeps s s'"
  by (rule write_bind_keeps) (rule write_keeps_set)

lemma bind_keeps_emit: "emit_changed env n s h = Returns s' \<Longrightarrow> bind_keeps s s'"
  by (rule write_bind_keeps) (rule write_keeps_emit)

lemma bind_keeps_upd:
  "(\<And>x. g_type (f x) = g_type x) \<Longrightarrow> (typed (holders s h) \<Longrightarrow> typed (f (holders s h))) \<Longrightarrow> bind_keeps s (upd h f s)"
  by (auto simp: bind_keeps_def intro: all_typed_upd)

lemma bind_keeps_g_type: "bind_keeps s (set_g_type s h t)"
  by (auto simp: bind_keeps_def set_g_type_def typed_def intro: all_typed_upd)

lemma bind_keeps_connect [simp]: "bind_keeps s (connect h k s)" "bind_keeps s (disconnect h k s)"
  by (simp_all add: connect_def disconnect_def all_typed_def bind_keeps_def)

lemma bind_keeps_bind:
  assumes r: "gda_holder_set_bind env n s h b = Returns (ok, err, s')"
  shows "bind_keeps s s'"
proof -
  define s1 where "s1 = (case simple_bind (holders s h) of None \<Rightarrow> s | Some k \<Rightarrow> disconnect k (SimpleBind, h) s)"
  define s2 where "s2 = upd h (\<lambda>x. x\<lparr>simple_bind := b\<rparr>) s1"
  have 1: "bind_keeps s s1" by (simp add: s1_def split: option.split)
  have "bind_keeps s1 s2" unfolding s2_def by (rule bind_keeps_upd) (simp_all add: typed_def)
  with 1 have 2: "bind_keeps s s2" by (rule bind_keeps_trans)
  consider "s' = s" | v where "real_gda_holder_set_value env n s2 h v = Returns (ok, err, s')"
    | k t v where "real_gda_holder_set_value env n (set_g_type (connect k (SimpleBind, h) s2) h t) h v = Returns (ok, err, s')"
    using r unfolding gda_holder_set_bind_def Let_def s1_def [symmetric] s2_def [symmetric]
    by (cases b) (force simp: bind_outcome_Returns split: if_split_asm)+
  then show ?thesis
  proof cases
    case 2
    from bind_keeps_trans [OF \<open>bind_keeps s s2\<close> bind_keeps_set [OF 2]] show ?thesis .
  next
    case (3 k)
    have "bind_keeps s2 (connect k (SimpleBind, h) s2)" by simp
    with 2 have "bind_keeps s (connect k (SimpleBind, h) s2)" by (rule bind_keeps_trans)
    with bind_keeps_set [OF 3] bind_keeps_g_type show ?thesis by (blast intro: bind_keeps_trans)
  qed simp
qed

lemma bind_keeps_full_bind:
  assumes r: "gda_holder_set_full_bind env n s h (Some m) = Returns s'"
  shows "bind_keeps s s'"
proof -
  define s1 where "s1 = (case full_bind (holders s h) of None \<Rightarrow> s | Some k \<Rightarrow> disconnect k (FullBind, h) s)"
  define s2 where "s2 = upd h (\<lambda>x. x\<lparr>full_bind := Some m, hvalue := GNull\<rparr>) s1"
  have 1: "bind_keeps s s1" by (simp add: s1_def split: option.split)
  have "bind_keeps s1 s2" unfolding s2_def by (rule bind_keeps_upd) (simp_all add: typed_def)
  with 1 have "bind_keeps s s2" by (rule bind_keeps_trans)
  moreover have "bind_keeps s2 (connect m (FullBind, h) s2)" by simp
  ultimately have 2: "bind_keeps s (connect m (FullBind, h) s2)" by (rule bind_keeps_trans)
  let ?early = "full_bind (holders s h) = Some m \<or> g_type (holders s h) \<noteq> g_type (holders s m)"
  consider "s' = s" | "s' = connect m (FullBind, h) s2" | "emit_changed env n (connect m (FullBind, h) s2) h = Returns s'"
  proof (cases ?early)
    case True
    then have "s' = s"
      using r by (cases "full_bind (holders s h) = Some m") (simp_all add: gda_holder_set_full_bind_def)
    then show thesis by (rule that(1))
  next
    case False
    then obtain eq where "(if eq then Returns (connect m (FullBind, h) s2) else emit_changed env n (connect m (FullBind, h) s2) h)
        = Returns s'"
      using r unfolding gda_holder_set_full_bind_def Let_def option.case s1_def [symmetric] s2_def [symmetric]
      by (simp only: bind_outcome_Returns de_Morgan_disj if_False) blast
    then show thesis using that(2,3) by (cases eq) auto
  qed
  then show ?thesis
  proof cases
    case 3
    from bind_keeps_trans [OF 2 bind_keeps_emit [OF 3]] show ?thesis .
  qed (use 2 in simp_all)
qed

lemma all_typed_copy:
  assumes r: "gda_holder_copy env n s h k = Returns (ok, s')" and t: "all_typed s"
  shows "all_typed s'"
proof -
  define x where "x = holders s h"
  define s0 where "s0 = upd k (\<lambda>_. gda_holder_new (g_type x)) s"
  have x: "typed x" using t by (simp add: all_typed_def x_def)
  have 0: "all_typed s0" "g_type (holders s0 k) = g_type x"
    using t by (auto simp: s0_def typed_def gda_holder_new_def intro: all_typed_upd)
  obtain s1 ok1 err s2 where
      1: "(case full_bind x of None \<Rightarrow> Returns s0 | Some m \<Rightarrow> gda_holder_set_full_bind env n s0 k (Some m)) = Returns s1"
    and 2: "(case simple_bind x of None \<Rightarrow> Returns (True, None, s1) | Some m \<Rightarrow> gda_holder_set_bind env n s1 k (Some m))
      = Returns (ok1, err, s2)"
    and 3: "s' = s2 \<or> s' = upd k (\<lambda>y. y\<lparr>invalid_forced := invalid_forced x, invalid_error := invalid_error x,
                 valid := valid x, is_freeable := True, default_forced := default_forced x, hvalue := hvalue x,
                 default_value := default_value x, not_null := not_null x\<rparr>) s2"
    using r unfolding gda_holder_copy_def Let_def x_def [symmetric] s0_def [symmetric]
    by (force simp: bind_outcome_Returns split: if_split_asm)
  have "bind_keeps s0 s1" using 1 by (auto split: option.split_asm dest: bind_keeps_full_bind)
  moreover have "bind_keeps s1 s2" using 2 by (auto split: option.split_asm dest: bind_keeps_bind)
  ultimately have b: "bind_keeps s0 s2" by (rule bind_keeps_trans)
  then have "all_typed s2" "g_type x = GDA_TYPE_NULL \<or> g_type (holders s2 k) = g_type x"
    using 0 unfolding bind_keeps_def by (blast, metis)
  then show ?thesis using 3 x by (auto simp: typed_def intro!: all_typed_upd)
qed


lemma hsys_reachable_typed: "hsys_reachable env s \<Longrightarrow> all_typed s"
proof (induction rule: hsys_reachable.induct)
  case (init s)
  have "typed (holders s h)" for h
  proof -
    obtain t where "holders s h = gda_holder_new t" using init(1) by blast
    then show ?thesis by (simp add: typed_def gda_holder_new_def)
  qed
  then show ?case by (simp add: all_typed_def)
next
  case (set_str s conv n h str ok err s')
  then show ?case
    by (auto simp: gda_holder_set_value_str_def split: option.split_asm if_split_asm dest: all_typed_set)
next
  case (to_default s n h ok s')
  then show ?case
    by (auto simp: gda_holder_set_value_to_default_def Let_def bind_outcome_Returns typed_def
        split: if_split_asm dest!: all_typed_emit)
next
  case (not_null s n h b s')
  then show ?case
    by (auto simp: set_not_null_def typed_def split: if_split_asm dest!: all_typed_emit)
next
  case (g_type s h t)
  from bind_keeps_g_type [of s h t] g_type(2) show ?case by (simp add: bind_keeps_def)
next
  case (bind s n h b ok err s')
  from bind_keeps_bind [OF bind(2)] bind(3) show ?case by (simp add: bind_keeps_def)
next
  case (full_bind s n h m s')
  from bind_keeps_full_bind [OF full_bind(2)] full_bind(3) show ?case by (simp add: bind_keeps_def)
qed (auto dest: all_typed_set all_typed_set_default set_const_keeps force_invalid_keeps all_typed_keeps all_typed_copy)



section \<open>What a write does\<close>

text \<open>\<open>answers env v x\<close>: the holder \<open>x\<close> answers the value \<open>v\<close>, up to the comparisons of the code and to a default of another type.\<close>

definition answers :: "'v henv \<Rightarrow> 'v gptr \<Rightarrow> 'v gda_holder \<Rightarrow> bool" where
  "answers env v x =
     (case own_value x of
        None \<Rightarrow> is_null v \<and> default_forced x
      | Some u \<Rightarrow>
          (case v of
             None \<Rightarrow> G_VALUE_TYPE u = GDA_TYPE_NULL
           | Some a \<Rightarrow> G_VALUE_TYPE u = G_VALUE_TYPE a \<and>
               (u = a \<or> G_VALUE_TYPE a = GDA_TYPE_NULL \<or> \<not> gda_value_differ env a u \<or> gda_value_equal env u a)))"

definition new_fields :: "'v henv \<Rightarrow> 'v gptr \<Rightarrow> 'v gda_holder \<Rightarrow> 'v gda_holder" where
  "new_fields env v x =
     (make_valid (check_value x v = None) (x\<lparr>is_freeable := True, default_forced := is_default env x v\<rparr>))
       \<lparr>hvalue := (if check_value x v = None then contents_of v else GNull)\<rparr>"

lemma set_plain:
  assumes "full_bind (holders s h) = None" and "is_freeable (holders s h)"
    and "validate_changes (holders s h) \<longrightarrow> accepts env h v"
  shows "real_gda_holder_set_value env (Suc n) s h v =
    (let x = holders s h; err = check_value x v in
     if own_valid x \<and> err = None \<and> \<not> value_changed env v (own_value x) then Returns (True, None, upd h (make_valid True) s)
     else bind_outcome (emit_changed env n (upd h (new_fields env v) s) h) (\<lambda>s. Returns (err = None, err, s)))"
proof -
  have u: "upd h (\<lambda>x. x\<lparr>hvalue := (if check_value (holders s h) v = None then contents_of v else GNull)\<rparr>) (settle env h v s) =
      upd h (new_fields env v) s"
    by (simp add: upd_def new_fields_def)
  show ?thesis
    using assms by (auto simp: Let_def u)
qed

lemma valid_new_fields: "valid (new_fields env v x) \<longleftrightarrow> check_value x v = None"
  by (simp add: new_fields_def make_valid_def)

lemma answers_new:
  assumes "check_value x v = None"
  shows "own_valid (new_fields env v x)" "answers env v (new_fields env v x)"
proof -
  have d: "is_default env x v \<Longrightarrow> default_value x \<noteq> None" by (rule is_default_Some)
  show "own_valid (new_fields env v x)" using assms d by (auto simp: own_valid_def new_fields_def make_valid_def)
  show "answers env v (new_fields env v x)"
  proof (cases "is_default env x v")
    case True
    then show ?thesis using assms
      by (cases "default_value x"; cases v)
        (auto simp: answers_def own_value_def new_fields_def make_valid_def is_default_def is_null_def split: if_split_asm)
  next
    case False
    then show ?thesis using assms
      by (cases v) (auto simp: answers_def own_value_def new_fields_def make_valid_def contents_of_def)
  qed
qed

lemma answers_unchanged:
  assumes "own_valid x" and "\<not> value_changed env v (own_value x)" and "valid x \<or> \<not> default_forced x" and "typed x"
  shows "own_valid (make_valid True x)" "answers env v (make_valid True x)"
proof -
  have v: "valid x" using assms(1,3) by (auto simp: own_valid_def split: if_split_asm)
  show "own_valid (make_valid True x)" using assms(4) by (auto simp: own_valid_def make_valid_def typed_def)
  have same: "own_value (make_valid True x) = own_value x" using v by (simp add: own_value_def make_valid_def split: option.split)
  show "answers env v (make_valid True x)"
  proof (cases "own_value x")
    case None
    then have "is_null v" using assms(2) by (auto simp: value_changed_def is_null_def split: if_split_asm option.split_asm)
    moreover have "default_forced x" using None v by (auto simp: own_value_def split: if_split_asm)
    ultimately show ?thesis using None same by (simp add: answers_def make_valid_def)
  next
    case (Some u)
    then show ?thesis using assms(2) same
      by (cases v) (auto simp: answers_def value_changed_def is_null_def split: if_split_asm)
  qed
qed



text \<open>The sample system: every holder is of the type 4 and nothing is bound; contents are numbers.\<close>

definition plain_env :: "nat henv" where
  "plain_env = \<lparr>accepts = (\<lambda>h v. True), gda_value_differ = (\<noteq>), gda_value_equal = (=)\<rparr>"

definition new_system :: "nat hsys" where
  "new_system = \<lparr>holders = (\<lambda>h. gda_holder_new 4), handlers = (\<lambda>h. []), emitted = []\<rparr>"

lemma new_system: "hsys_reachable plain_env new_system" "holders new_system h = gda_holder_new 4" "handlers new_system h = []"
  by (auto simp: new_system_def intro!: hsys_reachable.init)



section \<open>Followers\<close>

text \<open>
  Remark: When a changed value is set in a holder that another of the same type, which allows null, is bound to, the
  follower is valid afterwards and answers what the holder answers.
\<close>

theorem bound_holder_follows:
  assumes "hsys_reachable env s" and "h \<noteq> k" and "handlers s h = [(SimpleBind, k)]" and "handlers s k = []"
    and "full_bind (holders s h) = None \<and> is_freeable (holders s h) \<and> accepts env h v"
    and "full_bind (holders s k) = None \<and> is_freeable (holders s k) \<and> accepts env k = (\<lambda>_. True)"
    and "g_type (holders s k) = g_type (holders s h)" and "\<not> not_null (holders s k)"
    and "valid (holders s k) \<or> \<not> default_forced (holders s k)"
    and "\<not> own_valid (holders s h) \<or> check_value (holders s h) v \<noteq> None \<or> value_changed env v (own_value (holders s h))"
  shows "\<exists>s'. real_gda_holder_set_value env (Suc (Suc (Suc (Suc (Suc (Suc n)))))) s h v =
           Returns (check_value (holders s h) v = None, check_value (holders s h) v, s') \<and>
         own_valid (holders s' k) \<and> answers env (own_value (holders s' h)) (holders s' k)"
proof -
  define t where "t = (upd h (new_fields env v) s)\<lparr>emitted := emitted s @ [h]\<rparr>"
  have typed: "typed (holders s h)" "typed (holders s k)"
    using hsys_reachable_typed [OF assms(1)] by (simp_all add: all_typed_def)
  have th: "holders t h = new_fields env v (holders s h)" "holders t k = holders s k" "handlers t = handlers s"
    using assms(2) by (simp_all add: t_def)
  have fields: "full_bind (new_fields env v x) = full_bind x" "g_type (new_fields env v x) = g_type x" for x
    by (simp_all add: new_fields_def make_valid_def)
  define cv where "cv = own_value (holders t h)"
  have "typed (new_fields env v (holders s h))"
    unfolding new_fields_def by (rule typed_set [OF typed(1)]) auto
  then have "typed (holders t h)" using th(1) by simp
  then have cv: "check_value (holders t k) cv = None"
    using assms(7,8) th fields
    by (auto simp: cv_def check_value_def own_value_def typed_def contents_of_def is_null_def split: option.split)
  obtain s' where s': "real_gda_holder_set_value env (Suc (Suc (Suc (Suc n)))) t k cv = Returns (True, None, s')"
    "holders s' h = holders t h" "own_valid (holders s' k)" "answers env cv (holders s' k)"
  proof (cases "own_valid (holders t k) \<and> \<not> value_changed env cv (own_value (holders t k))")
    case True
    then have "own_valid (make_valid True (holders t k))" "answers env cv (make_valid True (holders t k))"
      using answers_unchanged [of "holders t k" env cv] typed(2) assms(9) th(2) by simp_all
    with True show thesis
      using that [of "upd k (make_valid True) t"] assms(2,6) th(2) cv
      by (simp add: set_plain del: real_gda_holder_set_value.simps)
  next
    case False
    then show thesis
      using that [of "(upd k (new_fields env cv) t)\<lparr>emitted := emitted t @ [k]\<rparr>"] assms(2,4,6) th(2,3) cv answers_new [OF cv]
      by (auto simp: set_plain simp del: real_gda_holder_set_value.simps)
  qed
  have g: "gda_holder_get_value (Suc m) t h = Returns cv" for m
    using assms(5) th(1) fields by (simp add: cv_def)
  have "real_gda_holder_set_value env (Suc (Suc (Suc (Suc (Suc (Suc n)))))) s h v =
      bind_outcome (emit_changed env (Suc (Suc (Suc (Suc (Suc n))))) (upd h (new_fields env v) s) h)
        (\<lambda>s'. Returns (check_value (holders s h) v = None, check_value (holders s h) v, s'))"
    using assms(5,10) by (subst set_plain) (auto simp: Let_def)
  also have "emit_changed env (Suc (Suc (Suc (Suc (Suc n))))) (upd h (new_fields env v) s) h = Returns s'"
    using s'(1) g assms(3) by (simp add: t_def [symmetric] del: real_gda_holder_set_value.simps gda_holder_get_value.simps)
  finally show ?thesis using s' cv_def by simp
qed


text \<open>The holder 8 follows the holder 7.\<close>

definition bound_system :: "nat hsys" where
  "bound_system = returned (bind_outcome (gda_holder_set_bind plain_env 9 new_system 8 (Some 7)) (\<lambda>(ok, err, s). Returns s))"

lemma bound_system:
  "hsys_reachable plain_env bound_system" "handlers bound_system = (\<lambda>h. [])(7 := [(SimpleBind, 8)])"
  "holders bound_system 7 = gda_holder_new 4" "holders bound_system 8 = (gda_holder_new 4)\<lparr>simple_bind := Some 7\<rparr>"
proof -
  obtain s where s: "gda_holder_set_bind plain_env 9 new_system 8 (Some 7) = Returns (True, None, s)"
    "handlers s = (\<lambda>h. [])(7 := [(SimpleBind, 8)])" "holders s 7 = gda_holder_new 4"
    "holders s 8 = (gda_holder_new 4)\<lparr>simple_bind := Some 7\<rparr>"
    by (simp add: gda_holder_set_bind_def new_system_def plain_env_def gda_holder_new_def own_valid_def own_value_def
        check_value_def is_null_def value_changed_def contents_of_def is_default_def make_valid_def upd_def connect_def
        set_g_type_def GDA_TYPE_NULL_def eval_nat_numeral)
  then have "bound_system = s" by (simp add: bound_system_def)
  then show "hsys_reachable plain_env bound_system" "handlers bound_system = (\<lambda>h. [])(7 := [(SimpleBind, 8)])"
    "holders bound_system 7 = gda_holder_new 4" "holders bound_system 8 = (gda_holder_new 4)\<lparr>simple_bind := Some 7\<rparr>"
    using s new_system(1) hsys_reachable.bind by auto
qed

theorem bound_holder_follows_witness:
  "\<exists>s'. real_gda_holder_set_value plain_env (Suc (Suc (Suc (Suc (Suc (Suc 0)))))) bound_system 7 (Some (GValue 4 5)) =
          Returns (True, None, s') \<and>
        own_valid (holders s' 8) \<and> answers plain_env (own_value (holders s' 7)) (holders s' 8)"
proof -
  have c: "check_value (holders bound_system 7) (Some (GValue 4 5)) = None"
    by (simp add: bound_system(3) gda_holder_new_def check_value_def is_null_def contents_of_def GDA_TYPE_NULL_def)
  have "\<exists>s'. real_gda_holder_set_value plain_env (Suc (Suc (Suc (Suc (Suc (Suc 0)))))) bound_system 7 (Some (GValue 4 5)) =
          Returns (check_value (holders bound_system 7) (Some (GValue 4 5)) = None,
                   check_value (holders bound_system 7) (Some (GValue 4 5)), s') \<and>
        own_valid (holders s' 8) \<and> answers plain_env (own_value (holders s' 7)) (holders s' 8)"
    by (rule bound_holder_follows [OF bound_system(1)])
      (simp_all add: bound_system(2-4) gda_holder_new_def plain_env_def own_value_def value_changed_def is_null_def
        GDA_TYPE_NULL_def)
  then show ?thesis using c by simp
qed

definition bound_to_each_other :: "'v henv \<Rightarrow> 'v hsys \<Rightarrow> hid \<Rightarrow> hid \<Rightarrow> bool" where
  "bound_to_each_other env s h k \<longleftrightarrow> h \<noteq> k \<and> handlers s h = [(SimpleBind, k)] \<and> handlers s k = [(SimpleBind, h)] \<and>
     (\<forall>x \<in> {h, k}. full_bind (holders s x) = None \<and> is_freeable (holders s x) \<and> not_null (holders s x) \<and> accepts env x None)"

lemma set_null_diverges:
  "bound_to_each_other env s h k \<Longrightarrow> real_gda_holder_set_value env n s h None = Undefined"
proof (induction n arbitrary: s h k rule: less_induct)
  case (less n)
  let ?t = "(upd h (new_fields env None) s)\<lparr>emitted := emitted s @ [h]\<rparr>"
  have b: "h \<noteq> k" "handlers s h = [(SimpleBind, k)]" "full_bind (holders s h) = None" "is_freeable (holders s h)"
    "not_null (holders s h)" "accepts env h None"
    using less.prems by (simp_all add: bound_to_each_other_def)
  have c: "check_value (holders s h) None = Some ValueNull" using b(5) by (simp add: check_value_def is_null_def)
  have t: "bound_to_each_other env ?t k h"
    using less.prems by (auto simp: bound_to_each_other_def new_fields_def make_valid_def)
  have ov: "full_bind (holders ?t h) = None" "own_value (holders ?t h) = None"
    using b(3) c by (simp_all add: own_value_def valid_new_fields) (simp add: new_fields_def make_valid_def)
  have step: "real_gda_holder_set_value env (Suc j) s h None =
      bind_outcome (emit_changed env j (upd h (new_fields env None) s) h) (\<lambda>s. Returns (False, Some ValueNull, s))" for j
    using b c by (simp add: set_plain Let_def del: real_gda_holder_set_value.simps)
  consider "n = 0" | "n = Suc 0" | "n = Suc (Suc 0)" | m where "n = Suc (Suc (Suc m))"
    by (metis old.nat.exhaust)
  then show ?case
  proof cases
    case 4
    have "real_gda_holder_set_value env (Suc m) ?t k None = Undefined"
      by (rule less.IH [OF _ t]) (use 4 in simp)
    then have "run_handlers env (Suc m) ?t h (handlers s h) = Undefined"
      using b(2) ov by (simp del: real_gda_holder_set_value.simps)
    then show ?thesis using 4 step by simp
  qed (use step b(2) in \<open>simp_all del: real_gda_holder_set_value.simps(2)\<close>)
qed

text \<open>
  Remark: Two holders that are bound to each other and do not allow null: setting one of them to null never returns. An invalid
  value counts as a change every time, so each emission sets the other holder again.
\<close>

theorem mutually_bound_not_null_holders_diverge:
  assumes "bound_to_each_other env s h k"
  shows "real_gda_holder_set_value env n s h None = Undefined \<and> real_gda_holder_set_value env n s k None = Undefined"
proof -
  have "bound_to_each_other env s k h" using assms by (auto simp: bound_to_each_other_def)
  then show ?thesis using set_null_diverges assms by blast
qed

theorem mutually_bound_not_null_holders_diverge_witness:
  "let s = new_system\<lparr>holders := (\<lambda>h. (gda_holder_new 4)\<lparr>not_null := True, hvalue := GValue 4 5, simple_bind := Some (15 - h)\<rparr>),
                     handlers := (\<lambda>h. [(SimpleBind, 15 - h)])\<rparr>
   in real_gda_holder_set_value plain_env 1000 s 7 None = Undefined"
proof -
  let ?s = "new_system\<lparr>holders := (\<lambda>h. (gda_holder_new 4)\<lparr>not_null := True, hvalue := GValue 4 5, simple_bind := Some (15 - h)\<rparr>),
                     handlers := (\<lambda>h. [(SimpleBind, 15 - h)])\<rparr>"
  have "bound_to_each_other plain_env ?s 7 8"
    by (simp add: bound_to_each_other_def gda_holder_new_def plain_env_def)
  from mutually_bound_not_null_holders_diverge [OF this] show ?thesis by simp
qed

section \<open>Defaults\<close>

text \<open>
  Remark: Replacing or removing the default of a holder that was set to its default loses the value: the holder answers
  a null value and is valid, even if null is not allowed. (The old default should have been taken as the value, but
  it counts as unchanged and is freed.)
\<close>

theorem changing_the_default_loses_the_value:
  assumes "full_bind (holders s h) = None" and "handlers s h = []" and "is_freeable (holders s h)"
    and "valid (holders s h)" and "\<not> default_forced (holders s h)"
    and "default_value (holders s h) = Some d" and "G_VALUE_TYPE d = g_type (holders s h)"
    and "g_type (holders s h) \<noteq> GDA_TYPE_NULL" and "\<not> gda_value_differ env d d"
  shows "\<exists>s1 s2. gda_holder_set_value_to_default env (Suc n) s h = Returns (True, s1) \<and>
           gda_holder_get_value (Suc n) s1 h = Returns (Some d) \<and>
           gda_holder_set_default_value env (Suc n) s1 h None = Returns s2 \<and>
           gda_holder_get_value (Suc n) s2 h = Returns (Some GNull) \<and> gda_holder_is_valid (Suc n) s2 h = Returns True \<and>
           not_null (holders s2 h) = not_null (holders s h)"
proof -
  let ?f = "\<lambda>x :: 'a gda_holder. x\<lparr>default_forced := True, invalid_forced := False, invalid_error := None, hvalue := GNull\<rparr>"
  let ?s1 = "(upd h ?f s)\<lparr>emitted := emitted s @ [h]\<rparr>"
  let ?s2 = "upd h (\<lambda>x. x\<lparr>default_value := None, default_forced := False\<rparr>) (upd h (make_valid True) ?s1)"
  have 1: "gda_holder_set_value_to_default env (Suc n) s h = Returns (True, ?s1)"
    using assms by (simp add: gda_holder_set_value_to_default_def)
  have g1: "gda_holder_get_value (Suc n) ?s1 h = Returns (Some d)" "own_valid (holders ?s1 h)"
    using assms by (simp_all add: own_value_def own_valid_def)
  have "real_gda_holder_set_value env (Suc n) ?s1 h (Some d) = Returns (True, None, upd h (make_valid True) ?s1)"
    using assms g1 by (simp add: own_value_def value_changed_def check_value_def is_null_def contents_of_def)
  then have "gda_holder_set_default_value env (Suc n) ?s1 h None = Returns ?s2"
    using assms by (simp add: gda_holder_set_default_value_def leave_default_def del: real_gda_holder_set_value.simps)
  moreover have "gda_holder_get_value (Suc n) ?s2 h = Returns (Some GNull)" "gda_holder_is_valid (Suc n) ?s2 h = Returns True"
    "not_null (holders ?s2 h) = not_null (holders s h)"
    using assms by (simp_all add: own_value_def own_valid_def make_valid_def)
  ultimately show ?thesis using 1 g1(1) by blast
qed

theorem changing_the_default_loses_the_value_witness:
  "\<exists>s1 s2. let s = upd 7 (\<lambda>x. x\<lparr>default_value := Some (GValue 4 9), not_null := True, hvalue := GValue 4 5\<rparr>) new_system in
     gda_holder_set_value_to_default plain_env (Suc 0) s 7 = Returns (True, s1) \<and>
     gda_holder_set_default_value plain_env (Suc 0) s1 7 None = Returns s2 \<and>
     gda_holder_get_value (Suc 0) s2 7 = Returns (Some GNull) \<and> gda_holder_is_valid (Suc 0) s2 7 = Returns True \<and>
     not_null (holders s2 7)"
proof -
  let ?s = "upd 7 (\<lambda>x. x\<lparr>default_value := Some (GValue 4 9), not_null := True, hvalue := GValue 4 5\<rparr>) new_system"
  have "\<exists>s1 s2. gda_holder_set_value_to_default plain_env (Suc 0) ?s 7 = Returns (True, s1) \<and>
           gda_holder_get_value (Suc 0) s1 7 = Returns (Some (GValue 4 9)) \<and>
           gda_holder_set_default_value plain_env (Suc 0) s1 7 None = Returns s2 \<and>
           gda_holder_get_value (Suc 0) s2 7 = Returns (Some GNull) \<and> gda_holder_is_valid (Suc 0) s2 7 = Returns True \<and>
           not_null (holders s2 7) = not_null (holders ?s 7)"
    by (rule changing_the_default_loses_the_value)
      (simp_all add: new_system(2,3) gda_holder_new_def plain_env_def GDA_TYPE_NULL_def)
  then show ?thesis by (auto simp: Let_def simp del: gda_holder_get_value.simps gda_holder_is_valid.simps)
qed

text \<open>
  A default that is put in force while the holder is invalid makes it valid, but it still answers nothing; and a
  refused null is valid when the default is null.
\<close>

lemma default_of_invalid_holder:
  assumes "full_bind (holders s h) = None" and "handlers s h = []" and "\<not> valid (holders s h)"
    and "\<not> default_forced (holders s h)" and "default_value (holders s h) = Some d"
  shows "\<exists>s'. gda_holder_set_value_to_default env (Suc n) s h = Returns (True, s') \<and>
           gda_holder_is_valid (Suc n) s' h = Returns True \<and> gda_holder_get_value (Suc n) s' h = Returns None"
  using assms by (simp add: gda_holder_set_value_to_default_def own_value_def own_valid_def)

lemma refused_null_is_valid:
  assumes "not_null x" and "default_value x = Some GNull"
  shows "check_value x None = Some ValueNull \<and> own_valid (new_fields env None x)"
  using assms by (simp add: check_value_def is_null_def new_fields_def make_valid_def own_valid_def is_default_def)

end
