(* ===== verification/Gda_Events.thy ===== *)
theory Gda_Events
  imports Gda_Prelude
begin

text \<open>
  The event history of a connection (\<open>libgda/gda-connection.c\<close>): a circular array of the last events, whose
  contents move to a list when they are asked for, its resizing, and the execution of batches.

  An event is any value. What a statement does with the database is a parameter: the events that the provider
  adds and the object that it returns, if any. An access outside of the array and a failed assertion are
  \<open>Undefined\<close>. Locks, the \<open>error\<close> signal and the debug output are not modelled.
\<close>

section \<open>Data\<close>

record 'e events =
  opened :: bool
  auto_clear_events :: bool
  events_array :: "'e option list"
  events_array_size :: nat
  events_array_full :: bool
  events_array_next :: nat
  events_list :: "'e list"

definition EVENTS_ARRAY_SIZE :: nat where "EVENTS_ARRAY_SIZE = 5"

definition events_init :: "'e events" where
  "events_init = \<lparr>opened = False, auto_clear_events = True, events_array = replicate EVENTS_ARRAY_SIZE None,
     events_array_size = EVENTS_ARRAY_SIZE, events_array_full = False, events_array_next = 0, events_list = []\<rparr>"

section \<open>Operations\<close>

text \<open>The slot is emptied; a new event is made when it was empty.\<close>

definition gda_connection_point_available_event :: "'e events \<Rightarrow> ('e option \<times> 'e events) outcome" where
  "gda_connection_point_available_event c =
     (if events_array_next c < length (events_array c)
      then Returns (events_array c ! events_array_next c,
                    c\<lparr>events_array := (events_array c)[events_array_next c := None]\<rparr>)
      else Undefined)"

definition gda_connection_add_event :: "'e events \<Rightarrow> 'e \<Rightarrow> 'e events outcome" where
  "gda_connection_add_event c e =
     (if events_array_next c < length (events_array c)
      then
        let n = events_array_next c + 1;
            c = c\<lparr>events_list := [], events_array := (events_array c)[events_array_next c := Some e]\<rparr>
        in Returns (if n = events_array_size c then c\<lparr>events_array_next := 0, events_array_full := True\<rparr>
                    else c\<lparr>events_array_next := n\<rparr>)
      else Undefined)"

text \<open>The event that the slot held, or a new one, gets the text and is added; \<open>fill\<close> sets its fields.\<close>

definition gda_connection_add_event_string :: "('e option \<Rightarrow> string \<Rightarrow> 'e) \<Rightarrow> 'e events \<Rightarrow> string \<Rightarrow> ('e \<times> 'e events) outcome" where
  "gda_connection_add_event_string fill c str =
     bind_outcome (gda_connection_point_available_event c) (\<lambda>(old, c).
       let e = fill old (take 2047 str) in
       bind_outcome (gda_connection_add_event c e) (\<lambda>c. Returns (e, c)))"

definition clear_connection_events :: "'e events \<Rightarrow> 'e events" where
  "clear_connection_events c =
     (if auto_clear_events c then c\<lparr>events_array_full := False, events_array_next := 0\<rparr> else c)"

text \<open>
  Moving a slot to the list. The loops of \<open>gda_connection_get_events\<close> go over the indices below the next one, or,
  when the array is full, from behind it around to it.
\<close>

fun take_slots :: "'e option list \<Rightarrow> nat list \<Rightarrow> ('e list \<times> 'e option list) outcome" where
  "take_slots arr [] = Returns ([], arr)"
| "take_slots arr (i # is) =
     (if i < length arr then
        (case arr ! i of
           None \<Rightarrow> Undefined
         | Some e \<Rightarrow> bind_outcome (take_slots (arr[i := None]) is) (\<lambda>(es, arr). Returns (e # es, arr)))
      else Undefined)"

text \<open>The indices of the wrapping loop, from \<open>i\<close>; the first argument bounds their number.\<close>

fun wrap_indices :: "nat \<Rightarrow> nat \<Rightarrow> nat \<Rightarrow> nat \<Rightarrow> nat list option" where
  "wrap_indices 0 sz nx i = None"
| "wrap_indices (Suc k) sz nx i =
     (let i = (if i = sz then 0 else i) in
      if i = nx then Some []
      else map_option (\<lambda>is. i # is) (wrap_indices k sz nx (i + 1)))"

definition gda_connection_get_events :: "'e events \<Rightarrow> ('e list \<times> 'e events) outcome" where
  "gda_connection_get_events c =
     (if events_list c \<noteq> [] then Returns (events_list c, c)
      else
        (case (if events_array_full c
               then wrap_indices (Suc (events_array_size c)) (events_array_size c) (events_array_next c) (events_array_next c + 1)
               else Some [0..<events_array_next c]) of
           None \<Rightarrow> Undefined
         | Some is \<Rightarrow>
             bind_outcome (take_slots (events_array c) is) (\<lambda>(es, arr).
               Returns (es, c\<lparr>events_array := arr, events_list := es, events_array_full := False, events_array_next := 0\<rparr>))))"

text \<open>
  The size is one more than the number of events asked for, because the slot of the next event is never taken. Growing
  adds empty slots behind the allocated ones that are in use; below the initial size the block stays as it is.
\<close>

definition change_events_array_max_size :: "'e events \<Rightarrow> nat \<Rightarrow> 'e events" where
  "change_events_array_max_size c n =
     (let size = n + 1 in
      if size = events_array_size c then c
      else c\<lparr>events_array :=
               (if events_array_size c < size
                then take (events_array_size c) (events_array c) @ replicate (size - events_array_size c) None
                else if EVENTS_ARRAY_SIZE \<le> size then take size (events_array c)
                else events_array c),
             events_array_size := size, events_array_full := False, events_array_next := 0\<rparr>)"

section \<open>Statements and batches\<close>

fun add_all :: "('c \<Rightarrow> 'e \<Rightarrow> 'c outcome) \<Rightarrow> 'c \<Rightarrow> 'e list \<Rightarrow> 'c outcome" where
  "add_all add c [] = Returns c"
| "add_all add c (e # es) = bind_outcome (add c e) (\<lambda>c. add_all add c es)"

text \<open>\<open>run stmt w\<close> is what the provider does: the events it adds, the object if any, and the state of the database.\<close>

definition gda_connection_statement_execute_v ::
    "('s \<Rightarrow> 'w \<Rightarrow> 'e list \<times> 'o option \<times> 'w) \<Rightarrow> 'e events \<Rightarrow> 's \<Rightarrow> 'w \<Rightarrow> ('o option \<times> 'e events \<times> 'w) outcome" where
  "gda_connection_statement_execute_v run c stmt w =
     (let c = clear_connection_events c in
      if \<not> opened c then Returns (None, c, w)
      else
        (case run stmt w of (es, obj, w) \<Rightarrow>
           bind_outcome (add_all gda_connection_add_event c es) (\<lambda>c. Returns (obj, c, w))))"

fun batch_loop ::
    "('s \<Rightarrow> 'w \<Rightarrow> 'e list \<times> 'o option \<times> 'w) \<Rightarrow> 'e events \<Rightarrow> 's list \<Rightarrow> 'w \<Rightarrow> ('o list \<times> 'e events \<times> 'w) outcome" where
  "batch_loop run c [] w = Returns ([], c, w)"
| "batch_loop run c (stmt # stmts) w =
     bind_outcome (gda_connection_statement_execute_v run c stmt w) (\<lambda>(obj, c, w).
       case obj of
         None \<Rightarrow> Returns ([], c, w)
       | Some x \<Rightarrow> bind_outcome (batch_loop run c stmts w) (\<lambda>(xs, c, w). Returns (x # xs, c, w)))"

definition gda_connection_batch_execute ::
    "('s \<Rightarrow> 'w \<Rightarrow> 'e list \<times> 'o option \<times> 'w) \<Rightarrow> 'e events \<Rightarrow> 's list \<Rightarrow> 'w \<Rightarrow> ('o list \<times> 'e events \<times> 'w) outcome" where
  "gda_connection_batch_execute run c stmts w =
     bind_outcome (batch_loop run (change_events_array_max_size (c\<lparr>auto_clear_events := False\<rparr>) (length stmts * 2)) stmts w)
       (\<lambda>(objs, c, w). Returns (objs, c\<lparr>auto_clear_events := True\<rparr>, w))"


section \<open>The history that the array holds\<close>

definition lastn :: "nat \<Rightarrow> 'a list \<Rightarrow> 'a list" where
  "lastn k xs = drop (length xs - k) xs"

lemma lastn_short [simp]: "length xs \<le> k \<Longrightarrow> lastn k xs = xs"
  by (simp add: lastn_def)

lemma length_lastn [simp]: "length (lastn k xs) = min k (length xs)"
  by (simp add: lastn_def)

lemma lastn_lastn: "lastn k (lastn k xs @ ys) = lastn k (xs @ ys)"
  by (cases "length xs \<le> k") (simp_all add: lastn_def add.commute)

lemma lastn_Cons: "length xs = k \<Longrightarrow> lastn k (x # xs) = xs"
  by (simp add: lastn_def)

lemma map_lastn: "map f (lastn k xs) = lastn k (map f xs)"
  by (simp add: lastn_def drop_map)

lemma lastn_suffix: "length ys \<le> k \<Longrightarrow> \<exists>zs. lastn k (xs @ ys) = zs @ ys"
  by (simp add: lastn_def)

text \<open>The slots that hold events, the oldest first.\<close>

definition event_slots :: "'e events \<Rightarrow> nat list" where
  "event_slots c =
     (if events_array_full c then [events_array_next c + 1..<events_array_size c] @ [0..<events_array_next c]
      else [0..<events_array_next c])"

definition history :: "'e events \<Rightarrow> 'e list" where
  "history c = map (\<lambda>i. the (events_array c ! i)) (event_slots c)"

definition capacity :: "'e events \<Rightarrow> nat" where
  "capacity c = events_array_size c - 1"

definition events_ok :: "'e events \<Rightarrow> bool" where
  "events_ok c \<longleftrightarrow> events_array_next c < events_array_size c \<and> events_array_size c \<le> length (events_array c) \<and>
     (\<forall>i \<in> set (event_slots c). events_array c ! i \<noteq> None)"

lemma event_slots_less: "events_array_next c < events_array_size c \<Longrightarrow> i \<in> set (event_slots c) \<Longrightarrow> i < events_array_size c \<and> i \<noteq> events_array_next c"
  by (auto simp: event_slots_def split: if_split_asm)

lemma length_history: "events_ok c \<Longrightarrow> length (history c) \<le> capacity c"
  by (auto simp: history_def event_slots_def events_ok_def capacity_def)

lemma distinct_event_slots: "distinct (event_slots c)"
  by (simp add: event_slots_def)

text \<open>Adding an event forgets the oldest one when there is no room.\<close>

lemma add_event_ok:
  assumes ok: "events_ok c"
  shows "\<exists>c'. gda_connection_add_event c e = Returns c' \<and> events_ok c' \<and> history c' = lastn (capacity c) (history c @ [e]) \<and>
           capacity c' = capacity c \<and> events_list c' = [] \<and> auto_clear_events c' = auto_clear_events c \<and> opened c' = opened c"
proof -
  let ?n = "events_array_next c" and ?s = "events_array_size c"
  let ?arr = "(events_array c)[?n := Some e]"
  have n: "?n < ?s" "?s \<le> length (events_array c)" using ok by (simp_all add: events_ok_def)
  define c' where "c' = (if ?n + 1 = ?s
      then c\<lparr>events_list := [], events_array := ?arr, events_array_next := 0, events_array_full := True\<rparr>
      else c\<lparr>events_list := [], events_array := ?arr, events_array_next := ?n + 1\<rparr>)"
  have add: "gda_connection_add_event c e = Returns c'"
    using n by (auto simp: gda_connection_add_event_def c'_def Let_def)
  have arr: "events_array c' = ?arr" "events_array_size c' = ?s" by (simp_all add: c'_def)
  have new: "?arr ! ?n = Some e" using n by simp
  have old: "?arr ! i = events_array c ! i" if "i \<in> set (event_slots c)" for i
    using event_slots_less [OF n(1) that] by simp
  have hist: "map (\<lambda>i. the (?arr ! i)) (event_slots c @ [?n]) = history c @ [e]"
    using new old by (simp add: history_def cong: map_cong)
  have slots: "event_slots c' = lastn (capacity c) (event_slots c @ [?n])"
  proof (cases "?n + 1 = ?s")
    case True
    then have s: "event_slots c' = [1..<?s]" by (simp add: event_slots_def c'_def)
    show ?thesis
    proof (cases ?n)
      case 0
      then show ?thesis using s True by (auto simp: event_slots_def capacity_def lastn_def)
    next
      case (Suc m)
      have "[0..<?n] @ [?n] = 0 # [1..<?s]" using True Suc by (metis One_nat_def Suc_eq_plus1 upt_Suc_append upt_conv_Cons zero_less_Suc zero_le)
      then have "event_slots c @ [?n] = 0 # [1..<?s]" using True by (simp add: event_slots_def)
      then show ?thesis using s True by (simp add: lastn_def capacity_def)
    qed
  next
    case False
    then have lt: "?n + 1 < ?s" using n by simp
    show ?thesis
    proof (cases "events_array_full c")
      case True
      have "event_slots c @ [?n] = (?n + 1) # ([?n + 2..<?s] @ [0..<?n + 1])"
        using lt True by (simp add: event_slots_def upt_conv_Cons)
      moreover have "event_slots c' = [?n + 2..<?s] @ [0..<?n + 1]"
        using True False by (simp add: event_slots_def c'_def)
      moreover have "length ([?n + 2..<?s] @ [0..<?n + 1]) = capacity c" using lt by (simp add: capacity_def)
      ultimately show ?thesis by (simp only: lastn_Cons)
    next
      case notfull: False
      then show ?thesis using False lt by (simp add: event_slots_def c'_def capacity_def)
    qed
  qed
  have "history c' = map (\<lambda>i. the (?arr ! i)) (lastn (capacity c) (event_slots c @ [?n]))"
    by (simp add: history_def arr slots)
  also have "\<dots> = lastn (capacity c) (history c @ [e])"
    by (simp only: map_lastn hist)
  finally have h: "history c' = lastn (capacity c) (history c @ [e])" .
  have "set (event_slots c') \<subseteq> insert ?n (set (event_slots c))"
    unfolding slots lastn_def using set_drop_subset by fastforce
  then have "\<forall>i \<in> set (event_slots c'). events_array c' ! i \<noteq> None"
    unfolding arr using ok new old by (metis events_ok_def insertE option.distinct(1) subsetD)
  then have "events_ok c'" using n by (simp add: events_ok_def arr) (simp add: c'_def)
  then show ?thesis using add h by (simp add: capacity_def arr) (simp add: c'_def)
qed


lemma point_event_ok:
  assumes ok: "events_ok c"
  shows "\<exists>old c'. gda_connection_point_available_event c = Returns (old, c') \<and> events_ok c' \<and> history c' = history c \<and>
           capacity c' = capacity c \<and> events_list c' = events_list c \<and> auto_clear_events c' = auto_clear_events c \<and> opened c' = opened c"
proof -
  let ?n = "events_array_next c"
  let ?c = "c\<lparr>events_array := (events_array c)[?n := None]\<rparr>"
  have n: "?n < events_array_size c" "events_array_size c \<le> length (events_array c)" using ok by (simp_all add: events_ok_def)
  have s: "event_slots ?c = event_slots c" by (simp add: event_slots_def)
  have old: "events_array ?c ! i = events_array c ! i" if "i \<in> set (event_slots c)" for i
    using event_slots_less [OF n(1) that] by simp
  have "events_ok ?c" using ok old s by (simp add: events_ok_def)
  moreover have "history ?c = history c" using old by (simp add: history_def s)
  moreover have "gda_connection_point_available_event c = Returns (events_array c ! ?n, ?c)"
    using n by (simp add: gda_connection_point_available_event_def)
  ultimately show ?thesis by (auto simp: capacity_def)
qed

text \<open>Reading moves the slots out, the oldest event first.\<close>

lemma wrap_indices_low: "i \<le> nx \<Longrightarrow> nx < sz \<Longrightarrow> nx < i + k \<Longrightarrow> wrap_indices k sz nx i = Some [i..<nx]"
proof (induction k arbitrary: i)
  case (Suc k)
  then show ?case by (cases "i = nx") (auto simp: Let_def upt_conv_Cons)
qed simp

lemma wrap_indices_high: "nx < i \<Longrightarrow> i \<le> sz \<Longrightarrow> nx < sz \<Longrightarrow> sz - i + nx < k \<Longrightarrow>
    wrap_indices k sz nx i = Some ([i..<sz] @ [0..<nx])"
proof (induction k arbitrary: i)
  case (Suc k)
  show ?case
  proof (cases "i = sz")
    case True
    show ?thesis
    proof (cases "nx = 0")
      case True
      then show ?thesis using \<open>i = sz\<close> by simp
    next
      case False
      then have "wrap_indices k sz nx 1 = Some [1..<nx]" using Suc.prems True by (intro wrap_indices_low) auto
      then show ?thesis using True False by (simp add: Let_def upt_conv_Cons)
    qed
  next
    case False
    then have "wrap_indices k sz nx (i + 1) = Some ([i + 1..<sz] @ [0..<nx])" using Suc.prems by (intro Suc.IH) auto
    then show ?thesis using False Suc.prems by (simp add: Let_def upt_conv_Cons)
  qed
qed simp

lemma take_slots_ok:
  "distinct is \<Longrightarrow> \<forall>i \<in> set is. i < length arr \<and> arr ! i \<noteq> None \<Longrightarrow>
   \<exists>arr'. take_slots arr is = Returns (map (\<lambda>i. the (arr ! i)) is, arr') \<and> length arr' = length arr"
proof (induction "is" arbitrary: arr)
  case (Cons i "is")
  obtain e where e: "i < length arr" "arr ! i = Some e" using Cons.prems by auto
  have ne: "\<forall>j \<in> set is. arr[i := None] ! j = arr ! j"
    using Cons.prems(1) by (metis distinct.simps(2) nth_list_update_neq)
  then have "\<forall>j \<in> set is. j < length (arr[i := None]) \<and> arr[i := None] ! j \<noteq> None" using Cons.prems by simp
  then obtain arr' where "take_slots (arr[i := None]) is = Returns (map (\<lambda>j. the (arr[i := None] ! j)) is, arr')"
    "length arr' = length arr"
    using Cons.IH [of "arr[i := None]"] Cons.prems(1) by auto
  moreover have "map (\<lambda>j. the (arr[i := None] ! j)) is = map (\<lambda>j. the (arr ! j)) is" using ne by simp
  ultimately show ?case using e by simp
qed simp

lemma get_events_ok:
  assumes ok: "events_ok c"
  shows "\<exists>c'. gda_connection_get_events c = Returns (if events_list c = [] then history c else events_list c, c') \<and>
           events_ok c' \<and> capacity c' = capacity c \<and> auto_clear_events c' = auto_clear_events c \<and> opened c' = opened c \<and>
           (if events_list c = [] then history c' = [] \<and> events_list c' = history c else c' = c)"
proof (cases "events_list c = []")
  case True
  have n: "events_array_next c < events_array_size c" "events_array_size c \<le> length (events_array c)"
    using ok by (simp_all add: events_ok_def)
  have "(if events_array_full c
         then wrap_indices (Suc (events_array_size c)) (events_array_size c) (events_array_next c) (events_array_next c + 1)
         else Some [0..<events_array_next c]) = Some (event_slots c)"
    using n wrap_indices_high [of "events_array_next c" "events_array_next c + 1" "events_array_size c" "Suc (events_array_size c)"]
    by (auto simp: event_slots_def simp del: wrap_indices.simps)
  moreover obtain arr where "take_slots (events_array c) (event_slots c) = Returns (history c, arr)" "length arr = length (events_array c)"
    using take_slots_ok [OF distinct_event_slots, of c "events_array c"] ok event_slots_less [OF n(1)] n
    by (force simp: events_ok_def history_def)
  ultimately have "gda_connection_get_events c = Returns (history c,
      c\<lparr>events_array := arr, events_list := history c, events_array_full := False, events_array_next := 0\<rparr>)"
    using True by (simp add: gda_connection_get_events_def)
  then show ?thesis
    using True n \<open>length arr = length (events_array c)\<close>
    by (simp add: events_ok_def event_slots_def capacity_def history_def)
next
  case False
  then show ?thesis using ok by (simp add: gda_connection_get_events_def)
qed

lemma clear_events_ok:
  "events_ok c \<Longrightarrow> events_ok (clear_connection_events c) \<and> capacity (clear_connection_events c) = capacity c \<and>
     events_list (clear_connection_events c) = events_list c \<and>
     auto_clear_events (clear_connection_events c) = auto_clear_events c \<and> opened (clear_connection_events c) = opened c \<and>
     history (clear_connection_events c) = (if auto_clear_events c then [] else history c)"
  by (simp add: clear_connection_events_def events_ok_def event_slots_def capacity_def history_def)

lemma change_size_ok:
  assumes "events_ok c"
  shows "events_ok (change_events_array_max_size c n) \<and> capacity (change_events_array_max_size c n) = n \<and>
     events_list (change_events_array_max_size c n) = events_list c \<and>
     auto_clear_events (change_events_array_max_size c n) = auto_clear_events c \<and> opened (change_events_array_max_size c n) = opened c \<and>
     history (change_events_array_max_size c n) = (if n = capacity c then history c else [])"
proof -
  have n: "events_array_next c < events_array_size c" "events_array_size c \<le> length (events_array c)"
    using assms by (simp_all add: events_ok_def)
  show ?thesis
  proof (cases "n + 1 = events_array_size c")
    case True
    then have "n = capacity c" by (simp add: capacity_def)
    then show ?thesis using assms True by (simp add: change_events_array_max_size_def)
  next
    case False
    then show ?thesis using n
      by (simp add: change_events_array_max_size_def events_ok_def event_slots_def capacity_def history_def Let_def)
  qed
qed


section \<open>A log of the last events\<close>

locale event_log =
  fixes add :: "'c \<Rightarrow> 'e \<Rightarrow> 'c outcome"
    and inv :: "'c \<Rightarrow> bool"
    and log :: "'c \<Rightarrow> 'e list"
    and room :: "'c \<Rightarrow> nat"
  assumes add_law: "inv c \<Longrightarrow> \<exists>c'. add c e = Returns c' \<and> inv c' \<and> log c' = lastn (room c) (log c @ [e]) \<and> room c' = room c"
    and log_fits: "inv c \<Longrightarrow> length (log c) \<le> room c"
begin

lemma add_all_law:
  "inv c \<Longrightarrow> \<exists>c'. add_all add c es = Returns c' \<and> inv c' \<and> log c' = lastn (room c) (log c @ es) \<and> room c' = room c"
proof (induction es arbitrary: c)
  case Nil
  then show ?case by (simp add: log_fits)
next
  case (Cons e es)
  obtain d where d: "add c e = Returns d" "inv d" "log d = lastn (room c) (log c @ [e])" "room d = room c"
    using add_law [OF Cons.prems] by blast
  obtain c' where "add_all add d es = Returns c'" "inv c'" "log c' = lastn (room d) (log d @ es)" "room c' = room d"
    using Cons.IH [OF d(2)] by blast
  then show ?case using d by (simp add: lastn_lastn)
qed

lemma add_all_keeps_last:
  assumes "inv c" "length es \<le> room c"
  shows "\<exists>c' zs. add_all add c es = Returns c' \<and> log c' = zs @ es"
  using add_all_law [OF assms(1), of es] lastn_suffix [OF assms(2)] by metis

end

interpretation connection_log: event_log gda_connection_add_event events_ok history capacity
proof unfold_locales
  show "\<exists>c'. gda_connection_add_event c e = Returns c' \<and> events_ok c' \<and> history c' = lastn (capacity c) (history c @ [e]) \<and> capacity c' = capacity c"
    if "events_ok c" for c :: "'a events" and e
    using add_event_ok [OF that, of e] by blast
  show "length (history c) \<le> capacity c" if "events_ok c" for c :: "'a events"
    by (rule length_history [OF that])
qed


section \<open>Specification: the last events and the reported list\<close>

datatype 'e event_op = Add 'e | Available | Clear | Get | Resize nat

record 'e event_spec =
  recent :: "'e list"
  room :: nat
  reported :: "'e list"
  auto_clear :: bool

fun spec_step :: "'e event_spec \<Rightarrow> 'e event_op \<Rightarrow> 'e list \<times> 'e event_spec" where
  "spec_step h (Add e) = ([], h\<lparr>recent := lastn (room h) (recent h @ [e]), reported := []\<rparr>)"
| "spec_step h Available = ([], h)"
| "spec_step h Clear = ([], if auto_clear h then h\<lparr>recent := []\<rparr> else h)"
| "spec_step h Get = (if reported h = [] then (recent h, h\<lparr>reported := recent h, recent := []\<rparr>) else (reported h, h))"
| "spec_step h (Resize n) = ([], if n = room h then h else h\<lparr>room := n, recent := []\<rparr>)"

fun event_step :: "'e events \<Rightarrow> 'e event_op \<Rightarrow> ('e list \<times> 'e events) outcome" where
  "event_step c (Add e) = bind_outcome (gda_connection_add_event c e) (\<lambda>c. Returns ([], c))"
| "event_step c Available = bind_outcome (gda_connection_point_available_event c) (\<lambda>(_, c). Returns ([], c))"
| "event_step c Clear = Returns ([], clear_connection_events c)"
| "event_step c Get = gda_connection_get_events c"
| "event_step c (Resize n) = Returns ([], change_events_array_max_size c n)"

fun spec_run :: "'e event_spec \<Rightarrow> 'e event_op list \<Rightarrow> 'e list list" where
  "spec_run h [] = []"
| "spec_run h (op # ops) = fst (spec_step h op) # spec_run (snd (spec_step h op)) ops"

fun event_run :: "'e events \<Rightarrow> 'e event_op list \<Rightarrow> 'e list list outcome" where
  "event_run c [] = Returns []"
| "event_run c (op # ops) =
     bind_outcome (event_step c op) (\<lambda>(es, c). bind_outcome (event_run c ops) (\<lambda>r. Returns (es # r)))"

definition event_abs :: "'e events \<Rightarrow> 'e event_spec" where
  "event_abs c = \<lparr>recent = history c, room = capacity c, reported = events_list c, auto_clear = auto_clear_events c\<rparr>"

lemma event_step_refines:
  assumes "events_ok c"
  shows "\<exists>c'. event_step c op = Returns (fst (spec_step (event_abs c) op), c') \<and> events_ok c' \<and>
           event_abs c' = snd (spec_step (event_abs c) op)"
proof (cases op)
  case (Add e)
  then show ?thesis using add_event_ok [OF assms, of e] by (auto simp: event_abs_def)
next
  case Available
  then show ?thesis using point_event_ok [OF assms] by (auto simp: event_abs_def)
next
  case Clear
  then show ?thesis using clear_events_ok [OF assms] by (auto simp: event_abs_def)
next
  case Get
  then show ?thesis using get_events_ok [OF assms] by (auto simp: event_abs_def split: if_splits)
next
  case (Resize n)
  then show ?thesis using change_size_ok [OF assms, of n] by (auto simp: event_abs_def)
qed

lemma event_run_refines: "events_ok c \<Longrightarrow> event_run c ops = Returns (spec_run (event_abs c) ops)"
proof (induction ops arbitrary: c)
  case (Cons op ops)
  obtain c' where c': "event_step c op = Returns (fst (spec_step (event_abs c) op), c')" "events_ok c'"
    "event_abs c' = snd (spec_step (event_abs c) op)"
    using event_step_refines [OF Cons.prems] by blast
  then show ?case using Cons.IH [OF c'(2)] by simp
qed simp

lemma events_ok_init: "events_ok events_init"
  by (simp add: events_ok_def events_init_def event_slots_def EVENTS_ARRAY_SIZE_def)

lemma event_abs_init: "event_abs events_init = \<lparr>recent = [], room = 4, reported = [], auto_clear = True\<rparr>"
  by (simp add: event_abs_def events_init_def history_def event_slots_def capacity_def EVENTS_ARRAY_SIZE_def)


section \<open>Batches\<close>

text \<open>What the statements do without the connection: they run in order, up to the first that returns no object.\<close>

fun batch_trace :: "('s \<Rightarrow> 'w \<Rightarrow> 'e list \<times> 'o option \<times> 'w) \<Rightarrow> 's list \<Rightarrow> 'w \<Rightarrow> 'o list \<times> 'e list \<times> 'w" where
  "batch_trace run [] w = ([], [], w)"
| "batch_trace run (stmt # stmts) w =
     (case run stmt w of
        (es, None, w) \<Rightarrow> ([], es, w)
      | (es, Some x, w) \<Rightarrow> (case batch_trace run stmts w of (xs, fs, w) \<Rightarrow> (x # xs, es @ fs, w)))"

lemma add_all_keeps_flags:
  "add_all gda_connection_add_event c es = Returns c' \<Longrightarrow>
     auto_clear_events c' = auto_clear_events c \<and> opened c' = opened c \<and>
     events_list c' = (if es = [] then events_list c else [])"
proof (induction es arbitrary: c)
  case (Cons e es)
  obtain d where d: "gda_connection_add_event c e = Returns d" "add_all gda_connection_add_event d es = Returns c'"
    using Cons.prems by (cases "gda_connection_add_event c e") auto
  moreover have "auto_clear_events d = auto_clear_events c \<and> opened d = opened c \<and> events_list d = []"
    using d(1) by (auto simp: gda_connection_add_event_def Let_def split: if_splits)
  ultimately show ?case using Cons.IH [OF d(2)] by simp
qed simp

lemma statement_execute_ok:
  assumes "events_ok c" "\<not> auto_clear_events c" "opened c" "run stmt w = (es, obj, w')"
  shows "\<exists>c'. gda_connection_statement_execute_v run c stmt w = Returns (obj, c', w') \<and> events_ok c' \<and>
           history c' = lastn (capacity c) (history c @ es) \<and> capacity c' = capacity c \<and>
           \<not> auto_clear_events c' \<and> opened c' \<and> events_list c' = (if es = [] then events_list c else [])"
proof -
  have clear: "clear_connection_events c = c" using assms(2) by (simp add: clear_connection_events_def)
  obtain c' where c': "add_all gda_connection_add_event c es = Returns c'" "events_ok c'"
    "history c' = lastn (capacity c) (history c @ es)" "capacity c' = capacity c"
    using connection_log.add_all_law [OF assms(1)] by blast
  then show ?thesis using assms add_all_keeps_flags [OF c'(1)]
    by (simp add: gda_connection_statement_execute_v_def clear)
qed

lemma batch_loop_ok:
  assumes "events_ok c" "\<not> auto_clear_events c" "opened c" "batch_trace run stmts w = (xs, es, w')"
  shows "\<exists>c'. batch_loop run c stmts w = Returns (xs, c', w') \<and> events_ok c' \<and>
           history c' = lastn (capacity c) (history c @ es) \<and> capacity c' = capacity c \<and>
           events_list c' = (if es = [] then events_list c else [])"
  using assms
proof (induction stmts arbitrary: c w xs es)
  case Nil
  then show ?case using length_history [OF Nil.prems(1)] by simp
next
  case (Cons stmt stmts)
  obtain es1 obj w1 where run: "run stmt w = (es1, obj, w1)" by (metis prod_cases3)
  obtain d where d: "gda_connection_statement_execute_v run c stmt w = Returns (obj, d, w1)" "events_ok d"
    "history d = lastn (capacity c) (history c @ es1)" "capacity d = capacity c"
    "\<not> auto_clear_events d" "opened d" "events_list d = (if es1 = [] then events_list c else [])"
    using statement_execute_ok [of c run stmt w es1 obj w1] Cons.prems(1-3) run by blast
  show ?case
  proof (cases obj)
    case None
    then show ?thesis using d run Cons.prems(4) by auto
  next
    case (Some x)
    obtain xs2 es2 where tail: "batch_trace run stmts w1 = (xs2, es2, w')" "xs = x # xs2" "es = es1 @ es2"
      using Cons.prems(4) run Some by (auto split: prod.splits)
    obtain c' where "batch_loop run d stmts w1 = Returns (xs2, c', w')" "events_ok c'"
      "history c' = lastn (capacity d) (history d @ es2)" "capacity c' = capacity d"
      "events_list c' = (if es2 = [] then events_list d else [])"
      using Cons.IH [OF d(2,5,6) tail(1)] by blast
    then show ?thesis using d tail Some by (simp add: lastn_lastn)
  qed
qed

lemma batch_execute_ok:
  assumes "events_ok c" "opened c" "batch_trace run stmts w = (xs, es, w')"
  shows "\<exists>c'. gda_connection_batch_execute run c stmts w = Returns (xs, c', w') \<and> events_ok c' \<and>
           history c' = lastn (2 * length stmts) ((if 2 * length stmts = capacity c then history c else []) @ es) \<and>
           capacity c' = 2 * length stmts \<and> events_list c' = (if es = [] then events_list c else []) \<and> auto_clear_events c'"
proof -
  let ?c = "c\<lparr>auto_clear_events := False\<rparr>"
  let ?d = "change_events_array_max_size ?c (length stmts * 2)"
  have c: "events_ok ?c" "capacity ?c = capacity c" "history ?c = history c"
    using assms(1) by (simp_all add: events_ok_def capacity_def history_def event_slots_def)
  have d: "events_ok ?d" "capacity ?d = length stmts * 2" "events_list ?d = events_list c" "\<not> auto_clear_events ?d" "opened ?d"
    "history ?d = (if length stmts * 2 = capacity c then history c else [])"
    using change_size_ok [OF c(1), of "length stmts * 2"] assms(2) c by simp_all
  obtain c' where c': "batch_loop run ?d stmts w = Returns (xs, c', w')" "events_ok c'"
    "history c' = lastn (capacity ?d) (history ?d @ es)" "capacity c' = capacity ?d"
    "events_list c' = (if es = [] then events_list ?d else [])"
    using batch_loop_ok [OF d(1,4,5) assms(3)] by blast
  let ?e = "c'\<lparr>auto_clear_events := True\<rparr>"
  have "events_ok ?e" "history ?e = history c'" "capacity ?e = capacity c'"
    using c'(2) by (simp_all add: events_ok_def capacity_def history_def event_slots_def)
  then show ?thesis using c' d by (auto simp: gda_connection_batch_execute_def mult.commute)
qed


lemma batch_trace_length:
  assumes two: "\<forall>stmt w. length (fst (run stmt w)) \<le> 2"
  shows "batch_trace run stmts w = (xs, es, w') \<Longrightarrow> length es \<le> 2 * length stmts"
proof (induction stmts arbitrary: w xs es)
  case (Cons stmt stmts)
  obtain es1 obj w1 where run: "run stmt w = (es1, obj, w1)" by (metis prod_cases3)
  have one: "length es1 \<le> 2" using two run by (metis fst_conv)
  show ?case
  proof (cases obj)
    case None
    then show ?thesis using Cons.prems run one by simp
  next
    case (Some x)
    obtain xs2 es2 w2 where tail: "batch_trace run stmts w1 = (xs2, es2, w2)" by (metis prod_cases3)
    then have "w2 = w'" "es = es1 @ es2" using Cons.prems run Some by auto
    then show ?thesis using Cons.IH [of w1 xs2 es2] tail one by simp
  qed
qed simp

lemma get_after_batch:
  assumes "events_ok c" "opened c" "batch_trace run stmts w = (xs, es, w')" "es \<noteq> []"
  shows "\<exists>c' d. gda_connection_batch_execute run c stmts w = Returns (xs, c', w') \<and>
           gda_connection_get_events c' = Returns (lastn (2 * length stmts) ((if 2 * length stmts = capacity c then history c else []) @ es), d)"
proof -
  obtain c' where c': "gda_connection_batch_execute run c stmts w = Returns (xs, c', w')" "events_ok c'"
    "history c' = lastn (2 * length stmts) ((if 2 * length stmts = capacity c then history c else []) @ es)"
    "events_list c' = []"
    using batch_execute_ok [OF assms(1-3)] assms(4) by auto
  obtain d where "gda_connection_get_events c' = Returns (history c', d)"
    using get_events_ok [OF c'(2)] c'(4) by auto
  then show ?thesis using c' by auto
qed

text \<open>
  C33: The execution of a batch on an open connection stops at the first statement that returns no object and returns
  the objects of those before it. If no statement adds more than two events, and one adds any, then the events that
  are reported after it end with those of all the statements that were run, in order.
\<close>

theorem batch_reports_all_events:
  assumes "events_ok c" "opened c" "\<forall>stmt w. length (fst (run stmt w)) \<le> 2"
    and "batch_trace run stmts w = (xs, es, w')" "es \<noteq> []"
  shows "\<exists>c' zs d. gda_connection_batch_execute run c stmts w = Returns (xs, c', w') \<and>
           gda_connection_get_events c' = Returns (zs @ es, d)"
  using get_after_batch [OF assms(1,2,4,5)] lastn_suffix [OF batch_trace_length [OF assms(3,4)]] by metis

definition sample_run :: "nat \<Rightarrow> nat \<Rightarrow> string list \<times> nat option \<times> nat" where
  "sample_run stmt w = (if stmt = 7 then ([''failed''], None, w) else ([''start'', ''end''], Some (stmt + w), w + 10))"

lemma batch_reports_all_events_witness:
  "\<exists>c' zs d. gda_connection_batch_execute sample_run (events_init\<lparr>opened := True\<rparr>) [3, 4, 7, 5] 0 = Returns ([3, 14], c', 20) \<and>
     gda_connection_get_events c' = Returns (zs @ [''start'', ''end'', ''start'', ''end'', ''failed''], d)"
proof (rule batch_reports_all_events)
  show "events_ok (events_init\<lparr>opened := True\<rparr>)"
    by (simp add: events_ok_def events_init_def event_slots_def EVENTS_ARRAY_SIZE_def)
qed (auto simp: sample_run_def events_init_def)

text \<open>
  Remark: A batch of three or more events per statement loses the oldest: what is reported are the last two times the
  number of statements.
\<close>

theorem batch_forgets_oldest_events:
  assumes "events_ok c" "opened c" "batch_trace run stmts w = (xs, es, w')" "es \<noteq> []"
    and "2 * length stmts < length es"
  shows "\<exists>c' d. gda_connection_batch_execute run c stmts w = Returns (xs, c', w') \<and>
           gda_connection_get_events c' = Returns (drop (length es - 2 * length stmts) es, d)"
proof -
  have "lastn (2 * length stmts) (ys @ es) = drop (length es - 2 * length stmts) es" for ys
    using assms(5) by (simp add: lastn_def)
  then show ?thesis using get_after_batch [OF assms(1-4)] by metis
qed

definition chatty_run :: "nat \<Rightarrow> nat \<Rightarrow> nat list \<times> nat option \<times> nat" where
  "chatty_run stmt w = ([stmt, stmt + 10, stmt + 20], Some stmt, w)"

lemma batch_forgets_oldest_events_witness:
  "\<exists>c' d. gda_connection_batch_execute chatty_run (events_init\<lparr>opened := True\<rparr>) [3, 4] 0 = Returns ([3, 4], c', 0) \<and>
     gda_connection_get_events c' = Returns ([23, 4, 14, 24], d)"
  using batch_forgets_oldest_events [of "events_init\<lparr>opened := True\<rparr>" chatty_run "[3, 4]" 0 "[3, 4]" "[3, 13, 23, 4, 14, 24]" 0]
  by (simp add: chatty_run_def events_ok_def events_init_def event_slots_def EVENTS_ARRAY_SIZE_def)

text \<open>
  C34: The execution of an empty batch leaves no room in the history: of the events that are added after it, however
  many, none is ever reported.
\<close>

theorem empty_batch_silences_events:
  assumes "events_ok c" "opened c" "es \<noteq> []"
  shows "\<exists>c' d f. gda_connection_batch_execute run c [] w = Returns ([], c', w) \<and>
           add_all gda_connection_add_event c' es = Returns d \<and> gda_connection_get_events d = Returns ([], f)"
proof -
  obtain c' where c': "gda_connection_batch_execute run c [] w = Returns ([], c', w)" "events_ok c'" "capacity c' = 0"
    using batch_execute_ok [OF assms(1,2), of run "[]" w "[]" "[]" w] by auto
  obtain d where d: "add_all gda_connection_add_event c' es = Returns d" "events_ok d" "capacity d = 0"
    using connection_log.add_all_law [OF c'(2), of es] c'(3) by auto
  have "history d = []" using length_history [OF d(2)] d(3) by simp
  moreover have "events_list d = []" using add_all_keeps_flags [OF d(1)] assms(3) by simp
  ultimately show ?thesis using c' d get_events_ok [OF d(2)] by auto
qed

lemma empty_batch_silences_events_witness:
  "\<exists>c' d f. gda_connection_batch_execute sample_run (events_init\<lparr>opened := True\<rparr>) [] 0 = Returns ([], c', 0) \<and>
     add_all gda_connection_add_event c' [''disk full''] = Returns d \<and> gda_connection_get_events d = Returns ([], f)"
  by (rule empty_batch_silences_events)
    (simp_all add: events_ok_def events_init_def event_slots_def EVENTS_ARRAY_SIZE_def)

lemma spec_run_adds:
  "spec_run h (map Add es @ ops) = replicate (length es) [] @
     spec_run (if es = [] then h else h\<lparr>recent := lastn (room h) (recent h @ es), reported := []\<rparr>) ops"
proof (induction es arbitrary: h)
  case (Cons e es)
  have "lastn (room h) (lastn (room h) (recent h @ [e]) @ es) = lastn (room h) (recent h @ e # es)"
    using lastn_lastn [of "room h" "recent h @ [e]" es] by simp
  then show ?case using Cons.IH by (auto simp: lastn_lastn)
qed simp

text \<open>
  C35: Clearing the events does not clear the list that was already read: after a reading that returned events, a
  clearing has no effect and the next reading returns the same events again.
\<close>

theorem clear_keeps_reported_events:
  assumes "es \<noteq> []"
  shows "event_run events_init (map Add es @ [Get, Clear, Get]) =
           Returns (replicate (length es) [] @ [lastn 4 es, [], lastn 4 es])"
proof -
  have "0 < length (lastn 4 es)" using assms by (simp only: length_lastn) simp
  then have "lastn 4 es \<noteq> []" by blast
  then show ?thesis
    using event_run_refines [OF events_ok_init, of "map Add es @ [Get, Clear, Get]"] assms
    by (simp add: event_abs_init spec_run_adds)
qed

lemma clear_keeps_reported_events_witness:
  "event_run events_init (map Add [''a'', ''b''] @ [Get, Clear, Get]) = Returns [[], [], [''a'', ''b''], [], [''a'', ''b'']]"
  using clear_keeps_reported_events [of "[''a'', ''b'']"] by (simp add: eval_nat_numeral)

end
