(* ===== verification/Gda_Sql_Parts.thy ===== *)
theory Gda_Sql_Parts
  imports Gda_Types Gda_Identifier Gda_Datetime
begin

text \<open>
  The structures of parsed SQL statements (\<open>libgda/sql-parser/gda-statement-struct*.h\<close>).

  The parts of a statement are one datatype, as \<open>GdaSqlAnyPart\<close> is in the code: every part has its type, and what a
  field points to is again some part. The lists of a part hold parts, and no \<open>NULL\<close>. \<open>parent\<close> pointers are not
  modelled: the code that reads them gets the position of the part from its caller. Fields that only the validity
  check against a database uses are left out.
\<close>

section \<open>Data\<close>

datatype operator =
    OpAnd | OpOr | OpEq | OpIs | OpLike | OpBetween | OpGt | OpLt | OpGeq | OpLeq | OpDiff | OpRegexp | OpRegexpCi
  | OpNotRegexp | OpNotRegexpCi | OpSimilar | OpIsNull | OpIsNotNull | OpNot | OpIn | OpNotIn | OpConcat | OpPlus
  | OpMinus | OpStar | OpDiv | OpRem | OpBitAnd | OpBitOr | OpBitNot | OpIlike | OpNotLike | OpNotIlike | OpGlob

datatype join_type = JoinCross | JoinNatural | JoinInner | JoinLeft | JoinRight | JoinFull

datatype compound_type = Union | UnionAll | Intersect | IntersectAll | Except | ExceptAll

datatype trans_type = Begin | Rollback | Commit | Savepoint | RollbackSavepoint | DeleteSavepoint

text \<open>A \<open>GValue\<close>: the types that the code tells apart, and the others.\<close>

datatype 'v sql_value =
    ValNull
  | ValString "string option"
  | ValTime gda_time
  | ValTimestamp gda_timestamp
  | ValDefault
  | ValOther 'v

text \<open>\<open>pspec_type\<close> is \<open>GDA_TYPE_NULL\<close> when the type of a parameter is not known.\<close>

record param_spec =
  pspec_name :: "string option"
  pspec_descr :: "string option"
  pspec_nullok :: bool
  pspec_type :: gtype

datatype (dead 'v) part =
    Expr (e_value: "'v sql_value option") (e_pspec: "param_spec option") (e_func: "'v part option")
      (e_cond: "'v part option") (e_select: "'v part option") (e_case: "'v part option")
      (e_cast: "string option") (e_ident: bool)
  | Field "string option"
  | Table "string option"
  | Function "string option" "'v part list"
  | Operation operator "'v part list"
  | Case "'v part option" "'v part list" "'v part list" "'v part option"
  | SelectField "'v part option" "string option"
  | SelectTarget "'v part option" "string option"
  | SelectJoin join_type (j_position: int) "'v part option" "'v part list"
  | SelectFrom "'v part list" "'v part list"
  | SelectOrder "'v part option" bool "string option"
  | Select (s_distinct: bool) (s_distinct_expr: "'v part option") (s_exprs: "'v part list") (s_from: "'v part option")
      (s_where: "'v part option") (s_group: "'v part list") (s_having: "'v part option") (s_order: "'v part list")
      (s_limit: "'v part option") (s_offset: "'v part option")
  | Insert "string option" "'v part option" "'v part list" "'v part list list" "'v part option"
  | Update "string option" "'v part option" "'v part list" "'v part list" "'v part option"
  | Delete "'v part option" "'v part option"
  | Compound compound_type "'v part list"
  | Unknown "'v part list"
  | Trans trans_type

datatype any_type =
    AnyExpr | AnyField | AnyTable | AnyFunction | AnyOperation | AnyCase | AnySelectField | AnySelectTarget | AnySelectJoin
  | AnySelectFrom | AnySelectOrder | StmtSelect | StmtInsert | StmtUpdate | StmtDelete | StmtCompound | StmtUnknown | StmtTrans

primrec part_type :: "'v part \<Rightarrow> any_type" where
  "part_type (Expr _ _ _ _ _ _ _ _) = AnyExpr"
| "part_type (Field _) = AnyField"
| "part_type (Table _) = AnyTable"
| "part_type (Function _ _) = AnyFunction"
| "part_type (Operation _ _) = AnyOperation"
| "part_type (Case _ _ _ _) = AnyCase"
| "part_type (SelectField _ _) = AnySelectField"
| "part_type (SelectTarget _ _) = AnySelectTarget"
| "part_type (SelectJoin _ _ _ _) = AnySelectJoin"
| "part_type (SelectFrom _ _) = AnySelectFrom"
| "part_type (SelectOrder _ _ _) = AnySelectOrder"
| "part_type (Select _ _ _ _ _ _ _ _ _ _) = StmtSelect"
| "part_type (Insert _ _ _ _ _) = StmtInsert"
| "part_type (Update _ _ _ _ _) = StmtUpdate"
| "part_type (Delete _ _) = StmtDelete"
| "part_type (Compound _ _) = StmtCompound"
| "part_type (Unknown _) = StmtUnknown"
| "part_type (Trans _) = StmtTrans"

datatype sql_error =
    StructureContents | MalformedIdentifier | ParamError | ParamTypeError | NoErrorSet

section \<open>The traversal of all parts\<close>

text \<open>The pointers that are not \<open>NULL\<close>.\<close>

definition present :: "'a option list \<Rightarrow> 'a list" where
  "present xs = map the (filter (\<lambda>x. x \<noteq> None) xs)"

text \<open>The parts below a part, in the order in which \<open>gda_sql_any_part_foreach\<close> visits them.\<close>

primrec sub_parts :: "'v part \<Rightarrow> 'v part list" where
  "sub_parts (Expr v ps func cond sel cs ca i) =
     present [func, cond, sel, cs]"
| "sub_parts (Field _) = []"
| "sub_parts (Table _) = []"
| "sub_parts (Function _ args) = args"
| "sub_parts (Operation _ ops) = ops"
| "sub_parts (Case base ws ts els) = present [base] @ ws @ ts @ present [els]"
| "sub_parts (SelectField e _) = present [e]"
| "sub_parts (SelectTarget e _) = present [e]"
| "sub_parts (SelectJoin _ _ e use) = present [e] @ use"
| "sub_parts (SelectFrom targets joins) = targets @ joins"
| "sub_parts (SelectOrder e _ _) = present [e]"
| "sub_parts (Select _ de es from wh gr hav ord lim off) =
     present [de] @ es @ present [from, wh] @ gr @ present [hav] @ ord @
     present [lim, off]"
| "sub_parts (Insert _ t fs vs sel) = present [t] @ fs @ concat vs @ present [sel]"
| "sub_parts (Update _ t fs es c) = present [t] @ fs @ es @ present [c]"
| "sub_parts (Delete t c) = present [t, c]"
| "sub_parts (Compound _ ss) = ss"
| "sub_parts (Unknown es) = es"
| "sub_parts (Trans _) = []"

end
