(* ===== verification/Gda_Sql_Struct.thy ===== *)
theory Gda_Sql_Struct
  imports Gda_Sql_Parts
begin

text \<open>
  The check of the structure of SQL statements, the traversal of all their parts
  (\<open>libgda/sql-parser/gda-statement-struct.c\<close> and the files for the kinds of statements), and the collection of the
  parameters that a statement needs (\<open>gda_statement_get_parameters\<close> in \<open>libgda/gda-statement.c\<close>).

  An operation fails with an error or hits an assertion that aborts the program (\<open>Undefined\<close>).
\<close>

section \<open>Errors\<close>

definition or_error :: "(sql_error + 'a) outcome \<Rightarrow> ('a \<Rightarrow> (sql_error + 'b) outcome) \<Rightarrow> (sql_error + 'b) outcome" where
  "or_error m f = bind_outcome m (\<lambda>r. case r of Inl e \<Rightarrow> Returns (Inl e) | Inr x \<Rightarrow> f x)"

lemma or_error_simps [simp]:
  "or_error Undefined f = Undefined"
  "or_error (Returns (Inl e)) f = Returns (Inl e)"
  "or_error (Returns (Inr x)) f = f x"
  by (simp_all add: or_error_def)

lemma or_error_Inr:
  "or_error m f = Returns (Inr y) \<longleftrightarrow> (\<exists>x. m = Returns (Inr x) \<and> f x = Returns (Inr y))"
  by (cases m) (auto simp: or_error_def split: sum.splits)

fun each_part :: "('p \<Rightarrow> 's \<Rightarrow> (sql_error + 's) outcome) \<Rightarrow> 'p list \<Rightarrow> 's \<Rightarrow> (sql_error + 's) outcome" where
  "each_part f [] s = Returns (Inr s)"
| "each_part f (p # ps) s = or_error (f p s) (each_part f ps)"

lemma each_part_cong [fundef_cong]:
  "ps = qs \<Longrightarrow> s = t \<Longrightarrow> (\<And>p u. p \<in> set qs \<Longrightarrow> f p u = g p u) \<Longrightarrow> each_part f ps s = each_part g qs t"
proof (induction qs arbitrary: ps s t)
  case (Cons q qs)
  have "each_part f qs = each_part g qs" using Cons by (intro ext) simp
  then show ?case using Cons.prems by simp
qed simp

section \<open>The traversal\<close>

lemma set_present [simp]: "c \<in> set (present xs) \<longleftrightarrow> Some c \<in> set xs"
  by (force simp: present_def)

lemma size_in_list: "(c :: 'v part) \<in> set xs \<Longrightarrow> size c < size_list size xs"
  by (induction xs) auto

lemma size_in_lists: "(ps :: 'v part list) \<in> set pss \<Longrightarrow> size_list size ps \<le> size_list (size_list size) pss"
  by (induction pss) auto

lemma size_in_option: "Some c = x \<Longrightarrow> size c < size_option size x"
  by (cases x) auto

lemma sub_parts_size: "c \<in> set (sub_parts p) \<Longrightarrow> size c < size p"
  by (cases p) (auto dest!: size_in_list size_in_option size_in_lists)

function gda_sql_any_part_foreach ::
    "('v part \<Rightarrow> 's \<Rightarrow> (sql_error + 's) outcome) \<Rightarrow> 'v part \<Rightarrow> 's \<Rightarrow> (sql_error + 's) outcome" where
  "gda_sql_any_part_foreach f p s = or_error (each_part (gda_sql_any_part_foreach f) (sub_parts p) s) (f p)"
  by pat_completeness auto
termination
  by (relation "measure (\<lambda>(f, p, s). size p)") (auto simp: sub_parts_size)

declare gda_sql_any_part_foreach.simps [simp del]

text \<open>All parts, in the order of the traversal: every part comes after the parts below it.\<close>

function all_parts :: "'v part \<Rightarrow> 'v part list" where
  "all_parts p = concat (map all_parts (sub_parts p)) @ [p]"
  by pat_completeness auto
termination
  by (relation "measure size") (auto simp: sub_parts_size)

declare all_parts.simps [simp del]

section \<open>The structure of a part\<close>

definition sql_operands_ok :: "operator \<Rightarrow> nat \<Rightarrow> bool" where
  "sql_operands_ok op n =
     (case op of
        OpGlob \<Rightarrow> False
      | OpBetween \<Rightarrow> n = 3
      | OpBitNot \<Rightarrow> n = 1 | OpIsNull \<Rightarrow> n = 1 | OpIsNotNull \<Rightarrow> n = 1 | OpNot \<Rightarrow> n = 1
      | OpAnd \<Rightarrow> 2 \<le> n | OpOr \<Rightarrow> 2 \<le> n | OpIn \<Rightarrow> 2 \<le> n | OpNotIn \<Rightarrow> 2 \<le> n | OpConcat \<Rightarrow> 2 \<le> n | OpStar \<Rightarrow> 2 \<le> n
      | OpMinus \<Rightarrow> n \<noteq> 0 | OpPlus \<Rightarrow> n \<noteq> 0
      | _ \<Rightarrow> n = 2)"

function compound_n_cols :: "'v part \<Rightarrow> sql_error + nat" where
  "compound_n_cols p =
     (case p of
        Compound _ (s # _) \<Rightarrow>
          (if part_type s = StmtSelect then Inr (length (s_exprs s))
           else if part_type s = StmtCompound then compound_n_cols s
           else Inl StructureContents)
      | _ \<Rightarrow> Inl StructureContents)"
  by pat_completeness auto
termination
  by (relation "measure size") auto

declare compound_n_cols.simps [simp del]

text \<open>The loop over the statements of a compound; \<open>nb_cols\<close> is the number of columns of the first one.\<close>

fun compound_loop :: "nat option \<Rightarrow> 'v part list \<Rightarrow> sql_error + unit" where
  "compound_loop nb_cols [] = Inr ()"
| "compound_loop nb_cols (s # ss) =
     (case (if part_type s = StmtSelect then Inr (length (s_exprs s))
            else if part_type s = StmtCompound then compound_n_cols s
            else Inl StructureContents) of
        Inl e \<Rightarrow> Inl e
      | Inr nb \<Rightarrow>
          (case nb_cols of
             None \<Rightarrow> if nb = 0 then Inl StructureContents else compound_loop (Some nb) ss
           | Some n \<Rightarrow> if nb \<noteq> n then Inl StructureContents else compound_loop (Some n) ss))"

fun values_same_length :: "nat \<Rightarrow> 'a list list \<Rightarrow> bool" where
  "values_same_length nb [] = True"
| "values_same_length nb (vs # vss) =
     (if nb = 0 then length vs \<noteq> 0 \<and> values_same_length (length vs) vss
      else length vs = nb \<and> values_same_length nb vss)"

definition select_check_structure :: "'v part \<Rightarrow> bool" where
  "select_check_structure s =
     (s_exprs s \<noteq> [] \<and> (s_distinct_expr s \<noteq> None \<longrightarrow> s_distinct s) \<and>
      (s_having s \<noteq> None \<longrightarrow> s_group s \<noteq> []) \<and> (s_offset s \<noteq> None \<longrightarrow> s_limit s \<noteq> None))"

definition insert_check_structure ::
    "'v part option \<Rightarrow> 'v part list \<Rightarrow> 'v part list list \<Rightarrow> 'v part option \<Rightarrow> (sql_error + unit) outcome" where
  "insert_check_structure table cols vals sel =
     (if table = None then Returns (Inl StructureContents)
      else
        (case sel of
           Some q \<Rightarrow>
             if vals \<noteq> [] then Returns (Inl StructureContents)
             else if 0 < length cols then
               (if part_type q = StmtSelect
                then Returns (if length (s_exprs q) = length cols then Inr () else Inl StructureContents)
                else if part_type q = StmtCompound
                then Returns (case compound_n_cols q of Inl e \<Rightarrow> Inl e
                              | Inr n \<Rightarrow> if n = length cols then Inr () else Inl StructureContents)
                else Undefined)
             else Returns (Inr ())
         | None \<Rightarrow>
             if vals = [] \<and> cols \<noteq> [] then Returns (Inl StructureContents)
             else Returns (if values_same_length (length cols) vals then Inr () else Inl StructureContents)))"

definition compound_check_structure :: "'v part list \<Rightarrow> sql_error + unit" where
  "compound_check_structure ss =
     (case ss of [] \<Rightarrow> Inl StructureContents | [_] \<Rightarrow> Inl StructureContents | _ \<Rightarrow> compound_loop None ss)"

text \<open>\<open>is_number s\<close>: \<open>g_ascii_strtod\<close> reads the whole of \<open>s\<close>.\<close>

definition name_is_identifier :: "(string \<Rightarrow> bool) \<Rightarrow> string option \<Rightarrow> bool" where
  "name_is_identifier is_number name = (case name of None \<Rightarrow> False | Some s \<Rightarrow> string_is_identifier is_number s)"

definition require :: "sql_error \<Rightarrow> bool \<Rightarrow> (sql_error + unit) outcome" where
  "require e ok = Returns (if ok then Inr () else Inl e)"

definition gda_sql_any_part_check_structure :: "(string \<Rightarrow> bool) \<Rightarrow> 'v part \<Rightarrow> (sql_error + unit) outcome" where
  "gda_sql_any_part_check_structure is_number p =
     (case p of
        Expr v ps func cond sel cs cast i \<Rightarrow> require StructureContents (\<not> (cast \<noteq> None \<and> ps \<noteq> None))
      | Field name \<Rightarrow> require MalformedIdentifier (name_is_identifier is_number name)
      | Table name \<Rightarrow> require MalformedIdentifier (name_is_identifier is_number name)
      | Function name args \<Rightarrow> require MalformedIdentifier (name_is_identifier is_number name)
      | Operation op ops \<Rightarrow> require StructureContents (ops \<noteq> [] \<and> sql_operands_ok op (length ops))
      | Case base ws ts els \<Rightarrow> require StructureContents (length ws = length ts \<and> ws \<noteq> [])
      | SelectField e as \<Rightarrow> require StructureContents (e \<noteq> None)
      | SelectTarget e as \<Rightarrow> require StructureContents (e \<noteq> None)
      | SelectJoin t pos e use \<Rightarrow>
          require StructureContents (\<not> (e \<noteq> None \<and> use \<noteq> []) \<and> \<not> (t = JoinCross \<and> (e \<noteq> None \<or> use \<noteq> [])))
      | SelectFrom ts js \<Rightarrow> require StructureContents (ts \<noteq> [])
      | SelectOrder e asc coll \<Rightarrow> require StructureContents (e \<noteq> None)
      | Select _ _ _ _ _ _ _ _ _ _ \<Rightarrow> require StructureContents (select_check_structure p)
      | Insert conflict table cols vals sel \<Rightarrow> insert_check_structure table cols vals sel
      | Update conflict table cols es cond \<Rightarrow>
          require StructureContents (table \<noteq> None \<and> length cols = length es \<and> cols \<noteq> [])
      | Delete table cond \<Rightarrow> require StructureContents (table \<noteq> None)
      | Compound t ss \<Rightarrow> Returns (compound_check_structure ss)
      | Unknown es \<Rightarrow> Returns (Inr ())
      | Trans t \<Rightarrow> Returns (Inr ()))"

definition gda_sql_statement_check_structure :: "(string \<Rightarrow> bool) \<Rightarrow> 'v part \<Rightarrow> (sql_error + unit) outcome" where
  "gda_sql_statement_check_structure is_number p =
     gda_sql_any_part_foreach (\<lambda>p _. gda_sql_any_part_check_structure is_number p) p ()"

section \<open>The parameters of a statement\<close>

text \<open>
  What \<open>get_params_foreach_func\<close> makes of a parameter: a \<open>GdaHolder\<close> with its name, type and default value. The
  holders are kept in a set, where only the first one with a name is kept. The data handlers are parameters of the
  model: whether a type has one, and the value that it reads from SQL, if any.
\<close>

record 'v stmt_param =
  sp_name :: string
  sp_type :: gtype
  sp_not_null :: bool
  sp_default :: "'v sql_value option"

record 'v default_handlers =
  has_handler :: "gtype \<Rightarrow> bool"
  value_from_sql :: "gtype \<Rightarrow> string option \<Rightarrow> 'v sql_value option"

definition default_of_param ::
    "'v default_handlers \<Rightarrow> param_spec \<Rightarrow> 'v sql_value option \<Rightarrow> sql_error + 'v sql_value option" where
  "default_of_param dh ps v =
     (case v of
        None \<Rightarrow> Inr None
      | Some (ValString str) \<Rightarrow>
          if has_handler dh (pspec_type ps)
          then Inr (Some (case value_from_sql dh (pspec_type ps) str of Some x \<Rightarrow> x | None \<Rightarrow> ValDefault))
          else Inl ParamTypeError
      | Some x \<Rightarrow> Inr (Some x))"

definition gda_set_add_holder :: "'v stmt_param list \<Rightarrow> param_spec \<Rightarrow> 'v sql_value option \<Rightarrow> 'v stmt_param list" where
  "gda_set_add_holder hs ps dv =
     (case pspec_name ps of
        None \<Rightarrow> hs
      | Some n \<Rightarrow>
          if n \<in> sp_name ` set hs then hs
          else hs @ [\<lparr>sp_name = n, sp_type = pspec_type ps, sp_not_null = \<not> pspec_nullok ps, sp_default = dv\<rparr>])"

definition get_params_foreach_func ::
    "'v default_handlers \<Rightarrow> 'v part \<Rightarrow> 'v stmt_param list option \<Rightarrow> (sql_error + 'v stmt_param list option) outcome" where
  "get_params_foreach_func dh p params =
     (case p of
        Expr v (Some ps) _ _ _ _ _ _ \<Rightarrow>
          if pspec_type ps = GDA_TYPE_NULL then Returns (Inl ParamTypeError)
          else
            (case default_of_param dh ps v of
               Inl e \<Rightarrow> Returns (Inl e)
             | Inr dv \<Rightarrow> Returns (Inr (Some (gda_set_add_holder (case params of None \<Rightarrow> [] | Some l \<Rightarrow> l) ps dv))))
      | _ \<Rightarrow> Returns (Inr params))"

definition gda_statement_get_parameters ::
    "'v default_handlers \<Rightarrow> 'v part \<Rightarrow> (sql_error + 'v stmt_param list option) outcome" where
  "gda_statement_get_parameters dh p = gda_sql_any_part_foreach (get_params_foreach_func dh) p None"

section \<open>Statements without code\<close>

fun only_spaces :: "string \<Rightarrow> bool" where
  "only_spaces [] = True"
| "only_spaces (c # cs) =
     ((c = CHR '' '' \<or> c = CHR 0x09 \<or> c = CHR 0x0A \<or> c = CHR 0x0C \<or> c = CHR 0x0D) \<and> only_spaces cs)"

fun useless_exprs :: "'v part list \<Rightarrow> bool outcome" where
  "useless_exprs [] = Returns True"
| "useless_exprs (e # es) =
     (if e_pspec e \<noteq> None then Returns False
      else
        (case e_value e of
           None \<Rightarrow> useless_exprs es
         | Some (ValString None) \<Rightarrow> Undefined
         | Some (ValString (Some str)) \<Rightarrow> if only_spaces str then useless_exprs es else Returns False
         | Some _ \<Rightarrow> Returns False))"

definition gda_statement_is_useless :: "'v part \<Rightarrow> bool outcome" where
  "gda_statement_is_useless p = (case p of Unknown es \<Rightarrow> useless_exprs es | _ \<Rightarrow> Returns False)"

section \<open>The traversal visits every part once, those below it first\<close>

lemma each_part_append:
  "each_part f (ps @ qs) s = or_error (each_part f ps s) (each_part f qs)"
proof (induction ps arbitrary: s)
  case (Cons p ps)
  show ?case
  proof (cases "f p s")
    case (Returns r)
    then show ?thesis using Cons by (cases r) auto
  qed simp
qed simp

lemma each_part_concat:
  "(\<And>p s. p \<in> set ps \<Longrightarrow> f p s = each_part g (h p) s) \<Longrightarrow> each_part f ps s = each_part g (concat (map h ps)) s"
proof (induction ps arbitrary: s)
  case (Cons p ps)
  have "each_part f ps = each_part g (concat (map h ps))" using Cons by (intro ext) simp
  then show ?case using Cons.prems by (simp add: each_part_append)
qed simp

lemma foreach_eq: "gda_sql_any_part_foreach f p s = each_part f (all_parts p) s"
proof (induction p arbitrary: s rule: all_parts.induct)
  case (1 p)
  have "each_part (gda_sql_any_part_foreach f) (sub_parts p) s = each_part f (concat (map all_parts (sub_parts p))) s"
    using 1 by (intro each_part_concat) simp
  moreover have "each_part f [p] = f p"
  proof
    fix t
    show "each_part f [p] t = f p t"
    proof (cases "f p t")
      case (Returns r)
      then show ?thesis by (cases r) auto
    qed simp
  qed
  ultimately show ?case
    by (simp add: gda_sql_any_part_foreach.simps [of f p] all_parts.simps [of p] each_part_append)
qed

lemma all_parts_self [simp]: "p \<in> set (all_parts p)"
  by (simp add: all_parts.simps [of p])

lemma all_parts_sub: "c \<in> set (sub_parts p) \<Longrightarrow> d \<in> set (all_parts c) \<Longrightarrow> d \<in> set (all_parts p)"
  by (subst all_parts.simps) auto

lemma each_part_check:
  "each_part (\<lambda>p _. f p) ps () = Returns (Inr ()) \<longleftrightarrow> (\<forall>p \<in> set ps. f p = Returns (Inr ()))"
proof (induction ps)
  case (Cons p ps)
  show ?case
  proof (cases "f p")
    case (Returns r)
    then show ?thesis using Cons by (cases r) auto
  qed simp
qed simp

lemma check_structure_iff:
  "gda_sql_statement_check_structure is_number p = Returns (Inr ()) \<longleftrightarrow>
     (\<forall>c \<in> set (all_parts p). gda_sql_any_part_check_structure is_number c = Returns (Inr ()))"
  by (simp add: gda_sql_statement_check_structure_def foreach_eq each_part_check)

end
