(* ===== verification/Gda_Render.thy ===== *)
theory Gda_Render
  imports Gda_Sql_Struct Gda_Escape
begin

text \<open>
  The rendering of statements as SQL (the \<open>default_render_*\<close> functions of \<open>libgda/gda-statement.c\<close>).

  The functions of the code call each other through the pointers of a rendering context; here each of them has the
  function that renders the parts below as a parameter, and \<open>render\<close> ties them together. A rendering has the list
  \<open>params_used\<close> as its state, and gives an error, a text, or hits an assertion (\<open>Undefined\<close>). Parameters of the
  model are what the code asks of data handlers, of the provider and of the holders that give parameters a value.
\<close>

section \<open>Renderings\<close>

type_synonym 'a rst = "string list \<Rightarrow> ((sql_error + 'a) \<times> string list) outcome"

definition rret :: "'a \<Rightarrow> 'a rst" where "rret x = (\<lambda>u. Returns (Inr x, u))"
definition rfail :: "sql_error \<Rightarrow> 'a rst" where "rfail e = (\<lambda>u. Returns (Inl e, u))"
definition rabort :: "'a rst" where "rabort = (\<lambda>u. Undefined)"

definition rbind :: "'a rst \<Rightarrow> ('a \<Rightarrow> 'b rst) \<Rightarrow> 'b rst" where
  "rbind m f = (\<lambda>u. bind_outcome (m u) (\<lambda>(r, u). case r of Inl e \<Rightarrow> Returns (Inl e, u) | Inr x \<Rightarrow> f x u))"

fun rcats :: "string rst list \<Rightarrow> string rst" where
  "rcats [] = rret []"
| "rcats (m # ms) = rbind m (\<lambda>a. rbind (rcats ms) (\<lambda>b. rret (a @ b)))"

definition ropt :: "'p option \<Rightarrow> ('p \<Rightarrow> string rst) \<Rightarrow> string rst" where
  "ropt x f = (case x of None \<Rightarrow> rret [] | Some p \<Rightarrow> f p)"

text \<open>The rendering of the elements of a list, which are told whether they are the first one.\<close>

fun rlist :: "(bool \<Rightarrow> 'p \<Rightarrow> string rst) \<Rightarrow> bool \<Rightarrow> 'p list \<Rightarrow> string rst" where
  "rlist f first [] = rret []"
| "rlist f first (p # ps) = rcats [f first p, rlist f False ps]"

definition rwhen :: "bool \<Rightarrow> string \<Rightarrow> string rst" where
  "rwhen b s = rret (if b then s else [])"

section \<open>The context\<close>

record 'v holder_state =
  hs_type :: gtype
  hs_valid :: bool
  hs_value :: "'v sql_value option"

text \<open>
  A handler is asked for the SQL of a value: \<open>None\<close> when there is no handler for the type, \<open>Some None\<close> when it gives
  no text. \<open>cnc_handler\<close> is the provider's, when there is a connection.
\<close>

record 'v rendering =
  pretty :: bool
  params_long :: bool
  params_short :: bool
  params_as_colon :: bool
  params_as_dollar :: bool
  params_as_qmark :: bool
  params_as_uqmark :: bool
  timezone_to_gmt :: bool
  set_holders :: "(string \<Rightarrow> 'v holder_state option) option"
  cnc_handler :: "('v sql_value \<Rightarrow> string option option) option"
  default_handler :: "'v sql_value \<Rightarrow> string option option"
  stringify :: "'v sql_value \<Rightarrow> string option"
  type_name :: "gtype \<Rightarrow> string"
  is_number :: "string \<Rightarrow> bool"
  is_keyword :: "string \<Rightarrow> bool"
  prov_quote :: "(string \<Rightarrow> bool \<Rightarrow> bool \<Rightarrow> string option) option"
  case_sensitive :: bool
  calendar :: glib
  behind :: "nat \<Rightarrow> char"

definition quoted :: "'v rendering \<Rightarrow> string \<Rightarrow> string option outcome" where
  "quoted env s = gda_sql_identifier_quote (behind env) (is_keyword env) (prov_quote env) s False (case_sensitive env)"

definition force_quoted :: "string \<Rightarrow> string" where
  "force_quoted s = the (gda_sql_identifier_force_quotes (Some s))"

text \<open>\<open>NULL\<close> is appended as nothing, printed as \<open>(null)\<close>.\<close>

definition rquoted :: "'v rendering \<Rightarrow> string \<Rightarrow> string \<Rightarrow> string rst" where
  "rquoted env null s =
     (case quoted env s of Undefined \<Rightarrow> rabort | Returns None \<Rightarrow> rret null | Returns (Some q) \<Rightarrow> rret q)"

definition rcheck :: "'v rendering \<Rightarrow> 'v part \<Rightarrow> string rst" where
  "rcheck env p =
     (case gda_sql_any_part_check_structure (is_number env) p of
        Undefined \<Rightarrow> rabort | Returns (Inl e) \<Rightarrow> rfail e | Returns (Inr _) \<Rightarrow> rret [])"

definition refused :: "'v rendering \<Rightarrow> 'v part \<Rightarrow> string rst" where
  "refused env p = rbind (rcheck env p) (\<lambda>_. rfail NoErrorSet)"

definition dotted_ids :: "'v rendering \<Rightarrow> string list \<Rightarrow> string rst" where
  "dotted_ids env ids = rlist (\<lambda>first s. rcats [rwhen (\<not> first) ''.'', rquoted env [] s]) True ids"

section \<open>Values and parameters\<close>

definition handler :: "'v rendering \<Rightarrow> 'v sql_value \<Rightarrow> string option option" where
  "handler env = (case cnc_handler env of Some h \<Rightarrow> h | None \<Rightarrow> default_handler env)"

definition some_text :: "string option \<Rightarrow> string rst" where
  "some_text r = (case r of None \<Rightarrow> rfail NoErrorSet | Some s \<Rightarrow> rret s)"

text \<open>Times with a time zone are moved to GMT and lose it, if asked for.\<close>

definition to_gmt :: "'v rendering \<Rightarrow> 'v sql_value \<Rightarrow> 'v sql_value" where
  "to_gmt env v =
     (if timezone_to_gmt env then
        (case v of
           ValTime t \<Rightarrow>
             if tm_timezone t \<noteq> GDA_TIMEZONE_INVALID
             then ValTime ((gda_time_change_timezone t 0)\<lparr>tm_timezone := GDA_TIMEZONE_INVALID\<rparr>) else v
         | ValTimestamp t \<Rightarrow>
             if ts_timezone t \<noteq> GDA_TIMEZONE_INVALID
             then ValTimestamp ((gda_timestamp_change_timezone (calendar env) t 0)\<lparr>ts_timezone := GDA_TIMEZONE_INVALID\<rparr>) else v
         | _ \<Rightarrow> v)
      else v)"

definition default_render_value :: "'v rendering \<Rightarrow> 'v sql_value \<Rightarrow> string rst" where
  "default_render_value env v =
     (if v = ValNull then rret ''NULL''
      else
        (case handler env v of
           None \<Rightarrow> if v = ValDefault then rret ''DEFAULT'' else rfail StructureContents
         | Some _ \<Rightarrow> some_text (case handler env (to_gmt env v) of Some r \<Rightarrow> r | None \<Rightarrow> None)))"

definition render_pspec :: "'v rendering \<Rightarrow> bool" where
  "render_pspec env \<longleftrightarrow> params_long env \<or> params_short env \<or> params_as_colon env \<or> params_as_dollar env \<or>
     params_as_qmark env \<or> params_as_uqmark env"

definition find_holder :: "'v rendering \<Rightarrow> param_spec \<Rightarrow> (string \<times> 'v holder_state) option" where
  "find_holder env ps =
     (case (set_holders env, pspec_name ps) of
        (Some look, Some n) \<Rightarrow> map_option (Pair n) (look n)
      | _ \<Rightarrow> None)"

text \<open>The parameter as a comment behind its default value.\<close>

definition pspec_long :: "'v rendering \<Rightarrow> param_spec \<Rightarrow> string \<Rightarrow> 'v sql_value option \<Rightarrow> string rst" where
  "pspec_long env ps n v =
     rcats
       [case v of None \<Rightarrow> rret ''##''
        | Some (ValString s) \<Rightarrow> some_text s
        | Some x \<Rightarrow> default_render_value env x,
        rret '' /* '', rret (''name:'' @ force_quoted n),
        rwhen (pspec_type ps \<noteq> G_TYPE_INVALID) ('' type:'' @ force_quoted (type_name env (pspec_type ps))),
        ropt (pspec_descr ps) (\<lambda>d. rret ('' descr:'' @ force_quoted d)),
        rwhen (pspec_nullok ps) '' nullok:true'', rret '' */'']"

definition pspec_short :: "'v rendering \<Rightarrow> param_spec \<Rightarrow> string \<Rightarrow> string rst" where
  "pspec_short env ps n =
     rcats
       [rret ''##'', rret n,
        rwhen (pspec_type ps \<noteq> GDA_TYPE_NULL)
          (''::'' @ type_name env (pspec_type ps) @ (if pspec_nullok ps then ''::NULL'' else []))]"

definition pspec_text :: "'v rendering \<Rightarrow> param_spec \<Rightarrow> 'v sql_value option \<Rightarrow> string rst" where
  "pspec_text env ps v =
     (if params_as_colon env then rret (CHR '':'' # gda_text_to_alphanum (pspec_name ps))
      else if params_as_dollar env then (\<lambda>u. Returns (Inr (CHR ''$'' # dec (length u)), u))
      else if params_as_qmark env then (\<lambda>u. Returns (Inr (CHR ''?'' # dec (length u)), u))
      else if params_as_uqmark env then rret ''?''
      else
        (case pspec_name ps of
           None \<Rightarrow> rfail ParamError
         | Some n \<Rightarrow>
             if (if params_long env \<or> params_short env then params_long env
                 else v = None \<or> v = Some ValNull \<or> force_quoted n \<noteq> n)
             then pspec_long env ps n v else pspec_short env ps n))"

text \<open>The text of a parameter and whether it is a null value.\<close>

definition default_render_param_spec ::
    "'v rendering \<Rightarrow> param_spec \<Rightarrow> 'v sql_value option \<Rightarrow> (string \<times> bool) rst" where
  "default_render_param_spec env ps v =
     (case find_holder env ps of
        None \<Rightarrow>
          if \<not> render_pspec env \<or> params_as_dollar env \<or> params_as_qmark env \<or> params_as_uqmark env
          then rfail ParamError
          else rbind (pspec_text env ps v) (\<lambda>s. rret (s, False))
      | Some (n, h) \<Rightarrow>
          if hs_type h \<noteq> pspec_type ps then rfail ParamError
          else
            rbind (\<lambda>u. Returns (Inr (), u @ [n])) (\<lambda>_.
              if render_pspec env then rbind (pspec_text env ps v) (\<lambda>s. rret (s, False))
              else if \<not> hs_valid h then rfail ParamError
              else
                (case hs_value h of
                   None \<Rightarrow> rret (''DEFAULT'', False)
                 | Some x \<Rightarrow> rbind (default_render_value env x) (\<lambda>s. rret (s, x = ValNull)))))"

definition render_expr_value :: "'v rendering \<Rightarrow> bool \<Rightarrow> 'v sql_value \<Rightarrow> (string \<times> bool) rst" where
  "render_expr_value env ident v =
     (case v of
        ValString None \<Rightarrow> rret (''NULL'', True)
      | ValString (Some s) \<Rightarrow>
          rbind
            (if ident then
               (case gda_sql_identifier_split (is_number env) s of
                  None \<Rightarrow> rret s
                | Some [] \<Rightarrow> rfail NoErrorSet
                | Some ids \<Rightarrow> dotted_ids env ids)
             else if map g_ascii_tolower s = ''default'' then rret ''DEFAULT''
             else rret s)
            (\<lambda>t. rret (t, False))
      | _ \<Rightarrow>
          rbind
            (some_text
               (case cnc_handler env of
                  Some h \<Rightarrow> (case h v of None \<Rightarrow> None | Some r \<Rightarrow> r)
                | None \<Rightarrow> (case default_handler env v of Some r \<Rightarrow> r | None \<Rightarrow> stringify env v)))
            (\<lambda>t. rret (t, False)))"

section \<open>Expressions\<close>

text \<open>
  Where a part stands, which the code finds through its parent: the condition of a statement is not put in
  parentheses, nor is a statement as the argument of a function; the value of a target is an identifier.
\<close>

datatype place = Plain | ConditionOf | ArgumentOf | TargetOf

type_synonym 'v renderer = "place \<Rightarrow> 'v part \<Rightarrow> (string \<times> bool) rst"

text \<open>Every function refuses parts of another type.\<close>

definition rpart :: "'v renderer \<Rightarrow> any_type \<Rightarrow> place \<Rightarrow> 'v part \<Rightarrow> string rst" where
  "rpart R t m p = (if part_type p = t then rbind (R m p) (\<lambda>x. rret (fst x)) else rfail NoErrorSet)"

definition part_value :: "'v part \<Rightarrow> 'v sql_value option" where
  "part_value p = (case p of Expr v _ _ _ _ _ _ _ \<Rightarrow> v | _ \<Rightarrow> None)"

definition has_query :: "'v part \<Rightarrow> bool" where
  "has_query p = (case p of Expr _ _ _ _ q _ _ _ \<Rightarrow> q \<noteq> None | _ \<Rightarrow> False)"

definition is_composed :: "'v part \<Rightarrow> bool" where
  "is_composed p = (case p of Expr _ _ _ _ q c _ _ \<Rightarrow> c \<noteq> None \<or> q \<noteq> None | _ \<Rightarrow> False)"

definition flagged :: "bool \<Rightarrow> string rst \<Rightarrow> (string \<times> bool) rst" where
  "flagged b m = rbind m (\<lambda>s. rret (s, b))"

definition render_query :: "'v renderer \<Rightarrow> place \<Rightarrow> 'v part \<Rightarrow> string rst" where
  "render_query R m q =
     (if part_type q = StmtSelect \<or> part_type q = StmtCompound
      then (if m = ArgumentOf then rpart R (part_type q) Plain q
            else rcats [rret ''('', rpart R (part_type q) Plain q, rret '')''])
      else rabort)"

text \<open>What an expression holds: the first of these that it has, before a cast.\<close>

definition render_contents :: "'v rendering \<Rightarrow> 'v renderer \<Rightarrow> place \<Rightarrow> 'v part \<Rightarrow> (string \<times> bool) rst" where
  "render_contents env R m p =
     (case p of
        Expr v ps func cond sel cs cast ident \<Rightarrow>
          (case ps of
             Some spec \<Rightarrow> default_render_param_spec env spec v
           | None \<Rightarrow>
               (case v of Some x \<Rightarrow> render_expr_value env (m = TargetOf \<or> ident) x
                | None \<Rightarrow>
                    (case func of Some f \<Rightarrow> flagged False (rpart R AnyFunction Plain f)
                     | None \<Rightarrow>
                         (case cond of
                            Some c \<Rightarrow>
                              flagged False
                                (if m = ConditionOf then rpart R AnyOperation Plain c
                                 else rcats [rret ''('', rpart R AnyOperation Plain c, rret '')''])
                          | None \<Rightarrow>
                              (case sel of Some q \<Rightarrow> flagged False (render_query R m q)
                               | None \<Rightarrow>
                                   (case cs of Some c \<Rightarrow> flagged False (rpart R AnyCase Plain c)
                                    | None \<Rightarrow> rret (''NULL'', True)))))))
      | _ \<Rightarrow> rfail NoErrorSet)"

definition cast_text :: "'v part \<Rightarrow> string \<Rightarrow> string" where
  "cast_text p s =
     (case p of Expr _ _ _ _ _ _ (Some t) _ \<Rightarrow> ''CAST ('' @ s @ '' AS '' @ t @ '')'' | _ \<Rightarrow> s)"

definition default_render_expr ::
    "'v rendering \<Rightarrow> 'v renderer \<Rightarrow> place \<Rightarrow> 'v part \<Rightarrow> (string \<times> bool) rst" where
  "default_render_expr env R m p =
     rbind (rcheck env p) (\<lambda>_.
     rbind (render_contents env R m p) (\<lambda>(s, null). rret (cast_text p s, null)))"

definition default_render_field :: "'v rendering \<Rightarrow> 'v part \<Rightarrow> string rst" where
  "default_render_field env p =
     (case p of
        Field (Some n) \<Rightarrow>
          rbind (rcheck env p) (\<lambda>_.
            case quoted env n of Undefined \<Rightarrow> rabort | Returns r \<Rightarrow> some_text r)
      | _ \<Rightarrow> refused env p)"

definition default_render_table :: "'v rendering \<Rightarrow> 'v part \<Rightarrow> string rst" where
  "default_render_table env p =
     (case p of
        Table (Some n) \<Rightarrow>
          rbind (rcheck env p) (\<lambda>_.
            case gda_sql_identifier_split (is_number env) n of
              None \<Rightarrow> rfail StructureContents
            | Some ids \<Rightarrow> dotted_ids env ids)
      | _ \<Rightarrow> refused env p)"

definition default_render_function :: "'v rendering \<Rightarrow> 'v renderer \<Rightarrow> 'v part \<Rightarrow> string rst" where
  "default_render_function env R p =
     (case p of
        Function (Some n) args \<Rightarrow>
          rcats
            [rcheck env p, rret n, rret '' ('',
             rlist (\<lambda>first e. rcats [rwhen (\<not> first) '', '', rwhen (has_query e) ''('',
                rpart R AnyExpr ArgumentOf e, rwhen (has_query e) '')'']) True args,
             rret '')'']
      | _ \<Rightarrow> refused env p)"

text \<open>The operands: their text, whether they are null and whether they are a statement or a \<open>CASE\<close>.\<close>

type_synonym operand = "string \<times> bool \<times> bool"

fun render_operands :: "'v renderer \<Rightarrow> 'v part list \<Rightarrow> operand list rst" where
  "render_operands R [] = rret []"
| "render_operands R (e # es) =
     rbind (if part_type e = AnyExpr then R Plain e else rfail NoErrorSet) (\<lambda>(s, null).
     rbind (render_operands R es) (\<lambda>xs. rret ((s, null, is_composed e) # xs)))"

definition binary_text :: "operator \<Rightarrow> string option" where
  "binary_text op =
     (case op of
        OpIs \<Rightarrow> Some '' IS '' | OpLike \<Rightarrow> Some '' LIKE '' | OpNotLike \<Rightarrow> Some '' NOT LIKE ''
      | OpIlike \<Rightarrow> Some '' ILIKE '' | OpNotIlike \<Rightarrow> Some '' NOT ILIKE '' | OpGt \<Rightarrow> Some '' > '' | OpLt \<Rightarrow> Some '' < ''
      | OpGeq \<Rightarrow> Some '' >= '' | OpLeq \<Rightarrow> Some '' <= '' | OpDiff \<Rightarrow> Some '' != '' | OpRegexp \<Rightarrow> Some '' ~ ''
      | OpRegexpCi \<Rightarrow> Some '' ~* '' | OpNotRegexp \<Rightarrow> Some '' !~ '' | OpNotRegexpCi \<Rightarrow> Some '' !~* ''
      | OpSimilar \<Rightarrow> Some '' SIMILAR TO '' | OpRem \<Rightarrow> Some '' % '' | OpDiv \<Rightarrow> Some '' / '' | OpBitAnd \<Rightarrow> Some '' & ''
      | OpBitOr \<Rightarrow> Some '' | '' | OpGlob \<Rightarrow> Some '' GLOB '' | _ \<Rightarrow> None)"

definition multi_text :: "operator \<Rightarrow> string option" where
  "multi_text op =
     (case op of
        OpConcat \<Rightarrow> Some ''||'' | OpPlus \<Rightarrow> Some ''+'' | OpMinus \<Rightarrow> Some ''-'' | OpStar \<Rightarrow> Some ''*''
      | OpAnd \<Rightarrow> Some ''AND'' | OpOr \<Rightarrow> Some ''OR'' | _ \<Rightarrow> None)"

definition operand_text :: "operand \<Rightarrow> string" where
  "operand_text x = (if snd (snd x) then ''('' @ fst x @ '')'' else fst x)"

fun comma_list :: "string list \<Rightarrow> string" where
  "comma_list [] = []"
| "comma_list [s] = s"
| "comma_list (s # ss) = s @ '', '' @ comma_list ss"

definition in_text :: "string \<Rightarrow> operand list \<Rightarrow> string" where
  "in_text kw xs =
     (let add_p = \<not> (length xs = 2 \<and> fst (xs ! 1) \<noteq> [] \<and> hd (fst (xs ! 1)) = CHR ''('')
      in fst (hd xs) @ kw @ (if add_p then ''('' else []) @ comma_list (map fst (tl xs)) @ (if add_p then '')'' else []))"

text \<open>A missing operand is read through a null pointer.\<close>

definition operation_text :: "operator \<Rightarrow> operand list \<Rightarrow> string outcome" where
  "operation_text op xs =
     (case multi_text op of
        Some t \<Rightarrow>
          (case xs of
             [] \<Rightarrow> Undefined
           | [x] \<Rightarrow> Returns (t @ '' '' @ fst x)
           | x # ys \<Rightarrow> Returns (operand_text x @ concat (map (\<lambda>y. '' '' @ t @ '' '' @ operand_text y) ys)))
      | None \<Rightarrow>
          (case (binary_text op, xs) of
             (Some t, a # b # _) \<Rightarrow> Returns (fst a @ t @ fst b)
           | (Some t, _) \<Rightarrow> Undefined
           | (None, _) \<Rightarrow>
               (case (op, xs) of
                  (OpEq, a # b # _) \<Rightarrow> Returns (if fst (snd b) then fst a @ '' IS NULL'' else fst a @ '' = '' @ fst b)
                | (OpBetween, a # b # c # _) \<Rightarrow> Returns (fst a @ '' BETWEEN '' @ fst b @ '' AND '' @ fst c)
                | (OpIsNull, a # _) \<Rightarrow> Returns (fst a @ '' IS NULL'')
                | (OpIsNotNull, a # _) \<Rightarrow> Returns (fst a @ '' IS NOT NULL'')
                | (OpBitNot, a # _) \<Rightarrow> Returns (''~ '' @ fst a)
                | (OpNot, a # _) \<Rightarrow> Returns (''NOT '' @ fst a)
                | (OpIn, a # _) \<Rightarrow> Returns (in_text '' IN '' xs)
                | (OpNotIn, a # _) \<Rightarrow> Returns (in_text '' NOT IN '' xs)
                | _ \<Rightarrow> Undefined)))"

definition default_render_operation :: "'v rendering \<Rightarrow> 'v renderer \<Rightarrow> 'v part \<Rightarrow> string rst" where
  "default_render_operation env R p =
     (case p of
        Operation op ops \<Rightarrow>
          rbind (rcheck env p) (\<lambda>_.
          rbind (render_operands R ops) (\<lambda>xs u.
            bind_outcome (operation_text op xs) (\<lambda>s. Returns (Inr s, u))))
      | _ \<Rightarrow> refused env p)"

definition default_render_case :: "'v rendering \<Rightarrow> 'v renderer \<Rightarrow> 'v part \<Rightarrow> string rst" where
  "default_render_case env R p =
     (case p of
        Case base ws ts els \<Rightarrow>
          rcats
            [rcheck env p, rret ''CASE'',
             ropt base (\<lambda>e. rcats [rret '' '', rpart R AnyExpr Plain e]),
             rlist (\<lambda>_ (w, t). rcats [rret '' WHEN '', rpart R AnyExpr Plain w, rret '' THEN '', rpart R AnyExpr Plain t])
               True (zip ws ts),
             ropt els (\<lambda>e. rcats [rret '' ELSE '', rpart R AnyExpr Plain e]),
             rret '' END'']
      | _ \<Rightarrow> refused env p)"

section \<open>The parts of a SELECT\<close>

definition alias_is_quoted :: "string \<Rightarrow> bool" where
  "alias_is_quoted a = (a \<noteq> [] \<and> (hd a = SQUOTE \<or> hd a = DQUOTE))"

definition render_alias :: "'v rendering \<Rightarrow> string option \<Rightarrow> string rst" where
  "render_alias env as =
     ropt as (\<lambda>a. rcats [rret '' AS '', if alias_is_quoted a then rret a else rquoted env ''(null)'' a])"

definition default_render_select_field :: "'v rendering \<Rightarrow> 'v renderer \<Rightarrow> 'v part \<Rightarrow> string rst" where
  "default_render_select_field env R p =
     (case p of
        SelectField (Some e) as \<Rightarrow> rcats [rcheck env p, rpart R AnyExpr Plain e, render_alias env as]
      | _ \<Rightarrow> refused env p)"

text \<open>The result of rendering a string value is not tested: an error is taken as an empty text.\<close>

definition unless_error :: "string rst \<Rightarrow> string rst" where
  "unless_error m = (\<lambda>u. bind_outcome (m u) (\<lambda>(r, u). Returns (Inr (case r of Inl _ \<Rightarrow> [] | Inr s \<Rightarrow> s), u)))"

definition default_render_select_target :: "'v rendering \<Rightarrow> 'v renderer \<Rightarrow> 'v part \<Rightarrow> string rst" where
  "default_render_select_target env R p =
     (case p of
        SelectTarget (Some e) as \<Rightarrow>
          rcats
            [rcheck env p,
             (case part_value e of
                Some (ValString _) \<Rightarrow> unless_error (rpart R AnyExpr TargetOf e)
              | _ \<Rightarrow> rpart R AnyExpr Plain e),
             render_alias env as]
      | _ \<Rightarrow> refused env p)"

definition join_text :: "bool \<Rightarrow> join_type \<Rightarrow> string" where
  "join_text nice t =
     (let nl = (if nice then [CHR 0x0A, CHR 0x09] else []) in
      case t of
        JoinCross \<Rightarrow> '','' @ nl
      | JoinNatural \<Rightarrow> nl @ ''NATURAL JOIN''
      | JoinInner \<Rightarrow> nl @ ''INNER JOIN''
      | JoinLeft \<Rightarrow> nl @ ''LEFT JOIN''
      | JoinRight \<Rightarrow> nl @ ''RIGHT JOIN''
      | JoinFull \<Rightarrow> nl @ ''FULL JOIN'')"

text \<open>\<open>targets\<close> are those of the \<open>FROM\<close> part that the join is in.\<close>

definition default_render_select_join ::
    "'v rendering \<Rightarrow> 'v renderer \<Rightarrow> 'v part list \<Rightarrow> 'v part \<Rightarrow> string rst" where
  "default_render_select_join env R targets p =
     (case p of
        SelectJoin t pos e use \<Rightarrow>
          rcats
            [rcheck env p, rret (join_text (pretty env) t),
             (if 0 \<le> pos \<and> nat pos < length targets \<and> part_type (targets ! nat pos) = AnySelectTarget
              then rcats [rret '' '', rpart R AnySelectTarget Plain (targets ! nat pos)]
              else rfail StructureContents),
             (case e of
                Some c \<Rightarrow> rcats [rret '' ON ('', rpart R AnyExpr Plain c, rret '')'']
              | None \<Rightarrow>
                  if use = [] then rret []
                  else rcats
                    [rret '' USING ('',
                     rlist (\<lambda>first f. rcats [rwhen (\<not> first) '', '', rpart R AnyField Plain f]) True use,
                     rret '')''])]
      | _ \<Rightarrow> refused env p)"

definition find_join_for_pos :: "'v part list \<Rightarrow> int \<Rightarrow> 'v part option" where
  "find_join_for_pos joins pos =
     List.find (\<lambda>j. case j of SelectJoin _ q _ _ \<Rightarrow> q = pos | _ \<Rightarrow> False) joins"

definition render_from_element ::
    "'v rendering \<Rightarrow> 'v renderer \<Rightarrow> 'v part list \<Rightarrow> 'v part list \<Rightarrow> nat \<times> 'v part \<Rightarrow> string rst" where
  "render_from_element env R targets joins it =
     (case (if fst it = 0 then None else find_join_for_pos joins (int (fst it))) of
        Some j \<Rightarrow>
          rcats [rwhen (\<not> pretty env) '' '', default_render_select_join env R targets j, rwhen (\<not> pretty env) '' '']
      | None \<Rightarrow>
          rcats
            [rwhen (fst it \<noteq> 0) (if pretty env then [CHR '','', CHR 0x0A, CHR 0x09] else '', ''),
             rpart R AnySelectTarget Plain (snd it)])"

definition default_render_select_from :: "'v rendering \<Rightarrow> 'v renderer \<Rightarrow> 'v part \<Rightarrow> string rst" where
  "default_render_select_from env R p =
     (case p of
        SelectFrom targets joins \<Rightarrow>
          rcats
            [rcheck env p, rret ''FROM '',
             rlist (\<lambda>_. render_from_element env R targets joins) True (List.enumerate 0 targets)]
      | _ \<Rightarrow> refused env p)"

definition default_render_select_order :: "'v rendering \<Rightarrow> 'v renderer \<Rightarrow> 'v part \<Rightarrow> string rst" where
  "default_render_select_order env R p =
     (case p of
        SelectOrder (Some e) asc coll \<Rightarrow>
          rcats
            [rcheck env p, rpart R AnyExpr Plain e, ropt coll (\<lambda>c. rret ('' COLLATE '' @ c)),
             rret (if asc then '' ASC'' else '' DESC'')]
      | _ \<Rightarrow> refused env p)"

section \<open>Statements\<close>

definition newline :: "'v rendering \<Rightarrow> string \<Rightarrow> string" where
  "newline env s = (if pretty env then CHR 0x0A # s else CHR '' '' # s)"

definition new_tab :: "'v rendering \<Rightarrow> bool \<Rightarrow> string rst" where
  "new_tab env b = rwhen (pretty env \<and> b) [CHR 0x0A, CHR 0x09]"

definition default_render_distinct :: "'v rendering \<Rightarrow> 'v renderer \<Rightarrow> 'v part option \<Rightarrow> string rst" where
  "default_render_distinct env R e =
     rcats
       [rret ''DISTINCT'', ropt e (\<lambda>e. rcats [rret '' ON ('', rpart R AnyExpr Plain e, rret '') '']),
        rwhen (pretty env) [CHR 0x0A]]"

definition default_render_select :: "'v rendering \<Rightarrow> 'v renderer \<Rightarrow> 'v part \<Rightarrow> string rst" where
  "default_render_select env R p =
     (case p of
        Select dist de es from wh gr hav ord lim off \<Rightarrow>
          rcats
            [rret ''SELECT '',
             (if dist then rcats [default_render_distinct env R de, rret '' ''] else rret []),
             rlist (\<lambda>first e. rcats [rwhen (\<not> first) '', '', new_tab env True, rpart R AnySelectField Plain e]) True es,
             ropt from (\<lambda>f. rcats [rret (newline env []), rpart R AnySelectFrom Plain f]),
             ropt wh (\<lambda>e. rcats [rret (newline env ''WHERE ''), rpart R AnyExpr ConditionOf e]),
             rlist (\<lambda>first e. rcats [rret (if first then newline env ''GROUP BY '' else '', ''), rpart R AnyExpr Plain e]) True gr,
             ropt hav (\<lambda>e. rcats [rret (newline env ''HAVING ''), rpart R AnyExpr ConditionOf e]),
             rlist (\<lambda>first e. rcats [rret (if first then newline env ''ORDER BY '' else '', ''), rpart R AnySelectOrder Plain e]) True ord,
             ropt lim (\<lambda>e. rcats
               [rret '' LIMIT '', rpart R AnyExpr Plain e,
                ropt off (\<lambda>x. rcats [rret '' OFFSET '', rpart R AnyExpr Plain x])])]
      | _ \<Rightarrow> rfail NoErrorSet)"

definition render_values :: "'v rendering \<Rightarrow> 'v renderer \<Rightarrow> bool \<Rightarrow> 'v part list \<Rightarrow> string rst" where
  "render_values env R first vs =
     rcats
       [rret (if first then newline env ''VALUES'' else '',''),
        rlist (\<lambda>first e. rcats [rret (if first then '' ('' else '', ''), new_tab env (\<not> first), rpart R AnyExpr Plain e]) True vs,
        rret '')'']"

text \<open>The statement that is inserted is given to the renderer of \<open>SELECT\<close>, even if it is a compound.\<close>

definition default_render_insert :: "'v rendering \<Rightarrow> 'v renderer \<Rightarrow> 'v part \<Rightarrow> string rst" where
  "default_render_insert env R p =
     (case p of
        Insert conflict (Some table) cols vals sel \<Rightarrow>
          rcats
            [rret ''INSERT '', ropt conflict (\<lambda>c. rret (''OR '' @ c @ '' '')), rret ''INTO '', rpart R AnyTable Plain table,
             rlist (\<lambda>first f. rcats [rret (if first then '' ('' else '', ''), rpart R AnyField Plain f]) True cols,
             rwhen (cols \<noteq> []) '')'',
             (case sel of
                Some q \<Rightarrow> rcats [rret (newline env []), rpart R StmtSelect Plain q]
              | None \<Rightarrow>
                  rcats [rlist (render_values env R) True vals, rwhen (cols = [] \<and> vals = []) '' DEFAULT VALUES''])]
      | _ \<Rightarrow> rfail NoErrorSet)"

definition default_render_delete :: "'v rendering \<Rightarrow> 'v renderer \<Rightarrow> 'v part \<Rightarrow> string rst" where
  "default_render_delete env R p =
     (case p of
        Delete (Some table) cond \<Rightarrow>
          rcats
            [rret ''DELETE FROM '', rpart R AnyTable Plain table,
             ropt cond (\<lambda>e. rcats [rret '' WHERE '', rpart R AnyExpr ConditionOf e])]
      | _ \<Rightarrow> rfail NoErrorSet)"

definition default_render_update :: "'v rendering \<Rightarrow> 'v renderer \<Rightarrow> 'v part \<Rightarrow> string rst" where
  "default_render_update env R p =
     (case p of
        Update conflict (Some table) cols es cond \<Rightarrow>
          rcats
            [rret ''UPDATE '', ropt conflict (\<lambda>c. rret (''OR '' @ c @ '' '')), rpart R AnyTable Plain table,
             rret (newline env ''SET ''),
             rlist (\<lambda>first (f, e). rcats
               [rwhen (\<not> first) '', '', new_tab env (\<not> first), rpart R AnyField Plain f, rret ''='', rpart R AnyExpr Plain e])
               True (zip cols es),
             ropt cond (\<lambda>e. rcats [rret (newline env ''WHERE ''), rpart R AnyExpr ConditionOf e])]
      | _ \<Rightarrow> rfail NoErrorSet)"

definition compound_text :: "compound_type \<Rightarrow> string" where
  "compound_text t =
     (case t of Union \<Rightarrow> '' UNION '' | UnionAll \<Rightarrow> '' UNION ALL '' | Intersect \<Rightarrow> '' INTERSECT ''
      | IntersectAll \<Rightarrow> '' INTERSECT ALL '' | Except \<Rightarrow> '' EXCEPT '' | ExceptAll \<Rightarrow> '' EXCEPT ALL '')"

definition default_render_compound :: "'v rendering \<Rightarrow> 'v renderer \<Rightarrow> 'v part \<Rightarrow> string rst" where
  "default_render_compound env R p =
     (case p of
        Compound t ss \<Rightarrow>
          rlist (\<lambda>first s. rcats [rwhen (\<not> first) (compound_text t), render_query R Plain s]) True ss
      | _ \<Rightarrow> rfail NoErrorSet)"

definition default_render_unknown :: "'v renderer \<Rightarrow> 'v part \<Rightarrow> string rst" where
  "default_render_unknown R p =
     (case p of Unknown es \<Rightarrow> rlist (\<lambda>_. rpart R AnyExpr Plain) True es | _ \<Rightarrow> rfail NoErrorSet)"

text \<open>The functions that the context has for the types of parts.\<close>

definition render_part :: "'v rendering \<Rightarrow> 'v renderer \<Rightarrow> 'v renderer" where
  "render_part env R m p =
     (case part_type p of
        AnyExpr \<Rightarrow> default_render_expr env R m p
      | t \<Rightarrow> flagged False
          (case t of
             AnyField \<Rightarrow> default_render_field env p
           | AnyTable \<Rightarrow> default_render_table env p
           | AnyFunction \<Rightarrow> default_render_function env R p
           | AnyOperation \<Rightarrow> default_render_operation env R p
           | AnyCase \<Rightarrow> default_render_case env R p
           | AnySelectField \<Rightarrow> default_render_select_field env R p
           | AnySelectTarget \<Rightarrow> default_render_select_target env R p
           | AnySelectFrom \<Rightarrow> default_render_select_from env R p
           | AnySelectOrder \<Rightarrow> default_render_select_order env R p
           | StmtSelect \<Rightarrow> default_render_select env R p
           | StmtInsert \<Rightarrow> default_render_insert env R p
           | StmtDelete \<Rightarrow> default_render_delete env R p
           | StmtUpdate \<Rightarrow> default_render_update env R p
           | StmtCompound \<Rightarrow> default_render_compound env R p
           | StmtUnknown \<Rightarrow> default_render_unknown R p
           | _ \<Rightarrow> rfail NoErrorSet))"

text \<open>What is rendered of a part depends on the renderings of smaller parts only.\<close>

lemma rlist_cong: "ps = qs \<Longrightarrow> (\<And>b p. p \<in> set qs \<Longrightarrow> f b p = g b p) \<Longrightarrow> rlist f b ps = rlist g b qs"
proof (induction qs arbitrary: ps b)
  case (Cons q qs)
  then show ?case by simp
qed simp

lemma ropt_cong: "x = y \<Longrightarrow> (\<And>p. y = Some p \<Longrightarrow> f p = g p) \<Longrightarrow> ropt x f = ropt y g"
  by (simp add: ropt_def split: option.splits)

lemma rpart_cong: "R m p = S m p \<Longrightarrow> rpart R t m p = rpart S t m p"
  by (simp add: rpart_def)

lemma render_query_cong: "R Plain q = S Plain q \<Longrightarrow> render_query R m q = render_query S m q"
  by (simp add: render_query_def rpart_def)

lemma render_operands_cong: "(\<And>p. p \<in> set ps \<Longrightarrow> R Plain p = S Plain p) \<Longrightarrow> render_operands R ps = render_operands S ps"
  by (induction ps) simp_all

lemma select_join_cong:
  assumes "\<And>m p. p \<in> set targets \<Longrightarrow> R m p = S m p" "\<And>m p. p \<in> set (sub_parts j) \<Longrightarrow> R m p = S m p"
  shows "default_render_select_join env R targets j = default_render_select_join env S targets j"
proof (cases j)
  case (SelectJoin t q e use)
  have target: "rpart R u m (targets ! nat q) = rpart S u m (targets ! nat q)" if "nat q < length targets" for u m
    by (rule rpart_cong, rule assms(1), rule nth_mem [OF that])
  have expr: "rpart R u m c = rpart S u m c" if "e = Some c" for u m c
    by (rule rpart_cong, rule assms(2)) (simp add: SelectJoin that)
  have use: "rpart R u m c = rpart S u m c" if "c \<in> set use" for u m c
    by (rule rpart_cong, rule assms(2)) (simp add: SelectJoin that)
  have use: "rlist (\<lambda>first f. rcats [rwhen (\<not> first) '', '', rpart R AnyField Plain f]) True use =
             rlist (\<lambda>first f. rcats [rwhen (\<not> first) '', '', rpart S AnyField Plain f]) True use"
    by (rule rlist_cong [OF refl]) (simp only: use)
  show ?thesis
    unfolding default_render_select_join_def SelectJoin part.case use
    by (cases e; cases "nat q < length targets") (simp_all add: target expr)
qed (simp_all add: default_render_select_join_def)

lemma render_from_element_cong:
  assumes "\<And>m p. p \<in> set targets \<Longrightarrow> R m p = S m p" "\<And>j m p. j \<in> set joins \<Longrightarrow> p \<in> set (sub_parts j) \<Longrightarrow> R m p = S m p"
    and "it \<in> set (List.enumerate 0 targets)"
  shows "render_from_element env R targets joins it = render_from_element env S targets joins it"
proof -
  have "(fst it, snd it) \<in> set (zip [0..<length targets] targets)" using assms(3) by (simp add: enumerate_eq_zip)
  then have "snd it \<in> set targets" by (rule set_zip_rightD)
  then have t: "rpart R u m (snd it) = rpart S u m (snd it)" for u m by (intro rpart_cong assms(1))
  have j: "default_render_select_join env R targets j = default_render_select_join env S targets j"
    if "find_join_for_pos joins pos = Some j" for j pos
  proof -
    have "j \<in> set joins" using that by (auto simp: find_join_for_pos_def find_Some_iff)
    then show ?thesis by (intro select_join_cong assms)
  qed
  show ?thesis
    unfolding render_from_element_def t by (cases "find_join_for_pos joins (int (fst it))") (simp_all add: j)
qed

declare rcats.simps [simp del]

text \<open>The same for all parts; the parts below the joins of a \<open>FROM\<close> are rendered by it.\<close>

definition same_below :: "'v renderer \<Rightarrow> 'v renderer \<Rightarrow> 'v part \<Rightarrow> bool" where
  "same_below R S p \<longleftrightarrow> (\<forall>m c. size c < size p \<longrightarrow> R m c = S m c)"

lemma same_below_rpart:
  "same_below R S p \<Longrightarrow> c \<in> set (sub_parts p) \<Longrightarrow> rpart R t m c = rpart S t m c"
  by (rule rpart_cong) (simp add: same_below_def sub_parts_size)

lemma same_below_query:
  "same_below R S p \<Longrightarrow> c \<in> set (sub_parts p) \<Longrightarrow> render_query R m c = render_query S m c"
  by (rule render_query_cong) (simp add: same_below_def sub_parts_size)

lemma same_below_rlist:
  "(\<And>b c. c \<in> set ps \<Longrightarrow> f b c = g b c) \<Longrightarrow> rlist f b ps = rlist g b ps"
  by (rule rlist_cong [OF refl])

lemma render_part_cong:
  assumes same: "same_below R S p"
  shows "render_part env R m p = render_part env S m p"
proof -
  note sub = same_below_rpart [OF same] same_below_query [OF same]
  show ?thesis
  proof (cases p)
    case (Expr v ps func cond sel cs cast ident)
    then show ?thesis using sub
      by (cases ps; cases v; cases func; cases cond; cases sel; cases cs)
        (simp_all add: render_part_def default_render_expr_def render_contents_def)
  next
    case (Function n args)
    have "rlist (\<lambda>first e. rcats [rwhen (\<not> first) '', '', rwhen (has_query e) ''('', rpart R AnyExpr ArgumentOf e, rwhen (has_query e) '')'']) True args
        = rlist (\<lambda>first e. rcats [rwhen (\<not> first) '', '', rwhen (has_query e) ''('', rpart S AnyExpr ArgumentOf e, rwhen (has_query e) '')'']) True args"
      by (rule same_below_rlist) (simp add: sub Function)
    then show ?thesis using Function by (cases n) (simp_all add: render_part_def default_render_function_def)
  next
    case (Operation op ops)
    have "render_operands R ops = render_operands S ops"
      using same sub_parts_size [of _ p] Operation by (intro render_operands_cong) (auto simp: same_below_def)
    then show ?thesis using Operation by (simp add: render_part_def default_render_operation_def)
  next
    case (Case base ws ts els)
    have "rlist (\<lambda>_ (w, t). rcats [rret '' WHEN '', rpart R AnyExpr Plain w, rret '' THEN '', rpart R AnyExpr Plain t]) True (zip ws ts)
        = rlist (\<lambda>_ (w, t). rcats [rret '' WHEN '', rpart S AnyExpr Plain w, rret '' THEN '', rpart S AnyExpr Plain t]) True (zip ws ts)"
    proof (rule same_below_rlist)
      fix b and c :: "'a part \<times> 'a part"
      obtain w t where c: "c = (w, t)" by (cases c)
      assume "c \<in> set (zip ws ts)"
      then have "w \<in> set ws" "t \<in> set ts" unfolding c by (rule set_zip_leftD, rule set_zip_rightD)
      then show "(case c of (w, t) \<Rightarrow> rcats [rret '' WHEN '', rpart R AnyExpr Plain w, rret '' THEN '', rpart R AnyExpr Plain t]) =
          (case c of (w, t) \<Rightarrow> rcats [rret '' WHEN '', rpart S AnyExpr Plain w, rret '' THEN '', rpart S AnyExpr Plain t])"
        by (simp add: sub Case c)
    qed
    moreover have "ropt x (\<lambda>e. rcats [rret s, rpart R AnyExpr Plain e]) = ropt x (\<lambda>e. rcats [rret s, rpart S AnyExpr Plain e])"
      if "x = base \<or> x = els" for x s
      using that by (intro ropt_cong) (auto simp: sub Case)
    ultimately show ?thesis using Case by (simp add: render_part_def default_render_case_def)
  next
    case (SelectField e as)
    then show ?thesis using sub by (cases e) (simp_all add: render_part_def default_render_select_field_def)
  next
    case (SelectTarget e as)
    then show ?thesis using sub
      by (cases e) (simp_all add: render_part_def default_render_select_target_def split: option.split sql_value.split)
  next
    case (SelectFrom targets joins)
    have "rlist (\<lambda>_. render_from_element env R targets joins) True (List.enumerate 0 targets) =
          rlist (\<lambda>_. render_from_element env S targets joins) True (List.enumerate 0 targets)"
    proof (rule same_below_rlist, rule render_from_element_cong)
      show "R m c = S m c" if "c \<in> set targets" for m c
        using same that sub_parts_size [of c p] SelectFrom by (simp add: same_below_def)
      show "R m c = S m c" if "j \<in> set joins" "c \<in> set (sub_parts j)" for j m c
        using same that(1) sub_parts_size [OF that(2)] sub_parts_size [of j p] SelectFrom by (simp add: same_below_def)
    qed
    then show ?thesis using SelectFrom by (simp add: render_part_def default_render_select_from_def)
  next
    case (SelectOrder e asc coll)
    then show ?thesis using sub by (cases e) (simp_all add: render_part_def default_render_select_order_def)
  next
    case (Select dist de es frm wh gr hav ord lim off)
    have *: "ropt x (\<lambda>e. rcats [t, rpart R u k e]) = ropt x (\<lambda>e. rcats [t, rpart S u k e])"
      "ropt x (\<lambda>e. rcats [t, rpart R u k e, v]) = ropt x (\<lambda>e. rcats [t, rpart S u k e, v])"
      if "x \<in> {de, frm, wh, hav, lim, off}" for x t u k v
      using that by (auto intro!: ropt_cong simp: sub Select)
    have **: "rlist (\<lambda>first e. rcats [f first, rpart R u k e]) True xs = rlist (\<lambda>first e. rcats [f first, rpart S u k e]) True xs"
      "rlist (\<lambda>first e. rcats [g first, f first, rpart R u k e]) True xs = rlist (\<lambda>first e. rcats [g first, f first, rpart S u k e]) True xs"
      if "xs \<in> {es, gr, ord}" for xs f g u k
      using that by (auto intro!: same_below_rlist simp: sub Select)
    have "default_render_distinct env R de = default_render_distinct env S de"
      by (simp add: default_render_distinct_def *)
    moreover have "ropt lim (\<lambda>e. rcats [rret '' LIMIT '', rpart R AnyExpr Plain e, ropt off (\<lambda>x. rcats [rret '' OFFSET '', rpart R AnyExpr Plain x])]) =
        ropt lim (\<lambda>e. rcats [rret '' LIMIT '', rpart S AnyExpr Plain e, ropt off (\<lambda>x. rcats [rret '' OFFSET '', rpart S AnyExpr Plain x])])"
      by (auto intro!: ropt_cong simp: sub Select *)
    ultimately show ?thesis using Select
      by (simp add: render_part_def default_render_select_def * **)
  next
    case (Insert conflict table cols vals sel)
    have "rlist (\<lambda>first f. rcats [rret (if first then '' ('' else '', ''), rpart R AnyField Plain f]) True cols =
        rlist (\<lambda>first f. rcats [rret (if first then '' ('' else '', ''), rpart S AnyField Plain f]) True cols"
      by (rule same_below_rlist) (simp add: sub Insert)
    moreover have "rpart R u k e = rpart S u k e" if "e \<in> set vs" "vs \<in> set vals" for vs e u k
      using that sub(1) [of e u k] Insert by auto
    then have "rlist (render_values env R) True vals = rlist (render_values env S) True vals"
      by (intro same_below_rlist) (auto simp: render_values_def intro!: arg_cong [of _ _ rcats] same_below_rlist)
    ultimately show ?thesis using Insert
      by (cases table; cases sel) (simp_all add: render_part_def default_render_insert_def sub)
  next
    case (Update conflict table cols es cond)
    have "rlist (\<lambda>first (f, e). rcats [rwhen (\<not> first) '', '', new_tab env (\<not> first), rpart R AnyField Plain f, rret ''='', rpart R AnyExpr Plain e]) True (zip cols es) =
        rlist (\<lambda>first (f, e). rcats [rwhen (\<not> first) '', '', new_tab env (\<not> first), rpart S AnyField Plain f, rret ''='', rpart S AnyExpr Plain e]) True (zip cols es)"
    proof (rule same_below_rlist)
      fix first and c :: "'a part \<times> 'a part"
      obtain f e where c: "c = (f, e)" by (cases c)
      assume "c \<in> set (zip cols es)"
      then have "f \<in> set cols" "e \<in> set es" unfolding c by (rule set_zip_leftD, rule set_zip_rightD)
      then show "(case c of (f, e) \<Rightarrow> rcats [rwhen (\<not> first) '', '', new_tab env (\<not> first), rpart R AnyField Plain f, rret ''='', rpart R AnyExpr Plain e]) =
          (case c of (f, e) \<Rightarrow> rcats [rwhen (\<not> first) '', '', new_tab env (\<not> first), rpart S AnyField Plain f, rret ''='', rpart S AnyExpr Plain e])"
        by (simp add: sub Update c)
    qed
    then show ?thesis using Update
      by (cases table; cases cond) (simp_all add: render_part_def default_render_update_def ropt_def sub)
  next
    case (Delete table cond)
    then show ?thesis
      by (cases table; cases cond) (simp_all add: render_part_def default_render_delete_def ropt_def sub)
  next
    case (Compound t ss)
    have "rlist (\<lambda>first s. rcats [rwhen (\<not> first) (compound_text t), render_query R Plain s]) True ss =
        rlist (\<lambda>first s. rcats [rwhen (\<not> first) (compound_text t), render_query S Plain s]) True ss"
      by (rule same_below_rlist) (simp add: sub Compound)
    then show ?thesis using Compound by (simp add: render_part_def default_render_compound_def)
  next
    case (Unknown es)
    have "rlist (\<lambda>_. rpart R AnyExpr Plain) True es = rlist (\<lambda>_. rpart S AnyExpr Plain) True es"
      by (rule same_below_rlist) (simp add: sub Unknown)
    then show ?thesis using Unknown by (simp add: render_part_def default_render_unknown_def)
  qed (simp_all add: render_part_def default_render_field_def default_render_table_def)
qed

lemma render_part_fundef_cong [fundef_cong]:
  "env = env' \<Longrightarrow> m = m' \<Longrightarrow> p = p' \<Longrightarrow> (\<And>k c. size c < size p' \<Longrightarrow> R k c = S k c) \<Longrightarrow>
     render_part env R m p = render_part env' S m' p'"
  using render_part_cong [of R S p' env' m'] by (simp add: same_below_def)

function render :: "'v rendering \<Rightarrow> 'v renderer" where
  "render env m p = render_part env (render env) m p"
  by pat_completeness auto
termination
  by (relation "measure (\<lambda>(env, m, p). size p)") auto

declare render.simps [simp del]

section \<open>A statement\<close>

text \<open>
  \<open>sql\<close> is the text that a statement for transactions was parsed from: without functions of the provider for these
  it is what they are rendered as.
\<close>

definition gda_statement_to_sql_real :: "'v rendering \<Rightarrow> string option \<Rightarrow> 'v part \<Rightarrow> string rst" where
  "gda_statement_to_sql_real env sql p =
     rbind (rcheck env p) (\<lambda>_.
       case part_type p of
         StmtTrans \<Rightarrow> (case sql of Some s \<Rightarrow> rret s | None \<Rightarrow> rfail StructureContents)
       | StmtUnknown \<Rightarrow> rpart (render env) StmtUnknown Plain p
       | StmtSelect \<Rightarrow> rpart (render env) StmtSelect Plain p
       | StmtInsert \<Rightarrow> rpart (render env) StmtInsert Plain p
       | StmtDelete \<Rightarrow> rpart (render env) StmtDelete Plain p
       | StmtUpdate \<Rightarrow> rpart (render env) StmtUpdate Plain p
       | StmtCompound \<Rightarrow> rpart (render env) StmtCompound Plain p
       | _ \<Rightarrow> rfail NoErrorSet)"

text \<open>The text and the names of the parameters used.\<close>

definition gda_statement_to_sql_extended ::
    "'v rendering \<Rightarrow> string option \<Rightarrow> 'v part \<Rightarrow> (sql_error + string \<times> string list) outcome" where
  "gda_statement_to_sql_extended env sql p =
     bind_outcome (gda_statement_to_sql_real env sql p []) (\<lambda>(r, used).
       Returns (case r of Inl e \<Rightarrow> Inl e | Inr s \<Rightarrow> Inr (s, used)))"

end
