(* ===== verification/Gda_Render_Layout.thy ===== *)
theory Gda_Render_Layout
  imports Gda_Render_Props
begin

text \<open>
  The pretty rendering of a statement differs from the plain one by white space only, has the same errors and uses the
  same parameters.
\<close>

section \<open>Texts that differ by white space\<close>

definition squeeze :: "string \<Rightarrow> string" where
  "squeeze s = filter (\<lambda>c. c \<noteq> CHR '' '' \<and> c \<noteq> CHR 0x0A \<and> c \<noteq> CHR 0x09) s"

definition weak :: "string \<Rightarrow> string \<Rightarrow> bool" where
  "weak s t \<longleftrightarrow> squeeze s = squeeze t"

text \<open>Texts that also begin with the same character, as the rendering of \<open>IN\<close> looks at it.\<close>

definition strong :: "string \<Rightarrow> string \<Rightarrow> bool" where
  "strong s t \<longleftrightarrow> squeeze s = squeeze t \<and> take 1 s = take 1 t"

lemma squeeze_append [simp]: "squeeze (s @ t) = squeeze s @ squeeze t"
  by (simp add: squeeze_def)

lemma strong_weak: "strong s t \<Longrightarrow> weak s t"
  by (simp add: strong_def weak_def)

lemma strong_refl [simp]: "strong s s"
  by (simp add: strong_def)

lemma weak_refl [simp]: "weak s s"
  by (simp add: weak_def)

lemma weak_append: "weak s s' \<Longrightarrow> weak t t' \<Longrightarrow> weak (s @ t) (s' @ t')"
  by (simp add: weak_def)

lemma strong_append: "strong s s' \<Longrightarrow> strong t t' \<Longrightarrow> strong (s @ t) (s' @ t')"
  by (cases s; cases s') (auto simp: strong_def squeeze_def)

lemma strong_Cons: "strong s t \<Longrightarrow> strong (c # s) (c # t)"
  by (auto simp: strong_def squeeze_def)

lemmas strong_intros = strong_append strong_Cons strong_refl

lemma strong_prefix: "s \<noteq> [] \<Longrightarrow> weak t t' \<Longrightarrow> strong (s @ t) (s @ t')"
  by (cases s) (auto simp: strong_def weak_def squeeze_def)

lemma strong_head: "strong s t \<Longrightarrow> (s = [] \<longleftrightarrow> t = []) \<and> hd s = hd t"
  by (cases s; cases t) (auto simp: strong_def)

section \<open>Renderings that differ by white space\<close>

definition rel :: "('a \<Rightarrow> 'a \<Rightarrow> bool) \<Rightarrow> 'a rst \<Rightarrow> 'a rst \<Rightarrow> bool" where
  "rel P m n \<longleftrightarrow> (\<forall>u. rel_outcome (rel_prod (rel_sum (=) P) (=)) (m u) (n u))"

lemma rel_mono: "(\<And>x y. P x y \<Longrightarrow> Q x y) \<Longrightarrow> rel P m n \<Longrightarrow> rel Q m n"
  unfolding rel_def by (fastforce elim!: outcome.rel_mono_strong prod.rel_mono_strong sum.rel_mono_strong)

lemma rel_same: "(\<And>x. P x x) \<Longrightarrow> rel P m m"
  unfolding rel_def by (intro allI outcome.rel_refl_strong prod.rel_refl_strong sum.rel_refl_strong) simp_all

lemma rel_rret: "P x y \<Longrightarrow> rel P (rret x) (rret y)"
  by (simp add: rel_def rret_def)

lemma rel_rfail: "rel P (rfail e) (rfail e)"
  by (simp add: rel_def rfail_def)

lemma rel_rbind:
  assumes "rel P m n" "\<And>x y. P x y \<Longrightarrow> rel Q (f x) (g y)"
  shows "rel Q (rbind m f) (rbind n g)"
  unfolding rel_def
proof
  fix u
  have "rel_outcome (rel_prod (rel_sum (=) P) (=)) (m u) (n u)" using assms(1) by (simp add: rel_def)
  then show "rel_outcome (rel_prod (rel_sum (=) Q) (=)) (rbind m f u) (rbind n g u)"
  proof (cases rule: outcome.rel_cases)
    case (Returns x y)
    then show ?thesis using assms(2) by (cases x; cases y) (auto simp: rbind_def rel_def elim!: rel_sum.cases)
  qed (simp add: rbind_def)
qed

abbreviation S :: "string rst \<Rightarrow> string rst \<Rightarrow> bool" where "S \<equiv> rel strong"
abbreviation W :: "string rst \<Rightarrow> string rst \<Rightarrow> bool" where "W \<equiv> rel weak"

definition same_layout :: "(string \<times> bool) rst \<Rightarrow> (string \<times> bool) rst \<Rightarrow> bool" where
  "same_layout = rel (\<lambda>x y. strong (fst x) (fst y) \<and> snd x = snd y)"

lemma S_W: "S m n \<Longrightarrow> W m n"
  by (rule rel_mono [OF strong_weak])

lemma S_refl [simp]: "S m m"
  by (rule rel_same) simp

lemma W_refl [simp]: "W m m"
  by (rule rel_same) (simp add: weak_def)

lemma S_Cons: "S m n \<Longrightarrow> S (rcats ms) (rcats ns) \<Longrightarrow> S (rcats (m # ms)) (rcats (n # ns))"
  unfolding rcats.simps by (rule rel_rbind, assumption) (erule rel_rbind, auto intro: rel_rret strong_append)

lemma W_Cons: "W m n \<Longrightarrow> W (rcats ms) (rcats ns) \<Longrightarrow> W (rcats (m # ms)) (rcats (n # ns))"
  unfolding rcats.simps by (rule rel_rbind, assumption) (erule rel_rbind, auto intro: rel_rret weak_append)

lemma S_text:
  assumes "c \<noteq> []" "W (rcats ms) (rcats ns)"
  shows "S (rcats (rret c # ms)) (rcats (rret c # ns))"
proof -
  have "rcats (rret c # ks) = rbind (rcats ks) (\<lambda>b. rret (c @ b))" for ks
    by (simp add: rcats.simps rbind_def rret_def)
  then show ?thesis using assms by (auto intro!: rel_rbind [of weak] rel_rret strong_prefix)
qed

lemma S_rlist: "(\<And>b p. p \<in> set ps \<Longrightarrow> S (f b p) (g b p)) \<Longrightarrow> S (rlist f b ps) (rlist g b ps)"
  by (induction ps arbitrary: b) (auto intro!: S_Cons)

lemma W_rlist: "(\<And>b p. p \<in> set ps \<Longrightarrow> W (f b p) (g b p)) \<Longrightarrow> W (rlist f b ps) (rlist g b ps)"
  by (induction ps arbitrary: b) (auto intro!: W_Cons)

lemma S_ropt: "(\<And>p. x = Some p \<Longrightarrow> S (f p) (g p)) \<Longrightarrow> S (ropt x f) (ropt x g)"
  by (cases x) (simp_all add: ropt_def)

lemma W_ropt: "(\<And>p. x = Some p \<Longrightarrow> W (f p) (g p)) \<Longrightarrow> W (ropt x f) (ropt x g)"
  by (cases x) (simp_all add: ropt_def)

lemma S_rpart: "same_layout (R m p) (R' m p) \<Longrightarrow> S (rpart R t m p) (rpart R' t m p)"
  by (auto simp: rpart_def same_layout_def intro!: rel_rbind rel_rret rel_rfail)

lemma S_unless_error: "S m n \<Longrightarrow> S (unless_error m) (unless_error n)"
  unfolding rel_def
proof
  fix u
  assume "\<forall>u. rel_outcome (rel_prod (rel_sum (=) strong) (=)) (m u) (n u)"
  then have "rel_outcome (rel_prod (rel_sum (=) strong) (=)) (m u) (n u)" by blast
  then show "rel_outcome (rel_prod (rel_sum (=) strong) (=)) (unless_error m u) (unless_error n u)"
  proof (cases rule: outcome.rel_cases)
    case (Returns x y)
    then show ?thesis by (cases x; cases y) (auto simp: unless_error_def elim!: rel_sum.cases)
  qed (simp add: unless_error_def)
qed

lemma same_layout_flagged: "S m n \<Longrightarrow> same_layout (flagged b m) (flagged b n)"
  by (auto simp: same_layout_def flagged_def intro!: rel_rbind rel_rret)

lemma same_layout_refl [simp]: "same_layout m m"
  unfolding same_layout_def by (rule rel_same) simp

section \<open>Operations\<close>

definition alike :: "operand \<Rightarrow> operand \<Rightarrow> bool" where
  "alike x y \<longleftrightarrow> strong (fst x) (fst y) \<and> snd x = snd y"

lemma rel_operands:
  "(\<And>p. p \<in> set ps \<Longrightarrow> same_layout (R Plain p) (R' Plain p)) \<Longrightarrow>
     rel (list_all2 alike) (render_operands R ps) (render_operands R' ps)"
proof (induction ps)
  case (Cons p ps)
  let ?first = "\<lambda>R. if part_type p = AnyExpr then R Plain p else rfail NoErrorSet"
  have first: "rel (\<lambda>x y. strong (fst x) (fst y) \<and> snd x = snd y) (?first R) (?first R')"
    using Cons.prems [of p] by (simp add: same_layout_def rel_rfail)
  have rest: "rel (list_all2 alike) (render_operands R ps) (render_operands R' ps)"
    using Cons by simp
  show ?case
    unfolding render_operands.simps
  proof (rule rel_rbind [OF first])
    fix x y :: "string \<times> bool"
    assume xy: "strong (fst x) (fst y) \<and> snd x = snd y"
    have "rel (list_all2 alike)
        (rbind (render_operands R ps) (\<lambda>xs. rret ((fst x, snd x, is_composed p) # xs)))
        (rbind (render_operands R' ps) (\<lambda>xs. rret ((fst y, snd y, is_composed p) # xs)))"
      by (rule rel_rbind [OF rest]) (use xy in \<open>auto simp: alike_def intro!: rel_rret\<close>)
    then show "rel (list_all2 alike)
        (case x of (s, null) \<Rightarrow> rbind (render_operands R ps) (\<lambda>xs. rret ((s, null, is_composed p) # xs)))
        (case y of (s, null) \<Rightarrow> rbind (render_operands R' ps) (\<lambda>xs. rret ((s, null, is_composed p) # xs)))"
      by (simp add: case_prod_beta)
  qed
qed (simp add: rel_rret)

lemma strong_operand_text: "alike x y \<Longrightarrow> strong (operand_text x) (operand_text y)"
  by (auto simp: alike_def operand_text_def intro!: strong_intros)

lemma strong_comma_list: "list_all2 strong ss ts \<Longrightarrow> strong (comma_list ss) (comma_list ts)"
proof (induction ss ts rule: list_all2_induct)
  case (Cons s ss t ts)
  then show ?case by (cases ss; cases ts) (auto intro!: strong_intros)
qed simp

lemma strong_in_text:
  assumes "list_all2 alike xs ys" "xs \<noteq> []"
  shows "strong (in_text kw xs) (in_text kw ys)"
proof -
  obtain x xs' y ys' where xs: "xs = x # xs'" "ys = y # ys'" "alike x y" "list_all2 alike xs' ys'"
    using assms by (auto simp: list_all2_Cons1 neq_Nil_conv)
  have "list_all2 strong (map fst xs') (map fst ys')"
    using xs(4) by (auto simp: list_all2_map1 list_all2_map2 alike_def elim: list_all2_mono)
  moreover have "(length xs = 2 \<and> fst (xs ! 1) \<noteq> [] \<and> hd (fst (xs ! 1)) = CHR ''('') \<longleftrightarrow>
      (length ys = 2 \<and> fst (ys ! 1) \<noteq> [] \<and> hd (fst (ys ! 1)) = CHR ''('')"
    using xs by (cases xs'; cases ys') (auto simp: alike_def dest: strong_head list_all2_lengthD)
  ultimately show ?thesis
    using xs by (simp add: in_text_def Let_def alike_def strong_append strong_comma_list)
qed

lemma strong_multi:
  "list_all2 alike xs ys \<Longrightarrow>
     strong (concat (map (\<lambda>y. '' '' @ t @ '' '' @ operand_text y) xs)) (concat (map (\<lambda>y. '' '' @ t @ '' '' @ operand_text y) ys))"
proof (induction xs ys rule: list_all2_induct)
  case (Cons x xs y ys)
  show ?case unfolding list.map concat.simps by (intro strong_append strong_refl strong_operand_text Cons)
qed simp

lemma rel_operation_text:
  assumes "list_all2 alike xs ys"
  shows "rel_outcome strong (operation_text op xs) (operation_text op ys)"
proof (cases "multi_text op")
  case (Some t)
  show ?thesis
  proof (cases xs)
    case (Cons x xs')
    then obtain y ys' where ys: "ys = y # ys'" "alike x y" "list_all2 alike xs' ys'"
      using assms by (auto simp: list_all2_Cons1)
    then show ?thesis using Some Cons strong_multi [OF ys(3), of t] strong_operand_text [OF ys(2)]
      by (cases xs'; cases ys') (auto simp: operation_text_def alike_def intro!: strong_intros)
  qed (use assms Some in \<open>simp add: operation_text_def\<close>)
next
  case None
  have in_texts: "xs = a # as \<Longrightarrow> strong (in_text kw xs) (in_text kw ys)" for a as kw
    using strong_in_text [OF assms] by simp
  show ?thesis
  proof (cases "binary_text op")
    case (Some t)
    then show ?thesis using assms None
      by (auto simp: operation_text_def alike_def list_all2_Cons1 list_all2_Nil2 intro!: strong_intros
          split: list.split)
  next
    case none: None
    then show ?thesis using assms None in_texts
      by (cases op)
        (auto simp: operation_text_def alike_def list_all2_Cons1 multi_text_def binary_text_def intro!: strong_intros
          split: list.split)
  qed
qed

section \<open>What does not look at the flag\<close>

lemma pretty_free [simp]:
  "rcheck (env\<lparr>pretty := b\<rparr>) p = rcheck env p"
  "refused (env\<lparr>pretty := b\<rparr>) p = refused env p"
  "rquoted (env\<lparr>pretty := b\<rparr>) n s = rquoted env n s"
  "dotted_ids (env\<lparr>pretty := b\<rparr>) ids = dotted_ids env ids"
  "default_render_value (env\<lparr>pretty := b\<rparr>) v = default_render_value env v"
  "default_render_param_spec (env\<lparr>pretty := b\<rparr>) ps w = default_render_param_spec env ps w"
  "render_expr_value (env\<lparr>pretty := b\<rparr>) i v = render_expr_value env i v"
  "default_render_field (env\<lparr>pretty := b\<rparr>) p = default_render_field env p"
  "default_render_table (env\<lparr>pretty := b\<rparr>) p = default_render_table env p"
  "render_alias (env\<lparr>pretty := b\<rparr>) as = render_alias env as"
proof -
  show check: "rcheck (env\<lparr>pretty := b\<rparr>) p = rcheck env p" for p by (simp add: rcheck_def)
  show "refused (env\<lparr>pretty := b\<rparr>) p = refused env p" by (simp add: refused_def check)
  have q: "quoted (env\<lparr>pretty := b\<rparr>) s = quoted env s" for s by (simp add: quoted_def)
  show rq: "rquoted (env\<lparr>pretty := b\<rparr>) n s = rquoted env n s" for n s by (simp add: rquoted_def q)
  show dots: "dotted_ids (env\<lparr>pretty := b\<rparr>) ids = dotted_ids env ids" for ids by (simp add: dotted_ids_def rq)
  have h: "handler (env\<lparr>pretty := b\<rparr>) = handler env" by (simp add: handler_def split: option.split)
  have g: "to_gmt (env\<lparr>pretty := b\<rparr>) v = to_gmt env v" for v by (cases v) (simp_all add: to_gmt_def)
  show v: "default_render_value (env\<lparr>pretty := b\<rparr>) v = default_render_value env v" for v
    by (simp add: default_render_value_def h g split: option.split)
  have "pspec_text (env\<lparr>pretty := b\<rparr>) ps w = pspec_text env ps w"
    by (simp add: pspec_text_def pspec_long_def pspec_short_def v split: option.split sql_value.split)
  moreover have "find_holder (env\<lparr>pretty := b\<rparr>) ps = find_holder env ps" by (simp add: find_holder_def)
  moreover have "render_pspec (env\<lparr>pretty := b\<rparr>) = render_pspec env" by (simp add: render_pspec_def)
  ultimately show "default_render_param_spec (env\<lparr>pretty := b\<rparr>) ps w = default_render_param_spec env ps w"
    by (auto simp: default_render_param_spec_def v split: option.split)
  show "render_expr_value (env\<lparr>pretty := b\<rparr>) i v = render_expr_value env i v"
    by (simp add: render_expr_value_def dots split: option.split sql_value.split list.split)
  show "default_render_field (env\<lparr>pretty := b\<rparr>) p = default_render_field env p"
    by (simp add: default_render_field_def refused_def check q split: option.split part.split)
  show "default_render_table (env\<lparr>pretty := b\<rparr>) p = default_render_table env p"
    by (simp add: default_render_table_def refused_def check dots split: option.split part.split)
  show "render_alias (env\<lparr>pretty := b\<rparr>) as = render_alias env as"
    by (simp add: render_alias_def rq cong: if_cong)
qed

section \<open>The parts\<close>

definition layout_below :: "'v renderer \<Rightarrow> 'v renderer \<Rightarrow> 'v part \<Rightarrow> bool" where
  "layout_below R R' p \<longleftrightarrow> (\<forall>m c. size c < size p \<longrightarrow> same_layout (R m c) (R' m c))"

lemma layout_rpart: "layout_below R R' p \<Longrightarrow> c \<in> set (sub_parts p) \<Longrightarrow> S (rpart R t m c) (rpart R' t m c)"
  by (rule S_rpart) (simp add: layout_below_def sub_parts_size)

lemma S_query: "(\<And>m. same_layout (R m q) (R' m q)) \<Longrightarrow> S (render_query R m q) (render_query R' m q)"
  by (simp add: render_query_def S_Cons S_rpart)

lemma layout_expr:
  assumes below: "layout_below R R' p"
  shows "same_layout (default_render_expr (env\<lparr>pretty := True\<rparr>) R m p) (default_render_expr (env\<lparr>pretty := False\<rparr>) R' m p)"
proof -
  note here = layout_rpart [OF below]
  have contents: "same_layout (render_contents (env\<lparr>pretty := True\<rparr>) R m p) (render_contents (env\<lparr>pretty := False\<rparr>) R' m p)"
  proof (cases p)
    case (Expr v ps f c q cs cast ident)
    have "S (render_query R m x) (render_query R' m x)" if "q = Some x" for x
      using below sub_parts_size [of x p] Expr that by (intro S_query) (simp add: layout_below_def)
    then show ?thesis using here
      by (auto simp: Expr render_contents_def intro!: same_layout_flagged S_Cons split: option.split)
  qed (simp_all add: render_contents_def)
  have cast: "strong s t \<Longrightarrow> strong (cast_text p s) (cast_text p t)" for s t
    by (auto simp: cast_text_def intro!: strong_intros split: part.split option.split)
  have "same_layout (rbind (render_contents (env\<lparr>pretty := True\<rparr>) R m p) (\<lambda>(s, null). rret (cast_text p s, null)))
      (rbind (render_contents (env\<lparr>pretty := False\<rparr>) R' m p) (\<lambda>(s, null). rret (cast_text p s, null)))"
    using contents unfolding same_layout_def
    by (rule rel_rbind) (auto intro!: rel_rret cast)
  then show ?thesis
    unfolding default_render_expr_def pretty_free same_layout_def
    by (intro rel_rbind [OF S_refl])
qed

lemma layout_select_join:
  assumes "\<And>m c. c \<in> set targets \<Longrightarrow> same_layout (R m c) (R' m c)" "layout_below R R' j"
  shows "W (default_render_select_join (env\<lparr>pretty := True\<rparr>) R targets j) (default_render_select_join (env\<lparr>pretty := False\<rparr>) R' targets j)"
proof (cases j)
  case (SelectJoin t pos e use)
  note here = S_W [OF layout_rpart [OF assms(2)]]
  have target: "W (rpart R AnySelectTarget Plain (targets ! nat pos)) (rpart R' AnySelectTarget Plain (targets ! nat pos))"
    if "nat pos < length targets"
    by (rule S_W, rule S_rpart, rule assms(1), rule nth_mem [OF that])
  have "weak (join_text True t) (join_text False t)"
    by (cases t) (simp_all add: join_text_def weak_def squeeze_def)
  then show ?thesis using here target
    by (auto simp: SelectJoin default_render_select_join_def intro!: W_Cons W_rlist rel_rret split: option.split)
qed (simp_all add: default_render_select_join_def)

lemma layout_from_element:
  assumes "\<And>m c. c \<in> set targets \<Longrightarrow> same_layout (R m c) (R' m c)" "\<And>j. j \<in> set joins \<Longrightarrow> layout_below R R' j"
    and "it \<in> set (List.enumerate 0 targets)"
  shows "W (render_from_element (env\<lparr>pretty := True\<rparr>) R targets joins it) (render_from_element (env\<lparr>pretty := False\<rparr>) R' targets joins it)"
proof -
  have "(fst it, snd it) \<in> set (zip [0..<length targets] targets)" using assms(3) by (simp add: enumerate_eq_zip)
  then have "snd it \<in> set targets" by (rule set_zip_rightD)
  then have target: "W (rpart R t m (snd it)) (rpart R' t m (snd it))" for t m by (intro S_W S_rpart assms(1))
  have sep: "W (rwhen b (if True then [CHR '','', CHR 0x0A, CHR 0x09] else '', '')) (rwhen b (if False then [CHR '','', CHR 0x0A, CHR 0x09] else '', ''))" for b
    unfolding rwhen_def by (rule rel_rret) (simp add: weak_def squeeze_def)
  have pad: "W (rwhen (\<not> True) '' '') (rwhen (\<not> False) '' '')"
    unfolding rwhen_def by (rule rel_rret) (simp add: weak_def squeeze_def)
  have join: "W (default_render_select_join (env\<lparr>pretty := True\<rparr>) R targets j) (default_render_select_join (env\<lparr>pretty := False\<rparr>) R' targets j)"
    if "find_join_for_pos joins i = Some j" for j i
  proof (rule layout_select_join [OF assms(1)])
    have "j \<in> set joins" using that by (auto simp: find_join_for_pos_def find_Some_iff)
    then show "layout_below R R' j" by (rule assms(2))
  qed
  show ?thesis
  proof (cases "if fst it = 0 then None else find_join_for_pos joins (int (fst it))")
    case None
    then show ?thesis using target sep [of "fst it \<noteq> 0"] by (simp add: render_from_element_def W_Cons)
  next
    case (Some j)
    then have "find_join_for_pos joins (int (fst it)) = Some j" by (simp split: if_splits)
    then show ?thesis using Some join pad by (simp add: render_from_element_def W_Cons)
  qed
qed

lemma layout_element:
  assumes below: "layout_below R R' p"
    and p: "part_type p \<in> {AnyField, AnyTable, AnyFunction, AnyOperation, AnyCase, AnySelectField, AnySelectTarget, AnySelectJoin, AnySelectOrder, StmtTrans}"
  shows "same_layout (render_part (env\<lparr>pretty := True\<rparr>) R m p) (render_part (env\<lparr>pretty := False\<rparr>) R' m p)"
proof -
  note here = layout_rpart [OF below]
  note rules = same_layout_flagged S_Cons S_rlist S_ropt
  show ?thesis
  proof (cases p)
    case (Function n args)
    then show ?thesis using here
      by (cases n) (auto simp: render_part_def default_render_function_def intro!: rules)
  next
    case (Operation op ops)
    have "rel (list_all2 alike) (render_operands R ops) (render_operands R' ops)"
      using below sub_parts_size [of _ p] Operation by (intro rel_operands) (auto simp: layout_below_def)
    then have "S (rbind (render_operands R ops) (\<lambda>xs u. bind_outcome (operation_text op xs) (\<lambda>s. Returns (Inr s, u))))
        (rbind (render_operands R' ops) (\<lambda>xs u. bind_outcome (operation_text op xs) (\<lambda>s. Returns (Inr s, u))))"
    proof (rule rel_rbind)
      fix xs ys
      assume "list_all2 alike xs ys"
      from rel_operation_text [OF this, of op]
      show "S (\<lambda>u. bind_outcome (operation_text op xs) (\<lambda>s. Returns (Inr s, u))) (\<lambda>u. bind_outcome (operation_text op ys) (\<lambda>s. Returns (Inr s, u)))"
        by (cases rule: outcome.rel_cases) (simp_all add: rel_def)
    qed
    then show ?thesis
      by (auto simp: Operation render_part_def default_render_operation_def intro!: same_layout_flagged rel_rbind [OF S_refl])
  next
    case (Case base ws ts els)
    have "S (rpart R AnyExpr Plain a) (rpart R' AnyExpr Plain a) \<and> S (rpart R AnyExpr Plain b) (rpart R' AnyExpr Plain b)"
      if "(a, b) \<in> set (zip ws ts)" for a b
      using here set_zip_leftD [OF that] set_zip_rightD [OF that] by (simp add: Case)
    then show ?thesis using here
      by (auto simp: Case render_part_def default_render_case_def intro!: rules)
  next
    case (SelectField e as)
    then show ?thesis using here
      by (cases e) (auto simp: render_part_def default_render_select_field_def intro!: rules)
  next
    case (SelectTarget e as)
    then show ?thesis using here
      by (cases e) (auto simp: render_part_def default_render_select_target_def intro!: rules S_unless_error
          split: option.split sql_value.split)
  next
    case (SelectOrder e asc coll)
    then show ?thesis using here
      by (cases e) (auto simp: render_part_def default_render_select_order_def intro!: rules)
  qed (use p in \<open>simp_all add: render_part_def\<close>)
qed

lemma W_texts:
  "W (rret (newline (env\<lparr>pretty := True\<rparr>) s)) (rret (newline (env\<lparr>pretty := False\<rparr>) s))"
  "W (new_tab (env\<lparr>pretty := True\<rparr>) b) (new_tab (env\<lparr>pretty := False\<rparr>) b)"
  "W (rret (if first then newline (env\<lparr>pretty := True\<rparr>) s else t)) (rret (if first then newline (env\<lparr>pretty := False\<rparr>) s else t))"
  "W (rwhen True [CHR 0x0A]) (rwhen False [CHR 0x0A])"
  by (auto simp: newline_def new_tab_def rwhen_def weak_def squeeze_def intro!: rel_rret)

lemma layout_from:
  assumes below: "layout_below R R' p" and p: "p = SelectFrom targets joins"
    and joins: "\<And>j. j \<in> set joins \<Longrightarrow> layout_below R R' j"
  shows "same_layout (render_part (env\<lparr>pretty := True\<rparr>) R m p) (render_part (env\<lparr>pretty := False\<rparr>) R' m p)"
proof -
  have "same_layout (R k c) (R' k c)" if "c \<in> set targets" for k c
    using below that sub_parts_size [of c p] by (simp add: layout_below_def p)
  then have "W (rlist (\<lambda>_. render_from_element (env\<lparr>pretty := True\<rparr>) R targets joins) True (List.enumerate 0 targets))
      (rlist (\<lambda>_. render_from_element (env\<lparr>pretty := False\<rparr>) R' targets joins) True (List.enumerate 0 targets))"
    using joins by (intro W_rlist layout_from_element)
  then show ?thesis
    by (auto simp: p render_part_def default_render_select_from_def intro!: same_layout_flagged S_Cons S_text W_Cons)
qed

lemma layout_select:
  assumes below: "layout_below R R' p" and p: "p = Select dist de es frm wh gr hav ord lim off"
  shows "same_layout (render_part (env\<lparr>pretty := True\<rparr>) R m p) (render_part (env\<lparr>pretty := False\<rparr>) R' m p)"
proof -
  note here = S_W [OF layout_rpart [OF below]]
  have distinct: "W (default_render_distinct (env\<lparr>pretty := True\<rparr>) R de) (default_render_distinct (env\<lparr>pretty := False\<rparr>) R' de)"
    using here W_texts(4) by (auto simp: p default_render_distinct_def intro!: W_Cons W_ropt)
  have "S (default_render_select (env\<lparr>pretty := True\<rparr>) R p) (default_render_select (env\<lparr>pretty := False\<rparr>) R' p)"
    unfolding default_render_select_def p part.case
    by (rule S_text, simp, intro W_Cons W_ropt W_rlist W_texts W_refl)
      (use here distinct in \<open>auto simp: p intro!: W_Cons W_ropt W_texts\<close>)
  then show ?thesis by (simp add: p render_part_def same_layout_flagged)
qed

lemma layout_change:
  assumes below: "layout_below R R' p" and p: "part_type p \<in> {StmtInsert, StmtUpdate, StmtDelete}"
  shows "same_layout (render_part (env\<lparr>pretty := True\<rparr>) R m p) (render_part (env\<lparr>pretty := False\<rparr>) R' m p)"
proof -
  note here = S_W [OF layout_rpart [OF below]]
  show ?thesis
  proof (cases p)
    case (Insert conflict table cols vs sel)
    have vs: "W (rpart R AnyExpr Plain e) (rpart R' AnyExpr Plain e)" if "e \<in> set es" "es \<in> set vs" for e es
      using that here [of e AnyExpr Plain] by (auto simp: Insert)
    have "W (rlist (render_values (env\<lparr>pretty := True\<rparr>) R) True vs) (rlist (render_values (env\<lparr>pretty := False\<rparr>) R') True vs)"
      unfolding render_values_def by (intro W_rlist W_Cons W_texts W_refl vs)
    then have "S (default_render_insert (env\<lparr>pretty := True\<rparr>) R p) (default_render_insert (env\<lparr>pretty := False\<rparr>) R' p)"
      using here
      by (cases table; cases sel)
        (auto simp: Insert default_render_insert_def rel_rfail intro!: S_text W_Cons W_ropt W_rlist W_texts)
    then show ?thesis by (simp add: Insert render_part_def same_layout_flagged)
  next
    case (Update conflict table cols es cond)
    have "W (rpart R AnyField Plain f) (rpart R' AnyField Plain f) \<and> W (rpart R AnyExpr Plain e) (rpart R' AnyExpr Plain e)"
      if "(f, e) \<in> set (zip cols es)" for f e
      using here set_zip_leftD [OF that] set_zip_rightD [OF that] by (simp add: Update)
    then have "S (default_render_update (env\<lparr>pretty := True\<rparr>) R p) (default_render_update (env\<lparr>pretty := False\<rparr>) R' p)"
      using here
      by (cases table)
        (auto simp: Update default_render_update_def rel_rfail intro!: S_text W_Cons W_ropt W_rlist W_texts)
    then show ?thesis by (simp add: Update render_part_def same_layout_flagged)
  next
    case (Delete table cond)
    then show ?thesis using here
      by (cases table)
        (auto simp: render_part_def default_render_delete_def rel_rfail intro!: same_layout_flagged S_text W_Cons W_ropt)
  qed (use p in simp_all)
qed

lemma layout_list:
  assumes below: "layout_below R R' p" and p: "part_type p \<in> {StmtCompound, StmtUnknown}"
  shows "same_layout (render_part (env\<lparr>pretty := True\<rparr>) R m p) (render_part (env\<lparr>pretty := False\<rparr>) R' m p)"
proof (cases p)
  case (Compound t ss)
  have "S (render_query R Plain s) (render_query R' Plain s)" if "s \<in> set ss" for s
    using below that sub_parts_size [of s p] by (intro S_query) (simp add: layout_below_def Compound)
  then show ?thesis
    by (auto simp: Compound render_part_def default_render_compound_def intro!: same_layout_flagged S_rlist S_Cons)
next
  case (Unknown es)
  then show ?thesis using layout_rpart [OF below]
    by (auto simp: render_part_def default_render_unknown_def intro!: same_layout_flagged S_rlist)
qed (use p in simp_all)

lemma layout_render: "same_layout (render (env\<lparr>pretty := True\<rparr>) m p) (render (env\<lparr>pretty := False\<rparr>) m p)"
proof (induction p arbitrary: m rule: measure_induct_rule [of size])
  case (less p)
  let ?R = "\<lambda>b. render (env\<lparr>pretty := b\<rparr>)"
  have below: "layout_below (?R True) (?R False) c" if "size c \<le> size p" for c
    using less that by (simp add: layout_below_def)
  note here = below [OF order_refl]
  have "same_layout (render_part (env\<lparr>pretty := True\<rparr>) (?R True) m p) (render_part (env\<lparr>pretty := False\<rparr>) (?R False) m p)"
  proof (cases p)
    case (Expr v ps f c q cs cast ident)
    then show ?thesis using layout_expr [OF here] by (simp add: render_part_def)
  next
    case (SelectFrom targets joins)
    have "size j \<le> size p" if "j \<in> set joins" for j
      using that sub_parts_size [of j p] by (simp add: SelectFrom)
    then show ?thesis using layout_from [OF here SelectFrom] below by blast
  next
    case (Select dist de es frm wh gr hav ord lim off)
    then show ?thesis by (rule layout_select [OF here])
  qed (use layout_element [OF here] layout_change [OF here] layout_list [OF here] in \<open>auto\<close>)
  then show ?case by (simp only: render.simps [of _ m p])
qed

section \<open>Statements\<close>

text \<open>
  C12: The pretty rendering of a statement and the plain one give the same error, or texts that are equal when spaces,
  tabs and new lines are left out, and they use the same parameters in the same order.
\<close>

theorem pretty_rendering_differs_by_space:
  "rel_outcome (rel_sum (=) (rel_prod (\<lambda>s t. squeeze s = squeeze t) (=)))
     (gda_statement_to_sql_extended (env\<lparr>pretty := True\<rparr>) sql p)
     (gda_statement_to_sql_extended (env\<lparr>pretty := False\<rparr>) sql p)"
proof -
  have part: "S (rpart (render (env\<lparr>pretty := True\<rparr>)) t Plain p) (rpart (render (env\<lparr>pretty := False\<rparr>)) t Plain p)" for t
    by (rule S_rpart, rule layout_render)
  then have "S (gda_statement_to_sql_real (env\<lparr>pretty := True\<rparr>) sql p) (gda_statement_to_sql_real (env\<lparr>pretty := False\<rparr>) sql p)"
    unfolding gda_statement_to_sql_real_def pretty_free
    by (intro rel_rbind [OF S_refl]) (simp split: any_type.split)
  then have "rel_outcome (rel_prod (rel_sum (=) strong) (=))
      (gda_statement_to_sql_real (env\<lparr>pretty := True\<rparr>) sql p []) (gda_statement_to_sql_real (env\<lparr>pretty := False\<rparr>) sql p [])"
    by (simp add: rel_def)
  then show ?thesis
  proof (cases rule: outcome.rel_cases)
    case (Returns x y)
    then show ?thesis
      by (cases x; cases y) (auto simp: gda_statement_to_sql_extended_def strong_def elim!: rel_sum.cases)
  qed (simp add: gda_statement_to_sql_extended_def)
qed

end
