(* ===== verification/Gda_Data_Model.thy ===== *)
theory Gda_Data_Model
  imports Gda_Types
begin

text \<open>
  The interface of data models (\<open>libgda/gda-data-model.c\<close>), as the components that read a model see it: the functions
  that an implementation provides, the search for a row that is built on them, and the laws of a model with random
  access, which the implementations interpret.
\<close>

section \<open>The functions of a model\<close>

datatype access = AccessRandom | AccessForward | AccessBackward | AccessInsert | AccessUpdate | AccessDelete

text \<open>\<open>dm_find_row\<close> is there when the model has a search of its own. The number of rows is -1 when it is not known.\<close>

record 'v dmodel =
  dm_n_columns :: nat
  dm_n_rows :: int
  dm_value_at :: "nat \<Rightarrow> int \<Rightarrow> 'v gptr"
  dm_column_type :: "nat \<Rightarrow> gtype"
  dm_access :: "access set"
  dm_find_row :: "('v gvalue list \<Rightarrow> nat list \<Rightarrow> int) option"

section \<open>The search for a row\<close>

text \<open>\<open>cmp\<close> is how \<open>gda_value_compare\<close> orders two values of one type.\<close>

fun gda_value_compare :: "(gtype \<Rightarrow> 'v \<Rightarrow> 'v \<Rightarrow> int) \<Rightarrow> 'v gvalue \<Rightarrow> 'v gvalue \<Rightarrow> int" where
  "gda_value_compare cmp GNull GNull = 0"
| "gda_value_compare cmp GNull (GValue t x) = - 1"
| "gda_value_compare cmp (GValue t x) GNull = 1"
| "gda_value_compare cmp (GValue t x) (GValue u y) = (if t = u then cmp t x y else - 1)"

text \<open>\<open>gda_value_compare\<close> answers 0 for equal values only.\<close>

definition decides_equality :: "(gtype \<Rightarrow> 'v \<Rightarrow> 'v \<Rightarrow> int) \<Rightarrow> bool" where
  "decides_equality cmp \<longleftrightarrow> (\<forall>t x y. cmp t x y = 0 \<longleftrightarrow> x = y)"

lemma compare_0: "decides_equality cmp \<Longrightarrow> gda_value_compare cmp a b = 0 \<longleftrightarrow> a = b"
  by (cases a; cases b) (auto simp: decides_equality_def)

text \<open>A column that does not exist ends the search with the answer 0.\<close>

datatype row_match = Differs | Matches | Refused

fun match_row :: "(gtype \<Rightarrow> 'v \<Rightarrow> 'v \<Rightarrow> int) \<Rightarrow> 'v dmodel \<Rightarrow> int \<Rightarrow> (nat \<times> 'v gvalue) list \<Rightarrow> row_match" where
  "match_row cmp dm row [] = Matches"
| "match_row cmp dm row ((c, v) # kvs) =
     (if dm_n_columns dm \<le> c then Refused
      else
        (case dm_value_at dm c row of
           None \<Rightarrow> Differs
         | Some x \<Rightarrow>
             if G_VALUE_TYPE x \<noteq> G_VALUE_TYPE v \<or> gda_value_compare cmp v x \<noteq> 0 then Differs
             else match_row cmp dm row kvs))"

fun scan_rows :: "(gtype \<Rightarrow> 'v \<Rightarrow> 'v \<Rightarrow> int) \<Rightarrow> 'v dmodel \<Rightarrow> (nat \<times> 'v gvalue) list \<Rightarrow> nat list \<Rightarrow> int" where
  "scan_rows cmp dm kvs [] = - 1"
| "scan_rows cmp dm kvs (r # rs) =
     (case match_row cmp dm (int r) kvs of Matches \<Rightarrow> int r | Refused \<Rightarrow> 0 | Differs \<Rightarrow> scan_rows cmp dm kvs rs)"

definition gda_data_model_get_row_from_values ::
    "(gtype \<Rightarrow> 'v \<Rightarrow> 'v \<Rightarrow> int) \<Rightarrow> 'v dmodel \<Rightarrow> 'v gvalue list \<Rightarrow> nat list \<Rightarrow> int" where
  "gda_data_model_get_row_from_values cmp dm vals cols_index =
     (if vals = [] then - 1
      else
        (case dm_find_row dm of
           Some f \<Rightarrow> f vals cols_index
         | None \<Rightarrow> scan_rows cmp dm (zip cols_index vals) [0..<nat (dm_n_rows dm)]))"

section \<open>Models with random access\<close>

text \<open>
  The client reads the model \<open>view s\<close> of a state \<open>s\<close>, which shows the rows of \<open>table s\<close>. \<open>find_row\<close> says that the model has
  no search of its own.
\<close>

locale readable_model =
  fixes view :: "'s \<Rightarrow> 'v dmodel" and table :: "'s \<Rightarrow> 'v gvalue list list" and ready :: "'s \<Rightarrow> bool"
  assumes n_rows: "ready s \<Longrightarrow> dm_n_rows (view s) = int (length (table s))"
    and row_length: "ready s \<Longrightarrow> r \<in> set (table s) \<Longrightarrow> length r = dm_n_columns (view s)"
    and value_at: "ready s \<Longrightarrow> i < length (table s) \<Longrightarrow> c < dm_n_columns (view s) \<Longrightarrow>
      dm_value_at (view s) c (int i) = Some (table s ! i ! c)"
    and no_value: "ready s \<Longrightarrow> length (table s) \<le> i \<Longrightarrow> dm_value_at (view s) c (int i) = None"
    and is_random: "ready s \<Longrightarrow> AccessRandom \<in> dm_access (view s)"
    and find_row: "ready s \<Longrightarrow> dm_find_row (view s) = None"
begin

lemma nth_row_length: "ready s \<Longrightarrow> i < length (table s) \<Longrightarrow> length (table s ! i) = dm_n_columns (view s)"
  by (simp add: row_length)

lemma match_row_iff:
  assumes "ready s" "i < length (table s)" "decides_equality cmp" "length cols = length vals"
    "\<forall>c \<in> set cols. c < dm_n_columns (view s)"
  shows "match_row cmp (view s) (int i) (zip cols vals) = (if map ((!) (table s ! i)) cols = vals then Matches else Differs)"
  using assms(4,5)
proof (induction cols vals rule: list_induct2)
  case (Cons c cols v vals)
  then show ?case using assms by (auto simp: value_at compare_0)
qed simp

lemma scan_rows_first:
  assumes "ready s" "decides_equality cmp" "length cols = length vals" "\<forall>c \<in> set cols. c < dm_n_columns (view s)"
    "\<forall>i \<in> set is. i < length (table s)"
  shows "scan_rows cmp (view s) (zip cols vals) is =
    (case List.find (\<lambda>i. map ((!) (table s ! i)) cols = vals) is of None \<Rightarrow> - 1 | Some i \<Rightarrow> int i)"
  using assms(5) by (induction "is") (simp_all add: match_row_iff [OF assms(1) _ assms(2-4)])

lemma get_row_from_values:
  assumes "ready s" "decides_equality cmp" "length cols = length vals" "\<forall>c \<in> set cols. c < dm_n_columns (view s)" "vals \<noteq> []"
  shows "gda_data_model_get_row_from_values cmp (view s) vals cols =
    (case List.find (\<lambda>i. map ((!) (table s ! i)) cols = vals) [0..<length (table s)] of None \<Rightarrow> - 1 | Some i \<Rightarrow> int i)"
  using assms by (simp add: gda_data_model_get_row_from_values_def find_row n_rows scan_rows_first)

end

end
