(* ===== verification/Gda_Model_Array.thy ===== *)
theory Gda_Model_Array
  imports Gda_Data_Model
begin

text \<open>
  Rows (\<open>libgda/gda-row.c\<close>) and tables in memory (\<open>libgda/gda-data-model-array.c\<close>), with the functions of the data
  model interface that call them (\<open>libgda/gda-data-model.c\<close>).

  A row is the list of its values, \<open>None\<close> for a value that was invalidated (its type is \<open>G_TYPE_INVALID\<close>). The row of a
  model without columns is \<open>NULL\<close>. A \<open>GValue\<close> that is passed in is initialized. The hash table of column
  descriptions is a function: a column that was not asked for yet is as \<open>gda_column_new\<close> makes it. Column numbers are
  not negative. The signals that a model emits are logged; \<open>changed\<close>, which follows each of them, is not.
\<close>

section \<open>Rows\<close>

type_synonym 'v row = "'v gptr list"

definition gda_row_new :: "nat \<Rightarrow> 'v row option" where
  "gda_row_new count = (if 0 < count then Some (replicate count (Some GNull)) else None)"

definition gda_row_get_value :: "'v row \<Rightarrow> nat \<Rightarrow> 'v gptr option" where
  "gda_row_get_value row num = (if num < length row then Some (row ! num) else None)"

definition gda_row_value_is_valid :: "'v gptr \<Rightarrow> bool" where
  "gda_row_value_is_valid field \<longleftrightarrow> field \<noteq> None"

definition gda_row_invalidate_value :: "'v row \<Rightarrow> nat \<Rightarrow> 'v row" where
  "gda_row_invalidate_value row num = row[num := None]"

text \<open>What the callers do with the place that \<open>gda_row_get_value\<close> returns: nothing is written outside of the row.\<close>

definition write_value :: "nat \<Rightarrow> 'v gptr \<Rightarrow> 'v row \<Rightarrow> 'v row" where
  "write_value col value row =
     (case gda_row_get_value row col of None \<Rightarrow> row | Some _ \<Rightarrow> row[col := Some (contents_of value)])"

section \<open>Models\<close>

record 'v column =
  col_type :: gtype
  col_allow_null :: bool
  col_default :: "'v gptr"
  col_auto_increment :: bool

definition gda_column_new :: "'v column" where
  "gda_column_new = \<lparr>col_type = GDA_TYPE_NULL, col_allow_null = True, col_default = None, col_auto_increment = False\<rparr>"

datatype dm_signal = RowInserted nat | RowUpdated nat | RowRemoved nat

datatype dm_error = AccessError | ValuesListError | RowOutOfRange | RowNotFound | ColumnOutOfRange

datatype value_attribute =
    AttrIsNull | AttrCanBeNull | AttrIsDefault | AttrCanBeDefault | AttrIsUnchanged | AttrDataNonValid | AttrHasValueOrig | AttrNoModif

record 'v array_model =
  am_read_only :: bool
  am_n_columns :: nat
  am_rows :: "'v row option list"
  am_notify :: bool
  am_columns :: "nat \<Rightarrow> 'v column"
  am_signals :: "dm_signal list"

definition gda_data_model_array_new :: "nat \<Rightarrow> 'v array_model" where
  "gda_data_model_array_new cols =
     \<lparr>am_read_only = False, am_n_columns = cols, am_rows = [], am_notify = True, am_columns = (\<lambda>_. gda_column_new),
      am_signals = []\<rparr>"

definition gda_data_model_array_get_row :: "'v array_model \<Rightarrow> int \<Rightarrow> 'v row option \<times> dm_error option" where
  "gda_data_model_array_get_row m row =
     (if row < 0 then (None, None)
      else if length (am_rows m) \<le> nat row then (None, Some RowOutOfRange)
      else (am_rows m ! nat row, None))"

definition gda_data_model_array_get_value_at ::
    "'v array_model \<Rightarrow> nat \<Rightarrow> int \<Rightarrow> ('v gptr \<times> dm_error option) outcome" where
  "gda_data_model_array_get_value_at m col row =
     (if row < 0 then Returns (None, None)
      else if am_rows m = [] then Returns (None, Some RowNotFound)
      else if length (am_rows m) \<le> nat row then Returns (None, Some RowOutOfRange)
      else if am_n_columns m \<le> col then Returns (None, Some ColumnOutOfRange)
      else
        (case am_rows m ! nat row of
           None \<Rightarrow> Returns (None, Some RowNotFound)
         | Some cells \<Rightarrow>
             (case gda_row_get_value cells col of
                None \<Rightarrow> Undefined
              | Some field \<Rightarrow> Returns (if gda_row_value_is_valid field then field else None, None))))"

definition gda_data_model_array_get_access_flags :: "'v array_model \<Rightarrow> access set" where
  "gda_data_model_array_get_access_flags m =
     {AccessRandom, AccessForward, AccessBackward} \<union>
     (if am_read_only m then {} else {AccessInsert, AccessUpdate, AccessDelete})"

definition gda_data_model_array_get_attributes_at :: "'v array_model \<Rightarrow> nat \<Rightarrow> int \<Rightarrow> value_attribute set outcome" where
  "gda_data_model_array_get_attributes_at m col row =
     bind_outcome
       (if row < 0 then Returns False
        else bind_outcome (gda_data_model_array_get_value_at m col row) (\<lambda>(v, _). Returns (is_null v)))
       (\<lambda>null. Returns
         ((if col_allow_null (am_columns m col) then {AttrCanBeNull} else {}) \<union>
          (if col_default (am_columns m col) \<noteq> None then {AttrCanBeDefault} else {}) \<union>
          (if null then {AttrIsNull} else {}) \<union>
          (if am_read_only m then {AttrNoModif} else {})))"

section \<open>Notification\<close>

definition emit_row_signal :: "dm_signal \<Rightarrow> 'v array_model \<Rightarrow> 'v array_model" where
  "emit_row_signal sg m = (if am_notify m then m\<lparr>am_signals := am_signals m @ [sg]\<rparr> else m)"

definition gda_data_model_row_updated :: "'v array_model \<Rightarrow> nat \<Rightarrow> 'v array_model" where
  "gda_data_model_row_updated m row = emit_row_signal (RowUpdated row) m"

definition gda_data_model_row_removed :: "'v array_model \<Rightarrow> nat \<Rightarrow> 'v array_model" where
  "gda_data_model_row_removed m row = emit_row_signal (RowRemoved row) m"

text \<open>The first row gives their type to the columns that have none.\<close>

definition type_column :: "nat \<Rightarrow> 'v array_model \<Rightarrow> 'v array_model" where
  "type_column i m =
     (case gda_data_model_array_get_value_at m i 0 of
        Returns (Some v, _) \<Rightarrow>
          if col_type (am_columns m i) = GDA_TYPE_NULL
          then m\<lparr>am_columns := (am_columns m)(i := (am_columns m i)\<lparr>col_type := G_VALUE_TYPE v\<rparr>)\<rparr> else m
      | _ \<Rightarrow> m)"

definition gda_data_model_row_inserted :: "'v array_model \<Rightarrow> nat \<Rightarrow> 'v array_model" where
  "gda_data_model_row_inserted m row =
     emit_row_signal (RowInserted row)
       (if length (am_rows m) = 1 then fold type_column [0..<am_n_columns m] m else m)"

definition gda_data_model_freeze :: "'v array_model \<Rightarrow> 'v array_model" where
  "gda_data_model_freeze m = m\<lparr>am_notify := False\<rparr>"

definition gda_data_model_thaw :: "'v array_model \<Rightarrow> 'v array_model" where
  "gda_data_model_thaw m = m\<lparr>am_notify := True\<rparr>"

section \<open>Changes\<close>

definition gda_data_model_array_set_value_at ::
    "'v array_model \<Rightarrow> nat \<Rightarrow> int \<Rightarrow> 'v gptr \<Rightarrow> bool \<times> dm_error option \<times> 'v array_model" where
  "gda_data_model_array_set_value_at m col row value =
     (if row < 0 then (False, None, m)
      else if am_read_only m then (False, Some AccessError, m)
      else if length (am_rows m) < nat row
      then (False, Some (if am_rows m = [] then RowOutOfRange else ValuesListError), m)
      else
        (case gda_data_model_array_get_row m row of
           (None, e) \<Rightarrow> (False, e, m)
         | (Some cells, _) \<Rightarrow>
             (True, None, gda_data_model_row_updated
                (m\<lparr>am_rows := (am_rows m)[nat row := Some (write_value col value cells)]\<rparr>) (nat row))))"

text \<open>A \<open>NULL\<close> in the list leaves the value as it is.\<close>

fun write_values :: "nat \<Rightarrow> 'v gptr list \<Rightarrow> 'v row \<Rightarrow> 'v row" where
  "write_values col [] cells = cells"
| "write_values col (v # vs) cells =
     write_values (Suc col) vs (case v of None \<Rightarrow> cells | Some _ \<Rightarrow> write_value col v cells)"

definition gda_data_model_array_set_values ::
    "'v array_model \<Rightarrow> int \<Rightarrow> 'v gptr list \<Rightarrow> bool \<times> dm_error option \<times> 'v array_model" where
  "gda_data_model_array_set_values m row values =
     (if row < 0 then (False, None, m)
      else if values = [] then (True, None, m)
      else if am_read_only m then (False, Some AccessError, m)
      else if am_n_columns m < length values then (False, Some ValuesListError, m)
      else
        (case gda_data_model_array_get_row m row of
           (None, e) \<Rightarrow> (False, e, m)
         | (Some cells, _) \<Rightarrow>
             (True, None, gda_data_model_row_updated
                (m\<lparr>am_rows := (am_rows m)[nat row := Some (write_values 0 values cells)]\<rparr>) (nat row))))"

text \<open>Here a \<open>NULL\<close> in the list gives a null value.\<close>

fun fill_values :: "nat \<Rightarrow> 'v gptr list \<Rightarrow> 'v row \<Rightarrow> 'v row" where
  "fill_values col [] cells = cells"
| "fill_values col (v # vs) cells = fill_values (Suc col) vs (write_value col v cells)"

text \<open>Errors are reported as \<open>FALSE\<close>, which is the number of the first row.\<close>

definition gda_data_model_array_append_values ::
    "'v array_model \<Rightarrow> 'v gptr list \<Rightarrow> int \<times> dm_error option \<times> 'v array_model" where
  "gda_data_model_array_append_values m values =
     (if am_read_only m then (0, Some AccessError, m)
      else if am_n_columns m < length values then (0, Some ValuesListError, m)
      else
        (let row = map_option (fill_values 0 values) (gda_row_new (am_n_columns m));
             m' = gda_data_model_row_inserted (m\<lparr>am_rows := am_rows m @ [row]\<rparr>) (length (am_rows m))
         in (int (length (am_rows m')) - 1, None, m')))"

definition gda_data_model_array_append_row :: "'v array_model \<Rightarrow> int \<times> dm_error option \<times> 'v array_model" where
  "gda_data_model_array_append_row m =
     (if am_read_only m then (0, Some AccessError, m)
      else
        (let m' = gda_data_model_row_inserted (m\<lparr>am_rows := am_rows m @ [gda_row_new (am_n_columns m)]\<rparr>) (length (am_rows m))
         in (int (length (am_rows m')) - 1, None, m')))"

definition gda_data_model_append_row :: "'v array_model \<Rightarrow> int \<times> dm_error option \<times> 'v array_model" where
  "gda_data_model_append_row m =
     (if AccessInsert \<notin> gda_data_model_array_get_access_flags m then (- 1, Some AccessError, m)
      else gda_data_model_array_append_row m)"

text \<open>The row number is not compared with the number of rows.\<close>

definition gda_data_model_array_remove_row ::
    "'v array_model \<Rightarrow> int \<Rightarrow> (bool \<times> dm_error option \<times> 'v array_model) outcome" where
  "gda_data_model_array_remove_row m row =
     (if row < 0 \<or> length (am_rows m) \<le> nat row then Undefined
      else if am_rows m ! nat row = None then Returns (False, Some RowNotFound, m)
      else Returns (True, None, gda_data_model_row_removed
        (m\<lparr>am_rows := take (nat row) (am_rows m) @ drop (Suc (nat row)) (am_rows m)\<rparr>) (nat row)))"

definition gda_data_model_remove_row ::
    "'v array_model \<Rightarrow> int \<Rightarrow> (bool \<times> dm_error option \<times> 'v array_model) outcome" where
  "gda_data_model_remove_row m row =
     (if AccessDelete \<notin> gda_data_model_array_get_access_flags m then Returns (False, Some AccessError, m)
      else gda_data_model_array_remove_row m row)"

partial_function (option) gda_data_model_array_clear :: "'v array_model \<Rightarrow> 'v array_model outcome option" where
  "gda_data_model_array_clear m =
     (if am_rows m = [] then Some (Returns m)
      else
        (case gda_data_model_array_remove_row m 0 of
           Undefined \<Rightarrow> Some Undefined
         | Returns (_, _, m') \<Rightarrow> gda_data_model_array_clear m'))"

definition gda_data_model_array_set_n_columns :: "'v array_model \<Rightarrow> nat \<Rightarrow> 'v array_model outcome option" where
  "gda_data_model_array_set_n_columns m cols =
     map_option (\<lambda>r. bind_outcome r (\<lambda>m'. Returns (m'\<lparr>am_n_columns := cols\<rparr>))) (gda_data_model_array_clear m)"

section \<open>Rows keep their length\<close>

definition am_wf :: "'v array_model \<Rightarrow> bool" where
  "am_wf m \<longleftrightarrow> 0 < am_n_columns m \<and> (\<forall>r \<in> set (am_rows m). \<exists>c. r = Some c \<and> length c = am_n_columns m)"

definition am_table :: "'v array_model \<Rightarrow> 'v row list" where
  "am_table m = map the (am_rows m)"

named_theorems am_rows_simps \<open>what the operations that do not change rows leave as it is\<close>

lemma emit_row_signal_simps [am_rows_simps]:
  "am_rows (emit_row_signal sg m) = am_rows m" "am_n_columns (emit_row_signal sg m) = am_n_columns m"
  "am_read_only (emit_row_signal sg m) = am_read_only m"
  by (simp_all add: emit_row_signal_def)

lemma type_column_simps [am_rows_simps]:
  "am_rows (type_column i m) = am_rows m" "am_n_columns (type_column i m) = am_n_columns m"
  "am_read_only (type_column i m) = am_read_only m"
  by (simp_all add: type_column_def split: outcome.split prod.split option.split)

lemma fold_type_column_simps [am_rows_simps]:
  "am_rows (fold type_column is m) = am_rows m" "am_n_columns (fold type_column is m) = am_n_columns m"
  "am_read_only (fold type_column is m) = am_read_only m"
  by (induction "is" arbitrary: m) (simp_all add: am_rows_simps)

lemma notification_simps [am_rows_simps]:
  "am_rows (gda_data_model_row_inserted m r) = am_rows m" "am_n_columns (gda_data_model_row_inserted m r) = am_n_columns m"
  "am_read_only (gda_data_model_row_inserted m r) = am_read_only m"
  "am_rows (gda_data_model_row_updated m r) = am_rows m" "am_n_columns (gda_data_model_row_updated m r) = am_n_columns m"
  "am_read_only (gda_data_model_row_updated m r) = am_read_only m"
  "am_rows (gda_data_model_row_removed m r) = am_rows m" "am_n_columns (gda_data_model_row_removed m r) = am_n_columns m"
  "am_read_only (gda_data_model_row_removed m r) = am_read_only m"
  by (simp_all add: am_rows_simps gda_data_model_row_inserted_def gda_data_model_row_updated_def gda_data_model_row_removed_def)

lemma write_value_eq: "write_value col v cells = (if col < length cells then cells[col := Some (contents_of v)] else cells)"
  by (simp add: write_value_def gda_row_get_value_def)

lemma length_write_value [simp]: "length (write_value col v cells) = length cells"
  by (simp add: write_value_eq)

lemma write_values_eq:
  "col + length vs \<le> length cells \<Longrightarrow>
     write_values col vs cells =
       take col cells @ map2 (\<lambda>v old. case v of None \<Rightarrow> old | Some x \<Rightarrow> Some x) vs (drop col cells) @ drop (col + length vs) cells"
proof (induction vs arbitrary: col cells)
  case (Cons v vs)
  let ?c = "case v of None \<Rightarrow> cells | Some _ \<Rightarrow> write_value col v cells"
  have "col < length cells" using Cons.prems by simp
  then have parts: "cells = take col cells @ cells ! col # drop (Suc col) cells" by (rule id_take_nth_drop)
  have "?c = take col cells @ (case v of None \<Rightarrow> cells ! col | Some x \<Rightarrow> Some x) # drop (Suc col) cells"
    using \<open>col < length cells\<close> parts
    by (auto simp: write_value_eq contents_of_def upd_conv_take_nth_drop split: option.split)
  moreover have "drop col cells = cells ! col # drop (Suc col) cells" using \<open>col < length cells\<close> by (rule Cons_nth_drop_Suc [symmetric])
  ultimately show ?case using Cons.IH [of "Suc col" ?c] Cons.prems by (simp add: add.commute)
qed simp

lemma fill_values_eq:
  "col + length vs \<le> length cells \<Longrightarrow>
     fill_values col vs cells = take col cells @ map (\<lambda>v. Some (contents_of v)) vs @ drop (col + length vs) cells"
proof (induction vs arbitrary: col cells)
  case (Cons v vs)
  have "col < length cells" using Cons.prems by simp
  then show ?case using Cons.IH [of "Suc col" "write_value col v cells"] Cons.prems
    by (simp add: write_value_eq upd_conv_take_nth_drop add.commute)
qed simp

section \<open>Histories of operations\<close>

datatype 'v am_op =
    SetValue nat int "'v gptr" | SetValues int "'v gptr list" | AppendValues "'v gptr list" | AppendRow | RemoveRow int
  | Freeze | Thaw

fun am_step :: "'v am_op \<Rightarrow> 'v array_model \<Rightarrow> 'v array_model outcome" where
  "am_step (SetValue col row v) m = Returns (snd (snd (gda_data_model_array_set_value_at m col row v)))"
| "am_step (SetValues row vs) m = Returns (snd (snd (gda_data_model_array_set_values m row vs)))"
| "am_step (AppendValues vs) m = Returns (snd (snd (gda_data_model_array_append_values m vs)))"
| "am_step AppendRow m = Returns (snd (snd (gda_data_model_append_row m)))"
| "am_step (RemoveRow row) m = bind_outcome (gda_data_model_remove_row m row) (\<lambda>(_, _, m'). Returns m')"
| "am_step Freeze m = Returns (gda_data_model_freeze m)"
| "am_step Thaw m = Returns (gda_data_model_thaw m)"

fun am_run :: "'v am_op list \<Rightarrow> 'v array_model \<Rightarrow> 'v array_model outcome" where
  "am_run [] m = Returns m"
| "am_run (c # cs) m = bind_outcome (am_step c m) (am_run cs)"

text \<open>What an operation means for a table of rows of \<open>n\<close> values.\<close>

fun table_step :: "nat \<Rightarrow> 'v am_op \<Rightarrow> 'v row list \<Rightarrow> 'v row list outcome" where
  "table_step n (SetValue col row v) t =
     Returns (if 0 \<le> row \<and> row < int (length t) \<and> col < n then t[nat row := (t ! nat row)[col := Some (contents_of v)]] else t)"
| "table_step n (SetValues row vs) t =
     Returns
       (if 0 \<le> row \<and> row < int (length t) \<and> length vs \<le> n
        then t[nat row := map2 (\<lambda>v old. case v of None \<Rightarrow> old | Some x \<Rightarrow> Some x) vs (t ! nat row) @ drop (length vs) (t ! nat row)]
        else t)"
| "table_step n (AppendValues vs) t =
     Returns
       (if length vs \<le> n then t @ [map (\<lambda>v. Some (contents_of v)) vs @ replicate (n - length vs) (Some GNull)] else t)"
| "table_step n AppendRow t = Returns (t @ [replicate n (Some GNull)])"
| "table_step n (RemoveRow row) t =
     (if 0 \<le> row \<and> row < int (length t) then Returns (take (nat row) t @ drop (Suc (nat row)) t) else Undefined)"
| "table_step n Freeze t = Returns t"
| "table_step n Thaw t = Returns t"

fun table_run :: "nat \<Rightarrow> 'v am_op list \<Rightarrow> 'v row list \<Rightarrow> 'v row list outcome" where
  "table_run n [] t = Returns t"
| "table_run n (c # cs) t = bind_outcome (table_step n c t) (table_run n cs)"

definition am_tables :: "'v array_model outcome \<Rightarrow> 'v row list outcome" where
  "am_tables r = bind_outcome r (\<lambda>m. Returns (am_table m))"

definition am_good :: "nat \<Rightarrow> 'v array_model \<Rightarrow> bool" where
  "am_good n m \<longleftrightarrow> am_wf m \<and> \<not> am_read_only m \<and> am_n_columns m = n"

lemma am_goodD: "am_good n m \<Longrightarrow> am_wf m" "am_good n m \<Longrightarrow> \<not> am_read_only m" "am_good n m \<Longrightarrow> am_n_columns m = n"
  by (simp_all add: am_good_def)

lemma am_wf_row:
  "am_wf m \<Longrightarrow> i < length (am_rows m) \<Longrightarrow> \<exists>c. am_rows m ! i = Some c \<and> length c = am_n_columns m \<and> c = am_table m ! i"
  unfolding am_wf_def am_table_def by (metis nth_map nth_mem option.sel)

lemma length_am_table [simp]: "length (am_table m) = length (am_rows m)"
  by (simp add: am_table_def)

lemma am_good_update:
  assumes "am_good n m" "length cells = n"
  shows "am_good n (m\<lparr>am_rows := (am_rows m)[i := Some cells]\<rparr>)"
    and "am_table (m\<lparr>am_rows := (am_rows m)[i := Some cells]\<rparr>) = (am_table m)[i := cells]"
  using assms set_update_subset_insert [of "am_rows m" i "Some cells"]
  by (auto simp: am_good_def am_wf_def am_table_def map_update)

lemma am_good_notification [simp]:
  "am_good n (gda_data_model_row_inserted m r) = am_good n m" "am_table (gda_data_model_row_inserted m r) = am_table m"
  "am_good n (gda_data_model_row_updated m r) = am_good n m" "am_table (gda_data_model_row_updated m r) = am_table m"
  "am_good n (gda_data_model_row_removed m r) = am_good n m" "am_table (gda_data_model_row_removed m r) = am_table m"
  by (simp_all add: am_good_def am_wf_def am_table_def am_rows_simps)

lemma am_good_append:
  assumes "am_good n m" "length cells = n"
  shows "am_good n (m\<lparr>am_rows := am_rows m @ [Some cells]\<rparr>)"
    and "am_table (m\<lparr>am_rows := am_rows m @ [Some cells]\<rparr>) = am_table m @ [cells]"
  using assms by (auto simp: am_good_def am_wf_def am_table_def)

lemma am_good_step:
  assumes "am_good n m"
  shows "case am_step c m of Undefined \<Rightarrow> table_step n c (am_table m) = Undefined
         | Returns m' \<Rightarrow> am_good n m' \<and> table_step n c (am_table m) = Returns (am_table m')"
proof (cases c)
  note good = am_goodD [OF assms]
  case (SetValue col row v)
  show ?thesis
  proof (cases "0 \<le> row \<and> nat row < length (am_rows m)")
    case True
    then obtain cells where "am_rows m ! nat row = Some cells" "length cells = n" "cells = am_table m ! nat row"
      using am_wf_row [OF good(1), of "nat row"] good(3) by auto
    then show ?thesis using True assms am_good_update [OF assms, of "write_value col v cells" "nat row"] SetValue
      by (auto simp: gda_data_model_array_set_value_at_def gda_data_model_array_get_row_def write_value_eq good)
  next
    case False
    then show ?thesis using assms SetValue
      by (auto simp: gda_data_model_array_set_value_at_def gda_data_model_array_get_row_def good)
  qed
next
  note good = am_goodD [OF assms]
  case (SetValues row vs)
  show ?thesis
  proof (cases "0 \<le> row \<and> nat row < length (am_rows m) \<and> length vs \<le> n")
    case True
    then obtain cells where cells: "am_rows m ! nat row = Some cells" "length cells = n" "cells = am_table m ! nat row"
      using am_wf_row [OF good(1), of "nat row"] good(3) by auto
    have "write_values 0 vs cells = map2 (\<lambda>v old. case v of None \<Rightarrow> old | Some x \<Rightarrow> Some x) vs cells @ drop (length vs) cells"
      using True cells by (simp add: write_values_eq)
    moreover have "length (write_values 0 vs cells) = n" using True cells by (simp add: write_values_eq)
    ultimately show ?thesis using True assms cells am_good_update [OF assms, of "write_values 0 vs cells" "nat row"] SetValues
      by (auto simp: gda_data_model_array_set_values_def gda_data_model_array_get_row_def good)
  next
    case False
    then show ?thesis using assms SetValues
      by (auto simp: gda_data_model_array_set_values_def gda_data_model_array_get_row_def good)
  qed
next
  note good = am_goodD [OF assms]
  case (AppendValues vs)
  show ?thesis
  proof (cases "length vs \<le> n")
    case True
    let ?cells = "map (\<lambda>v. Some (contents_of v)) vs @ replicate (n - length vs) (Some GNull)"
    have row: "map_option (fill_values 0 vs) (gda_row_new n) = Some ?cells"
      using True assms by (simp add: gda_row_new_def fill_values_eq am_good_def am_wf_def)
    show ?thesis using True assms am_good_append [OF assms, of ?cells] AppendValues
      by (simp add: gda_data_model_array_append_values_def good Let_def row)
  qed (use assms AppendValues in \<open>simp add: gda_data_model_array_append_values_def good\<close>)
next
  note good = am_goodD [OF assms]
  case AppendRow
  have row: "gda_row_new n = Some (replicate n (Some GNull))" using assms by (simp add: gda_row_new_def am_good_def am_wf_def)
  show ?thesis using assms am_good_append [OF assms, of "replicate n (Some GNull)"] AppendRow
    by (simp add: gda_data_model_append_row_def gda_data_model_array_append_row_def gda_data_model_array_get_access_flags_def
        good Let_def row)
next
  note good = am_goodD [OF assms]
  case (RemoveRow row)
  show ?thesis
  proof (cases "0 \<le> row \<and> nat row < length (am_rows m)")
    case True
    let ?m = "m\<lparr>am_rows := take (nat row) (am_rows m) @ drop (Suc (nat row)) (am_rows m)\<rparr>"
    obtain cells where "am_rows m ! nat row = Some cells" using am_wf_row [OF good(1), of "nat row"] True by auto
    moreover have "am_good n ?m" "am_table ?m = take (nat row) (am_table m) @ drop (Suc (nat row)) (am_table m)"
      using assms by (auto simp: am_good_def am_wf_def am_table_def take_map drop_map dest: in_set_takeD in_set_dropD)
    ultimately show ?thesis using True assms RemoveRow
      by (auto simp: gda_data_model_remove_row_def gda_data_model_array_remove_row_def good
          gda_data_model_array_get_access_flags_def)
  next
    case False
    then show ?thesis using assms RemoveRow
      by (auto simp: gda_data_model_remove_row_def gda_data_model_array_remove_row_def good
          gda_data_model_array_get_access_flags_def)
  qed
qed (use assms in \<open>auto simp: gda_data_model_freeze_def gda_data_model_thaw_def am_good_def am_wf_def am_table_def\<close>)

lemma am_good_run: "am_good n m \<Longrightarrow> am_tables (am_run cs m) = table_run n cs (am_table m)"
proof (induction cs arbitrary: m)
  case (Cons c cs)
  show ?case
  proof (cases "am_step c m")
    case (Returns m')
    then show ?thesis using am_good_step [OF Cons.prems, of c] Cons.IH [of m'] by simp
  qed (use am_good_step [OF Cons.prems, of c] in \<open>simp add: am_tables_def\<close>)
qed (simp add: am_tables_def)

text \<open>
  C14: In every history of operations a new array model with columns behaves as a table: a list of rows with one value
  for every column. A value is written where the row and the column exist, lists that are too long are refused, a row
  that is appended is filled with null values. The only operation without a defined result is the removal of a row
  that does not exist.
\<close>

theorem array_model_refines_table:
  "am_tables (am_run cs (gda_data_model_array_new (Suc n))) = table_run (Suc n) cs []"
proof -
  have "am_good (Suc n) (gda_data_model_array_new (Suc n))" "am_table (gda_data_model_array_new (Suc n)) = []"
    by (simp_all add: am_good_def am_wf_def am_table_def gda_data_model_array_new_def)
  then show ?thesis by (metis am_good_run)
qed

text \<open>
  Remark: An error of \<open>gda_data_model_array_append_values\<close>, on a model that is read-only or with more values than columns,
  leaves the model as it is and answers 0, which is also the number of the row after a success on an empty model: no
  result is negative.
\<close>

theorem append_values_never_reports_failure:
  "0 \<le> fst (gda_data_model_array_append_values m values) \<and>
   (fst (snd (gda_data_model_array_append_values m values)) \<noteq> None \<longleftrightarrow> am_read_only m \<or> am_n_columns m < length values) \<and>
   am_rows (snd (snd (gda_data_model_array_append_values m values))) =
     am_rows m @
     (if am_read_only m \<or> am_n_columns m < length values then []
      else [if am_n_columns m = 0 then None
            else Some (map (\<lambda>v. Some (contents_of v)) values @ replicate (am_n_columns m - length values) (Some GNull))])"
  by (auto simp: gda_data_model_array_append_values_def Let_def am_rows_simps gda_row_new_def fill_values_eq)

section \<open>Clearing\<close>

lemma clear_returns:
  assumes "gda_data_model_array_clear m = Some r"
  shows "None \<notin> set (am_rows m)"
proof (rule gda_data_model_array_clear.raw_induct [where P = "\<lambda>m r. None \<notin> set (am_rows m)", OF _ assms])
  fix clear :: "'a array_model \<Rightarrow> 'a array_model outcome option" and m r
  assume IH: "\<And>x y. clear x = Some y \<Longrightarrow> None \<notin> set (am_rows x)"
    and step: "(if am_rows m = [] then Some (Returns m)
      else case gda_data_model_array_remove_row m 0 of Undefined \<Rightarrow> Some Undefined
           | Returns (x, xa, m') \<Rightarrow> clear m') = Some r"
  show "None \<notin> set (am_rows m)"
  proof (cases "am_rows m")
    case (Cons x xs)
    show ?thesis
    proof (cases x)
      case None
      then have "clear m = Some r" using step Cons by (simp add: gda_data_model_array_remove_row_def)
      then show ?thesis by (rule IH)
    next
      case (Some cells)
      then have "clear (gda_data_model_row_removed (m\<lparr>am_rows := xs\<rparr>) 0) = Some r"
        using step Cons by (simp add: gda_data_model_array_remove_row_def)
      from IH [OF this] show ?thesis using Cons Some by (simp add: am_rows_simps)
    qed
  qed simp
qed

lemma clear_all_rows:
  "None \<notin> set (am_rows m) \<Longrightarrow> \<exists>m'. gda_data_model_array_clear m = Some (Returns m') \<and> am_rows m' = []"
proof (induction "am_rows m" arbitrary: m)
  case (Cons x xs)
  let ?m = "gda_data_model_row_removed (m\<lparr>am_rows := xs\<rparr>) 0"
  obtain cells where "x = Some cells" using Cons.prems Cons.hyps(2) by (cases x) (auto simp flip: Cons.hyps(2))
  then have "gda_data_model_array_clear m = gda_data_model_array_clear ?m"
    using Cons.hyps(2) by (subst gda_data_model_array_clear.simps) (simp add: gda_data_model_array_remove_row_def flip: Cons.hyps(2))
  moreover have "\<exists>m'. gda_data_model_array_clear ?m = Some (Returns m') \<and> am_rows m' = []"
    using Cons by (intro Cons.hyps(1)) (auto simp: am_rows_simps simp flip: Cons.hyps(2))
  ultimately show ?case by simp
qed (simp add: gda_data_model_array_clear.simps)

text \<open>
  C39: Clearing a model ends exactly when it has no row that was appended while it had no columns: such a row is a
  \<open>NULL\<close> pointer, which \<open>gda_data_model_array_remove_row\<close> refuses to remove, and the loop goes on for ever. When it
  ends, no row is left. Clearing is also what ends the life of a model and what comes before its number of columns
  changes.
\<close>

theorem clear_ends_without_null_rows:
  "((\<exists>r. gda_data_model_array_clear m = Some r) \<longleftrightarrow> None \<notin> set (am_rows m)) \<and>
   (None \<notin> set (am_rows m) \<longrightarrow> (\<exists>m'. gda_data_model_array_clear m = Some (Returns m') \<and> am_rows m' = []))"
  using clear_returns clear_all_rows by fastforce

lemma clear_ends_without_null_rows_witness:
  "gda_data_model_array_clear (snd (snd (gda_data_model_append_row (gda_data_model_array_new 0 :: nat array_model)))) = None \<and>
   (\<exists>m'. gda_data_model_array_clear (snd (snd (gda_data_model_append_row (gda_data_model_array_new 2 :: nat array_model)))) =
          Some (Returns m') \<and> am_rows m' = [])"
proof
  let ?m = "\<lambda>n. snd (snd (gda_data_model_append_row (gda_data_model_array_new n :: nat array_model)))"
  have rows: "am_rows (?m n) = [gda_row_new n]" for n
    by (simp add: gda_data_model_append_row_def gda_data_model_array_append_row_def gda_data_model_array_get_access_flags_def
        gda_data_model_array_new_def Let_def am_rows_simps)
  show "gda_data_model_array_clear (?m 0) = None"
    using clear_ends_without_null_rows [of "?m 0"] by (simp add: rows gda_row_new_def)
  show "\<exists>m'. gda_data_model_array_clear (?m 2) = Some (Returns m') \<and> am_rows m' = []"
    using clear_ends_without_null_rows [of "?m 2"] by (simp add: rows gda_row_new_def)
qed

text \<open>
  Remark: Writing to a column that does not exist changes no row, but reports success and announces that the row was
  updated.
\<close>

theorem write_outside_columns_succeeds:
  assumes "am_good n m" "0 \<le> row" "nat row < length (am_rows m)" "n \<le> col" "am_notify m"
  shows "gda_data_model_array_set_value_at m col row v =
           (True, None, m\<lparr>am_signals := am_signals m @ [RowUpdated (nat row)]\<rparr>)"
proof -
  obtain cells where "am_rows m ! nat row = Some cells" "length cells = n"
    using am_wf_row [of m "nat row"] assms unfolding am_good_def by metis
  moreover from this have "(am_rows m)[nat row := Some cells] = am_rows m" by (metis list_update_id)
  ultimately show ?thesis using assms
    by (simp add: gda_data_model_array_set_value_at_def gda_data_model_array_get_row_def write_value_eq am_good_def
        gda_data_model_row_updated_def emit_row_signal_def)
qed

section \<open>The model as its readers see it\<close>

definition as_model :: "'v array_model \<Rightarrow> 'v dmodel" where
  "as_model m =
     \<lparr>dm_n_columns = am_n_columns m, dm_n_rows = int (length (am_rows m)),
      dm_value_at = (\<lambda>c r. case gda_data_model_array_get_value_at m c r of Undefined \<Rightarrow> None | Returns (v, _) \<Rightarrow> v),
      dm_column_type = (\<lambda>c. col_type (am_columns m c)),
      dm_access = gda_data_model_array_get_access_flags m, dm_find_row = None\<rparr>"

text \<open>No value was invalidated; then reading a value has a defined result.\<close>

definition all_valid :: "'v array_model \<Rightarrow> bool" where
  "all_valid m \<longleftrightarrow> am_wf m \<and> (\<forall>r \<in> set (am_table m). None \<notin> set r)"

definition cells_table :: "'v array_model \<Rightarrow> 'v gvalue list list" where
  "cells_table m = map (map the) (am_table m)"

lemma get_value_at_defined: "am_wf m \<Longrightarrow> gda_data_model_array_get_value_at m c r \<noteq> Undefined"
  using am_wf_row [of m "nat r"]
  by (auto simp: gda_data_model_array_get_value_at_def gda_row_get_value_def split: option.split)

interpretation array_table: readable_model as_model cells_table all_valid
proof
  fix m :: "'v array_model" and r i c
  assume m: "all_valid m"
  show "dm_n_rows (as_model m) = int (length (cells_table m))" by (simp add: as_model_def cells_table_def)
  show "AccessRandom \<in> dm_access (as_model m)" by (simp add: as_model_def gda_data_model_array_get_access_flags_def)
  show "dm_find_row (as_model m) = None" by (simp add: as_model_def)
  show "length r = dm_n_columns (as_model m)" if "r \<in> set (cells_table m)"
    using m that by (fastforce simp: all_valid_def am_wf_def as_model_def cells_table_def am_table_def)
  show "dm_value_at (as_model m) c (int i) = None" if "length (cells_table m) \<le> i"
    using that by (simp add: as_model_def gda_data_model_array_get_value_at_def cells_table_def)
  assume i: "i < length (cells_table m)" and c: "c < dm_n_columns (as_model m)"
  have wf: "am_wf m" and i': "i < length (am_rows m)" using m i by (simp_all add: all_valid_def cells_table_def)
  obtain row where row: "am_rows m ! i = Some row" "length row = am_n_columns m" "row = am_table m ! i"
    using am_wf_row [OF wf i'] by auto
  then have "None \<notin> set row" using m i' by (simp add: all_valid_def)
  then have "row ! c \<noteq> None" using row c by (metis as_model_def dmodel.select_convs(1) nth_mem)
  then show "dm_value_at (as_model m) c (int i) = Some (cells_table m ! i ! c)"
    using i' row c
    by (auto simp: as_model_def gda_data_model_array_get_value_at_def gda_row_get_value_def gda_row_value_is_valid_def cells_table_def)
qed

end
