(* ===== verification/Gda_Comparator.thy ===== *)
theory Gda_Comparator
  imports Gda_Model_Array "HOL-Library.Multiset"
begin

text \<open>
  The comparison of two data models (\<open>libgda/gda-data-comparator.c\<close>): for every row of the new model the row of the
  old one with the same key is searched; rows that are not found are added, those that differ are modified, and the
  rows of the old model that no new row has the key of are removed.

  \<open>cmp\<close> is \<open>gda_value_compare\<close> on two values of one type. \<open>stop\<close> is what the handlers of \<open>diff-computed\<close> answer,
  given all the differences they have seen. The key columns are as many as were set.
\<close>

section \<open>Data\<close>

datatype diff_type = DiffAddRow | DiffRemoveRow | DiffModifyRow

record 'v gda_diff =
  diff_type :: diff_type
  diff_old_row :: int
  diff_new_row :: int
  diff_values :: "string \<rightharpoonup> 'v gvalue"

datatype comparator_error = MissingDataModel | ColumnTypesMismatch | ModelAccess | UserCancelled | ValueError

record 'v comparator =
  old_model :: "'v dmodel option"
  new_model :: "'v dmodel option"
  key_columns :: "nat list option"
  diffs :: "'v gda_diff list"

definition gda_data_comparator_new :: "'v dmodel \<Rightarrow> 'v dmodel \<Rightarrow> 'v comparator" where
  "gda_data_comparator_new old new = \<lparr>old_model = Some old, new_model = Some new, key_columns = None, diffs = []\<rparr>"


section \<open>The row with the same key\<close>

fun values_at :: "'v dmodel \<Rightarrow> nat list \<Rightarrow> int \<Rightarrow> 'v gvalue list option" where
  "values_at dm [] row = Some []"
| "values_at dm (c # cs) row =
     (case dm_value_at dm c row of None \<Rightarrow> None | Some v \<Rightarrow> map_option (Cons v) (values_at dm cs row))"

fun row_changed ::
    "(gtype \<Rightarrow> 'v \<Rightarrow> 'v \<Rightarrow> int) \<Rightarrow> 'v dmodel \<Rightarrow> 'v dmodel \<Rightarrow> int \<Rightarrow> int \<Rightarrow> nat list \<Rightarrow> bool option" where
  "row_changed cmp old new erow row [] = Some False"
| "row_changed cmp old new erow row (c # cs) =
     (case (dm_value_at old c erow, dm_value_at new c row) of
        (Some v1, Some v2) \<Rightarrow>
          if gda_value_compare cmp v1 v2 \<noteq> 0 then Some True else row_changed cmp old new erow row cs
      | _ \<Rightarrow> None)"

definition default_key_columns :: "'v dmodel \<Rightarrow> nat list option \<Rightarrow> nat list" where
  "default_key_columns old ks = (case ks of None \<Rightarrow> [0..<dm_n_columns old] | Some cols \<Rightarrow> cols)"

text \<open>The row, or -1 when there is none or -2 for an error, and whether it differs.\<close>

definition find_row_in_model ::
    "(gtype \<Rightarrow> 'v \<Rightarrow> 'v \<Rightarrow> int) \<Rightarrow> 'v dmodel \<Rightarrow> 'v dmodel \<Rightarrow> nat list \<Rightarrow> int \<Rightarrow> int \<times> bool" where
  "find_row_in_model cmp old new keys row =
     (case values_at new keys row of
        None \<Rightarrow> (- 2, False)
      | Some vals \<Rightarrow>
          (let erow = gda_data_model_get_row_from_values cmp old vals keys in
           if 0 \<le> erow then
             (case row_changed cmp old new erow row [0..<dm_n_columns old] of
                None \<Rightarrow> (- 2, False) | Some changed \<Rightarrow> (erow, changed))
           else (erow, False)))"

section \<open>The differences\<close>

definition put_value ::
    "char \<Rightarrow> 'v dmodel \<Rightarrow> int \<Rightarrow> nat \<Rightarrow> (string \<rightharpoonup> 'v gvalue) \<Rightarrow> (string \<rightharpoonup> 'v gvalue) option" where
  "put_value sign dm row j m =
     (case dm_value_at dm j row of None \<Rightarrow> None | Some v \<Rightarrow> Some (m(sign # dec j \<mapsto> v)))"

fun put_values ::
    "char \<Rightarrow> 'v dmodel \<Rightarrow> int \<Rightarrow> nat list \<Rightarrow> (string \<rightharpoonup> 'v gvalue) \<Rightarrow> (string \<rightharpoonup> 'v gvalue) option" where
  "put_values sign dm row [] m = Some m"
| "put_values sign dm row (j # js) m = Option.bind (put_value sign dm row j m) (put_values sign dm row js)"

text \<open>The values of a modified row: those of the old model are read at the number of the new row.\<close>

fun modified_values ::
    "'v dmodel \<Rightarrow> 'v dmodel \<Rightarrow> int \<Rightarrow> nat list \<Rightarrow> (string \<rightharpoonup> 'v gvalue) \<Rightarrow> (string \<rightharpoonup> 'v gvalue) option" where
  "modified_values old new i [] m = Some m"
| "modified_values old new i (j # js) m =
     Option.bind (put_value (CHR ''+'') new i j m) (\<lambda>m.
     Option.bind (put_value (CHR ''-'') old i j m) (modified_values old new i js))"

text \<open>A difference is kept and announced.\<close>

definition emit_diff ::
    "('v gda_diff list \<Rightarrow> bool) \<Rightarrow> 'v gda_diff \<Rightarrow> 'v comparator \<Rightarrow> comparator_error option \<times> 'v comparator" where
  "emit_diff stop d dc =
     (let dc' = dc\<lparr>diffs := diffs dc @ [d]\<rparr>
      in (if stop (diffs dc') then Some UserCancelled else None, dc'))"

fun new_rows ::
    "(gtype \<Rightarrow> 'v \<Rightarrow> 'v \<Rightarrow> int) \<Rightarrow> ('v gda_diff list \<Rightarrow> bool) \<Rightarrow> 'v dmodel \<Rightarrow> 'v dmodel \<Rightarrow> nat list \<Rightarrow> nat list \<Rightarrow>
       bool list \<Rightarrow> 'v comparator \<Rightarrow> comparator_error option \<times> bool list \<times> 'v comparator" where
  "new_rows cmp stop old new keys [] rows_to_del dc = (None, rows_to_del, dc)"
| "new_rows cmp stop old new keys (i # is) rows_to_del dc =
     (case find_row_in_model cmp old new keys (int i) of
        (erow, has_changed) \<Rightarrow>
          if erow = - 1 then
            (case put_values (CHR ''+'') new (int i) [0..<dm_n_columns old] Map.empty of
               None \<Rightarrow> (Some ValueError, rows_to_del, dc)
             | Some m \<Rightarrow>
                 (case emit_diff stop \<lparr>diff_type = DiffAddRow, diff_old_row = - 1, diff_new_row = int i, diff_values = m\<rparr> dc of
                    (Some e, dc') \<Rightarrow> (Some e, rows_to_del, dc')
                  | (None, dc') \<Rightarrow> new_rows cmp stop old new keys is rows_to_del dc'))
          else if erow < - 1 then (Some ValueError, rows_to_del, dc)
          else if has_changed then
            (case modified_values old new (int i) [0..<dm_n_columns old] Map.empty of
               None \<Rightarrow> (Some ValueError, rows_to_del[nat erow := False], dc)
             | Some m \<Rightarrow>
                 (case emit_diff stop \<lparr>diff_type = DiffModifyRow, diff_old_row = erow, diff_new_row = int i, diff_values = m\<rparr> dc of
                    (Some e, dc') \<Rightarrow> (Some e, rows_to_del[nat erow := False], dc')
                  | (None, dc') \<Rightarrow> new_rows cmp stop old new keys is (rows_to_del[nat erow := False]) dc'))
          else new_rows cmp stop old new keys is (rows_to_del[nat erow := False]) dc)"

fun removed_rows ::
    "('v gda_diff list \<Rightarrow> bool) \<Rightarrow> 'v dmodel \<Rightarrow> bool list \<Rightarrow> nat list \<Rightarrow> 'v comparator \<Rightarrow>
       comparator_error option \<times> 'v comparator" where
  "removed_rows stop old rows_to_del [] dc = (None, dc)"
| "removed_rows stop old rows_to_del (i # is) dc =
     (if rows_to_del ! i then
        (case put_values (CHR ''-'') old (int i) [0..<dm_n_columns old] Map.empty of
           None \<Rightarrow> (Some ValueError, dc)
         | Some m \<Rightarrow>
             (case emit_diff stop \<lparr>diff_type = DiffRemoveRow, diff_old_row = int i, diff_new_row = - 1, diff_values = m\<rparr> dc of
                (Some e, dc') \<Rightarrow> (Some e, dc')
              | (None, dc') \<Rightarrow> removed_rows stop old rows_to_del is dc'))
      else removed_rows stop old rows_to_del is dc)"

definition compare_models ::
    "(gtype \<Rightarrow> 'v \<Rightarrow> 'v \<Rightarrow> int) \<Rightarrow> ('v gda_diff list \<Rightarrow> bool) \<Rightarrow> 'v dmodel \<Rightarrow> 'v dmodel \<Rightarrow> 'v comparator \<Rightarrow>
       comparator_error option \<times> 'v comparator" where
  "compare_models cmp stop old new dc =
     (if AccessRandom \<notin> dm_access old \<or> AccessRandom \<notin> dm_access new then (Some ModelAccess, dc)
      else if dm_n_columns old \<noteq> dm_n_columns new then (Some MissingDataModel, dc)
      else if \<exists>c \<in> set [0..<dm_n_columns old]. dm_column_type old c \<noteq> dm_column_type new c
      then (Some ColumnTypesMismatch, dc)
      else if dm_n_rows old < 0 \<or> dm_n_rows new < 0 then (Some ModelAccess, dc)
      else
        (let keys = default_key_columns old (key_columns dc);
             dc' = (if dm_n_rows new = 0 then dc else dc\<lparr>key_columns := Some keys\<rparr>) in
         (case new_rows cmp stop old new keys [0..<nat (dm_n_rows new)] (replicate (nat (dm_n_rows old)) True) dc' of
            (Some e, _, dc'') \<Rightarrow> (Some e, dc'')
          | (None, rows_to_del, dc'') \<Rightarrow> removed_rows stop old rows_to_del [0..<nat (dm_n_rows old)] dc'')))"

text \<open>The result, the error and the comparator with the differences.\<close>

definition gda_data_comparator_compute_diff ::
    "(gtype \<Rightarrow> 'v \<Rightarrow> 'v \<Rightarrow> int) \<Rightarrow> ('v gda_diff list \<Rightarrow> bool) \<Rightarrow> 'v comparator \<Rightarrow>
       bool \<times> comparator_error option \<times> 'v comparator" where
  "gda_data_comparator_compute_diff cmp stop dc =
     (let dc' = dc\<lparr>diffs := []\<rparr> in
      case (old_model dc, new_model dc) of
        (Some old, Some new) \<Rightarrow>
          (case compare_models cmp stop old new dc' of (e, dc'') \<Rightarrow> (e = None, e, dc''))
      | _ \<Rightarrow> (False, Some MissingDataModel, dc'))"

section \<open>What differences mean\<close>

text \<open>
  The differences are applied to the rows of the old model: a slot for each of them, empty once it is removed, and the
  added rows behind them.
\<close>

definition plus_row :: "nat \<Rightarrow> 'v gda_diff \<Rightarrow> 'v gvalue list" where
  "plus_row n d = map (\<lambda>j. the (diff_values d (CHR ''+'' # dec j))) [0..<n]"

fun apply_diff ::
    "nat \<Rightarrow> 'v gda_diff \<Rightarrow> 'v gvalue list option list \<times> 'v gvalue list list \<Rightarrow> 'v gvalue list option list \<times> 'v gvalue list list" where
  "apply_diff n d (slots, added) =
     (case diff_type d of
        DiffAddRow \<Rightarrow> (slots, added @ [plus_row n d])
      | DiffRemoveRow \<Rightarrow> (slots[nat (diff_old_row d) := None], added)
      | DiffModifyRow \<Rightarrow> (slots[nat (diff_old_row d) := Some (plus_row n d)], added))"

definition applied :: "nat \<Rightarrow> 'v gda_diff list \<Rightarrow> 'v gvalue list list \<Rightarrow> 'v gvalue list option list \<times> 'v gvalue list list" where
  "applied n ds t = fold (apply_diff n) ds (map Some t, [])"

definition apply_diffs :: "nat \<Rightarrow> 'v gda_diff list \<Rightarrow> 'v gvalue list list \<Rightarrow> 'v gvalue list list" where
  "apply_diffs n ds t = (case applied n ds t of (slots, added) \<Rightarrow> List.map_filter id slots @ added)"

definition key_of :: "nat list \<Rightarrow> 'v gvalue list \<Rightarrow> 'v gvalue list" where
  "key_of keys r = map ((!) r) keys"

lemma applied_snoc: "applied n (ds @ [d]) t = apply_diff n d (applied n ds t)"
  by (simp add: applied_def)

lemma dec_inject [simp]: "dec i = dec j \<longleftrightarrow> i = j"
  by (metis numval_dec)

section \<open>The values of a difference\<close>

lemma put_values_Some:
  assumes "\<forall>j \<in> set js. dm_value_at dm j row = Some (x ! j)"
  shows "\<exists>m'. put_values sg dm row js m = Some m' \<and> (\<forall>j \<in> set js. m' (sg # dec j) = Some (x ! j)) \<and>
    (\<forall>k. k \<notin> (\<lambda>j. sg # dec j) ` set js \<longrightarrow> m' k = m k)"
  using assms
proof (induction js arbitrary: m)
  case (Cons j js)
  let ?m = "m(sg # dec j \<mapsto> x ! j)" and ?keys = "(\<lambda>j. sg # dec j) ` set js"
  have "\<exists>m'. put_values sg dm row js ?m = Some m' \<and> (\<forall>j \<in> set js. m' (sg # dec j) = Some (x ! j)) \<and>
      (\<forall>k. k \<notin> ?keys \<longrightarrow> m' k = ?m k)"
    by (rule Cons.IH) (use Cons.prems in simp)
  then obtain m' where m': "put_values sg dm row js ?m = Some m'"
      "\<forall>j \<in> set js. m' (sg # dec j) = Some (x ! j)" "\<forall>k. k \<notin> ?keys \<longrightarrow> m' k = ?m k"
    by blast
  have "m' (sg # dec j) = Some (x ! j)"
  proof (cases "j \<in> set js")
    case False
    then have "sg # dec j \<notin> ?keys" by auto
    then show ?thesis using m'(3) by simp
  qed (use m'(2) in blast)
  moreover have "put_values sg dm row (j # js) m = Some m'" using m'(1) Cons.prems by (simp add: put_value_def)
  moreover have "m' k = m k" if "k \<notin> (\<lambda>j. sg # dec j) ` set (j # js)" for k using that m'(3) by simp
  ultimately show ?case using m'(2) by auto
qed simp

lemma put_values_row:
  assumes "\<forall>j < n. dm_value_at dm j row = Some (x ! j)" "length x = n"
  shows "\<exists>m. put_values sg dm row [0..<n] Map.empty = Some m \<and> map (\<lambda>j. the (m (sg # dec j))) [0..<n] = x"
proof -
  obtain m where "put_values sg dm row [0..<n] Map.empty = Some m" "\<forall>j \<in> set [0..<n]. m (sg # dec j) = Some (x ! j)"
    using put_values_Some [of "[0..<n]" dm row x sg Map.empty] assms by auto
  moreover from this have "map (\<lambda>j. the (m (sg # dec j))) [0..<n] = x" using assms(2) by (intro nth_equalityI) auto
  ultimately show ?thesis by blast
qed

lemma modified_values_Some:
  assumes "\<forall>j \<in> set js. dm_value_at new j row = Some (x ! j)" "\<forall>j \<in> set js. dm_value_at old j row = Some (y ! j)"
  shows "\<exists>m'. modified_values old new row js m = Some m' \<and> (\<forall>j \<in> set js. m' (CHR ''+'' # dec j) = Some (x ! j)) \<and>
    (\<forall>j \<in> set js. m' (CHR ''-'' # dec j) = Some (y ! j)) \<and>
    (\<forall>k. k \<notin> (\<lambda>j. CHR ''+'' # dec j) ` set js \<union> (\<lambda>j. CHR ''-'' # dec j) ` set js \<longrightarrow> m' k = m k)"
  using assms
proof (induction js arbitrary: m)
  case (Cons j js)
  let ?m = "m(CHR ''+'' # dec j \<mapsto> x ! j, CHR ''-'' # dec j \<mapsto> y ! j)"
  let ?keys = "(\<lambda>j. CHR ''+'' # dec j) ` set js \<union> (\<lambda>j. CHR ''-'' # dec j) ` set js"
  have "\<exists>m'. modified_values old new row js ?m = Some m' \<and> (\<forall>j \<in> set js. m' (CHR ''+'' # dec j) = Some (x ! j)) \<and>
      (\<forall>j \<in> set js. m' (CHR ''-'' # dec j) = Some (y ! j)) \<and> (\<forall>k. k \<notin> ?keys \<longrightarrow> m' k = ?m k)"
    by (rule Cons.IH) (use Cons.prems in simp_all)
  then obtain m' where m': "modified_values old new row js ?m = Some m'"
      "\<forall>j \<in> set js. m' (CHR ''+'' # dec j) = Some (x ! j)" "\<forall>j \<in> set js. m' (CHR ''-'' # dec j) = Some (y ! j)"
      "\<forall>k. k \<notin> ?keys \<longrightarrow> m' k = ?m k"
    by blast
  have "m' (CHR ''+'' # dec j) = Some (x ! j) \<and> m' (CHR ''-'' # dec j) = Some (y ! j)"
  proof (cases "j \<in> set js")
    case False
    then have "CHR ''+'' # dec j \<notin> ?keys" "CHR ''-'' # dec j \<notin> ?keys" by auto
    then show ?thesis using m'(4) by simp
  qed (use m'(2,3) in blast)
  moreover have "modified_values old new row (j # js) m = Some m'" using m'(1) Cons.prems by (simp add: put_value_def)
  moreover have "m' k = m k" if "k \<notin> (\<lambda>j. CHR ''+'' # dec j) ` set (j # js) \<union> (\<lambda>j. CHR ''-'' # dec j) ` set (j # js)" for k
    using that m'(4) by simp
  ultimately show ?case using m'(2,3) by auto
qed simp

lemma modified_values_row:
  assumes "\<forall>j < n. dm_value_at new j row = Some (x ! j)" "\<forall>j < n. dm_value_at old j row = Some (y ! j)" "length x = n"
  shows "\<exists>m. modified_values old new row [0..<n] Map.empty = Some m \<and> map (\<lambda>j. the (m (CHR ''+'' # dec j))) [0..<n] = x"
proof -
  obtain m where "modified_values old new row [0..<n] Map.empty = Some m" "\<forall>j \<in> set [0..<n]. m (CHR ''+'' # dec j) = Some (x ! j)"
    using modified_values_Some [of "[0..<n]" new row x old y Map.empty] assms by auto
  moreover from this have "map (\<lambda>j. the (m (CHR ''+'' # dec j))) [0..<n] = x" using assms(3) by (intro nth_equalityI) auto
  ultimately show ?thesis by blast
qed

section \<open>Two models with random access\<close>

locale two_models = old: readable_model view1 table1 ready1 + new: readable_model view2 table2 ready2
  for view1 :: "'s \<Rightarrow> 'v dmodel" and table1 :: "'s \<Rightarrow> 'v gvalue list list" and ready1 :: "'s \<Rightarrow> bool"
    and view2 :: "'u \<Rightarrow> 'v dmodel" and table2 :: "'u \<Rightarrow> 'v gvalue list list" and ready2 :: "'u \<Rightarrow> bool"
begin

definition comparable :: "(gtype \<Rightarrow> 'v \<Rightarrow> 'v \<Rightarrow> int) \<Rightarrow> nat list \<Rightarrow> nat \<Rightarrow> 's \<Rightarrow> 'u \<Rightarrow> bool" where
  "comparable cmp keys n s u \<longleftrightarrow>
     ready1 s \<and> ready2 u \<and> dm_n_columns (view1 s) = n \<and> dm_n_columns (view2 u) = n \<and> decides_equality cmp \<and>
     keys \<noteq> [] \<and> (\<forall>k \<in> set keys. k < n)"

lemma values_at_new:
  "comparable cmp keys n s u \<Longrightarrow> i < length (table2 u) \<Longrightarrow> \<forall>c \<in> set cols. c < n \<Longrightarrow>
     values_at (view2 u) cols (int i) = Some (key_of cols (table2 u ! i))"
  by (induction cols) (auto simp: comparable_def new.value_at key_of_def)

lemma row_changed_iff:
  "comparable cmp keys n s u \<Longrightarrow> r < length (table1 s) \<Longrightarrow> i < length (table2 u) \<Longrightarrow> \<forall>c \<in> set cols. c < n \<Longrightarrow>
     row_changed cmp (view1 s) (view2 u) (int r) (int i) cols = Some (\<exists>c \<in> set cols. table1 s ! r ! c \<noteq> table2 u ! i ! c)"
  by (induction cols) (auto simp: comparable_def new.value_at old.value_at compare_0)

lemma rows_differ:
  assumes "comparable cmp keys n s u" "r < length (table1 s)" "i < length (table2 u)"
  shows "(\<exists>c \<in> set [0..<n]. table1 s ! r ! c \<noteq> table2 u ! i ! c) \<longleftrightarrow> table1 s ! r \<noteq> table2 u ! i"
proof -
  have "length (table1 s ! r) = n" "length (table2 u ! i) = n"
    using assms old.nth_row_length [of s r] new.nth_row_length [of u i] by (simp_all add: comparable_def)
  then show ?thesis by (auto simp: list_eq_iff_nth_eq [of "table1 s ! r" "table2 u ! i"])
qed

lemma find_row_in_model:
  assumes "comparable cmp keys n s u" "i < length (table2 u)"
  shows "find_row_in_model cmp (view1 s) (view2 u) keys (int i) =
    (case List.find (\<lambda>r. key_of keys (table1 s ! r) = key_of keys (table2 u ! i)) [0..<length (table1 s)] of
       None \<Rightarrow> (- 1, False) | Some r \<Rightarrow> (int r, table1 s ! r \<noteq> table2 u ! i))"
proof -
  let ?find = "List.find (\<lambda>r. key_of keys (table1 s ! r) = key_of keys (table2 u ! i)) [0..<length (table1 s)]"
  have keys: "\<forall>k \<in> set keys. k < n" using assms by (simp add: comparable_def)
  have "gda_data_model_get_row_from_values cmp (view1 s) (key_of keys (table2 u ! i)) keys =
      (case ?find of None \<Rightarrow> - 1 | Some r \<Rightarrow> int r)"
    using assms old.get_row_from_values [of s cmp keys "key_of keys (table2 u ! i)"] by (simp add: comparable_def key_of_def)
  moreover have "row_changed cmp (view1 s) (view2 u) (int r) (int i) [0..<n] = Some (table1 s ! r \<noteq> table2 u ! i)"
    if "?find = Some r" for r
    using that row_changed_iff [OF assms(1) _ assms(2), of r "[0..<n]"] rows_differ [OF assms(1) _ assms(2), of r]
    by (auto simp: find_Some_iff)
  moreover have "dm_n_columns (view1 s) = n" using assms by (simp add: comparable_def)
  ultimately show ?thesis
    using values_at_new [OF assms keys] by (simp add: find_row_in_model_def split: option.split)
qed

text \<open>The row among \<open>rows\<close> that has the key.\<close>

definition keyed_row :: "nat list \<Rightarrow> 'v gvalue list list \<Rightarrow> 'v gvalue list \<Rightarrow> 'v gvalue list option" where
  "keyed_row keys rows k = List.find (\<lambda>w. key_of keys w = k) rows"

text \<open>
  Where the search stands before the new row number \<open>i\<close>: which old rows no new row has the key of so far, and what the
  differences make of the old rows.
\<close>

definition matched :: "nat list \<Rightarrow> nat \<Rightarrow> 's \<Rightarrow> 'u \<Rightarrow> nat \<Rightarrow> bool list \<Rightarrow> 'v comparator \<Rightarrow> bool" where
  "matched keys n s u i del dc \<longleftrightarrow>
     del = map (\<lambda>r. keyed_row keys (take i (table2 u)) (key_of keys r) = None) (table1 s) \<and>
     applied n (diffs dc) (table1 s) =
       (map (\<lambda>r. case keyed_row keys (take i (table2 u)) (key_of keys r) of None \<Rightarrow> Some r | Some w \<Rightarrow> Some w) (table1 s),
        filter (\<lambda>w. key_of keys w \<notin> key_of keys ` set (table1 s)) (take i (table2 u)))"

lemma keyed_row_snoc:
  "keyed_row keys (rows @ [w]) k =
     (case keyed_row keys rows k of None \<Rightarrow> if key_of keys w = k then Some w else None | Some x \<Rightarrow> Some x)"
  by (induction rows) (auto simp: keyed_row_def)

lemma keyed_row_None: "keyed_row keys rows k = None \<longleftrightarrow> k \<notin> key_of keys ` set rows"
  by (auto simp: keyed_row_def find_None_iff)

lemma new_key_once:
  assumes "distinct (map (key_of keys) rows)" "i < length rows"
  shows "keyed_row keys (take i rows) (key_of keys (rows ! i)) = None"
  unfolding keyed_row_None
proof
  assume "key_of keys (rows ! i) \<in> key_of keys ` set (take i rows)"
  then obtain j where "j < i" "key_of keys (rows ! j) = key_of keys (rows ! i)"
    using assms(2) by (auto simp: in_set_conv_nth)
  then show False using assms by (auto simp: distinct_conv_nth)
qed

lemma map_old_rows:
  assumes "distinct (map (key_of keys) t)" "r < length t"
  shows "map (\<lambda>x. if key_of keys x = key_of keys (t ! r) then f x else g x) t = (map g t)[r := f (t ! r)]"
proof (rule nth_equalityI)
  fix i assume "i < length (map (\<lambda>x. if key_of keys x = key_of keys (t ! r) then f x else g x) t)"
  then have i: "i < length t" by simp
  then have "key_of keys (t ! i) = key_of keys (t ! r) \<longleftrightarrow> i = r"
    using nth_eq_iff_index_eq [OF assms(1), of i r] assms(2) by simp
  then show "map (\<lambda>x. if key_of keys x = key_of keys (t ! r) then f x else g x) t ! i = (map g t)[r := f (t ! r)] ! i"
    using i by simp
qed simp

lemma matched_next:
  assumes "matched keys n s u i del dc" "i < length (table2 u)"
    and dt: "distinct (map (key_of keys) (table1 s))" and du: "distinct (map (key_of keys) (table2 u))"
  shows matched_added: "key_of keys (table2 u ! i) \<notin> key_of keys ` set (table1 s) \<Longrightarrow>
      applied n (diffs dc') (table1 s) =
        (fst (applied n (diffs dc) (table1 s)), snd (applied n (diffs dc) (table1 s)) @ [table2 u ! i]) \<Longrightarrow>
      matched keys n s u (Suc i) del dc'"
    and matched_found: "r < length (table1 s) \<Longrightarrow> key_of keys (table1 s ! r) = key_of keys (table2 u ! i) \<Longrightarrow>
      applied n (diffs dc') (table1 s) =
        ((fst (applied n (diffs dc) (table1 s)))[r := Some (table2 u ! i)], snd (applied n (diffs dc) (table1 s))) \<Longrightarrow>
      matched keys n s u (Suc i) (del[r := False]) dc'"
proof -
  let ?t = "table1 s" and ?u = "table2 u"
  let ?K = "keyed_row keys (take i ?u)" and ?K' = "keyed_row keys (take (Suc i) ?u)"
  have more: "take (Suc i) ?u = take i ?u @ [?u ! i]" using assms(2) by (rule take_Suc_conv_app_nth)
  have K': "?K' k = (case ?K k of None \<Rightarrow> if key_of keys (?u ! i) = k then Some (?u ! i) else None | Some x \<Rightarrow> Some x)" for k
    by (simp add: more keyed_row_snoc)
  have fresh: "?K (key_of keys (?u ! i)) = None" using du assms(2) by (rule new_key_once)
  show "matched keys n s u (Suc i) del dc'"
    if new: "key_of keys (?u ! i) \<notin> key_of keys ` set ?t"
      and "applied n (diffs dc') ?t = (fst (applied n (diffs dc) ?t), snd (applied n (diffs dc) ?t) @ [?u ! i])"
  proof -
    have "?K' (key_of keys r) = ?K (key_of keys r)" if "r \<in> set ?t" for r
      using new that by (cases "?K (key_of keys r)") (auto simp: K')
    then have "map (\<lambda>r. h (?K' (key_of keys r)) r) ?t = map (\<lambda>r. h (?K (key_of keys r)) r) ?t" for h :: "'v gvalue list option \<Rightarrow> 'v gvalue list \<Rightarrow> 'w"
      by simp
    from this [of "\<lambda>k _. k = None"] this [of "\<lambda>k r. case k of None \<Rightarrow> Some r | Some w \<Rightarrow> Some w"]
    show ?thesis using assms(1) that by (simp add: matched_def more)
  qed
  show "matched keys n s u (Suc i) (del[r := False]) dc'"
    if r: "r < length ?t" "key_of keys (?t ! r) = key_of keys (?u ! i)"
      and "applied n (diffs dc') ?t = ((fst (applied n (diffs dc) ?t))[r := Some (?u ! i)], snd (applied n (diffs dc) ?t))"
  proof -
    have "?K' (key_of keys x) = (if key_of keys x = key_of keys (?t ! r) then Some (?u ! i) else ?K (key_of keys x))" for x
      using r fresh by (auto simp: K' split: option.split)
    then have slots: "map (\<lambda>x. h (?K' (key_of keys x)) x) ?t = (map (\<lambda>x. h (?K (key_of keys x)) x) ?t)[r := h (Some (?u ! i)) (?t ! r)]"
      for h :: "'v gvalue list option \<Rightarrow> 'v gvalue list \<Rightarrow> 'w"
      using map_old_rows [OF dt r(1), of "\<lambda>x. h (Some (?u ! i)) x" "\<lambda>x. h (?K (key_of keys x)) x"]
      by (simp add: if_distrib [of "\<lambda>k. h k _"] cong: if_cong)
    have "key_of keys (?u ! i) \<in> key_of keys ` set ?t" using r by (metis image_eqI nth_mem)
    then show ?thesis
      using assms(1) that slots [of "\<lambda>k _. k = None"] slots [of "\<lambda>k r. case k of None \<Rightarrow> Some r | Some w \<Rightarrow> Some w"]
      by (simp add: matched_def more)
  qed
qed

lemma new_rows_step:
  assumes c: "comparable cmp keys n s u" and never: "\<forall>ds. \<not> stop ds" and "matched keys n s u i del dc" "i < length (table2 u)"
    and "distinct (map (key_of keys) (table1 s))" "distinct (map (key_of keys) (table2 u))"
    and old_row: "\<forall>r < length (table1 s). key_of keys (table1 s ! r) = key_of keys (table2 u ! i) \<longrightarrow>
      table1 s ! r = table2 u ! i \<or> i < length (table1 s)"
  shows "\<exists>del' dc'. new_rows cmp stop (view1 s) (view2 u) keys (i # is) del dc =
    new_rows cmp stop (view1 s) (view2 u) keys is del' dc' \<and> matched keys n s u (Suc i) del' dc'"
proof -
  note next_row = matched_next [OF assms(3-6)]
  have n: "dm_n_columns (view1 s) = n" using c by (simp add: comparable_def)
  have new_row: "\<forall>j < n. dm_value_at (view2 u) j (int i) = Some (table2 u ! i ! j)" "length (table2 u ! i) = n"
    using c assms(4) new.nth_row_length [of u i] by (simp_all add: comparable_def new.value_at)
  show ?thesis
  proof (cases "List.find (\<lambda>r. key_of keys (table1 s ! r) = key_of keys (table2 u ! i)) [0..<length (table1 s)]")
    case None
    obtain m where m: "put_values (CHR ''+'') (view2 u) (int i) [0..<n] Map.empty = Some m"
        "map (\<lambda>j. the (m (CHR ''+'' # dec j))) [0..<n] = table2 u ! i"
      using put_values_row [OF new_row, of "CHR ''+''"] by blast
    let ?d = "\<lparr>diff_type = DiffAddRow, diff_old_row = - 1, diff_new_row = int i, diff_values = m\<rparr>"
    let ?dc = "dc\<lparr>diffs := diffs dc @ [?d]\<rparr>"
    have "key_of keys (table2 u ! i) \<notin> key_of keys ` set (table1 s)"
      using None by (auto simp: find_None_iff in_set_conv_nth)
    moreover have "applied n (diffs ?dc) (table1 s) =
        (fst (applied n (diffs dc) (table1 s)), snd (applied n (diffs dc) (table1 s)) @ [table2 u ! i])"
      using m(2) by (cases "applied n (diffs dc) (table1 s)") (simp add: applied_snoc plus_row_def)
    ultimately have "matched keys n s u (Suc i) del ?dc" by (rule next_row(1))
    moreover have "new_rows cmp stop (view1 s) (view2 u) keys (i # is) del dc = new_rows cmp stop (view1 s) (view2 u) keys is del ?dc"
      using never m(1) by (simp add: find_row_in_model [OF c assms(4)] None n emit_diff_def)
    ultimately show ?thesis by blast
  next
    case (Some r)
    then have r: "r < length (table1 s)" "key_of keys (table1 s ! r) = key_of keys (table2 u ! i)"
      by (auto simp: find_Some_iff)
    show ?thesis
    proof (cases "table1 s ! r = table2 u ! i")
      case True
      have "fst (applied n (diffs dc) (table1 s)) ! r = Some (table1 s ! r)"
        using assms(3) r new_key_once [OF assms(6,4)] by (simp add: matched_def)
      then have "applied n (diffs dc) (table1 s) =
          ((fst (applied n (diffs dc) (table1 s)))[r := Some (table2 u ! i)], snd (applied n (diffs dc) (table1 s)))"
        using True by (metis list_update_id prod.collapse)
      then have "matched keys n s u (Suc i) (del[r := False]) dc" by (rule next_row(2) [OF r])
      then show ?thesis using True by (simp add: find_row_in_model [OF c assms(4)] Some) blast
    next
      case False
      then have "i < length (table1 s)" using old_row r by blast
      then have "\<forall>j < n. dm_value_at (view1 s) j (int i) = Some (table1 s ! i ! j)"
        using c by (simp add: comparable_def old.value_at)
      then obtain m where m: "modified_values (view1 s) (view2 u) (int i) [0..<n] Map.empty = Some m"
          "map (\<lambda>j. the (m (CHR ''+'' # dec j))) [0..<n] = table2 u ! i"
        using modified_values_row [OF new_row(1) _ new_row(2)] by blast
      let ?d = "\<lparr>diff_type = DiffModifyRow, diff_old_row = int r, diff_new_row = int i, diff_values = m\<rparr>"
      let ?dc = "dc\<lparr>diffs := diffs dc @ [?d]\<rparr>"
      have "applied n (diffs ?dc) (table1 s) =
          ((fst (applied n (diffs dc) (table1 s)))[r := Some (table2 u ! i)], snd (applied n (diffs dc) (table1 s)))"
        using m(2) by (cases "applied n (diffs dc) (table1 s)") (simp add: applied_snoc plus_row_def)
      then have "matched keys n s u (Suc i) (del[r := False]) ?dc" by (rule next_row(2) [OF r])
      moreover have "new_rows cmp stop (view1 s) (view2 u) keys (i # is) del dc =
          new_rows cmp stop (view1 s) (view2 u) keys is (del[r := False]) ?dc"
        using never m(1) False by (simp add: find_row_in_model [OF c assms(4)] Some n emit_diff_def)
      ultimately show ?thesis by blast
    qed
  qed
qed

lemma new_rows_all:
  assumes "comparable cmp keys n s u" "\<forall>ds. \<not> stop ds"
    and "distinct (map (key_of keys) (table1 s))" "distinct (map (key_of keys) (table2 u))"
    and "\<forall>i < length (table2 u). \<forall>r < length (table1 s). key_of keys (table1 s ! r) = key_of keys (table2 u ! i) \<longrightarrow>
      table1 s ! r = table2 u ! i \<or> i < length (table1 s)"
    and "i \<le> length (table2 u)" "matched keys n s u i del dc"
  shows "\<exists>del' dc'. new_rows cmp stop (view1 s) (view2 u) keys [i..<length (table2 u)] del dc = (None, del', dc') \<and>
    matched keys n s u (length (table2 u)) del' dc'"
  using assms(6,7)
proof (induction "length (table2 u) - i" arbitrary: i del dc)
  case (Suc k)
  then have i: "i < length (table2 u)" by simp
  then have "[i..<length (table2 u)] = i # [Suc i..<length (table2 u)]" by (rule upt_conv_Cons)
  moreover obtain del' dc' where "matched keys n s u (Suc i) del' dc'"
      "new_rows cmp stop (view1 s) (view2 u) keys (i # [Suc i..<length (table2 u)]) del dc =
        new_rows cmp stop (view1 s) (view2 u) keys [Suc i..<length (table2 u)] del' dc'"
    using new_rows_step [OF assms(1,2) Suc.prems(2) i assms(3,4)] assms(5) i by blast
  ultimately show ?case using Suc.hyps(1) [of "Suc i" del' dc'] Suc.hyps(2) i by simp
qed simp

text \<open>Where the removal stands before the old row number \<open>i\<close>.\<close>

definition removing :: "nat list \<Rightarrow> nat \<Rightarrow> 's \<Rightarrow> 'u \<Rightarrow> nat \<Rightarrow> 'v comparator \<Rightarrow> bool" where
  "removing keys n s u i dc \<longleftrightarrow>
     applied n (diffs dc) (table1 s) =
       (map (\<lambda>r. case keyed_row keys (table2 u) (key_of keys (table1 s ! r)) of
           None \<Rightarrow> if r < i then None else Some (table1 s ! r) | Some w \<Rightarrow> Some w) [0..<length (table1 s)],
        filter (\<lambda>w. key_of keys w \<notin> key_of keys ` set (table1 s)) (table2 u))"

lemma removed_rows_all:
  assumes "comparable cmp keys n s u" "\<forall>ds. \<not> stop ds"
    and "del = map (\<lambda>r. keyed_row keys (table2 u) (key_of keys r) = None) (table1 s)"
    and "i \<le> length (table1 s)" "removing keys n s u i dc"
  shows "\<exists>dc'. removed_rows stop (view1 s) del [i..<length (table1 s)] dc = (None, dc') \<and>
    removing keys n s u (length (table1 s)) dc'"
  using assms(4,5)
proof (induction "length (table1 s) - i" arbitrary: i dc)
  case (Suc k)
  then have i: "i < length (table1 s)" by simp
  then have split: "[i..<length (table1 s)] = i # [Suc i..<length (table1 s)]" by (rule upt_conv_Cons)
  let ?slot = "\<lambda>i r. case keyed_row keys (table2 u) (key_of keys (table1 s ! r)) of
     None \<Rightarrow> if r < i then None else Some (table1 s ! r) | Some w \<Rightarrow> Some w"
  show ?case
  proof (cases "keyed_row keys (table2 u) (key_of keys (table1 s ! i))")
    case None
    have "\<forall>j < n. dm_value_at (view1 s) j (int i) = Some (table1 s ! i ! j)" "length (table1 s ! i) = n"
      using assms(1) i old.nth_row_length [of s i] by (simp_all add: comparable_def old.value_at)
    then obtain m where m: "put_values (CHR ''-'') (view1 s) (int i) [0..<n] Map.empty = Some m"
      using put_values_row by blast
    let ?d = "\<lparr>diff_type = DiffRemoveRow, diff_old_row = int i, diff_new_row = - 1, diff_values = m\<rparr>"
    let ?dc = "dc\<lparr>diffs := diffs dc @ [?d]\<rparr>"
    have "(map (?slot i) [0..<length (table1 s)])[i := None] = map (?slot (Suc i)) [0..<length (table1 s)]"
      using None by (intro nth_equalityI) (auto simp: nth_list_update less_Suc_eq split: option.split)
    then have "removing keys n s u (Suc i) ?dc" using Suc.prems(2) by (simp add: removing_def applied_snoc)
    moreover have "removed_rows stop (view1 s) del (i # [Suc i..<length (table1 s)]) dc =
        removed_rows stop (view1 s) del [Suc i..<length (table1 s)] ?dc"
      using m assms(1-3) None i by (simp add: emit_diff_def comparable_def)
    ultimately show ?thesis using Suc.hyps(1) [of "Suc i" ?dc] Suc.hyps(2) i by (simp add: split)
  next
    case (Some w)
    have "map (?slot i) [0..<length (table1 s)] = map (?slot (Suc i)) [0..<length (table1 s)]"
      using Some by (auto simp: less_Suc_eq split: option.split)
    then have "removing keys n s u (Suc i) dc" using Suc.prems(2) by (simp add: removing_def)
    then show ?thesis using Suc.hyps(1) [of "Suc i" dc] Suc.hyps(2) i Some assms(3) by (simp add: split)
  qed
qed simp

lemma keyed_row_iff:
  assumes "distinct (map (key_of keys) rows)"
  shows "keyed_row keys rows k = Some w \<longleftrightarrow> w \<in> set rows \<and> key_of keys w = k"
proof
  assume "w \<in> set rows \<and> key_of keys w = k"
  moreover from this obtain x where "keyed_row keys rows k = Some x"
    using keyed_row_None [of keys rows k] by (cases "keyed_row keys rows k") auto
  moreover from this have "x \<in> set rows" "key_of keys x = k" by (auto simp: keyed_row_def find_Some_iff)
  ultimately show "keyed_row keys rows k = Some w" using assms by (simp add: distinct_map inj_on_def)
qed (auto simp: keyed_row_def find_Some_iff)

lemma kept_rows:
  assumes "distinct (map (key_of keys) t)" "distinct (map (key_of keys) u)"
  shows "mset (List.map_filter (\<lambda>r. keyed_row keys u (key_of keys r)) t) = mset (filter (\<lambda>w. key_of keys w \<in> key_of keys ` set t) u)"
proof -
  let ?f = "\<lambda>r. keyed_row keys u (key_of keys r)"
  have "inj_on (\<lambda>r. the (?f r)) {r \<in> set t. ?f r \<noteq> None}"
  proof (rule inj_onI)
    fix x y assume x: "x \<in> {r \<in> set t. ?f r \<noteq> None}" and y: "y \<in> {r \<in> set t. ?f r \<noteq> None}" and eq: "the (?f x) = the (?f y)"
    obtain v w where vw: "?f x = Some v" "?f y = Some w" using x y by auto
    then have "key_of keys v = key_of keys x" "key_of keys w = key_of keys y"
      using keyed_row_iff [OF assms(2), of "key_of keys x" v] keyed_row_iff [OF assms(2), of "key_of keys y" w] by simp_all
    moreover have "v = w" using eq vw by simp
    ultimately have "key_of keys x = key_of keys y" by simp
    then show "x = y" using x y assms(1) by (simp add: distinct_map inj_on_def)
  qed
  then have "distinct (List.map_filter ?f t)" using assms(1) by (simp add: List.map_filter_def distinct_map o_def)
  moreover have "set (List.map_filter ?f t) = set (filter (\<lambda>w. key_of keys w \<in> key_of keys ` set t) u)"
  proof (rule set_eqI)
    fix w
    have "w \<in> set (List.map_filter ?f t) \<longleftrightarrow> (\<exists>r \<in> set t. ?f r = Some w)" by (force simp: List.map_filter_def)
    also have "\<dots> \<longleftrightarrow> (\<exists>r \<in> set t. w \<in> set u \<and> key_of keys w = key_of keys r)"
      by (intro bex_cong refl) (rule keyed_row_iff [OF assms(2)])
    finally show "w \<in> set (List.map_filter ?f t) \<longleftrightarrow> w \<in> set (filter (\<lambda>w. key_of keys w \<in> key_of keys ` set t) u)" by auto
  qed
  ultimately show ?thesis using assms(2) by (metis distinct_filter distinct_map set_eq_iff_mset_eq_distinct)
qed

lemma removing_contents:
  assumes "removing keys n s u (length (table1 s)) dc"
    and "distinct (map (key_of keys) (table1 s))" "distinct (map (key_of keys) (table2 u))"
  shows "mset (apply_diffs n (diffs dc) (table1 s)) = mset (table2 u)"
proof -
  let ?f = "\<lambda>r. keyed_row keys (table2 u) (key_of keys r)"
  have "map (\<lambda>r. case ?f (table1 s ! r) of None \<Rightarrow> if r < length (table1 s) then None else Some (table1 s ! r) | Some w \<Rightarrow> Some w)
      [0..<length (table1 s)] = map ?f (table1 s)"
    by (intro nth_equalityI) (auto split: option.split)
  then have "apply_diffs n (diffs dc) (table1 s) = List.map_filter id (map ?f (table1 s)) @
      filter (\<lambda>w. key_of keys w \<notin> key_of keys ` set (table1 s)) (table2 u)"
    using assms(1) by (simp add: removing_def apply_diffs_def)
  moreover have "List.map_filter id (map ?f (table1 s)) = List.map_filter ?f (table1 s)"
    by (simp add: List.map_filter_def filter_map o_def)
  ultimately show ?thesis
    using kept_rows [OF assms(2,3)] by (simp add: mset_filter flip: multiset_partition [of "mset (table2 u)"])
qed

lemma compare_models_contents:
  assumes "comparable cmp keys n s u" "\<forall>ds. \<not> stop ds"
    and "distinct (map (key_of keys) (table1 s))" "distinct (map (key_of keys) (table2 u))"
    and "\<forall>i < length (table2 u). \<forall>r < length (table1 s). key_of keys (table1 s ! r) = key_of keys (table2 u ! i) \<longrightarrow>
      table1 s ! r = table2 u ! i \<or> i < length (table1 s)"
    and "\<forall>c < n. dm_column_type (view1 s) c = dm_column_type (view2 u) c"
    and "keys = default_key_columns (view1 s) (key_columns dc)" "diffs dc = []"
  shows "\<exists>dc'. compare_models cmp stop (view1 s) (view2 u) dc = (None, dc') \<and>
    mset (apply_diffs n (diffs dc') (table1 s)) = mset (table2 u)"
proof -
  have c: "ready1 s" "ready2 u" "dm_n_columns (view1 s) = n" "dm_n_columns (view2 u) = n" using assms(1) by (simp_all add: comparable_def)
  let ?dc = "if length (table2 u) = 0 then dc else dc\<lparr>key_columns := Some keys\<rparr>"
  have "matched keys n s u 0 (replicate (length (table1 s)) True) ?dc"
    using assms(8) by (simp add: matched_def applied_def keyed_row_def flip: map_replicate_const)
  then obtain del dc1 where d1: "matched keys n s u (length (table2 u)) del dc1"
      "new_rows cmp stop (view1 s) (view2 u) keys [0..<length (table2 u)] (replicate (length (table1 s)) True) ?dc = (None, del, dc1)"
    using new_rows_all [OF assms(1-5)] by blast
  then have "removing keys n s u 0 dc1"
    by (simp add: matched_def removing_def) (intro nth_equalityI, auto split: option.split)
  then obtain dc2 where "removing keys n s u (length (table1 s)) dc2"
      "removed_rows stop (view1 s) del [0..<length (table1 s)] dc1 = (None, dc2)"
    using removed_rows_all [OF assms(1,2), of del 0] d1(1) by (auto simp: matched_def)
  moreover have "compare_models cmp stop (view1 s) (view2 u) dc = removed_rows stop (view1 s) del [0..<length (table1 s)] dc1"
    using d1(2) c assms(6)
    by (simp add: compare_models_def Let_def assms(7) [symmetric] old.is_random new.is_random old.n_rows new.n_rows)
  ultimately show ?thesis using removing_contents assms(3,4) by simp
qed

text \<open>Rows that are compared by all their columns: the first old row that is equal is found, and never differs.\<close>

lemma key_of_all: "length x = n \<Longrightarrow> key_of [0..<n] x = x"
  using map_nth [of x] by (simp add: key_of_def)

lemma find_equal_row:
  assumes "comparable cmp [0..<n] n s u" "i < length (table2 u)"
  shows "find_row_in_model cmp (view1 s) (view2 u) [0..<n] (int i) =
    (case List.find (\<lambda>r. table1 s ! r = table2 u ! i) [0..<length (table1 s)] of None \<Rightarrow> (- 1, False) | Some r \<Rightarrow> (int r, False))"
proof -
  have "key_of [0..<n] (table2 u ! i) = table2 u ! i"
    using assms new.nth_row_length [of u i] by (simp add: comparable_def key_of_all)
  moreover have "key_of [0..<n] (table1 s ! r) = table1 s ! r" if "r < length (table1 s)" for r
    using assms that old.nth_row_length [of s r] by (simp add: comparable_def key_of_all)
  then have "List.find (\<lambda>r. key_of [0..<n] (table1 s ! r) = x) [0..<length (table1 s)] =
      List.find (\<lambda>r. table1 s ! r = x) [0..<length (table1 s)]" for x
    by (intro find_cong) auto
  ultimately have found: "find_row_in_model cmp (view1 s) (view2 u) [0..<n] (int i) =
      (case List.find (\<lambda>r. table1 s ! r = table2 u ! i) [0..<length (table1 s)] of
         None \<Rightarrow> (- 1, False) | Some r \<Rightarrow> (int r, table1 s ! r \<noteq> table2 u ! i))"
    using find_row_in_model [OF assms] by simp
  show ?thesis
  proof (cases "List.find (\<lambda>r. table1 s ! r = table2 u ! i) [0..<length (table1 s)]")
    case (Some r)
    then have "table1 s ! r = table2 u ! i" by (auto simp: find_Some_iff)
    then show ?thesis using found Some by simp
  qed (use found in simp)
qed

text \<open>The old rows that a new row was found to be equal to.\<close>

definition marked :: "'s \<Rightarrow> 'u \<Rightarrow> nat \<Rightarrow> bool list" where
  "marked s u i = map (\<lambda>r. \<not> (table1 s ! r \<in> set (take i (table2 u)) \<and> table1 s ! r \<notin> set (take r (table1 s)))) [0..<length (table1 s)]"

lemma first_equal_row:
  assumes "List.find (\<lambda>r. t ! r = x) [0..<length t] = Some r"
  shows "r < length t \<and> t ! r = x \<and> (\<forall>k < length t. t ! k = x \<and> x \<notin> set (take k t) \<longleftrightarrow> k = r)"
proof -
  have r: "r < length t" "t ! r = x" "\<forall>j < r. t ! j \<noteq> x" using assms by (auto simp: find_Some_iff)
  moreover have "x \<notin> set (take k t) \<longleftrightarrow> (\<forall>j < k. t ! j \<noteq> x)" if "k < length t" for k
    using that by (auto simp: in_set_conv_nth)
  ultimately show ?thesis by (metis linorder_neqE_nat)
qed

lemma marked_Suc:
  assumes "i < length (table2 u)"
  shows "marked s u (Suc i) =
    (case List.find (\<lambda>r. table1 s ! r = table2 u ! i) [0..<length (table1 s)] of
       None \<Rightarrow> marked s u i | Some r \<Rightarrow> (marked s u i)[r := False])"
proof -
  have more: "take (Suc i) (table2 u) = take i (table2 u) @ [table2 u ! i]" using assms by (rule take_Suc_conv_app_nth)
  show ?thesis
  proof (cases "List.find (\<lambda>r. table1 s ! r = table2 u ! i) [0..<length (table1 s)]")
    case None
    then have "\<forall>r < length (table1 s). table1 s ! r \<noteq> table2 u ! i" by (auto simp: find_None_iff)
    then have "marked s u (Suc i) = marked s u i" by (auto simp: marked_def more)
    then show ?thesis by (simp add: None)
  next
    case (Some r)
    have "marked s u (Suc i) = (marked s u i)[r := False]"
      using first_equal_row [OF Some] by (intro nth_equalityI) (auto simp: marked_def more nth_list_update)
    then show ?thesis by (simp add: Some)
  qed
qed

lemma new_rows_equal:
  assumes "comparable cmp [0..<n] n s u" "\<forall>ds. \<not> stop ds" "i \<le> length (table2 u)"
  shows "\<exists>dc'. new_rows cmp stop (view1 s) (view2 u) [0..<n] [i..<length (table2 u)] (marked s u i) dc =
      (None, marked s u (length (table2 u)), dc') \<and>
    (diffs dc' = [] \<longleftrightarrow> diffs dc = [] \<and> set (drop i (table2 u)) \<subseteq> set (table1 s))"
  using assms(3)
proof (induction "length (table2 u) - i" arbitrary: i dc)
  case (Suc k)
  then have i: "i < length (table2 u)" by simp
  then have parts: "[i..<length (table2 u)] = i # [Suc i..<length (table2 u)]"
      "drop i (table2 u) = table2 u ! i # drop (Suc i) (table2 u)"
    by (simp_all add: upt_conv_Cons Cons_nth_drop_Suc)
  note IH = Suc.hyps(1) [of "Suc i"]
  show ?case
  proof (cases "List.find (\<lambda>r. table1 s ! r = table2 u ! i) [0..<length (table1 s)]")
    case None
    have "\<forall>j < n. dm_value_at (view2 u) j (int i) = Some (table2 u ! i ! j)" "length (table2 u ! i) = n" "dm_n_columns (view1 s) = n"
      using assms(1) i new.nth_row_length [of u i] by (simp_all add: comparable_def new.value_at)
    then obtain m where m: "put_values (CHR ''+'') (view2 u) (int i) [0..<n] Map.empty = Some m" "dm_n_columns (view1 s) = n"
      using put_values_row by blast
    let ?d = "\<lparr>diff_type = DiffAddRow, diff_old_row = - 1, diff_new_row = int i, diff_values = m\<rparr>"
    let ?dc = "dc\<lparr>diffs := diffs dc @ [?d]\<rparr>"
    have "table2 u ! i \<notin> set (table1 s)" using None by (auto simp: find_None_iff in_set_conv_nth)
    moreover have "new_rows cmp stop (view1 s) (view2 u) [0..<n] (i # [Suc i..<length (table2 u)]) (marked s u i) dc =
        new_rows cmp stop (view1 s) (view2 u) [0..<n] [Suc i..<length (table2 u)] (marked s u (Suc i)) ?dc"
      using m assms(2) None by (simp add: find_equal_row [OF assms(1) i] marked_Suc [OF i] emit_diff_def)
    ultimately show ?thesis using IH [of ?dc] Suc.hyps(2) i by (simp add: parts)
  next
    case (Some r)
    then have "r < length (table1 s)" "table1 s ! r = table2 u ! i" by (auto simp: find_Some_iff)
    then have "table2 u ! i \<in> set (table1 s)" by (metis nth_mem)
    moreover have "new_rows cmp stop (view1 s) (view2 u) [0..<n] (i # [Suc i..<length (table2 u)]) (marked s u i) dc =
        new_rows cmp stop (view1 s) (view2 u) [0..<n] [Suc i..<length (table2 u)] (marked s u (Suc i)) dc"
      using Some by (simp add: find_equal_row [OF assms(1) i] marked_Suc [OF i])
    ultimately show ?thesis using IH [of dc] Suc.hyps(2) i by (simp add: parts)
  qed
qed simp

lemma removed_rows_diffs:
  assumes "ready1 s" "\<forall>ds. \<not> stop ds" "i \<le> length (table1 s)"
  shows "\<exists>dc'. removed_rows stop (view1 s) del [i..<length (table1 s)] dc = (None, dc') \<and>
    (diffs dc' = [] \<longleftrightarrow> diffs dc = [] \<and> (\<forall>r. i \<le> r \<longrightarrow> r < length (table1 s) \<longrightarrow> \<not> del ! r))"
  using assms(3)
proof (induction "length (table1 s) - i" arbitrary: i dc)
  case (Suc k)
  then have i: "i < length (table1 s)" by simp
  then have parts: "[i..<length (table1 s)] = i # [Suc i..<length (table1 s)]" by (rule upt_conv_Cons)
  have range: "(\<forall>r. i \<le> r \<longrightarrow> r < length (table1 s) \<longrightarrow> \<not> del ! r) \<longleftrightarrow>
      \<not> del ! i \<and> (\<forall>r. Suc i \<le> r \<longrightarrow> r < length (table1 s) \<longrightarrow> \<not> del ! r)"
    using i by (metis Suc_leD Suc_leI le_neq_implies_less order.refl)
  show ?case
  proof (cases "del ! i")
    case True
    have "\<forall>j < dm_n_columns (view1 s). dm_value_at (view1 s) j (int i) = Some (table1 s ! i ! j)"
      "length (table1 s ! i) = dm_n_columns (view1 s)"
      using assms(1) i old.nth_row_length [of s i] by (simp_all add: old.value_at)
    then obtain m where m: "put_values (CHR ''-'') (view1 s) (int i) [0..<dm_n_columns (view1 s)] Map.empty = Some m"
      using put_values_row by blast
    let ?d = "\<lparr>diff_type = DiffRemoveRow, diff_old_row = int i, diff_new_row = - 1, diff_values = m\<rparr>"
    let ?dc = "dc\<lparr>diffs := diffs dc @ [?d]\<rparr>"
    have "removed_rows stop (view1 s) del (i # [Suc i..<length (table1 s)]) dc =
        removed_rows stop (view1 s) del [Suc i..<length (table1 s)] ?dc"
      using m assms(2) True by (simp add: emit_diff_def)
    then show ?thesis using Suc.hyps(1) [of "Suc i" ?dc] Suc.hyps(2) i True by (simp add: parts range)
  next
    case False
    then show ?thesis using Suc.hyps(1) [of "Suc i" dc] Suc.hyps(2) i by (simp add: parts range)
  qed
qed simp

lemma nothing_marked:
  "(\<forall>r < length (table1 s). \<not> marked s u (length (table2 u)) ! r) \<longleftrightarrow>
     distinct (table1 s) \<and> set (table1 s) \<subseteq> set (table2 u)"
proof -
  let ?t = "table1 s"
  have "distinct ?t \<longleftrightarrow> (\<forall>r < length ?t. ?t ! r \<notin> set (take r ?t))"
    by (auto simp: distinct_conv_nth in_set_conv_nth) (metis linorder_neqE_nat)
  moreover have "set ?t \<subseteq> set (table2 u) \<longleftrightarrow> (\<forall>r < length ?t. ?t ! r \<in> set (table2 u))"
    unfolding subset_iff in_set_conv_nth [of _ ?t] by blast
  moreover have "(\<forall>r < length ?t. \<not> marked s u (length (table2 u)) ! r) \<longleftrightarrow>
      (\<forall>r < length ?t. ?t ! r \<in> set (table2 u) \<and> ?t ! r \<notin> set (take r ?t))"
    by (simp add: marked_def)
  ultimately show ?thesis by blast
qed

lemma compare_models_all_columns:
  assumes "comparable cmp [0..<n] n s u" "\<forall>ds. \<not> stop ds" "key_columns dc = None" "diffs dc = []"
    and "\<forall>c < n. dm_column_type (view1 s) c = dm_column_type (view2 u) c"
  shows "\<exists>dc'. compare_models cmp stop (view1 s) (view2 u) dc = (None, dc') \<and>
    (diffs dc' = [] \<longleftrightarrow> distinct (table1 s) \<and> set (table1 s) = set (table2 u))"
proof -
  have c: "ready1 s" "ready2 u" "dm_n_columns (view1 s) = n" "dm_n_columns (view2 u) = n" using assms(1) by (simp_all add: comparable_def)
  let ?dc = "if length (table2 u) = 0 then dc else dc\<lparr>key_columns := Some [0..<n]\<rparr>"
  have "replicate (length (table1 s)) True = marked s u 0" by (simp add: marked_def map_replicate_trivial)
  then obtain dc1 where d1: "new_rows cmp stop (view1 s) (view2 u) [0..<n] [0..<length (table2 u)] (replicate (length (table1 s)) True) ?dc =
        (None, marked s u (length (table2 u)), dc1)" "diffs dc1 = [] \<longleftrightarrow> set (table2 u) \<subseteq> set (table1 s)"
    using new_rows_equal [OF assms(1,2), of 0 ?dc] assms(4) by auto
  moreover obtain dc2 where d2: "removed_rows stop (view1 s) (marked s u (length (table2 u))) [0..<length (table1 s)] dc1 = (None, dc2)"
      "diffs dc2 = [] \<longleftrightarrow> diffs dc1 = [] \<and> distinct (table1 s) \<and> set (table1 s) \<subseteq> set (table2 u)"
    using removed_rows_diffs [OF c(1) assms(2), of 0 "marked s u (length (table2 u))" dc1] nothing_marked [of s u] by auto
  have "compare_models cmp stop (view1 s) (view2 u) dc =
      removed_rows stop (view1 s) (marked s u (length (table2 u))) [0..<length (table1 s)] dc1"
    using d1(1) c assms(3,5)
    by (simp add: compare_models_def Let_def default_key_columns_def old.is_random new.is_random old.n_rows new.n_rows)
  then show ?thesis using d1(2) d2 by auto
qed

end

interpretation arrays: two_models as_model cells_table all_valid as_model cells_table all_valid
  by unfold_locales


text \<open>Two tables: customers with a number and a name.\<close>

definition sample_row :: "nat \<Rightarrow> nat \<Rightarrow> nat row" where
  "sample_row i x = [Some (GValue 24 i), Some (GValue 64 x)]"

definition sample_table :: "nat row list \<Rightarrow> nat array_model" where
  "sample_table rows = (gda_data_model_array_new 2)\<lparr>am_rows := map Some rows\<rparr>"

definition sample_cmp :: "gtype \<Rightarrow> nat \<Rightarrow> nat \<Rightarrow> int" where
  "sample_cmp t x y = int x - int y"

lemma sample_table_simps [simp]:
  "am_n_columns (sample_table rows) = 2" "cells_table (sample_table rows) = map (map the) rows"
  "am_columns (sample_table rows) = (\<lambda>_. gda_column_new)"
  "all_valid (sample_table rows) \<longleftrightarrow> (\<forall>r \<in> set rows. length r = 2 \<and> None \<notin> set r)"
  by (auto simp: sample_table_def gda_data_model_array_new_def cells_table_def am_table_def all_valid_def am_wf_def)

lemma sample_cmp [simp]: "decides_equality sample_cmp"
  by (simp add: decides_equality_def sample_cmp_def)


text \<open>
  C16: A comparison by all columns finds no difference exactly when the two tables have the same set of rows and the
  old one has no row twice. So a table with a row twice differs from itself, and what is found is the removal of a row
  that is there in both; while further copies of a row in the new table are not seen.
\<close>

theorem no_difference_iff_same_set:
  assumes "decides_equality cmp" "\<forall>ds. \<not> stop ds" "all_valid a" "all_valid b"
    and "am_n_columns a = am_n_columns b" "\<forall>c < am_n_columns a. col_type (am_columns a c) = col_type (am_columns b c)"
  shows "\<exists>dc. gda_data_comparator_compute_diff cmp stop (gda_data_comparator_new (as_model a) (as_model b)) = (True, None, dc) \<and>
    (diffs dc = [] \<longleftrightarrow> distinct (cells_table a) \<and> set (cells_table a) = set (cells_table b))"
proof -
  let ?dc = "gda_data_comparator_new (as_model a) (as_model b)"
  have "arrays.comparable cmp [0..<am_n_columns a] (am_n_columns a) a b"
    using assms by (auto simp: arrays.comparable_def as_model_def all_valid_def am_wf_def)
  moreover have "\<forall>c < am_n_columns a. dm_column_type (as_model a) c = dm_column_type (as_model b) c"
    using assms(6) by (simp add: as_model_def)
  ultimately show ?thesis
    using arrays.compare_models_all_columns [of cmp "am_n_columns a" a b stop "?dc\<lparr>diffs := []\<rparr>"] assms(2)
    by (auto simp: gda_data_comparator_compute_diff_def gda_data_comparator_new_def)
qed

lemma no_difference_iff_same_set_witness:
  "\<exists>dc. gda_data_comparator_compute_diff sample_cmp (\<lambda>_. False)
      (gda_data_comparator_new (as_model (sample_table [sample_row 1 5, sample_row 1 5]))
        (as_model (sample_table [sample_row 1 5, sample_row 1 5]))) = (True, None, dc) \<and> diffs dc \<noteq> []"
  using no_difference_iff_same_set [of sample_cmp "\<lambda>_. False" "sample_table [sample_row 1 5, sample_row 1 5]"
      "sample_table [sample_row 1 5, sample_row 1 5]"]
  by (auto simp: sample_row_def)



end
