(* ===== verification/Gda_Proxy.thy ===== *)
theory Gda_Proxy
  imports Gda_Model_Array
begin

text \<open>
  Data proxies (\<open>libgda/gda-data-proxy.c\<close>): a model that shows a part of another model, with changes that are kept in the
  proxy until they are applied. This theory holds the state, the numbering of rows, reading and the notifications.

  A row modification is known by a number, as the code knows it by its address. The list \<open>all_modifs\<close> owns the
  modifications; \<open>new_rows\<close> and the hash table \<open>modify_rows\<close> refer to them. The proxied model is an argument of the
  functions that read it. The mutex, and handlers of signals that call the proxy again, are not modelled.
\<close>

section \<open>The proxied model\<close>

record 'v proxied = "'v dmodel" +
  pm_column :: "nat \<Rightarrow> 'v column"
  pm_attributes :: "nat \<Rightarrow> int \<Rightarrow> value_attribute set"

section \<open>State\<close>

record 'v row_value =
  rv_column :: nat
  rv_value :: "'v gptr"
  rv_attributes :: "value_attribute set"

record 'v row_modif =
  rm_model_row :: int
  rm_to_be_deleted :: bool
  rm_modify_values :: "'v row_value list"
  rm_orig_values :: "'v gptr list option"
  rm_orig_values_size :: nat

type_synonym modif_id = nat

datatype proxy_signal =
    PxInserted int | PxUpdated int | PxRemoved int | PxDeleteChanged int bool | PxSampleSizeChanged int
  | PxSampleChanged int int | PxValidate int int | PxApplied int int | PxReset

text \<open>
  \<open>chunk\<close> is the mapping of the rows that are shown; \<open>chunk_to\<close> is a chunk that may have no mapping.
\<close>

record 'v proxy =
  model_nb_cols :: nat
  model_nb_rows :: int
  notify_changes :: bool
  columns_attrs :: "value_attribute set list"
  all_modifs :: "(modif_id \<times> 'v row_modif) list"
  new_rows :: "modif_id list"
  modify_rows :: "int \<Rightarrow> modif_id option"
  next_modif :: modif_id
  defer_proxied_model_insert :: bool
  catched_inserted_row :: int
  add_null_entry :: bool
  defer_sync :: bool
  force_direct_mapping :: bool
  sample_first_row :: int
  sample_last_row :: int
  sample_size :: int
  chunk_sync_idle_id :: bool
  chunk :: "int list option"
  chunk_to :: "int list option option"
  chunk_sep :: int
  chunk_proxy_nb_rows :: int
  filtered_rows :: "int list option"
  px_columns :: "'v column list option"
  cache_changes :: bool
  cached_modifs :: "'v row_modif list"
  cached_inserts :: "'v row_modif list"
  px_signals :: "proxy_signal list"

text \<open>\<open>gda_data_proxy_init\<close> with what \<open>do_init\<close> does.\<close>

definition gda_data_proxy_init :: "'v proxy" where
  "gda_data_proxy_init =
     \<lparr>model_nb_cols = 0, model_nb_rows = 0, notify_changes = True, columns_attrs = [], all_modifs = [], new_rows = [],
      modify_rows = Map.empty, next_modif = 0, defer_proxied_model_insert = False, catched_inserted_row = - 1,
      add_null_entry = False, defer_sync = True, force_direct_mapping = False, sample_first_row = 0, sample_last_row = 0,
      sample_size = 0, chunk_sync_idle_id = False, chunk = None, chunk_to = None, chunk_sep = 0, chunk_proxy_nb_rows = 0,
      filtered_rows = None, px_columns = None, cache_changes = False, cached_modifs = [], cached_inserts = [], px_signals = []\<rparr>"

definition modif_at :: "'v proxy \<Rightarrow> modif_id \<Rightarrow> 'v row_modif option" where
  "modif_at p i = map_of (all_modifs p) i"

definition update_modif :: "modif_id \<Rightarrow> ('v row_modif \<Rightarrow> 'v row_modif) \<Rightarrow> 'v proxy \<Rightarrow> 'v proxy" where
  "update_modif i f p = p\<lparr>all_modifs := map (\<lambda>(j, rm). (j, if j = i then f rm else rm)) (all_modifs p)\<rparr>"

definition remove_modif :: "modif_id \<Rightarrow> 'v proxy \<Rightarrow> 'v proxy" where
  "remove_modif i p = p\<lparr>all_modifs := filter (\<lambda>(j, rm). j \<noteq> i) (all_modifs p)\<rparr>"

definition remove_new_row :: "modif_id \<Rightarrow> 'v proxy \<Rightarrow> 'v proxy" where
  "remove_new_row i p = p\<lparr>new_rows := remove1 i (new_rows p)\<rparr>"

definition hash_insert :: "int \<Rightarrow> modif_id \<Rightarrow> 'v proxy \<Rightarrow> 'v proxy" where
  "hash_insert row i p = p\<lparr>modify_rows := (modify_rows p)(row := Some i)\<rparr>"

definition hash_remove :: "int \<Rightarrow> 'v proxy \<Rightarrow> 'v proxy" where
  "hash_remove row p = p\<lparr>modify_rows := (modify_rows p)(row := None)\<rparr>"

text \<open>A modification that is added gets a number of its own.\<close>

definition prepend_modif :: "'v row_modif \<Rightarrow> 'v proxy \<Rightarrow> modif_id \<times> 'v proxy" where
  "prepend_modif rm p =
     (next_modif p, p\<lparr>all_modifs := (next_modif p, rm) # all_modifs p, next_modif := Suc (next_modif p)\<rparr>)"

section \<open>Row numbers\<close>

fun slist_index :: "'a \<Rightarrow> 'a list \<Rightarrow> int" where
  "slist_index x [] = - 1"
| "slist_index x (y # ys) = (if x = y then 0 else (let i = slist_index x ys in if i < 0 then - 1 else i + 1))"

definition slist_nth :: "'a list \<Rightarrow> nat \<Rightarrow> 'a option" where
  "slist_nth xs i = (if i < length xs then Some (xs ! i) else None)"

definition model_row_to_absolute_row :: "'v proxy \<Rightarrow> int \<Rightarrow> int" where
  "model_row_to_absolute_row p row =
     (if row < 0 then - 1
      else if model_nb_rows p \<le> row \<and> 0 \<le> model_nb_rows p then - 1
      else row)"

definition row_modif_to_absolute_row :: "'v proxy \<Rightarrow> modif_id \<Rightarrow> 'v row_modif \<Rightarrow> int" where
  "row_modif_to_absolute_row p i rm =
     (if rm_model_row rm = - 1 then
        if model_nb_rows p = - 1 then - 1
        else if slist_index i (new_rows p) < 0 then - 1
        else model_nb_rows p + slist_index i (new_rows p)
      else rm_model_row rm)"

text \<open>The second result is what is stored in \<open>rm\<close>.\<close>

definition absolute_row_to_model_row :: "'v proxy \<Rightarrow> int \<Rightarrow> int \<times> modif_id option" where
  "absolute_row_to_model_row p row =
     (if row < 0 then (- 1, None)
      else if row < model_nb_rows p \<or> model_nb_rows p < 0 then (row, modify_rows p row)
      else (- 1, slist_nth (new_rows p) (nat (row - model_nb_rows p))))"

definition proxy_row_to_absolute_row :: "'v proxy \<Rightarrow> int \<Rightarrow> int" where
  "proxy_row_to_absolute_row p row =
     (if row < 0 then - 1
      else if force_direct_mapping p then row
      else if add_null_entry p \<and> row = 0 then - 1
      else
        (let r = (if add_null_entry p then row - 1 else row) in
         case chunk p of
           Some m \<Rightarrow> if nat r < length m then m ! nat r else - 1
         | None \<Rightarrow>
             (case chunk_to p of
                Some (Some m) \<Rightarrow> if r < chunk_sep p \<and> nat r < length m then m ! nat r else r
              | _ \<Rightarrow> r)))"

definition proxy_row_to_model_row :: "'v proxy \<Rightarrow> int \<Rightarrow> int" where
  "proxy_row_to_model_row p row = fst (absolute_row_to_model_row p (proxy_row_to_absolute_row p row))"

definition proxy_row_to_row_modif :: "'v proxy \<Rightarrow> int \<Rightarrow> modif_id option" where
  "proxy_row_to_row_modif p row = snd (absolute_row_to_model_row p (proxy_row_to_absolute_row p row))"

definition gda_data_proxy_get_n_rows :: "'v proxy \<Rightarrow> int" where
  "gda_data_proxy_get_n_rows p =
     (let null_row = (if \<not> force_direct_mapping p \<and> add_null_entry p then 1 else 0);
          no_chunk =
            (if 0 \<le> model_nb_rows p then
               (case chunk_to p of
                  Some (Some _) \<Rightarrow> chunk_proxy_nb_rows p + null_row
                | _ \<Rightarrow> model_nb_rows p + int (length (new_rows p)) + null_row)
             else - 1)
      in case chunk p of
           Some m \<Rightarrow> if force_direct_mapping p then no_chunk else int (length m) + null_row
         | None \<Rightarrow> no_chunk)"

definition below_n_rows :: "'v proxy \<Rightarrow> int \<Rightarrow> int" where
  "below_n_rows p row =
     (if gda_data_proxy_get_n_rows p \<le> row \<and> 0 \<le> gda_data_proxy_get_n_rows p then - 1 else row)"

text \<open>Without a chunk, the length of the chunk is read all the same when there is one to change to.\<close>

definition absolute_row_to_proxy_row :: "'v proxy \<Rightarrow> int \<Rightarrow> int outcome" where
  "absolute_row_to_proxy_row p row =
     (let null_row = (if add_null_entry p then 1 else 0) in
      if row < 0 then Returns (- 1)
      else if force_direct_mapping p then Returns (below_n_rows p row)
      else
        (case chunk p of
           Some m \<Rightarrow> Returns (let i = slist_index row m in if 0 \<le> i then i + null_row else i)
         | None \<Rightarrow>
             (case chunk_to p of
                Some (Some _) \<Rightarrow> Undefined
              | _ \<Rightarrow> Returns (below_n_rows p (row + null_row)))))"

definition row_modif_to_proxy_row :: "'v proxy \<Rightarrow> modif_id \<Rightarrow> 'v row_modif \<Rightarrow> int outcome" where
  "row_modif_to_proxy_row p i rm = absolute_row_to_proxy_row p (row_modif_to_absolute_row p i rm)"

text \<open>The window and the signals play no part in the numbering.\<close>

lemma numbering_unrelated [simp]:
  "proxy_row_to_absolute_row (p\<lparr>px_signals := sgs\<rparr>) r = proxy_row_to_absolute_row p r"
  "proxy_row_to_absolute_row (p\<lparr>chunk_sync_idle_id := b\<rparr>) r = proxy_row_to_absolute_row p r"
  "proxy_row_to_absolute_row (p\<lparr>sample_first_row := n\<rparr>) r = proxy_row_to_absolute_row p r"
  "proxy_row_to_absolute_row (p\<lparr>sample_last_row := n\<rparr>) r = proxy_row_to_absolute_row p r"
  "proxy_row_to_absolute_row (p\<lparr>sample_size := n\<rparr>) r = proxy_row_to_absolute_row p r"
  by (simp_all add: proxy_row_to_absolute_row_def Let_def cong: option.case_cong)

lemma n_rows_unrelated [simp]:
  "gda_data_proxy_get_n_rows (p\<lparr>px_signals := sgs\<rparr>) = gda_data_proxy_get_n_rows p"
  "gda_data_proxy_get_n_rows (p\<lparr>chunk_sync_idle_id := b\<rparr>) = gda_data_proxy_get_n_rows p"
  "gda_data_proxy_get_n_rows (p\<lparr>sample_first_row := n\<rparr>) = gda_data_proxy_get_n_rows p"
  "gda_data_proxy_get_n_rows (p\<lparr>sample_last_row := n\<rparr>) = gda_data_proxy_get_n_rows p"
  "gda_data_proxy_get_n_rows (p\<lparr>sample_size := n\<rparr>) = gda_data_proxy_get_n_rows p"
  by (simp_all add: gda_data_proxy_get_n_rows_def Let_def cong: option.case_cong if_cong)

section \<open>Columns\<close>

definition gda_data_proxy_get_n_columns :: "'v proxy \<Rightarrow> nat" where
  "gda_data_proxy_get_n_columns p = 2 * model_nb_cols p"

text \<open>The columns are made when they are first asked for; their names are left out.\<close>

definition create_columns :: "'v proxied \<Rightarrow> 'v proxy \<Rightarrow> 'v proxy" where
  "create_columns dm p =
     (case px_columns p of
        Some _ \<Rightarrow> p
      | None \<Rightarrow>
          p\<lparr>px_columns :=
            Some (map (pm_column dm) [0..<model_nb_cols p] @ map (pm_column dm) [0..<model_nb_cols p])\<rparr>)"

definition gda_data_proxy_describe_column :: "'v proxied \<Rightarrow> nat \<Rightarrow> 'v proxy \<Rightarrow> 'v column option \<times> 'v proxy" where
  "gda_data_proxy_describe_column dm col p =
     (let p' = create_columns dm p in
      (if col < 2 * model_nb_cols p then Some (the (px_columns p') ! col) else None, p'))"

section \<open>Reading values\<close>

definition find_row_value :: "nat \<Rightarrow> 'v row_value list \<Rightarrow> 'v row_value option" where
  "find_row_value col rvs = List.find (\<lambda>rv. rv_column rv = col) rvs"

text \<open>A reference to a modification that was freed has no defined result.\<close>

definition row_modif_of :: "'v proxy \<Rightarrow> int \<Rightarrow> (modif_id \<times> 'v row_modif) option outcome" where
  "row_modif_of p row =
     (case proxy_row_to_row_modif p row of
        None \<Rightarrow> Returns None
      | Some i \<Rightarrow> (case modif_at p i of None \<Rightarrow> Undefined | Some rm \<Rightarrow> Returns (Some (i, rm))))"

definition model_value :: "'v proxied \<Rightarrow> nat \<Rightarrow> int \<Rightarrow> 'v gptr" where
  "model_value dm col model_row = (if 0 \<le> model_row then dm_value_at dm col model_row else None)"

definition gda_data_proxy_get_value_at :: "'v proxied \<Rightarrow> 'v proxy \<Rightarrow> nat \<Rightarrow> int \<Rightarrow> 'v gptr outcome" where
  "gda_data_proxy_get_value_at dm p col row =
     (let model_row = proxy_row_to_model_row p row in
      if row < 0 then Returns None
      else if row = 0 \<and> add_null_entry p then Returns (Some GNull)
      else if col < model_nb_cols p then
        bind_outcome (row_modif_of p row) (\<lambda>m.
          Returns
            (case (case m of None \<Rightarrow> None | Some (_, rm) \<Rightarrow> find_row_value col (rm_modify_values rm)) of
               Some rv \<Rightarrow> Some (contents_of (rv_value rv))
             | None \<Rightarrow> model_value dm col model_row))
      else if col < 2 * model_nb_cols p then
        bind_outcome (row_modif_of p row) (\<lambda>m.
          case m of
            None \<Rightarrow> Returns (model_value dm (col mod model_nb_cols p) model_row)
          | Some (_, rm) \<Rightarrow>
              (case rm_orig_values rm of
                 None \<Rightarrow> Returns (Some GNull)
               | Some orig \<Rightarrow>
                   (if col mod model_nb_cols p < length orig then Returns (orig ! (col mod model_nb_cols p)) else Undefined)))
      else Returns None)"

lemma no_row_value:
  assumes "proxy_row_to_absolute_row p row = - 1" "0 \<le> row" "row = 0 \<longrightarrow> \<not> add_null_entry p" "col < model_nb_cols p"
  shows "gda_data_proxy_get_value_at dm p col row = Returns None"
  using assms
  by (simp add: gda_data_proxy_get_value_at_def row_modif_of_def proxy_row_to_row_modif_def proxy_row_to_model_row_def
      absolute_row_to_model_row_def model_value_def Let_def)

fun gather_values :: "'v proxied \<Rightarrow> 'v proxy \<Rightarrow> int \<Rightarrow> nat list \<Rightarrow> 'v gvalue list option outcome" where
  "gather_values dm p row [] = Returns (Some [])"
| "gather_values dm p row (c # cs) =
     bind_outcome (gda_data_proxy_get_value_at dm p c row) (\<lambda>v.
       case v of
         None \<Rightarrow> Returns None
       | Some x \<Rightarrow> bind_outcome (gather_values dm p row cs) (\<lambda>vs. Returns (map_option ((#) x) vs)))"

definition gda_data_proxy_get_values ::
    "'v proxied \<Rightarrow> 'v proxy \<Rightarrow> int \<Rightarrow> nat list \<Rightarrow> 'v gvalue list option outcome" where
  "gda_data_proxy_get_values dm p row cols_index =
     (if row < 0 then Returns None else gather_values dm p row cols_index)"

text \<open>Without columns the column number is divided by zero.\<close>

definition gda_data_proxy_get_value_attributes ::
    "'v proxied \<Rightarrow> 'v proxy \<Rightarrow> int \<Rightarrow> nat \<Rightarrow> value_attribute set outcome" where
  "gda_data_proxy_get_value_attributes dm p row col =
     (if row < 0 then Returns {}
      else if model_nb_cols p = 0 then Undefined
      else
        (let model_column = col mod model_nb_cols p;
             model_row = proxy_row_to_model_row p row;
             flags = pm_attributes dm model_column model_row \<union> (if model_row < 0 then {AttrIsNull} else {})
         in bind_outcome (row_modif_of p row) (\<lambda>m.
              let flags =
                    (case (case m of None \<Rightarrow> None | Some (_, rm) \<Rightarrow> find_row_value model_column (rm_modify_values rm)) of
                       None \<Rightarrow> flags \<union> {AttrIsUnchanged}
                     | Some rv \<Rightarrow>
                         if is_null (rv_value rv) then flags \<union> rv_attributes rv \<union> {AttrIsNull}
                         else (flags \<union> rv_attributes rv) - {AttrIsNull})
              in Returns
                   (if AttrCanBeNull \<notin> flags \<and> AttrIsNull \<in> flags \<and> AttrIsDefault \<notin> flags
                    then flags \<union> {AttrDataNonValid} else flags))))"

definition gda_data_proxy_get_access_flags :: "'v proxied \<Rightarrow> access set" where
  "gda_data_proxy_get_access_flags dm = dm_access dm \<union> {AccessRandom}"

definition gda_data_proxy_row_is_deleted :: "'v proxy \<Rightarrow> int \<Rightarrow> bool outcome" where
  "gda_data_proxy_row_is_deleted p row =
     (if row < 0 then Returns False
      else bind_outcome (row_modif_of p row) (\<lambda>m.
        Returns (case m of None \<Rightarrow> False | Some (_, rm) \<Rightarrow> rm_to_be_deleted rm)))"

definition gda_data_proxy_row_is_inserted :: "'v proxy \<Rightarrow> int \<Rightarrow> bool outcome" where
  "gda_data_proxy_row_is_inserted p row =
     (if row < 0 then Returns False
      else bind_outcome (row_modif_of p row) (\<lambda>m.
        Returns (case m of None \<Rightarrow> False | Some (_, rm) \<Rightarrow> rm_model_row rm < 0)))"

definition gda_data_proxy_row_has_changed :: "'v proxy \<Rightarrow> int \<Rightarrow> bool outcome" where
  "gda_data_proxy_row_has_changed p row =
     (if row < 0 then Returns False
      else bind_outcome (row_modif_of p row) (\<lambda>m.
        Returns (case m of None \<Rightarrow> False | Some (_, rm) \<Rightarrow> rm_modify_values rm \<noteq> [] \<or> rm_to_be_deleted rm)))"

definition gda_data_proxy_has_changed :: "'v proxy \<Rightarrow> bool" where
  "gda_data_proxy_has_changed p \<longleftrightarrow> all_modifs p \<noteq> []"

definition gda_data_proxy_get_n_new_rows :: "'v proxy \<Rightarrow> nat" where
  "gda_data_proxy_get_n_new_rows p = length (new_rows p)"

definition gda_data_proxy_get_n_modified_rows :: "'v proxy \<Rightarrow> nat" where
  "gda_data_proxy_get_n_modified_rows p = length (all_modifs p)"

definition gda_data_proxy_get_proxied_model_row :: "'v proxy \<Rightarrow> int \<Rightarrow> int" where
  "gda_data_proxy_get_proxied_model_row p row = (if row < 0 then 0 else proxy_row_to_model_row p row)"

section \<open>Notification\<close>

text \<open>A signal of the interface is emitted when notification is on; those of the proxy are always.\<close>

definition px_emit :: "proxy_signal \<Rightarrow> 'v proxy \<Rightarrow> 'v proxy" where
  "px_emit sg p = p\<lparr>px_signals := px_signals p @ [sg]\<rparr>"

definition px_notify :: "proxy_signal \<Rightarrow> 'v proxy \<Rightarrow> 'v proxy" where
  "px_notify sg p = (if notify_changes p then px_emit sg p else p)"

text \<open>
  The first row gives their type to the columns that have none: \<open>gda_data_model_row_inserted\<close> for a proxy.
\<close>

definition px_type_column :: "'v proxied \<Rightarrow> nat \<Rightarrow> 'v proxy \<Rightarrow> 'v proxy outcome" where
  "px_type_column dm i p =
     (let p' = create_columns dm p in
      bind_outcome (gda_data_proxy_get_value_at dm p' i 0) (\<lambda>v.
        Returns
          (case (v, px_columns p') of
             (Some x, Some cs) \<Rightarrow>
               if col_type (cs ! i) = GDA_TYPE_NULL
               then p'\<lparr>px_columns := Some (cs[i := (cs ! i)\<lparr>col_type := G_VALUE_TYPE x\<rparr>])\<rparr> else p'
           | _ \<Rightarrow> p')))"

fun px_type_columns :: "'v proxied \<Rightarrow> nat list \<Rightarrow> 'v proxy \<Rightarrow> 'v proxy outcome" where
  "px_type_columns dm [] p = Returns p"
| "px_type_columns dm (i # is) p = bind_outcome (px_type_column dm i p) (px_type_columns dm is)"

definition px_row_inserted :: "'v proxied \<Rightarrow> int \<Rightarrow> 'v proxy \<Rightarrow> 'v proxy outcome" where
  "px_row_inserted dm row p =
     bind_outcome
       (if gda_data_proxy_get_n_rows p = 1 then px_type_columns dm [0..<gda_data_proxy_get_n_columns p] p else Returns p)
       (\<lambda>p'. Returns (px_notify (PxInserted row) p'))"

section \<open>References are valid\<close>

text \<open>No reference to a freed modification is kept, and there is an original value for each column.\<close>

definition px_live :: "'v proxy \<Rightarrow> bool" where
  "px_live p \<longleftrightarrow>
     (\<forall>i \<in> set (new_rows p). modif_at p i \<noteq> None) \<and> (\<forall>row i. modify_rows p row = Some i \<longrightarrow> modif_at p i \<noteq> None) \<and>
     (\<forall>(i, rm) \<in> set (all_modifs p). \<forall>orig. rm_orig_values rm = Some orig \<longrightarrow> length orig = model_nb_cols p)"

lemma px_live_cong:
  "all_modifs p' = all_modifs p \<Longrightarrow> new_rows p' = new_rows p \<Longrightarrow> modify_rows p' = modify_rows p \<Longrightarrow>
     model_nb_cols p' = model_nb_cols p \<Longrightarrow> px_live p' = px_live p"
  by (simp add: px_live_def modif_at_def)

lemma slist_nth_in: "slist_nth xs i = Some x \<Longrightarrow> x \<in> set xs"
  by (auto simp: slist_nth_def split: if_splits)

lemma proxy_row_to_row_modif_cases:
  "proxy_row_to_row_modif p row = Some i \<Longrightarrow> i \<in> set (new_rows p) \<or> modify_rows p (proxy_row_to_absolute_row p row) = Some i"
  by (auto simp: proxy_row_to_row_modif_def absolute_row_to_model_row_def dest: slist_nth_in split: if_splits)

lemma row_modif_of_live:
  assumes "px_live p"
  shows "\<exists>m. row_modif_of p row = Returns m \<and> (\<forall>i rm. m = Some (i, rm) \<longrightarrow> modif_at p i = Some rm)"
  using assms proxy_row_to_row_modif_cases [of p row]
  by (cases "proxy_row_to_row_modif p row") (fastforce simp: row_modif_of_def px_live_def)+

lemma modif_at_in: "modif_at p i = Some rm \<Longrightarrow> (i, rm) \<in> set (all_modifs p)"
  by (simp add: modif_at_def map_of_SomeD)

lemma get_value_at_live:
  assumes "px_live p"
  obtains v where "gda_data_proxy_get_value_at dm p col row = Returns v"
proof -
  obtain m where m: "row_modif_of p row = Returns m" "\<And>i rm. m = Some (i, rm) \<Longrightarrow> (i, rm) \<in> set (all_modifs p)"
    using row_modif_of_live [OF assms, of row] modif_at_in by blast
  then have "length orig = model_nb_cols p" if "m = Some (i, rm)" "rm_orig_values rm = Some orig" for i rm orig
    using assms that by (fastforce simp: px_live_def)
  then have "\<exists>v. gda_data_proxy_get_value_at dm p col row = Returns v"
    by (auto simp: gda_data_proxy_get_value_at_def m(1) Let_def split: option.split)
  then show ?thesis using that by blast
qed

lemma create_columns_eq: "\<exists>c. create_columns dm p = p\<lparr>px_columns := c\<rparr>"
proof (cases "px_columns p")
  case (Some cs)
  then have "create_columns dm p = p\<lparr>px_columns := px_columns p\<rparr>" by (simp add: create_columns_def)
  then show ?thesis by blast
qed (simp add: create_columns_def, blast)

lemma px_type_columns_live: "px_live p \<Longrightarrow> \<exists>cs. px_type_columns dm is p = Returns (p\<lparr>px_columns := cs\<rparr>)"
proof (induction "is" arbitrary: p)
  case Nil
  have "p = p\<lparr>px_columns := px_columns p\<rparr>" by simp
  then show ?case by (metis px_type_columns.simps(1))
next
  case (Cons i "is")
  let ?p = "create_columns dm p"
  obtain c where c: "?p = p\<lparr>px_columns := c\<rparr>" using create_columns_eq by blast
  then have "px_live ?p" using Cons.prems px_live_cong [of ?p p] by simp
  then obtain v where "gda_data_proxy_get_value_at dm ?p i 0 = Returns v" by (rule get_value_at_live)
  then have "px_type_column dm i p =
      Returns (p\<lparr>px_columns :=
        (case (v, c) of
           (Some x, Some cs) \<Rightarrow>
             if col_type (cs ! i) = GDA_TYPE_NULL then Some (cs[i := (cs ! i)\<lparr>col_type := G_VALUE_TYPE x\<rparr>]) else c
         | _ \<Rightarrow> c)\<rparr>)"
    by (simp add: px_type_column_def c split: option.split)
  then obtain cs where "px_type_column dm i p = Returns (p\<lparr>px_columns := cs\<rparr>)" by blast
  moreover have "px_live (p\<lparr>px_columns := cs\<rparr>)" using Cons.prems px_live_cong [of "p\<lparr>px_columns := cs\<rparr>" p] by simp
  ultimately show ?case using Cons.IH [of "p\<lparr>px_columns := cs\<rparr>"] by simp
qed

lemma px_row_inserted_live:
  assumes "px_live p"
  obtains cs where "px_row_inserted dm row p = Returns (px_notify (PxInserted row) (p\<lparr>px_columns := cs\<rparr>))"
proof -
  obtain cs where cs: "px_type_columns dm [0..<gda_data_proxy_get_n_columns p] p = Returns (p\<lparr>px_columns := cs\<rparr>)"
    using px_type_columns_live [OF assms] by blast
  show ?thesis
  proof (cases "gda_data_proxy_get_n_rows p = 1")
    case True
    then show ?thesis using cs that [of cs] by (simp add: px_row_inserted_def)
  next
    case False
    then show ?thesis using that [of "px_columns p"] by (simp add: px_row_inserted_def)
  qed
qed

section \<open>The invariant of the modifications\<close>

text \<open>
  A modification is that of a row of the proxied model, which the hash table finds, or a row that was added. The rows
  that were added are listed in the order in which they were added, which \<open>all_modifs\<close> reverses.
\<close>

definition is_new :: "'v row_modif \<Rightarrow> bool" where
  "is_new rm \<longleftrightarrow> rm_model_row rm = - 1"

definition modif_wf :: "'v proxy \<Rightarrow> modif_id \<Rightarrow> 'v row_modif \<Rightarrow> bool" where
  "modif_wf p i rm \<longleftrightarrow>
     i < next_modif p \<and> distinct (map rv_column (rm_modify_values rm)) \<and>
     (\<forall>rv \<in> set (rm_modify_values rm). rv_column rv < model_nb_cols p) \<and> rm_orig_values_size rm = model_nb_cols p \<and>
     (rm_to_be_deleted rm \<or> rm_modify_values rm \<noteq> []) \<and>
     (if is_new rm then \<not> rm_to_be_deleted rm \<and> rm_orig_values rm = None
      else 0 \<le> rm_model_row rm \<and> rm_model_row rm < model_nb_rows p \<and> modify_rows p (rm_model_row rm) = Some i \<and>
        (\<exists>orig. rm_orig_values rm = Some orig \<and> length orig = model_nb_cols p))"

definition px_inv :: "'v proxy \<Rightarrow> bool" where
  "px_inv p \<longleftrightarrow>
     0 \<le> model_nb_rows p \<and> distinct (map fst (all_modifs p)) \<and> (\<forall>(i, rm) \<in> set (all_modifs p). modif_wf p i rm) \<and>
     new_rows p = rev (map fst (filter (is_new \<circ> snd) (all_modifs p))) \<and>
     (\<forall>row i. modify_rows p row = Some i \<longrightarrow> (\<exists>rm. (i, rm) \<in> set (all_modifs p) \<and> \<not> is_new rm \<and> rm_model_row rm = row))"

lemma modif_at_iff: "px_inv p \<Longrightarrow> modif_at p i = Some rm \<longleftrightarrow> (i, rm) \<in> set (all_modifs p)"
  by (simp add: modif_at_def px_inv_def)

lemma px_inv_modif: "px_inv p \<Longrightarrow> modif_at p i = Some rm \<Longrightarrow> modif_wf p i rm"
  by (auto simp: modif_at_iff px_inv_def)

lemma px_inv_new_row: "px_inv p \<Longrightarrow> i \<in> set (new_rows p) \<longleftrightarrow> (\<exists>rm. modif_at p i = Some rm \<and> is_new rm)"
  by (auto simp: modif_at_iff px_inv_def) force

lemma px_inv_hash:
  "px_inv p \<Longrightarrow> modify_rows p row = Some i \<longleftrightarrow> (\<exists>rm. modif_at p i = Some rm \<and> \<not> is_new rm \<and> rm_model_row rm = row)"
  by (fastforce simp: modif_at_iff px_inv_def modif_wf_def)

lemma px_inv_live: "px_inv p \<Longrightarrow> px_live p"
  unfolding px_live_def by (auto simp: px_inv_new_row px_inv_hash) (fastforce simp: px_inv_def modif_wf_def split: if_splits)

lemma distinct_map_filter: "distinct (map f xs) \<Longrightarrow> distinct (map f (filter P xs))"
  by (induction xs) auto

lemma px_inv_distinct_new: "px_inv p \<Longrightarrow> distinct (new_rows p)"
  by (simp add: px_inv_def distinct_map_filter)

lemma slist_index_nth: "distinct xs \<Longrightarrow> k < length xs \<Longrightarrow> slist_index (xs ! k) xs = int k"
proof (induction xs arbitrary: k)
  case (Cons x xs)
  then show ?case by (cases k) (auto simp: Let_def)
qed simp

lemma slist_index_none: "slist_index x xs < 0 \<longleftrightarrow> x \<notin> set xs" "x \<notin> set xs \<Longrightarrow> slist_index x xs = - 1"
  by (induction xs) (auto simp: Let_def)

lemma new_row_number:
  assumes "px_inv p" "k < length (new_rows p)"
  obtains rm where "modif_at p (new_rows p ! k) = Some rm" "is_new rm"
    "row_modif_to_absolute_row p (new_rows p ! k) rm = model_nb_rows p + int k"
proof -
  have "new_rows p ! k \<in> set (new_rows p)" using assms(2) by simp
  then obtain rm where rm: "modif_at p (new_rows p ! k) = Some rm" "is_new rm" using assms(1) by (auto simp: px_inv_new_row)
  have "slist_index (new_rows p ! k) (new_rows p) = int k" using assms by (simp add: slist_index_nth px_inv_distinct_new)
  moreover have "model_nb_rows p \<noteq> - 1" using assms(1) by (simp add: px_inv_def)
  ultimately show thesis using rm that by (simp add: row_modif_to_absolute_row_def is_new_def)
qed

end
