(* ===== verification/Gda_Proxy_Sample.thy ===== *)
theory Gda_Proxy_Sample
  imports Gda_Proxy "HOL-Library.Signed_Division"
begin

text \<open>
  The rows that a data proxy shows (\<open>libgda/gda-data-proxy.c\<close>): a window of the proxied model, or the rows that a filter
  selected, followed by the rows that were added. A change of the window replaces the mapping \<open>chunk\<close> by \<open>chunk_to\<close>,
  step by step, with a signal for each row that changes, at once or in the idle time of the main loop.

  Row numbers and sizes are integers; the index of the synchronisation is a \<open>guint\<close>, which matters when \<open>chunk_sep\<close> is
  negative. An iterator moves to the rows that the model has.
\<close>

section \<open>Synchronisation\<close>

definition guint :: "int \<Rightarrow> int" where
  "guint x = x mod 4294967296"

definition gint_of :: "int \<Rightarrow> int" where
  "gint_of x = (if 2147483648 \<le> x then x - 4294967296 else x)"

definition g_array_insert_val :: "int \<Rightarrow> 'a \<Rightarrow> 'a list \<Rightarrow> 'a list" where
  "g_array_insert_val i x xs = take (nat i) xs @ x # drop (nat i) xs"

definition g_array_remove_index :: "int \<Rightarrow> 'a list \<Rightarrow> 'a list" where
  "g_array_remove_index i xs = take (nat i) xs @ drop (Suc (nat i)) xs"

definition current_row :: "'v proxy \<Rightarrow> int \<Rightarrow> int" where
  "current_row p index =
     (case chunk p of
        Some m \<Rightarrow> if nat index < length m then m ! nat index else - 1
      | None \<Rightarrow> if chunk_proxy_nb_rows p \<le> gint_of index then - 1 else gint_of index)"

definition replacing_row :: "'v proxied \<Rightarrow> 'v proxy \<Rightarrow> int \<Rightarrow> int" where
  "replacing_row dm p index =
     (case chunk_to p of
        Some (Some t) \<Rightarrow> if nat index < length t then t ! nat index else - 1
      | _ \<Rightarrow> if 0 \<le> gint_of index \<and> gint_of index < dm_n_rows dm then gint_of index else - 1)"

definition null_rows :: "'v proxy \<Rightarrow> int" where
  "null_rows p = (if add_null_entry p then 1 else 0)"

fun sync_steps :: "'v proxied \<Rightarrow> nat \<Rightarrow> int \<Rightarrow> 'v proxy \<Rightarrow> (bool \<times> 'v proxy) outcome" where
  "sync_steps dm 0 index p = Returns (False, p)"
| "sync_steps dm (Suc n) index p =
     (let cur = current_row p index; repl = replacing_row dm p index; row = index + null_rows p in
      if 0 \<le> cur \<and> 0 \<le> repl then
        (let p' = p\<lparr>chunk := map_option (\<lambda>m. m[nat index := repl]) (chunk p), chunk_sep := chunk_sep p + 1\<rparr> in
         sync_steps dm n (index + 1) (if cur \<noteq> repl then px_notify (PxUpdated row) p' else p'))
      else if 0 \<le> cur then
        sync_steps dm n index
          (px_notify (PxRemoved row)
            (p\<lparr>chunk := map_option (g_array_remove_index index) (chunk p),
               chunk_proxy_nb_rows := chunk_proxy_nb_rows p - 1\<rparr>))
      else if 0 \<le> repl then
        (let p' = p\<lparr>chunk := map_option (g_array_insert_val index repl) (chunk p), chunk_sep := chunk_sep p + 1\<rparr> in
         bind_outcome (if notify_changes p then px_row_inserted dm row p' else Returns p') (sync_steps dm n (index + 1)))
      else Returns (True, p))"

text \<open>The first assignment of the largest number of steps, for a synchronisation at once, is overwritten.\<close>

definition IDLE_STEP :: int where "IDLE_STEP = 50"

definition sync_max_steps :: "'v proxy \<Rightarrow> int list option \<Rightarrow> int" where
  "sync_max_steps p to =
     (let rows = (\<lambda>c. guint ((case c of Some m \<Rightarrow> int (length m) | None \<Rightarrow> chunk_proxy_nb_rows p) - chunk_sep p + 1));
          steps = max (rows to) (rows (chunk p))
      in if defer_sync p then min steps IDLE_STEP else steps)"

definition sync_finished :: "'v proxy \<Rightarrow> 'v proxy" where
  "sync_finished p =
     p\<lparr>chunk_sync_idle_id := False, chunk := (case chunk_to p of Some (Some t) \<Rightarrow> Some t | _ \<Rightarrow> None), chunk_to := None\<rparr>"

definition chunk_sync_idle :: "'v proxied \<Rightarrow> 'v proxy \<Rightarrow> (bool \<times> 'v proxy) outcome" where
  "chunk_sync_idle dm p =
     (let p0 = (if defer_sync p then p else p\<lparr>chunk_sync_idle_id := False\<rparr>) in
      case chunk_to p0 of
        None \<Rightarrow> Returns (False, p0)
      | Some to \<Rightarrow>
          (let p1 = (if chunk_proxy_nb_rows p0 < 0
                     then p0\<lparr>chunk_proxy_nb_rows := model_nb_rows p0 + int (length (new_rows p0))\<rparr> else p0)
           in bind_outcome (sync_steps dm (nat (sync_max_steps p1 to)) (guint (chunk_sep p1)) p1)
                (\<lambda>(finished, p2). Returns (\<not> finished, if finished then sync_finished p2 else p2))))"

definition ensure_chunk_sync :: "'v proxied \<Rightarrow> 'v proxy \<Rightarrow> 'v proxy outcome" where
  "ensure_chunk_sync dm p =
     (if chunk_sync_idle_id p then
        bind_outcome (chunk_sync_idle dm (p\<lparr>defer_sync := False\<rparr>)) (\<lambda>(_, p'). Returns (p'\<lparr>defer_sync := defer_sync p\<rparr>))
      else Returns p)"

section \<open>The window\<close>

text \<open>The first row, the last row and the number of rows to show of \<open>n\<close> rows; division truncates.\<close>

definition sample_window :: "int \<Rightarrow> 'v proxy \<Rightarrow> int \<times> int \<times> int" where
  "sample_window n p =
     (if 0 < sample_size p then
        (let first = (if n \<le> sample_first_row p then sample_size p * ((n - 1) sdiv sample_size p) else sample_first_row p);
             lst = (if n \<le> first + sample_size p - 1 then n - 1 else first + sample_size p - 1)
         in (first, lst, lst - first + 1))
      else (0, n - 1, n))"

fun new_row_numbers :: "'v proxy \<Rightarrow> modif_id list \<Rightarrow> int list outcome" where
  "new_row_numbers p [] = Returns []"
| "new_row_numbers p (i # is) =
     (case modif_at p i of
        None \<Rightarrow> Undefined
      | Some rm \<Rightarrow> bind_outcome (new_row_numbers p is) (\<lambda>rs. Returns (row_modif_to_absolute_row p i rm # rs)))"

definition compute_display_chunk :: "'v proxy \<Rightarrow> (int list option \<times> 'v proxy) outcome" where
  "compute_display_chunk p =
     (case filtered_rows p of
        Some rows \<Rightarrow>
          (case sample_window (int (length rows)) p of
             (first, lst, n) \<Rightarrow>
               if list_all (\<lambda>i. 0 \<le> int i + first \<and> int i + first < int (length rows)) [0..<nat n]
               then Returns (Some (map (\<lambda>i. rows ! nat (int i + first)) [0..<nat n]),
                             p\<lparr>sample_first_row := first, sample_last_row := lst\<rparr>)
               else Undefined)
      | None \<Rightarrow>
          if 0 \<le> model_nb_rows p then
            (case sample_window (model_nb_rows p) p of
               (first, lst, n) \<Rightarrow>
                 (let p' = p\<lparr>sample_first_row := first, sample_last_row := lst\<rparr> in
                  if sample_size p \<le> 0 then Returns (None, p')
                  else if list_all (\<lambda>i. int i + first < model_nb_rows p) [0..<nat n] then
                    bind_outcome (new_row_numbers p (new_rows p)) (\<lambda>rs.
                      Returns (Some (map (\<lambda>i. model_row_to_absolute_row p (int i + first)) [0..<nat n] @ rs), p'))
                  else Undefined))
          else if 0 < sample_size p then Returns (None, p\<lparr>sample_last_row := sample_first_row p + sample_size p - 1\<rparr>)
          else Returns (None, p\<lparr>sample_first_row := 0, sample_last_row := 2147483646\<rparr>))"

definition adjust_displayed_chunk :: "'v proxied \<Rightarrow> 'v proxy \<Rightarrow> 'v proxy outcome" where
  "adjust_displayed_chunk dm p =
     bind_outcome (compute_display_chunk (p\<lparr>chunk_sync_idle_id := False, chunk_to := None\<rparr>)) (\<lambda>(to, p1).
       if chunk p1 = to then Returns p1
       else
         (let p2 = (px_emit (PxSampleChanged (sample_first_row p1) (sample_last_row p1)) (p1\<lparr>chunk_to := Some to\<rparr>))
                     \<lparr>chunk_sep := 0, chunk_proxy_nb_rows := - 1\<rparr>
          in if defer_sync p2 then Returns (p2\<lparr>chunk_sync_idle_id := True\<rparr>)
             else bind_outcome (chunk_sync_idle dm p2) (\<lambda>(_, p3). Returns p3)))"

definition gda_data_proxy_set_sample_size :: "'v proxied \<Rightarrow> 'v proxy \<Rightarrow> int \<Rightarrow> 'v proxy outcome" where
  "gda_data_proxy_set_sample_size dm p size' =
     bind_outcome (ensure_chunk_sync dm p) (\<lambda>p1.
       let new_size = (if size' \<le> 0 then 0 else size') in
       if sample_size p1 \<noteq> new_size then
         bind_outcome (adjust_displayed_chunk dm (p1\<lparr>sample_size := new_size\<rparr>)) (\<lambda>p2.
           Returns (px_emit (PxSampleSizeChanged size') p2))
       else Returns p1)"

definition gda_data_proxy_set_sample_start :: "'v proxied \<Rightarrow> 'v proxy \<Rightarrow> int \<Rightarrow> 'v proxy outcome" where
  "gda_data_proxy_set_sample_start dm p start =
     (if start < 0 then Returns p
      else
        bind_outcome (ensure_chunk_sync dm p) (\<lambda>p1.
          if sample_first_row p1 \<noteq> start then adjust_displayed_chunk dm (p1\<lparr>sample_first_row := start\<rparr>) else Returns p1))"

text \<open>The properties of the object. The chunk that \<open>sample-size\<close> replaces is not announced.\<close>

definition set_property_sample_size :: "'v proxy \<Rightarrow> int \<Rightarrow> 'v proxy outcome" where
  "set_property_sample_size p size' =
     bind_outcome (compute_display_chunk (p\<lparr>sample_size := (if size' < 0 then 0 else size')\<rparr>)) (\<lambda>(to, p').
       Returns (p'\<lparr>chunk := to\<rparr>))"

definition set_property_add_null_entry :: "'v proxied \<Rightarrow> 'v proxy \<Rightarrow> bool \<Rightarrow> 'v proxy outcome" where
  "set_property_add_null_entry dm p b =
     (if add_null_entry p = b then Returns p
      else if b then px_row_inserted dm 0 (p\<lparr>add_null_entry := b\<rparr>)
      else Returns (px_notify (PxRemoved 0) (p\<lparr>add_null_entry := b\<rparr>)))"

definition set_property_defer_sync :: "'v proxied \<Rightarrow> 'v proxy \<Rightarrow> bool \<Rightarrow> 'v proxy outcome" where
  "set_property_defer_sync dm p b =
     (let p' = p\<lparr>defer_sync := b\<rparr> in
      if \<not> b \<and> chunk_sync_idle_id p'
      then bind_outcome (chunk_sync_idle dm (p'\<lparr>chunk_sync_idle_id := False\<rparr>)) (\<lambda>(_, p''). Returns p'')
      else Returns p')"

section \<open>The proxied model is set\<close>

text \<open>
  The part of \<open>gda_data_proxy_set_property\<close> that takes a new model: its size, the attributes of its columns, and the first
  window, without signals.
\<close>

definition column_flags :: "'v column \<Rightarrow> value_attribute set" where
  "column_flags c =
     {AttrIsUnchanged} \<union> (if col_allow_null c then {AttrCanBeNull} else {}) \<union>
     (if col_default c \<noteq> None then {AttrCanBeDefault} else {})"

definition take_model :: "'v proxied \<Rightarrow> 'v proxy \<Rightarrow> 'v proxy outcome" where
  "take_model dm p =
     bind_outcome
       (compute_display_chunk
         (p\<lparr>model_nb_cols := dm_n_columns dm, model_nb_rows := dm_n_rows dm,
            columns_attrs := map (\<lambda>c. column_flags (pm_column dm c)) [0..<dm_n_columns dm]\<rparr>))
       (\<lambda>(to, p'). Returns (p'\<lparr>chunk := to\<rparr>))"

text \<open>The properties that are set when the object is made, in the order of their declaration: the sample has 300 rows.\<close>

definition gda_data_proxy_new :: "'v proxied \<Rightarrow> 'v proxy outcome" where
  "gda_data_proxy_new dm =
     bind_outcome (if AccessRandom \<in> dm_access dm then take_model dm gda_data_proxy_init else Returns gda_data_proxy_init)
       (\<lambda>p. set_property_sample_size p 300)"

end
