(* ===== verification/Gda_Proxy_Shown.thy ===== *)
theory Gda_Proxy_Shown
  imports Gda_Proxy_Sample
begin

text \<open>
  What an observer of a data proxy sees when the rows that are shown change: the signals of a synchronisation, and
  reading the rows that they name, lead from the rows before to the rows after it, at once as well as step by step.
  Then the bounds of the window.
\<close>

section \<open>Observers\<close>

text \<open>The rows that the proxy shows, by their absolute numbers; -1 is the null row.\<close>

definition shown_rows :: "'v proxy \<Rightarrow> int list" where
  "shown_rows p = map (\<lambda>r. proxy_row_to_absolute_row p (int r)) [0..<nat (gda_data_proxy_get_n_rows p)]"

fun observe1 :: "(int \<Rightarrow> 'a) \<Rightarrow> proxy_signal \<Rightarrow> 'a list \<Rightarrow> 'a list" where
  "observe1 read (PxInserted r) xs = g_array_insert_val r (read r) xs"
| "observe1 read (PxUpdated r) xs = xs[nat r := read r]"
| "observe1 read (PxRemoved r) xs = g_array_remove_index r xs"
| "observe1 read sg xs = xs"

definition observe :: "(int \<Rightarrow> 'a) \<Rightarrow> proxy_signal list \<Rightarrow> 'a list \<Rightarrow> 'a list" where
  "observe read sgs xs = fold (observe1 read) sgs xs"

lemma observe_append: "observe read (S @ T) xs = observe read T (observe read S xs)"
  by (simp add: observe_def)

definition null_prefix :: "'v proxy \<Rightarrow> int list" where
  "null_prefix p = (if add_null_entry p then [- 1] else [])"

lemma length_null_prefix: "int (length (null_prefix p)) = null_rows p"
  by (simp add: null_prefix_def null_rows_def)

section \<open>The steps of a synchronisation\<close>

text \<open>What a synchronisation may change.\<close>

definition resynced :: "'v proxy \<Rightarrow> 'v proxy \<Rightarrow> bool" where
  "resynced p p' \<longleftrightarrow>
     p' = p\<lparr>chunk := chunk p', chunk_sep := chunk_sep p', chunk_proxy_nb_rows := chunk_proxy_nb_rows p',
            px_columns := px_columns p', px_signals := px_signals p',
            chunk_sync_idle_id := chunk_sync_idle_id p'\<rparr>"

lemma resynced_refl [simp]: "resynced p p"
  by (simp add: resynced_def)

lemma resynced_trans:
  assumes "resynced p q" "resynced q r"
  shows "resynced p r"
proof -
  have "r = q\<lparr>chunk := chunk r, chunk_sep := chunk_sep r, chunk_proxy_nb_rows := chunk_proxy_nb_rows r,
      px_columns := px_columns r, px_signals := px_signals r, chunk_sync_idle_id := chunk_sync_idle_id r\<rparr>" using assms(2) by (simp add: resynced_def)
  also have "\<dots> = p\<lparr>chunk := chunk r, chunk_sep := chunk_sep r, chunk_proxy_nb_rows := chunk_proxy_nb_rows r,
      px_columns := px_columns r, px_signals := px_signals r, chunk_sync_idle_id := chunk_sync_idle_id r\<rparr>"
    by (subst assms(1) [unfolded resynced_def]) simp
  finally show ?thesis by (simp add: resynced_def)
qed

lemma resynced_fields:
  assumes "resynced p p'"
  shows "add_null_entry p' = add_null_entry p" "defer_sync p' = defer_sync p" "chunk_to p' = chunk_to p"
    "force_direct_mapping p' = force_direct_mapping p" "model_nb_rows p' = model_nb_rows p" "new_rows p' = new_rows p"
    "all_modifs p' = all_modifs p" "modify_rows p' = modify_rows p" "model_nb_cols p' = model_nb_cols p"
  using assms [unfolded resynced_def, THEN arg_cong, of add_null_entry] assms [unfolded resynced_def, THEN arg_cong, of defer_sync]
    assms [unfolded resynced_def, THEN arg_cong, of chunk_to] assms [unfolded resynced_def, THEN arg_cong, of force_direct_mapping]
    assms [unfolded resynced_def, THEN arg_cong, of model_nb_rows] assms [unfolded resynced_def, THEN arg_cong, of new_rows]
    assms [unfolded resynced_def, THEN arg_cong, of all_modifs] assms [unfolded resynced_def, THEN arg_cong, of modify_rows]
    assms [unfolded resynced_def, THEN arg_cong, of model_nb_cols]
  by simp_all

text \<open>The first \<open>i\<close> rows of the target \<open>t\<close> are in place and \<open>ys\<close> are the rows behind them.\<close>

definition target_rows :: "'v proxied \<Rightarrow> int list option \<Rightarrow> int list" where
  "target_rows dm to = (case to of Some t \<Rightarrow> t | None \<Rightarrow> map int [0..<nat (dm_n_rows dm)])"

definition syncing :: "'v proxied \<Rightarrow> int list \<Rightarrow> nat \<Rightarrow> int list \<Rightarrow> 'v proxy \<Rightarrow> bool" where
  "syncing dm t i ys p \<longleftrightarrow>
     px_live p \<and> notify_changes p \<and> (\<exists>to. chunk_to p = Some to \<and> target_rows dm to = t) \<and> (\<forall>x \<in> set t \<union> set ys. 0 \<le> x) \<and>
     (case chunk p of
        Some m \<Rightarrow> m = take i t @ ys
      | None \<Rightarrow>
          0 \<le> chunk_proxy_nb_rows p \<and> (if ys = [] then chunk_proxy_nb_rows p \<le> int i else chunk_proxy_nb_rows p = int (i + length ys)) \<and>
          (i < length t \<longrightarrow> ys = map int [i..<i + length ys])) \<and>
     i \<le> length t \<and> length t < 2147483648 \<and> i + length ys < 2147483648 \<and> chunk_sep p = int i \<and>
     (chunk_to p = Some None \<longrightarrow> chunk p \<noteq> None \<and> (i < length t \<longrightarrow> int (length t) \<le> chunk_proxy_nb_rows p)) \<and>
     chunk_proxy_nb_rows p < 2147483648 \<and> 0 \<le> model_nb_rows p \<and> model_nb_rows p + int (length (new_rows p)) < 2147483648"

lemma syncing_index: "syncing dm t i ys p \<Longrightarrow> i \<le> length t"
  by (simp add: syncing_def)

lemma gint_of_small: "x < 2147483648 \<Longrightarrow> gint_of x = x"
  by (simp add: gint_of_def)

lemma syncing_target:
  assumes "syncing dm t i ys p"
  shows "replacing_row dm p (int i) = (if i < length t then t ! i else - 1)"
proof -
  obtain to where to: "chunk_to p = Some to" "target_rows dm to = t" using assms by (auto simp: syncing_def)
  have "gint_of (int i) = int i" using assms by (simp add: syncing_def gint_of_small)
  then show ?thesis using to by (auto simp: replacing_row_def target_rows_def split: option.split)
qed

lemma syncing_current:
  assumes "syncing dm t i ys p"
  shows "if ys = [] then current_row p (int i) = - 1
         else 0 \<le> current_row p (int i) \<and> (i < length t \<longrightarrow> current_row p (int i) = hd ys)"
proof -
  have i: "gint_of (int i) = int i" using assms by (simp add: syncing_def gint_of_small)
  show ?thesis
  proof (cases ys)
    case Nil
    then show ?thesis using assms i by (auto simp: syncing_def current_row_def split: option.split)
  next
    case (Cons y zs)
    have "hd (map int [i..<i + length ys]) = int i" using Cons by (simp add: upt_rec)
    then show ?thesis using assms i Cons
      by (cases "chunk p") (auto simp: syncing_def current_row_def nth_append min_def)
  qed
qed

lemma syncing_done:
  assumes "syncing dm t (length t) [] p"
  shows "sync_steps dm (Suc n) (int (length t)) p = Returns (True, p)"
  using syncing_target [OF assms] syncing_current [OF assms] by simp

lemma take_nth: "i < length t \<Longrightarrow> take (Suc i) t = take i t @ [t ! i]"
  by (simp add: take_Suc_conv_app_nth)

lemma px_notify_eq:
  "px_notify sg p = p\<lparr>px_signals := px_signals p @ (if notify_changes p then [sg] else [])\<rparr>"
  by (simp add: px_notify_def px_emit_def)

lemma array_at:
  assumes "int (length xs) = k"
  shows "g_array_insert_val k x (xs @ ys) = xs @ x # ys" "g_array_remove_index k (xs @ y # ys) = xs @ ys"
    "(xs @ y # ys)[nat k := x] = xs @ x # ys"
proof -
  have k: "nat k = length xs" using assms by simp
  show "g_array_insert_val k x (xs @ ys) = xs @ x # ys" "g_array_remove_index k (xs @ y # ys) = xs @ ys"
    by (simp_all add: g_array_insert_val_def g_array_remove_index_def k)
  show "(xs @ y # ys)[nat k := x] = xs @ x # ys" by (simp add: k)
qed

lemma array_at_row:
  assumes "i \<le> length t"
  shows "g_array_insert_val (int i + null_rows p) x (null_prefix p @ take i t) = null_prefix p @ take i t @ [x]"
    "g_array_remove_index (int i + null_rows p) (null_prefix p @ take i t @ y # ys) = null_prefix p @ take i t @ ys"
    "(null_prefix p @ take i t @ y # ys)[nat (int i + null_rows p) := x] = null_prefix p @ take i t @ x # ys"
    "g_array_insert_val (int i) x (take i t) = take i t @ [x]" "g_array_remove_index (int i) (take i t @ y # ys) = take i t @ ys"
    "(take i t @ y # ys)[i := x] = take i t @ x # ys"
proof -
  let ?xs = "null_prefix p @ take i t"
  have k: "int (length ?xs) = int i + null_rows p" using assms length_null_prefix [of p] by simp
  show "g_array_insert_val (int i + null_rows p) x ?xs = null_prefix p @ take i t @ [x]"
    using array_at(1) [OF k, of x "[]"] by simp
  show "g_array_remove_index (int i + null_rows p) (null_prefix p @ take i t @ y # ys) = null_prefix p @ take i t @ ys"
    using array_at(2) [OF k, of y ys] by simp
  show "(null_prefix p @ take i t @ y # ys)[nat (int i + null_rows p) := x] = null_prefix p @ take i t @ x # ys"
    using array_at(3) [OF k, of y ys x] by (simp del: append_assoc add: append_assoc [symmetric])
  have k: "int (length (take i t)) = int i" using assms by simp
  show "g_array_insert_val (int i) x (take i t) = take i t @ [x]" using array_at(1) [OF k, of x "[]"] by simp
  show "g_array_remove_index (int i) (take i t @ y # ys) = take i t @ ys" by (rule array_at(2) [OF k])
  show "(take i t @ y # ys)[i := x] = take i t @ x # ys" using array_at(3) [OF k, of y ys x] by simp
qed

lemma syncing_update:
  assumes syn: "syncing dm t i (y # ys) p" and i: "i < length t"
  defines "p1 \<equiv> p\<lparr>chunk := map_option (\<lambda>m. m[i := t ! i]) (chunk p), chunk_sep := chunk_sep p + 1\<rparr>"
  defines "S \<equiv> if y \<noteq> t ! i then [PxUpdated (int i + null_rows p)] else []"
  shows "sync_steps dm (Suc n) (int i) p = sync_steps dm n (int (Suc i)) (p1\<lparr>px_signals := px_signals p @ S\<rparr>)"
    and "syncing dm t (Suc i) ys (p1\<lparr>px_signals := px_signals p @ S\<rparr>)"
    and "read (int i + null_rows p) = t ! i \<Longrightarrow>
      observe read S (null_prefix p @ take i t @ y # ys) = null_prefix p @ take (Suc i) t @ ys"
proof -
  have cur: "0 \<le> current_row p (int i)" "current_row p (int i) = y" using syncing_current [OF syn] i by simp_all
  have repl: "replacing_row dm p (int i) = t ! i" using syncing_target [OF syn] i by simp
  have "0 \<le> t ! i" using syn i by (simp add: syncing_def)
  then show "sync_steps dm (Suc n) (int i) p = sync_steps dm n (int (Suc i)) (p1\<lparr>px_signals := px_signals p @ S\<rparr>)"
    using cur repl syn by (simp add: Let_def p1_def S_def px_notify_eq syncing_def algebra_simps)
  have "px_live (p1\<lparr>px_signals := px_signals p @ S\<rparr>) = px_live p" by (rule px_live_cong) (simp_all add: p1_def)
  moreover have "map int [Suc i..<Suc i + length ys] = ys" if "map int [i..<Suc (i + length ys)] = y # ys"
    using that by (simp add: upt_rec)
  ultimately show "syncing dm t (Suc i) ys (p1\<lparr>px_signals := px_signals p @ S\<rparr>)"
    using syn i by (auto simp: syncing_def p1_def take_nth array_at_row split: option.splits)
  show "observe read S (null_prefix p @ take i t @ y # ys) = null_prefix p @ take (Suc i) t @ ys"
    if "read (int i + null_rows p) = t ! i"
    using that i by (simp add: observe_def S_def array_at_row take_nth)
qed

lemma syncing_remove:
  assumes syn: "syncing dm t (length t) (y # ys) p"
  defines "p1 \<equiv> p\<lparr>chunk := map_option (g_array_remove_index (int (length t))) (chunk p),
      chunk_proxy_nb_rows := chunk_proxy_nb_rows p - 1, px_signals := px_signals p @ [PxRemoved (int (length t) + null_rows p)]\<rparr>"
  shows "sync_steps dm (Suc n) (int (length t)) p = sync_steps dm n (int (length t)) p1"
    and "syncing dm t (length t) ys p1"
    and "observe read [PxRemoved (int (length t) + null_rows p)] (null_prefix p @ t @ y # ys) = null_prefix p @ t @ ys"
proof -
  have cur: "0 \<le> current_row p (int (length t))" using syncing_current [OF syn] by simp
  have repl: "replacing_row dm p (int (length t)) = - 1" using syncing_target [OF syn] by simp
  show "sync_steps dm (Suc n) (int (length t)) p = sync_steps dm n (int (length t)) p1"
    using cur repl syn by (simp add: Let_def p1_def px_notify_eq syncing_def)
  have "px_live p1 = px_live p" by (rule px_live_cong) (simp_all add: p1_def)
  then show "syncing dm t (length t) ys p1"
    using syn array_at_row(5) [of "length t" t y ys] by (auto simp: syncing_def p1_def split: option.splits)
  show "observe read [PxRemoved (int (length t) + null_rows p)] (null_prefix p @ t @ y # ys) = null_prefix p @ t @ ys"
    using array_at_row(2) [of "length t" t p y ys] by (simp add: observe_def)
qed

lemma syncing_insert:
  assumes syn: "syncing dm t i [] p" and i: "i < length t"
  obtains cs p1 where
    "\<And>n. sync_steps dm (Suc n) (int i) p = sync_steps dm n (int (Suc i)) p1" "syncing dm t (Suc i) [] p1"
    "resynced p p1" "px_signals p1 = px_signals p @ [PxInserted (int i + null_rows p)]"
proof -
  let ?p = "p\<lparr>chunk := map_option (g_array_insert_val (int i) (t ! i)) (chunk p), chunk_sep := chunk_sep p + 1\<rparr>"
  have cur: "current_row p (int i) = - 1" using syncing_current [OF syn] by simp
  have repl: "replacing_row dm p (int i) = t ! i" "0 \<le> t ! i" using syncing_target [OF syn] i syn by (simp_all add: syncing_def)
  have live: "px_live ?p" using syn px_live_cong [of ?p p] by (simp add: syncing_def)
  obtain cs where cs:
    "px_row_inserted dm (int i + null_rows p) ?p = Returns (px_notify (PxInserted (int i + null_rows p)) (?p\<lparr>px_columns := cs\<rparr>))"
    using px_row_inserted_live [OF live] by blast
  let ?p1 = "?p\<lparr>px_columns := cs, px_signals := px_signals p @ [PxInserted (int i + null_rows p)]\<rparr>"
  show thesis
  proof
    show "sync_steps dm (Suc n) (int i) p = sync_steps dm n (int (Suc i)) ?p1" for n
      using syn cur repl cs by (simp add: Let_def syncing_def px_notify_eq algebra_simps)
    have "px_live ?p1" using live px_live_cong [of ?p1 ?p] by simp
    then show "syncing dm t (Suc i) [] ?p1"
      using syn i array_at_row(4) [of i t "t ! i"] by (auto simp: syncing_def take_nth split: option.splits)
    show "resynced p ?p1" "px_signals ?p1 = px_signals p @ [PxInserted (int i + null_rows p)]"
      by (simp_all add: resynced_def)
  qed
qed

text \<open>One step that is not the last.\<close>

lemma syncing_step:
  assumes syn: "syncing dm t i ys p" and more: "\<not> (i = length t \<and> ys = [])"
  shows "\<exists>p1 i1 ys1 S1. sync_steps dm (Suc n) (int i) p = sync_steps dm n (int i1) p1 \<and>
    syncing dm t i1 ys1 p1 \<and> resynced p p1 \<and> px_signals p1 = px_signals p @ S1 \<and>
    max (length t - i1) (length ys1) = max (length t - i) (length ys) - 1 \<and>
    null_prefix p1 = null_prefix p \<and> null_rows p1 = null_rows p \<and>
    (\<forall>read. (\<forall>j < length t. read (int j + null_rows p) = t ! j) \<longrightarrow>
      observe read S1 (null_prefix p @ take i t @ ys) = null_prefix p @ take i1 t @ ys1)"
proof -
  have same: "null_prefix p1 = null_prefix p \<and> null_rows p1 = null_rows p" if "resynced p p1" for p1
    using resynced_fields(1) [OF that] by (simp add: null_prefix_def null_rows_def)
  consider (upd) y zs where "ys = y # zs" "i < length t" | (ins) "ys = []" "i < length t" | (rem) y zs where "ys = y # zs" "i = length t"
    using more syncing_index [OF syn] by (cases ys) (auto simp: le_less)
  then show ?thesis
  proof cases
    case upd
    let ?S = "if y \<noteq> t ! i then [PxUpdated (int i + null_rows p)] else []"
    let ?p = "p\<lparr>chunk := map_option (\<lambda>m. m[i := t ! i]) (chunk p), chunk_sep := chunk_sep p + 1, px_signals := px_signals p @ ?S\<rparr>"
    have res: "resynced p ?p" by (simp add: resynced_def)
    show ?thesis
      using upd same [OF res] res syncing_update [OF syn [unfolded upd] upd(2)]
      by (intro exI [of _ ?p] exI [of _ "Suc i"] exI [of _ zs] exI [of _ ?S]) simp
  next
    case ins
    obtain p1 where p1: "sync_steps dm (Suc n) (int i) p = sync_steps dm n (int (Suc i)) p1" "syncing dm t (Suc i) [] p1"
        "resynced p p1" "px_signals p1 = px_signals p @ [PxInserted (int i + null_rows p)]"
      using syncing_insert [OF syn [unfolded ins(1)] ins(2)] by metis
    show ?thesis
      using ins same [OF p1(3)] p1
      by (intro exI [of _ p1] exI [of _ "Suc i"] exI [of _ "[]"] exI [of _ "[PxInserted (int i + null_rows p)]"])
        (simp add: observe_def array_at_row take_nth)
  next
    case rem
    let ?S = "[PxRemoved (int (length t) + null_rows p)]"
    let ?p = "p\<lparr>chunk := map_option (g_array_remove_index (int (length t))) (chunk p),
        chunk_proxy_nb_rows := chunk_proxy_nb_rows p - 1, px_signals := px_signals p @ ?S\<rparr>"
    have res: "resynced p ?p" by (simp add: resynced_def)
    show ?thesis
      using rem same [OF res] res syncing_remove [OF syn [unfolded rem]]
      by (intro exI [of _ ?p] exI [of _ i] exI [of _ zs] exI [of _ ?S]) simp
  qed
qed

lemma minus_steps:
  "0 < (a::nat) \<Longrightarrow> b = a - 1 \<Longrightarrow> c = b - n \<Longrightarrow> (b < n) = (a < Suc n) \<and> c = a - Suc n"
  by auto

lemma syncing_steps:
  assumes "syncing dm t i ys p"
  shows "\<exists>p' i' ys' S. sync_steps dm n (int i) p = Returns (max (length t - i) (length ys) < n, p') \<and>
    syncing dm t i' ys' p' \<and> resynced p p' \<and> px_signals p' = px_signals p @ S \<and>
    max (length t - i') (length ys') = max (length t - i) (length ys) - n \<and>
    (\<forall>read. (\<forall>j < length t. read (int j + null_rows p) = t ! j) \<longrightarrow>
      observe read S (null_prefix p @ take i t @ ys) = null_prefix p @ take i' t @ ys')"
  using assms
proof (induction n arbitrary: i ys p)
  case 0
  then show ?case
    by (intro exI [of _ p] exI [of _ i] exI [of _ ys] exI [of _ "[]"]) (simp add: observe_def)
next
  case (Suc n)
  show ?case
  proof (cases "i = length t \<and> ys = []")
    case True
    then show ?thesis using Suc.prems syncing_done [of dm t p n]
      by (intro exI [of _ p] exI [of _ i] exI [of _ ys] exI [of _ "[]"]) (simp add: observe_def)
  next
    case False
    then obtain p1 i1 ys1 S1 where step: "sync_steps dm (Suc n) (int i) p = sync_steps dm n (int i1) p1"
        "syncing dm t i1 ys1 p1" "resynced p p1" "px_signals p1 = px_signals p @ S1"
        "max (length t - i1) (length ys1) = max (length t - i) (length ys) - 1"
        "null_prefix p1 = null_prefix p" "null_rows p1 = null_rows p"
        "\<And>read. \<forall>j < length t. read (int j + null_rows p) = t ! j \<Longrightarrow>
          observe read S1 (null_prefix p @ take i t @ ys) = null_prefix p @ take i1 t @ ys1"
      using syncing_step [OF Suc.prems] by blast
    obtain p' i' ys' S where run: "sync_steps dm n (int i1) p1 = Returns (max (length t - i1) (length ys1) < n, p')"
        "syncing dm t i' ys' p'" "resynced p1 p'" "px_signals p' = px_signals p1 @ S"
        "max (length t - i') (length ys') = max (length t - i1) (length ys1) - n"
        "\<And>read. \<forall>j < length t. read (int j + null_rows p1) = t ! j \<Longrightarrow>
          observe read S (null_prefix p1 @ take i1 t @ ys1) = null_prefix p1 @ take i' t @ ys'"
      using Suc.IH [OF step(2)] by blast
    have "0 < max (length t - i) (length ys)" using False Suc.prems by (auto simp: syncing_def less_max_iff_disj)
    then have m: "(max (length t - i1) (length ys1) < n) = (max (length t - i) (length ys) < Suc n)"
      "max (length t - i') (length ys') = max (length t - i) (length ys) - Suc n"
      using minus_steps [OF _ step(5) run(5)] by simp_all
    show ?thesis
    proof (intro exI conjI allI impI)
      show "sync_steps dm (Suc n) (int i) p = Returns (max (length t - i) (length ys) < Suc n, p')"
        using step(1) run(1) m(1) by simp
      show "px_signals p' = px_signals p @ (S1 @ S)" using step(4) run(4) by simp
      show "observe read (S1 @ S) (null_prefix p @ take i t @ ys) = null_prefix p @ take i' t @ ys'"
        if "\<forall>j < length t. read (int j + null_rows p) = t ! j" for read
        using that step(6-8) run(6) [of read] by (simp add: observe_append)
    qed (use step run m resynced_trans in blast)+
  qed
qed

section \<open>Calls in the idle time of the main loop\<close>

text \<open>An idle function is called again as long as it returns \<open>TRUE\<close>.\<close>

fun run_idle :: "'v proxied \<Rightarrow> nat \<Rightarrow> 'v proxy \<Rightarrow> (bool \<times> 'v proxy) outcome" where
  "run_idle dm 0 p = Returns (True, p)"
| "run_idle dm (Suc k) p =
     bind_outcome (chunk_sync_idle dm p) (\<lambda>(more, p'). if more then run_idle dm k p' else Returns (False, p'))"

lemma guint_ge: "x < 4294967296 \<Longrightarrow> x \<le> guint x" "0 \<le> guint x"
  by (cases "0 \<le> x") (auto simp: guint_def intro: order_trans [of x 0])

lemma enough_steps:
  assumes syn: "syncing dm t i ys p" and to: "chunk_to p = Some to"
  shows "(if defer_sync p then min 50 (Suc (max (length t - i) (length ys))) else Suc (max (length t - i) (length ys)))
    \<le> nat (sync_max_steps p to)"
proof -
  let ?rows = "\<lambda>c. guint ((case c of Some m \<Rightarrow> int (length m) | None \<Rightarrow> chunk_proxy_nb_rows p) - chunk_sep p + 1)"
  have i: "i \<le> length t" "chunk_sep p = int i" using syn by (simp_all add: syncing_def)
  have t: "int (length t - i) + 1 \<le> ?rows to \<or> to = None \<and> i = length t"
  proof (cases to)
    case (Some t')
    then have "t' = t" using syn to by (simp add: syncing_def target_rows_def)
    then show ?thesis using syn i Some guint_ge(1) [of "int (length t) - int i + 1"] by (simp add: syncing_def)
  next
    case None
    then have "i < length t \<Longrightarrow> int (length t) - int i + 1 \<le> chunk_proxy_nb_rows p - chunk_sep p + 1"
      using syn to i by (simp add: syncing_def)
    moreover have "chunk_proxy_nb_rows p - chunk_sep p + 1 \<le> ?rows to" using syn None i guint_ge(1) by (simp add: syncing_def)
    ultimately show ?thesis using i None by linarith
  qed
  have y: "int (length ys) + 1 \<le> ?rows (chunk p) \<or> chunk p = None \<and> ys = []"
  proof (cases "chunk p")
    case (Some m)
    then have "int (length m) - chunk_sep p + 1 = int (length ys) + 1" using syn i by (simp add: syncing_def min_def)
    then show ?thesis using syn Some guint_ge(1) [of "int (length ys) + 1"] by (simp add: syncing_def)
  next
    case None
    then have "ys \<noteq> [] \<Longrightarrow> chunk_proxy_nb_rows p - chunk_sep p + 1 = int (length ys) + 1" using syn i by (simp add: syncing_def)
    then show ?thesis using syn None guint_ge(1) [of "int (length ys) + 1"] by (auto simp: syncing_def)
  qed
  have "\<not> (to = None \<and> chunk p = None)" using syn to by (auto simp: syncing_def)
  then have "int (Suc (max (length t - i) (length ys))) \<le> max (?rows to) (?rows (chunk p))"
    using t y guint_ge(2) by (auto simp: max_def)
  then show ?thesis by (auto simp: sync_max_steps_def Let_def IDLE_STEP_def)
qed

lemma syncing_reset:
  assumes "syncing dm t i ys p"
  defines "p0 \<equiv> if defer_sync p then p else p\<lparr>chunk_sync_idle_id := False\<rparr>"
  defines "p1 \<equiv> if chunk_proxy_nb_rows p0 < 0
                 then p0\<lparr>chunk_proxy_nb_rows := model_nb_rows p0 + int (length (new_rows p0))\<rparr> else p0"
  shows "syncing dm t i ys p1" "resynced p p1" "px_signals p1 = px_signals p" "chunk_to p1 = chunk_to p" "chunk_to p0 = chunk_to p"
    "null_rows p1 = null_rows p" "null_prefix p1 = null_prefix p"
proof -
  show "resynced p p1" "px_signals p1 = px_signals p" "chunk_to p1 = chunk_to p" "chunk_to p0 = chunk_to p"
    by (simp_all add: p0_def p1_def resynced_def)
  then show "null_rows p1 = null_rows p" "null_prefix p1 = null_prefix p"
    using resynced_fields(1) by (auto simp: null_rows_def null_prefix_def)
  have "px_live p1 = px_live p" using resynced_fields [OF \<open>resynced p p1\<close>] by (intro px_live_cong) simp_all
  then show "syncing dm t i ys p1"
    using assms(1) by (auto simp: syncing_def p0_def p1_def split: option.split)
qed

lemma idle_call:
  assumes syn: "syncing dm t i ys p"
  shows "\<exists>more q i' ys' S.
    chunk_sync_idle dm p = Returns (more, if more then q else sync_finished q) \<and> syncing dm t i' ys' q \<and> resynced p q \<and>
    px_signals q = px_signals p @ S \<and>
    (if more then defer_sync p \<and> max (length t - i') (length ys') + 50 \<le> max (length t - i) (length ys)
     else i' = length t \<and> ys' = []) \<and>
    (\<forall>read. (\<forall>j < length t. read (int j + null_rows p) = t ! j) \<longrightarrow>
      observe read S (null_prefix p @ take i t @ ys) = null_prefix p @ take i' t @ ys')"
proof -
  define p0 where "p0 = (if defer_sync p then p else p\<lparr>chunk_sync_idle_id := False\<rparr>)"
  define p1 where "p1 = (if chunk_proxy_nb_rows p0 < 0
                 then p0\<lparr>chunk_proxy_nb_rows := model_nb_rows p0 + int (length (new_rows p0))\<rparr> else p0)"
  note reset = syncing_reset [OF syn, folded p0_def, folded p1_def]
  obtain to where to: "chunk_to p = Some to" using syn by (auto simp: syncing_def)
  let ?m = "max (length t - i) (length ys)" and ?n = "nat (sync_max_steps p1 to)"
  obtain q i' ys' S where run: "sync_steps dm ?n (int i) p1 = Returns (?m < ?n, q)" "syncing dm t i' ys' q" "resynced p1 q"
      "px_signals q = px_signals p1 @ S" "max (length t - i') (length ys') = ?m - ?n"
      "\<And>read. \<forall>j < length t. read (int j + null_rows p1) = t ! j \<Longrightarrow>
        observe read S (null_prefix p1 @ take i t @ ys) = null_prefix p1 @ take i' t @ ys'"
    using syncing_steps [OF reset(1), of ?n] by blast
  have n: "(if defer_sync p then min 50 (Suc ?m) else Suc ?m) \<le> ?n"
    using enough_steps [OF reset(1)] reset(4) to resynced_fields(2) [OF reset(2)] by simp
  have "chunk_sep p1 = int i" "i < 2147483648" using reset(1) by (auto simp: syncing_def)
  then have "guint (chunk_sep p1) = int i" by (simp add: guint_def)
  then have call: "chunk_sync_idle dm p = Returns (\<not> ?m < ?n, if ?m < ?n then sync_finished q else q)"
    using run(1) reset(5) to by (simp add: chunk_sync_idle_def Let_def flip: p0_def p1_def)
  have fin: "i' = length t \<and> ys' = []" if "?m < ?n" using run(5) that syncing_index [OF run(2)] by (simp add: max_def split: if_splits)
  have res: "resynced p q" "px_signals q = px_signals p @ S" using resynced_trans [OF reset(2) run(3)] run(4) reset(3) by simp_all
  have left: "defer_sync p \<and> max (length t - i') (length ys') + 50 \<le> ?m" if "\<not> ?m < ?n"
  proof -
    have "50 \<le> ?n" "defer_sync p" using n that by (cases "defer_sync p"; simp)+
    then show ?thesis using run(5) that by linarith
  qed
  show ?thesis
  proof (intro exI conjI allI impI)
    show "chunk_sync_idle dm p = Returns (\<not> ?m < ?n, if \<not> ?m < ?n then q else sync_finished q)" using call by simp
    show "if \<not> ?m < ?n then defer_sync p \<and> max (length t - i') (length ys') + 50 \<le> ?m else i' = length t \<and> ys' = []"
      using fin left by simp
    show "observe read S (null_prefix p @ take i t @ ys) = null_prefix p @ take i' t @ ys'"
      if "\<forall>j < length t. read (int j + null_rows p) = t ! j" for read
      using run(6) [of read] that reset(6,7) by simp
  qed (fact run(2) res)+
qed

lemma idle_calls:
  assumes "syncing dm t i ys p" "max (length t - i) (length ys) < 50 * k"
  shows "\<exists>q S. run_idle dm k p = Returns (False, sync_finished q) \<and> syncing dm t (length t) [] q \<and> resynced p q \<and>
    px_signals q = px_signals p @ S \<and>
    (\<forall>read. (\<forall>j < length t. read (int j + null_rows p) = t ! j) \<longrightarrow>
      observe read S (null_prefix p @ take i t @ ys) = null_prefix p @ t)"
  using assms
proof (induction k arbitrary: i ys p)
  case (Suc k)
  obtain more q i' ys' S where call:
      "chunk_sync_idle dm p = Returns (more, if more then q else sync_finished q)" "syncing dm t i' ys' q" "resynced p q"
      "px_signals q = px_signals p @ S"
      "if more then defer_sync p \<and> max (length t - i') (length ys') + 50 \<le> max (length t - i) (length ys)
       else i' = length t \<and> ys' = []"
      "\<And>read. \<forall>j < length t. read (int j + null_rows p) = t ! j \<Longrightarrow>
        observe read S (null_prefix p @ take i t @ ys) = null_prefix p @ take i' t @ ys'"
    using idle_call [OF Suc.prems(1)] by blast
  have bound: "max (length t - i') (length ys') < 50 * k" if more
  proof -
    have "max (length t - i') (length ys') + 50 \<le> max (length t - i) (length ys)" using call(5) that by simp
    also have "\<dots> < 50 + 50 * k" using Suc.prems(2) by (simp only: mult_Suc_right)
    finally show ?thesis by linarith
  qed
  show ?case
  proof (cases more)
    case True
    then obtain q' S' where rest: "run_idle dm k q = Returns (False, sync_finished q')" "syncing dm t (length t) [] q'"
        "resynced q q'" "px_signals q' = px_signals q @ S'"
        "\<And>read. \<forall>j < length t. read (int j + null_rows q) = t ! j \<Longrightarrow>
          observe read S' (null_prefix q @ take i' t @ ys') = null_prefix q @ t"
      using Suc.IH [OF call(2)] bound [OF True] by blast
    have "null_rows q = null_rows p" "null_prefix q = null_prefix p"
      using resynced_fields(1) [OF call(3)] by (simp_all add: null_rows_def null_prefix_def)
    then show ?thesis using True call rest resynced_trans [OF call(3) rest(3)]
      by (intro exI [of _ q'] exI [of _ "S @ S'"]) (simp add: observe_append)
  qed (use call in auto)
qed simp

section \<open>The rows that are shown\<close>

lemma map_shift: "map (\<lambda>r. f (int r - 1)) [Suc 0..<Suc n] = map (\<lambda>r. f (int r)) [0..<n]"
  by (simp add: map_Suc_upt [symmetric] del: upt_Suc)

lemma shown_rows_shift:
  assumes "\<And>r. r < n \<Longrightarrow> proxy_row_to_absolute_row p (int r + null_rows p) = f r"
    "gda_data_proxy_get_n_rows p = int n + null_rows p" "\<not> force_direct_mapping p"
  shows "shown_rows p = null_prefix p @ map f [0..<n]"
proof (cases "add_null_entry p")
  case True
  have "nat (int n + 1) = Suc n" by simp
  moreover have "map (\<lambda>r. proxy_row_to_absolute_row p (int r)) [Suc 0..<Suc n] = map f [0..<n]"
    using assms(1) True by (simp add: map_Suc_upt [symmetric] null_rows_def del: upt_Suc) (simp add: add.commute)
  moreover have "proxy_row_to_absolute_row p 0 = - 1" using True assms(3) by (simp add: proxy_row_to_absolute_row_def)
  ultimately show ?thesis using True assms(2)
    by (simp add: shown_rows_def null_prefix_def null_rows_def upt_rec [of 0] del: upt_Suc)
next
  case False
  then show ?thesis using assms by (simp add: shown_rows_def null_prefix_def null_rows_def)
qed

lemma shown_rows_chunk:
  assumes "chunk p = Some m" "\<not> force_direct_mapping p"
  shows "shown_rows p = null_prefix p @ m" "j < length m \<Longrightarrow> proxy_row_to_absolute_row p (int j + null_rows p) = m ! j"
proof -
  show row: "proxy_row_to_absolute_row p (int j + null_rows p) = m ! j" if "j < length m" for j
    using that assms by (auto simp: proxy_row_to_absolute_row_def null_rows_def)
  have "shown_rows p = null_prefix p @ map ((!) m) [0..<length m]"
    using assms by (intro shown_rows_shift row) (simp_all add: gda_data_proxy_get_n_rows_def null_rows_def Let_def)
  then show "shown_rows p = null_prefix p @ m" by (simp add: map_nth)
qed

lemma shown_rows_all:
  assumes "chunk p = None" "chunk_to p = None" "\<not> force_direct_mapping p" "0 \<le> model_nb_rows p"
  shows "shown_rows p = null_prefix p @ map int [0..<nat (model_nb_rows p) + length (new_rows p)]"
    "proxy_row_to_absolute_row p (int j + null_rows p) = int j"
proof -
  show row: "proxy_row_to_absolute_row p (int j + null_rows p) = int j" for j
    using assms by (auto simp: proxy_row_to_absolute_row_def null_rows_def)
  show "shown_rows p = null_prefix p @ map int [0..<nat (model_nb_rows p) + length (new_rows p)]"
    using assms by (intro shown_rows_shift row) (simp_all add: gda_data_proxy_get_n_rows_def null_rows_def Let_def)
qed

section \<open>The window\<close>

lemma sdiv_nonneg: "0 \<le> (a::int) \<Longrightarrow> 0 < b \<Longrightarrow> a sdiv b = a div b"
  by (cases "a = 0") (simp_all add: signed_divide_int_def)

lemma one_sdiv: "1 < (b::int) \<Longrightarrow> 1 sdiv b = 0"
  by (simp_all add: signed_divide_int_def)

lemma sample_window_bounds:
  assumes "0 \<le> n" "0 \<le> sample_first_row p" "n = 0 \<longrightarrow> sample_size p \<noteq> 1"
  obtains f l where "sample_window n p = (f, l, l - f + 1)" "0 \<le> f" "f \<le> l + 1" "l < n" "0 < n \<Longrightarrow> f \<le> l"
    "0 < sample_size p \<Longrightarrow> l = min (n - 1) (f + sample_size p - 1)" "0 < sample_size p \<Longrightarrow> sample_first_row p < n \<Longrightarrow> f = sample_first_row p"
    "sample_size p \<le> 0 \<Longrightarrow> f = 0 \<and> l = n - 1"
proof (cases "0 < sample_size p")
  case True
  let ?f = "if n \<le> sample_first_row p then sample_size p * ((n - 1) sdiv sample_size p) else sample_first_row p"
  let ?l = "if n \<le> ?f + sample_size p - 1 then n - 1 else ?f + sample_size p - 1"
  have f: "0 \<le> ?f \<and> ?f \<le> n \<and> (0 < n \<longrightarrow> ?f < n)"
  proof (cases "n = 0")
    case False
    have "sample_size p * ((n - 1) div sample_size p) \<le> n - 1"
      using True by (metis mult.commute div_times_less_eq_dividend pos_imp_zdiv_nonneg_iff mult_div_mod_eq add_le_cancel_left le_add_same_cancel1 pos_mod_sign)
    then show ?thesis using False assms True by (auto simp: sdiv_nonneg pos_imp_zdiv_nonneg_iff)
  qed (use assms True in \<open>auto simp: one_sdiv\<close>)
  show thesis
  proof
    show "sample_window n p = (?f, ?l, ?l - ?f + 1)" using True by (simp add: sample_window_def Let_def)
  qed (use f True in auto)
next
  case False
  then show thesis using that [of 0 "n - 1"] assms by (simp add: sample_window_def)
qed

lemma new_row_numbers_eq:
  assumes "px_inv p"
  shows "new_row_numbers p (new_rows p) = Returns (map (\<lambda>k. model_nb_rows p + int k) [0..<length (new_rows p)])"
proof -
  have "new_row_numbers p (map ((!) (new_rows p)) ks) = Returns (map (\<lambda>k. model_nb_rows p + int k) ks)"
    if "\<forall>k \<in> set ks. k < length (new_rows p)" for ks
    using that
  proof (induction ks)
    case (Cons k ks)
    then obtain rm where "modif_at p (new_rows p ! k) = Some rm"
        "row_modif_to_absolute_row p (new_rows p ! k) rm = model_nb_rows p + int k"
      using new_row_number [OF assms, of k] by auto
    then show ?case using Cons by simp
  qed simp
  from this [of "[0..<length (new_rows p)]"] show ?thesis by (simp add: map_nth)
qed

lemma window_rows:
  assumes "0 \<le> f" "f \<le> l + 1" "l < model_nb_rows p"
  shows "map (\<lambda>i. model_row_to_absolute_row p (int i + f)) [0..<nat (l - f + 1)] = map int [nat f..<nat (l + 1)]"
proof (rule nth_equalityI)
  show "length (map (\<lambda>i. model_row_to_absolute_row p (int i + f)) [0..<nat (l - f + 1)]) = length (map int [nat f..<nat (l + 1)])"
    using assms by simp
qed (use assms in \<open>auto simp: model_row_to_absolute_row_def\<close>)

text \<open>The rows of a window, and the absolute numbers of the rows that were added.\<close>

definition window_and_new :: "'v proxy \<Rightarrow> int \<Rightarrow> int \<Rightarrow> int list" where
  "window_and_new p f l = map int [nat f..<nat (l + 1)] @ map (\<lambda>k. model_nb_rows p + int k) [0..<length (new_rows p)]"

definition window_target :: "'v proxy \<Rightarrow> int \<Rightarrow> int \<Rightarrow> int list option" where
  "window_target p f l = (if sample_size p \<le> 0 then None else Some (window_and_new p f l))"

lemma compute_unfiltered:
  assumes "px_inv p" "filtered_rows p = None" "0 \<le> sample_first_row p" "model_nb_rows p = 0 \<longrightarrow> sample_size p \<noteq> 1"
  obtains f l where
    "compute_display_chunk p =
       Returns (window_target p f l, p\<lparr>sample_first_row := f, sample_last_row := l\<rparr>)"
    "0 \<le> f" "f \<le> l + 1" "l < model_nb_rows p" "0 < model_nb_rows p \<Longrightarrow> f \<le> l" "0 < sample_size p \<Longrightarrow> l = min (model_nb_rows p - 1) (f + sample_size p - 1)"
    "0 < sample_size p \<Longrightarrow> sample_first_row p < model_nb_rows p \<Longrightarrow> f = sample_first_row p"
    "sample_size p \<le> 0 \<Longrightarrow> f = 0 \<and> l = model_nb_rows p - 1"
proof -
  have n: "0 \<le> model_nb_rows p" using assms(1) by (simp add: px_inv_def)
  obtain f l where w: "sample_window (model_nb_rows p) p = (f, l, l - f + 1)" "0 \<le> f" "f \<le> l + 1" "l < model_nb_rows p"
      "0 < model_nb_rows p \<Longrightarrow> f \<le> l" "0 < sample_size p \<Longrightarrow> l = min (model_nb_rows p - 1) (f + sample_size p - 1)"
      "0 < sample_size p \<Longrightarrow> sample_first_row p < model_nb_rows p \<Longrightarrow> f = sample_first_row p"
      "sample_size p \<le> 0 \<Longrightarrow> f = 0 \<and> l = model_nb_rows p - 1"
    using sample_window_bounds [OF n assms(3,4)] by blast
  have "list_all (\<lambda>i. int i + f < model_nb_rows p) [0..<nat (l - f + 1)]" using w(2-4) by (auto simp: list_all_iff)
  then have "compute_display_chunk p = Returns (window_target p f l, p\<lparr>sample_first_row := f, sample_last_row := l\<rparr>)"
    using w(1) n assms(2) window_rows [OF w(2-4)] new_row_numbers_eq [OF assms(1)]
    by (auto simp: compute_display_chunk_def window_target_def window_and_new_def)
  then show thesis using w by (intro that [of f l]) simp_all
qed

section \<open>Changes of the window\<close>

lemma idle_then_rows:
  "p\<lparr>chunk_sync_idle_id := b, chunk_proxy_nb_rows := n\<rparr> = p\<lparr>chunk_proxy_nb_rows := n, chunk_sync_idle_id := b\<rparr>"
  by simp

lemma sync_reset_eq:
  assumes "chunk_proxy_nb_rows p < 0" "0 \<le> model_nb_rows p" "chunk_to p \<noteq> None"
  defines "n \<equiv> model_nb_rows p + int (length (new_rows p))"
  shows "chunk_sync_idle dm (p\<lparr>chunk_proxy_nb_rows := n\<rparr>) = chunk_sync_idle dm p"
    "0 < k \<Longrightarrow> run_idle dm k (p\<lparr>chunk_proxy_nb_rows := n\<rparr>) = run_idle dm k p"
proof -
  show "chunk_sync_idle dm (p\<lparr>chunk_proxy_nb_rows := n\<rparr>) = chunk_sync_idle dm p"
    using assms by (cases "defer_sync p") (auto simp: chunk_sync_idle_def Let_def idle_then_rows)
  then show "0 < k \<Longrightarrow> run_idle dm k (p\<lparr>chunk_proxy_nb_rows := n\<rparr>) = run_idle dm k p"
    by (cases k) simp_all
qed

text \<open>A proxy at rest; the rows of its chunk have numbers.\<close>

definition px_settled :: "'v proxied \<Rightarrow> 'v proxy \<Rightarrow> bool" where
  "px_settled dm p \<longleftrightarrow>
     px_inv p \<and> notify_changes p \<and> chunk_to p = None \<and> \<not> chunk_sync_idle_id p \<and> \<not> force_direct_mapping p \<and>
     dm_n_rows dm = model_nb_rows p \<and> filtered_rows p = None \<and> 0 \<le> sample_first_row p \<and>
     model_nb_rows p + int (length (new_rows p)) < 2147483648 \<and>
     (case chunk p of None \<Rightarrow> True | Some m \<Rightarrow> length m < 2147483648 \<and> (\<forall>x \<in> set m. 0 \<le> x))"

definition old_rows :: "'v proxy \<Rightarrow> int list" where
  "old_rows p =
     (case chunk p of Some m \<Rightarrow> m | None \<Rightarrow> map int [0..<nat (model_nb_rows p) + length (new_rows p)])"

lemma shown_rows_settled:
  assumes "chunk_to p = None" "\<not> force_direct_mapping p" "0 \<le> model_nb_rows p"
  shows "shown_rows p = null_prefix p @ old_rows p"
    "j < length (old_rows p) \<Longrightarrow> proxy_row_to_absolute_row p (int j + null_rows p) = old_rows p ! j"
  using assms shown_rows_chunk [of p] shown_rows_all [of p] by (auto simp: old_rows_def split: option.split)

text \<open>The start of the synchronisation with the window from \<open>f\<close> to \<open>l\<close>.\<close>

definition sync_start :: "int \<Rightarrow> int \<Rightarrow> int list option \<Rightarrow> bool \<Rightarrow> proxy_signal list \<Rightarrow> 'v proxy \<Rightarrow> 'v proxy" where
  "sync_start f l to b sgs p =
     p\<lparr>sample_first_row := f, sample_last_row := l, chunk_to := Some to, px_signals := sgs, chunk_sep := 0,
       chunk_proxy_nb_rows := - 1, chunk_sync_idle_id := b\<rparr>"

definition sync_reset :: "'v proxy \<Rightarrow> 'v proxy" where
  "sync_reset p = p\<lparr>chunk_proxy_nb_rows := model_nb_rows p + int (length (new_rows p))\<rparr>"

lemma sync_start_fields [simp]:
  "defer_sync (sync_start f l to b sgs p) = defer_sync p" "px_signals (sync_start f l to b sgs p) = sgs"
  "chunk_to (sync_start f l to b sgs p) = Some to" "defer_sync (sync_reset p) = defer_sync p"
  "px_signals (sync_reset p) = px_signals p" "chunk_to (sync_reset p) = chunk_to p"
  by (simp_all add: sync_start_def sync_reset_def)

lemma sync_start_calls:
  assumes "0 \<le> model_nb_rows p"
  shows "chunk_sync_idle dm (sync_reset (sync_start f l to b sgs p)) = chunk_sync_idle dm (sync_start f l to b sgs p)"
    "0 < k \<Longrightarrow> run_idle dm k (sync_reset (sync_start f l to b sgs p)) = run_idle dm k (sync_start f l to b sgs p)"
  unfolding sync_reset_def by (rule sync_reset_eq; use assms in \<open>simp add: sync_start_def\<close>)+

lemma syncing_start:
  fixes f l :: int and b :: bool and sgs :: "proxy_signal list"
  assumes p: "px_settled dm p" and to: "chunk p \<noteq> to"
    and t: "\<forall>t. to = Some t \<longrightarrow> length t < 2147483648 \<and> (\<forall>x \<in> set t. 0 \<le> x)"
  defines "p2 \<equiv> sync_reset (sync_start f l to b sgs p)"
  shows "syncing dm (target_rows dm to) 0 (old_rows p) p2" "null_prefix p2 = null_prefix p" "null_rows p2 = null_rows p"
proof -
  have n: "0 \<le> model_nb_rows p" using p by (simp add: px_settled_def px_inv_def)
  note p2_def = p2_def [unfolded sync_reset_def sync_start_def]
  have "px_live p2 = px_live p" by (rule px_live_cong) (simp_all add: p2_def)
  moreover have "px_live p" using p by (simp add: px_settled_def px_inv_live)
  moreover have "length (target_rows dm to) < 2147483648 \<and> (\<forall>x \<in> set (target_rows dm to). 0 \<le> x)"
    using p t n by (auto simp: px_settled_def target_rows_def split: option.split)
  moreover have "length (old_rows p) < 2147483648 \<and> (\<forall>x \<in> set (old_rows p). 0 \<le> x)"
    using p n by (auto simp: px_settled_def old_rows_def split: option.splits)
  moreover have "int (length (target_rows dm to)) \<le> model_nb_rows p + int (length (new_rows p))" if "to = None"
    using that p n by (simp add: target_rows_def px_settled_def)
  ultimately show "syncing dm (target_rows dm to) 0 (old_rows p) p2"
    using p to n
    by (cases to; cases "chunk p") (auto simp: syncing_def p2_def px_settled_def old_rows_def split: if_splits)
  show "null_prefix p2 = null_prefix p" "null_rows p2 = null_rows p" by (simp_all add: p2_def null_prefix_def null_rows_def)
qed

lemma sync_finished_fields [simp]:
  "px_signals (sync_finished q) = px_signals q" "sample_first_row (sync_finished q) = sample_first_row q"
  "sample_last_row (sync_finished q) = sample_last_row q" "chunk_to (sync_finished q) = None"
  "defer_sync (sync_finished q) = defer_sync q"
  by (simp_all add: sync_finished_def)

text \<open>The rows that are shown after the change; an observer is told of those of the target only.\<close>

definition final_rows :: "'v proxy \<Rightarrow> int list option \<Rightarrow> int list" where
  "final_rows p to = (case to of Some t \<Rightarrow> t | None \<Rightarrow> map int [0..<nat (model_nb_rows p) + length (new_rows p)])"

lemma sync_end:
  assumes q: "resynced p q" "chunk_to p = Some to" "\<not> force_direct_mapping p" "0 \<le> model_nb_rows p"
    "dm_n_rows dm = model_nb_rows p"
  shows "shown_rows (sync_finished q) = null_prefix p @ final_rows p to"
    "j < length (target_rows dm to) \<Longrightarrow>
      proxy_row_to_absolute_row (sync_finished q) (int j + null_rows p) = target_rows dm to ! j"
proof -
  let ?p = "sync_finished q"
  note same = resynced_fields [OF q(1)]
  have to: "chunk_to ?p = None" "chunk ?p = to" using same(3) q(2) by (simp_all add: sync_finished_def split: option.split)
  have nulls: "null_prefix ?p = null_prefix p" "null_rows ?p = null_rows p"
    using same(1) by (simp_all add: sync_finished_def null_prefix_def null_rows_def)
  have "old_rows ?p = final_rows p to"
    using to(2) same(5,6) by (auto simp: old_rows_def final_rows_def sync_finished_def split: option.split)
  moreover have "j < length (final_rows p to) \<and> final_rows p to ! j = target_rows dm to ! j" if "j < length (target_rows dm to)"
    using that q(5) by (auto simp: final_rows_def target_rows_def split: option.splits)
  moreover have "\<not> force_direct_mapping ?p" "0 \<le> model_nb_rows ?p" using q same(4,5) by (simp_all add: sync_finished_def)
  ultimately show "shown_rows ?p = null_prefix p @ final_rows p to"
      "j < length (target_rows dm to) \<Longrightarrow> proxy_row_to_absolute_row ?p (int j + null_rows p) = target_rows dm to ! j"
    using shown_rows_settled [OF to(1)] nulls by simp_all
qed

lemma run_idle_done: "chunk_to p = None \<Longrightarrow> 0 < k \<Longrightarrow> run_idle dm k p = Returns (False, if defer_sync p then p else p\<lparr>chunk_sync_idle_id := False\<rparr>)"
  by (cases k) (simp_all add: chunk_sync_idle_def)

lemma shown_unrelated [simp]:
  "shown_rows (p\<lparr>px_signals := sgs\<rparr>) = shown_rows p" "shown_rows (p\<lparr>chunk_sync_idle_id := b\<rparr>) = shown_rows p"
  "shown_rows (p\<lparr>sample_last_row := n\<rparr>) = shown_rows p" "shown_rows (p\<lparr>sample_first_row := n\<rparr>) = shown_rows p"
  "shown_rows (p\<lparr>sample_size := n\<rparr>) = shown_rows p"
  by (simp_all add: shown_rows_def)

lemma observe_ignored: "observe read (PxSampleChanged a b # S) xs = observe read S xs"
  "observe read (PxSampleSizeChanged a # S) xs = observe read S xs" "observe read [] xs = xs"
  by (simp_all add: observe_def)

text \<open>After the change the rows of the target are shown; \<open>S\<close> are the signals since \<open>p\<close>.\<close>

definition rows_replaced :: "'v proxied \<Rightarrow> int list option \<Rightarrow> int \<Rightarrow> int \<Rightarrow> 'v proxy \<Rightarrow> 'v proxy \<Rightarrow> bool" where
  "rows_replaced dm to f l p p2 \<longleftrightarrow>
     chunk_to p2 = None \<and> shown_rows p2 = null_prefix p @ final_rows p to \<and> sample_first_row p2 = f \<and> sample_last_row p2 = l \<and>
     (\<exists>S. px_signals p2 = px_signals p @ S \<and> observe (proxy_row_to_absolute_row p2) S (shown_rows p) =
       null_prefix p @ (if chunk p = to then final_rows p to else target_rows dm to))"

lemma rows_replaced_end:
  assumes p: "px_settled dm p" and to: "chunk p \<noteq> to"
    and q: "resynced (sync_reset (sync_start f l to b (px_signals p @ R) p)) q" "px_signals q = px_signals p @ R @ S"
    and S: "\<And>read. \<forall>j < length (target_rows dm to). read (int j + null_rows p) = target_rows dm to ! j \<Longrightarrow>
      observe read S (null_prefix p @ old_rows p) = null_prefix p @ target_rows dm to"
    and R: "\<And>(read :: int \<Rightarrow> int) xs. observe read R xs = xs" "\<And>(read :: int \<Rightarrow> int) xs. observe read T xs = xs"
  shows "rows_replaced dm to f l p ((sync_finished q)\<lparr>px_signals := px_signals q @ T\<rparr>)"
proof -
  let ?p0 = "sync_reset (sync_start f l to b (px_signals p @ R) p)" and ?p2 = "(sync_finished q)\<lparr>px_signals := px_signals q @ T\<rparr>"
  note defs = sync_reset_def sync_start_def px_settled_def
  have p0: "chunk_to ?p0 = Some to" "\<not> force_direct_mapping ?p0" "0 \<le> model_nb_rows ?p0" "dm_n_rows dm = model_nb_rows ?p0"
      "null_prefix ?p0 = null_prefix p" "null_rows ?p0 = null_rows p" "final_rows ?p0 to = final_rows p to"
    using p by (simp_all add: defs px_inv_def null_prefix_def null_rows_def final_rows_def cong: option.case_cong)
  note after = sync_end [OF q(1) p0(1-4)]
  have "sample_first_row q = f" "sample_last_row q = l"
    using q(1) [unfolded resynced_def, THEN arg_cong, of sample_first_row]
      q(1) [unfolded resynced_def, THEN arg_cong, of sample_last_row] by (simp_all add: defs)
  moreover have "shown_rows p = null_prefix p @ old_rows p" using p by (intro shown_rows_settled) (simp_all add: px_settled_def px_inv_def)
  moreover have "observe (proxy_row_to_absolute_row (sync_finished q)) S (null_prefix p @ old_rows p) = null_prefix p @ target_rows dm to"
    using after(2) p0(6) by (intro S) simp
  moreover have "proxy_row_to_absolute_row ?p2 = proxy_row_to_absolute_row (sync_finished q)" by (rule ext) simp
  ultimately show ?thesis using after(1) p0(5,7) q(2) R to
    by (simp add: rows_replaced_def observe_append)
qed

lemma rows_replaced_idle [simp]:
  "rows_replaced dm to f l p (p2\<lparr>chunk_sync_idle_id := b\<rparr>) = rows_replaced dm to f l p p2"
proof -
  have "proxy_row_to_absolute_row (p2\<lparr>chunk_sync_idle_id := b\<rparr>) = proxy_row_to_absolute_row p2" by (rule ext) simp
  then show ?thesis by (simp add: rows_replaced_def)
qed

lemma resample_unchanged:
  assumes p: "px_settled dm p" and to: "chunk p = to"
  shows "rows_replaced dm to f l p (p\<lparr>sample_first_row := f, sample_last_row := l, px_signals := px_signals p @ [PxSampleSizeChanged z]\<rparr>)"
proof -
  have "old_rows p = final_rows p to" using to by (simp add: old_rows_def final_rows_def)
  moreover have "chunk_to p = None" "\<not> force_direct_mapping p" "0 \<le> model_nb_rows p"
    using p by (simp_all add: px_settled_def px_inv_def)
  ultimately show ?thesis using to shown_rows_settled(1) [of p] by (simp add: rows_replaced_def observe_ignored)
qed

lemma resample_later:
  fixes f l z :: int
  assumes p: "px_settled dm p" and to: "chunk p \<noteq> to"
    and t: "\<forall>t. to = Some t \<longrightarrow> length t < 2147483648 \<and> (\<forall>x \<in> set t. 0 \<le> x)"
    and k: "max (length (target_rows dm to)) (length (old_rows p)) < 50 * k"
  defines "p1 \<equiv> sync_start f l to True (px_signals p @ [PxSampleChanged f l, PxSampleSizeChanged z]) p"
  shows "\<exists>p2. run_idle dm k p1 = Returns (False, p2) \<and> rows_replaced dm to f l p p2"
proof -
  let ?R = "[PxSampleChanged f l, PxSampleSizeChanged z]"
  note start = syncing_start [OF p to t, where f = f and l = l and b = True and sgs = "px_signals p @ ?R", folded p1_def]
  obtain q S where q: "run_idle dm k (sync_reset p1) = Returns (False, sync_finished q)" "resynced (sync_reset p1) q"
      "px_signals q = px_signals (sync_reset p1) @ S"
      "\<And>read. \<forall>j < length (target_rows dm to). read (int j + null_rows (sync_reset p1)) = target_rows dm to ! j \<Longrightarrow>
        observe read S (null_prefix (sync_reset p1) @ take 0 (target_rows dm to) @ old_rows p) =
          null_prefix (sync_reset p1) @ target_rows dm to"
    using idle_calls [OF start(1), of k] k by (metis diff_zero)
  have "0 < k" using k by (cases k) simp_all
  then have "run_idle dm k p1 = Returns (False, sync_finished q)"
    using q(1) p sync_start_calls(2) [of p k] by (simp add: p1_def px_settled_def px_inv_def)
  moreover have "rows_replaced dm to f l p ((sync_finished q)\<lparr>px_signals := px_signals q @ []\<rparr>)"
    using q(2-4) start(2,3) by (intro rows_replaced_end [OF p to, of f l True ?R q S "[]"]) (simp_all add: p1_def observe_ignored)
  moreover have "(sync_finished q)\<lparr>px_signals := px_signals q @ []\<rparr> = sync_finished q" by (rule proxy.equality) simp_all
  ultimately show ?thesis by metis
qed

lemma resample_now:
  fixes f l z :: int
  assumes p: "px_settled dm p" and to: "chunk p \<noteq> to"
    and t: "\<forall>t. to = Some t \<longrightarrow> length t < 2147483648 \<and> (\<forall>x \<in> set t. 0 \<le> x)" and now: "\<not> defer_sync p"
  defines "p1 \<equiv> sync_start f l to False (px_signals p @ [PxSampleChanged f l]) p"
  shows "\<exists>p2. chunk_sync_idle dm p1 = Returns (False, p2) \<and> defer_sync p2 = defer_sync p \<and>
    rows_replaced dm to f l p (p2\<lparr>px_signals := px_signals p2 @ [PxSampleSizeChanged z]\<rparr>)"
proof -
  let ?R = "[PxSampleChanged f l]" and ?t = "target_rows dm to"
  note start = syncing_start [OF p to t, where f = f and l = l and b = False and sgs = "px_signals p @ ?R", folded p1_def]
  obtain more q i ys S where q: "chunk_sync_idle dm (sync_reset p1) = Returns (more, if more then q else sync_finished q)"
      "resynced (sync_reset p1) q" "px_signals q = px_signals (sync_reset p1) @ S"
      "if more then defer_sync (sync_reset p1) \<and> max (length ?t - i) (length ys) + 50 \<le> max (length ?t - 0) (length (old_rows p))
       else i = length ?t \<and> ys = []"
      "\<And>read. \<forall>j < length ?t. read (int j + null_rows (sync_reset p1)) = ?t ! j \<Longrightarrow>
        observe read S (null_prefix (sync_reset p1) @ take 0 ?t @ old_rows p) = null_prefix (sync_reset p1) @ take i ?t @ ys"
    using idle_call [OF start(1)] by blast
  then have "\<not> more" using now by (auto simp: p1_def)
  then have "chunk_sync_idle dm p1 = Returns (False, sync_finished q)" "i = length ?t" "ys = []"
    using q(1,4) p sync_start_calls(1) [of p] by (simp_all add: p1_def px_settled_def px_inv_def)
  moreover have "rows_replaced dm to f l p ((sync_finished q)\<lparr>px_signals := px_signals q @ [PxSampleSizeChanged z]\<rparr>)"
    using q(2,3,5) calculation start(2,3)
    by (intro rows_replaced_end [OF p to, of f l False ?R q S "[PxSampleSizeChanged z]"]) (simp_all add: p1_def observe_ignored)
  moreover have "defer_sync q = defer_sync p" using resynced_fields(2) [OF q(2)] by (simp add: p1_def)
  ultimately show ?thesis by (intro exI [of _ "sync_finished q"]) simp
qed

lemma settled_resize: "px_settled dm (p\<lparr>sample_size := z\<rparr>) = px_settled dm p"
proof -
  have "modif_wf (p\<lparr>sample_size := z\<rparr>) = modif_wf p" by (intro ext) (simp add: modif_wf_def)
  then show ?thesis by (simp add: px_settled_def px_inv_def)
qed

lemma window_target_ok:
  assumes "px_settled dm p" "0 \<le> f" "f \<le> l + 1" "l < model_nb_rows p"
  shows "\<forall>t. window_target p f l = Some t \<longrightarrow> length t < 2147483648 \<and> (\<forall>x \<in> set t. 0 \<le> x)"
    "length (target_rows dm (window_target p f l)) \<le> nat (model_nb_rows p) + length (new_rows p)"
  using assms by (auto simp: window_target_def window_and_new_def target_rows_def px_settled_def px_inv_def)

lemma adjust_shown:
  assumes p: "px_settled dm p" and size: "model_nb_rows p = 0 \<longrightarrow> sample_size p \<noteq> 1"
    and k: "length (shown_rows p) + nat (model_nb_rows p) + length (new_rows p) < 50 * k"
    and w: "0 \<le> f" "f \<le> l + 1" "l < model_nb_rows p"
    and compute: "compute_display_chunk p = Returns (window_target p f l, p\<lparr>sample_first_row := f, sample_last_row := l\<rparr>)"
  shows "\<exists>p1 p2. adjust_displayed_chunk dm p = Returns p1 \<and> run_idle dm k (px_emit (PxSampleSizeChanged z) p1) = Returns (False, p2) \<and>
    rows_replaced dm (window_target p f l) f l p p2"
proof -
  let ?to = "window_target p f l" and ?p = "p\<lparr>sample_first_row := f, sample_last_row := l\<rparr>"
  note to = window_target_ok [OF p w]
  have n: "chunk_to p = None" "\<not> chunk_sync_idle_id p" using p by (simp_all add: px_settled_def)
  then have reset: "p\<lparr>chunk_sync_idle_id := False, chunk_to := None\<rparr> = p" by simp
  have k0: "0 < k" using k by (cases k) simp_all
  have now: "sync_start f l ?to False sgs p = p\<lparr>sample_first_row := f, sample_last_row := l, chunk_to := Some ?to, px_signals := sgs,
      chunk_sep := 0, chunk_proxy_nb_rows := - 1\<rparr>" for sgs
    by (rule proxy.equality) (use n in \<open>simp_all add: sync_start_def\<close>)
  have adjust: "adjust_displayed_chunk dm p =
      (if chunk p = ?to then Returns ?p
       else if defer_sync p then Returns (sync_start f l ?to True (px_signals p @ [PxSampleChanged f l]) p)
       else bind_outcome (chunk_sync_idle dm (sync_start f l ?to False (px_signals p @ [PxSampleChanged f l]) p)) (\<lambda>(_, p3). Returns p3))"
    using compute now by (simp add: adjust_displayed_chunk_def reset px_emit_def Let_def) (simp add: sync_start_def)
  show ?thesis
  proof (cases "chunk p = ?to")
    case True
    then show ?thesis using adjust resample_unchanged [OF p True, of f l z] n k0
      by (simp add: run_idle_done px_emit_def)
  next
    case change: False
    show ?thesis
    proof (cases "defer_sync p")
      case True
      have "length (old_rows p) \<le> length (shown_rows p)" using p shown_rows_settled(1) [of p] by (simp add: px_settled_def px_inv_def)
      then have "max (length (target_rows dm ?to)) (length (old_rows p)) < 50 * k" using k to(2) by linarith
      moreover have "px_emit (PxSampleSizeChanged z) (sync_start f l ?to True (px_signals p @ [PxSampleChanged f l]) p) =
          sync_start f l ?to True (px_signals p @ [PxSampleChanged f l, PxSampleSizeChanged z]) p"
        by (rule proxy.equality) (simp_all add: px_emit_def sync_start_def)
      ultimately show ?thesis using True change adjust resample_later [OF p change to(1), of k f l z] by simp
    next
      case False
      obtain p2 where p2: "chunk_sync_idle dm (sync_start f l ?to False (px_signals p @ [PxSampleChanged f l]) p) = Returns (False, p2)"
          "defer_sync p2 = defer_sync p" "rows_replaced dm ?to f l p (p2\<lparr>px_signals := px_signals p2 @ [PxSampleSizeChanged z]\<rparr>)"
        using resample_now [OF p change to(1) False, of f l z] by blast
      moreover have "chunk_to p2 = None" using p2(3) by (simp add: rows_replaced_def)
      ultimately show ?thesis using False change adjust k0
        by - (rule exI [of _ p2], simp add: px_emit_def run_idle_done)
    qed
  qed
qed

lemma set_sample_size_shown:
  assumes p: "px_settled dm p" and size: "model_nb_rows p = 0 \<longrightarrow> z \<noteq> 1" "sample_size p \<noteq> max z 0"
    and k: "length (shown_rows p) + nat (model_nb_rows p) + length (new_rows p) < 50 * k"
  obtains p1 p2 f l where "gda_data_proxy_set_sample_size dm p z = Returns p1" "run_idle dm k p1 = Returns (False, p2)"
    "rows_replaced dm (if z \<le> 0 then None else Some (window_and_new p f l)) f l p p2"
    "0 \<le> f" "f \<le> l + 1" "l < model_nb_rows p" "0 < z \<Longrightarrow> l = min (model_nb_rows p - 1) (f + z - 1)"
    "0 < z \<Longrightarrow> sample_first_row p < model_nb_rows p \<Longrightarrow> f = sample_first_row p" "z \<le> 0 \<Longrightarrow> f = 0 \<and> l = model_nb_rows p - 1"
proof -
  let ?p = "p\<lparr>sample_size := max z 0\<rparr>"
  have p': "px_settled dm ?p" using p by (simp only: settled_resize)
  have pf: "px_inv ?p" "filtered_rows ?p = None" "0 \<le> sample_first_row ?p" "model_nb_rows ?p = 0 \<longrightarrow> sample_size ?p \<noteq> 1"
    using p' size by (auto simp: px_settled_def)
  obtain f l where w: "compute_display_chunk ?p = Returns (window_target ?p f l, ?p\<lparr>sample_first_row := f, sample_last_row := l\<rparr>)"
      "0 \<le> f" "f \<le> l + 1" "l < model_nb_rows p" "0 < max z 0 \<Longrightarrow> l = min (model_nb_rows p - 1) (f + max z 0 - 1)"
      "0 < max z 0 \<Longrightarrow> sample_first_row p < model_nb_rows p \<Longrightarrow> f = sample_first_row p"
      "max z 0 \<le> 0 \<Longrightarrow> f = 0 \<and> l = model_nb_rows p - 1"
    using compute_unfiltered [OF pf] by simp blast
  have same: "shown_rows ?p = shown_rows p" "null_prefix ?p = null_prefix p" "final_rows ?p to = final_rows p to"
      "window_target ?p f l = (if z \<le> 0 then None else Some (window_and_new p f l))" for to
    by (cases to; simp add: null_prefix_def final_rows_def window_target_def window_and_new_def)+
  obtain p1 p2 where p1: "adjust_displayed_chunk dm ?p = Returns p1" "run_idle dm k (px_emit (PxSampleSizeChanged z) p1) = Returns (False, p2)"
      "rows_replaced dm (window_target ?p f l) f l ?p p2"
    using adjust_shown [OF p' pf(4) _ w(2,3) _ w(1), of k z] k w(4) by auto
  have new: "(if z \<le> 0 then 0 else z) = max z 0" by simp
  have "gda_data_proxy_set_sample_size dm p z = Returns (px_emit (PxSampleSizeChanged z) p1)"
    using p p1(1) size(2) by (simp add: gda_data_proxy_set_sample_size_def ensure_chunk_sync_def new Let_def px_settled_def)
  moreover have "rows_replaced dm (if z \<le> 0 then None else Some (window_and_new p f l)) f l p p2"
    using p1(3) by (simp add: rows_replaced_def same cong: if_cong)
  ultimately show thesis using p1(2) w(2-7) by (intro that [of _ p2 f l]) simp_all
qed


definition sample_proxied :: "nat \<Rightarrow> nat proxied" where
  "sample_proxied n =
     \<lparr>dm_n_columns = 1, dm_n_rows = int n,
      dm_value_at = (\<lambda>c r. if c = 0 \<and> 0 \<le> r \<and> r < int n then Some (GValue 24 (nat r)) else None),
      dm_column_type = (\<lambda>_. 24), dm_access = {AccessRandom, AccessInsert, AccessUpdate, AccessDelete}, dm_find_row = None,
      pm_column = (\<lambda>_. gda_column_new\<lparr>col_type := 24\<rparr>), pm_attributes = (\<lambda>_ _. {})\<rparr>"

definition sample_proxy :: "nat \<Rightarrow> nat proxy" where
  "sample_proxy n = gda_data_proxy_init\<lparr>model_nb_cols := 1, model_nb_rows := int n\<rparr>"




text \<open>
  C30: When a window is replaced by all rows while rows were added that are not in the proxied model, the signals
  withdraw the added rows: an observer is left with the rows of the proxied model, but the proxy goes on showing the
  added rows behind them.
\<close>

theorem added_rows_are_withdrawn:
  assumes p: "px_settled dm p" and size: "chunk p \<noteq> None" "z \<le> 0" "sample_size p \<noteq> 0" and new: "new_rows p \<noteq> []"
    and k: "length (shown_rows p) + nat (model_nb_rows p) + length (new_rows p) < 50 * k"
  shows "\<exists>p1 p2 S. gda_data_proxy_set_sample_size dm p z = Returns p1 \<and> run_idle dm k p1 = Returns (False, p2) \<and>
    px_signals p2 = px_signals p @ S \<and>
    observe (proxy_row_to_absolute_row p2) S (shown_rows p) = null_prefix p @ map int [0..<nat (model_nb_rows p)] \<and>
    shown_rows p2 = null_prefix p @ map int [0..<nat (model_nb_rows p) + length (new_rows p)]"
proof -
  have "model_nb_rows p = 0 \<longrightarrow> z \<noteq> 1" "sample_size p \<noteq> max z 0" using size by simp_all
  then obtain p1 p2 f l where p2: "gda_data_proxy_set_sample_size dm p z = Returns p1" "run_idle dm k p1 = Returns (False, p2)"
      "rows_replaced dm (if z \<le> 0 then None else Some (window_and_new p f l)) f l p p2"
    using set_sample_size_shown [OF p _ _ k] by metis
  have "rows_replaced dm None f l p p2" using p2(3) size(2) by simp
  then show ?thesis using p p2(1,2) size(1)
    by (intro exI [of _ p1] exI [of _ p2]) (auto simp: rows_replaced_def final_rows_def target_rows_def px_settled_def)
qed

definition sample_added :: "nat row_modif" where
  "sample_added =
     \<lparr>rm_model_row = - 1, rm_to_be_deleted = False,
      rm_modify_values = [\<lparr>rv_column = 0, rv_value = None, rv_attributes = {AttrCanBeNull}\<rparr>],
      rm_orig_values = None, rm_orig_values_size = 1\<rparr>"

theorem added_rows_are_withdrawn_witness:
  "\<exists>p1 p2 S. gda_data_proxy_set_sample_size (sample_proxied 2)
       ((sample_proxy 2)\<lparr>sample_size := 1, chunk := Some [0, 2], all_modifs := [(0, sample_added)], new_rows := [0], next_modif := 1\<rparr>)
       0 = Returns p1 \<and>
     run_idle (sample_proxied 2) 1 p1 = Returns (False, p2) \<and> px_signals p2 = S \<and>
     observe (proxy_row_to_absolute_row p2) S [0, 2] = [0, 1] \<and> shown_rows p2 = [0, 1, 2]"
proof -
  let ?p = "(sample_proxy 2)\<lparr>sample_size := 1, chunk := Some [0, 2], all_modifs := [(0, sample_added)], new_rows := [0], next_modif := 1\<rparr>"
  have p: "px_settled (sample_proxied 2) ?p"
    by (simp add: px_settled_def px_inv_def modif_wf_def is_new_def sample_proxied_def sample_proxy_def sample_added_def
        gda_data_proxy_init_def)
  have fields: "model_nb_rows ?p = 2" "px_signals ?p = []" "null_prefix ?p = []" "chunk ?p = Some [0, 2]" "sample_size ?p = 1"
      "new_rows ?p = [0]" "\<not> force_direct_mapping ?p"
    by (simp_all add: sample_proxy_def gda_data_proxy_init_def null_prefix_def)
  then have "shown_rows ?p = [0, 2]" using shown_rows_chunk(1) [of ?p "[0, 2]"] by simp
  then show ?thesis using added_rows_are_withdrawn [OF p, of 0 1] fields by (simp add: upt_rec)
qed

text \<open>
  C29: A window of one row on an empty model has a row too many: the proxy has a row, without a value, that no signal
  announced. It comes from a division that truncates: \<open>(0 - 1) / 1\<close> is -1, but \<open>(0 - 1) / n\<close> is 0 for larger \<open>n\<close>.
\<close>

theorem one_row_window_of_an_empty_model:
  assumes "px_settled dm p" "model_nb_rows p = 0" "chunk p = None" "new_rows p = []" "\<not> defer_sync p" "sample_size p \<noteq> 1" "0 < model_nb_cols p"
  shows "\<exists>p'. gda_data_proxy_set_sample_size dm p 1 = Returns p' \<and>
    px_signals p' = px_signals p @ [PxSampleChanged (- 1) (- 1), PxSampleSizeChanged 1] \<and>
    gda_data_proxy_get_n_rows p = null_rows p \<and> gda_data_proxy_get_n_rows p' = null_rows p + 1 \<and>
    gda_data_proxy_get_value_at dm p' 0 (null_rows p) = Returns None"
proof -
  have n: "filtered_rows p = None" "0 \<le> sample_first_row p" "chunk_to p = None" "\<not> force_direct_mapping p" "\<not> chunk_sync_idle_id p"
    using assms(1) by (simp_all add: px_settled_def)
  let ?p = "p\<lparr>sample_size := 1, sample_first_row := - 1, sample_last_row := - 1\<rparr>"
  have compute: "compute_display_chunk (p\<lparr>sample_size := 1\<rparr>) = Returns (Some [- 1], ?p)"
    using assms(2,4) n by (simp add: compute_display_chunk_def sample_window_def model_row_to_absolute_row_def Let_def)
  let ?p1 = "p\<lparr>sample_size := 1, sample_first_row := - 1, sample_last_row := - 1, chunk_to := Some (Some [- 1]),
      px_signals := px_signals p @ [PxSampleChanged (- 1) (- 1)], chunk_sep := 0\<rparr>"
  have "sync_steps dm (Suc k) 0 (?p1\<lparr>chunk_sync_idle_id := False, chunk_proxy_nb_rows := 0\<rparr>) =
      Returns (True, ?p1\<lparr>chunk_sync_idle_id := False, chunk_proxy_nb_rows := 0\<rparr>)" for k
    using assms(3) by (simp add: current_row_def replacing_row_def gint_of_def Let_def)
  moreover have "sync_finished (?p1\<lparr>chunk_sync_idle_id := False, chunk_proxy_nb_rows := 0\<rparr>) = sync_finished (?p1\<lparr>chunk_proxy_nb_rows := 0\<rparr>)"
    by (simp add: sync_finished_def)
  ultimately have sync: "chunk_sync_idle dm (?p1\<lparr>chunk_proxy_nb_rows := - 1\<rparr>) = Returns (False, sync_finished (?p1\<lparr>chunk_proxy_nb_rows := 0\<rparr>))"
    using assms(2-5) n
    by (simp add: chunk_sync_idle_def sync_max_steps_def guint_def numeral_2_eq_2 del: sync_steps.simps)
  let ?p2 = "(sync_finished (?p1\<lparr>chunk_proxy_nb_rows := 0\<rparr>))\<lparr>px_signals := px_signals ?p1 @ [PxSampleSizeChanged 1]\<rparr>"
  have "adjust_displayed_chunk dm (p\<lparr>sample_size := 1\<rparr>) = Returns (sync_finished (?p1\<lparr>chunk_proxy_nb_rows := 0\<rparr>))"
  proof -
    have "p\<lparr>sample_size := 1, chunk_sync_idle_id := False, chunk_to := None\<rparr> = p\<lparr>sample_size := 1\<rparr>"
      by (rule proxy.equality) (use n in simp_all)
    then show ?thesis using compute sync assms(3,5) by (simp add: adjust_displayed_chunk_def px_emit_def Let_def)
  qed
  then have "gda_data_proxy_set_sample_size dm p 1 = Returns ?p2"
    using assms(6) n by (simp add: gda_data_proxy_set_sample_size_def ensure_chunk_sync_def px_emit_def Let_def)
  moreover have "gda_data_proxy_get_n_rows ?p2 = null_rows p + 1" "gda_data_proxy_get_n_rows p = null_rows p"
    using assms(2-4) n by (simp_all add: gda_data_proxy_get_n_rows_def null_rows_def sync_finished_def)
  moreover have "proxy_row_to_absolute_row ?p2 (null_rows p) = - 1"
    using n by (simp add: proxy_row_to_absolute_row_def null_rows_def sync_finished_def)
  then have "gda_data_proxy_get_value_at dm ?p2 0 (null_rows p) = Returns None"
    using assms(7) by (intro no_row_value) (simp_all add: null_rows_def sync_finished_def)
  ultimately show ?thesis by (intro exI [of _ ?p2]) simp
qed

theorem one_row_window_of_an_empty_model_witness:
  "\<exists>p'. gda_data_proxy_set_sample_size (sample_proxied 0) ((sample_proxy 0)\<lparr>defer_sync := False\<rparr>) 1 = Returns p' \<and>
     px_signals p' = [PxSampleChanged (- 1) (- 1), PxSampleSizeChanged 1] \<and> gda_data_proxy_get_n_rows p' = 1 \<and>
     gda_data_proxy_get_value_at (sample_proxied 0) p' 0 0 = Returns None"
proof -
  let ?p = "(sample_proxy 0)\<lparr>defer_sync := False\<rparr>"
  have p: "px_settled (sample_proxied 0) ?p"
    by (simp add: px_settled_def px_inv_def sample_proxied_def sample_proxy_def gda_data_proxy_init_def)
  have fields: "model_nb_rows ?p = 0" "chunk ?p = None" "new_rows ?p = []" "\<not> defer_sync ?p" "sample_size ?p = 0"
      "0 < model_nb_cols ?p" "px_signals ?p = []" "null_rows ?p = 0"
    by (simp_all add: sample_proxy_def gda_data_proxy_init_def null_rows_def)
  show ?thesis using one_row_window_of_an_empty_model [OF p fields(1-4) _ fields(6)] fields(5,7,8) by auto
qed

end
