(* ===== verification/Gda_Proxy_Edit.thy ===== *)
theory Gda_Proxy_Edit
  imports Gda_Proxy_Shown
begin

text \<open>
  Changes that a data proxy keeps (\<open>libgda/gda-data-proxy.c\<close>): values that are set, rows that are added or marked to be
  deleted, and the ways to take the changes back. \<open>cmp\<close> is how \<open>gda_value_compare\<close> orders two values of one type. An
  assertion that fails gives \<open>Undefined\<close>. The error of reading a value is not told apart further.
\<close>

section \<open>New modifications\<close>

datatype proxy_error = ReadOnlyValue | ReadOnlyRow | ReadError | ValueTypeError

definition row_modifs_new :: "'v proxied \<Rightarrow> 'v proxy \<Rightarrow> int \<Rightarrow> 'v row_modif" where
  "row_modifs_new dm p row =
     \<lparr>rm_model_row = 0, rm_to_be_deleted = False, rm_modify_values = [],
      rm_orig_values =
        (if 0 \<le> row then Some (map (\<lambda>i. model_value dm i (proxy_row_to_model_row p row)) [0..<model_nb_cols p]) else None),
      rm_orig_values_size = (if 0 \<le> row then model_nb_cols p else 0)\<rparr>"

text \<open>A modification of a row of the proxied model is added to the hash table and to the list.\<close>

definition add_row_modif :: "'v row_modif \<Rightarrow> int \<Rightarrow> 'v proxy \<Rightarrow> modif_id \<times> 'v proxy" where
  "add_row_modif rm model_row p =
     (case prepend_modif (rm\<lparr>rm_model_row := model_row\<rparr>) p of (i, p') \<Rightarrow> (i, hash_insert model_row i p'))"

definition find_or_create_row_modif ::
    "'v proxied \<Rightarrow> 'v proxy \<Rightarrow> int \<Rightarrow> nat \<Rightarrow> (modif_id \<times> 'v row_value option \<times> 'v proxy) outcome" where
  "find_or_create_row_modif dm p row col =
     (if row < 0 then Undefined
      else
        bind_outcome (row_modif_of p row) (\<lambda>m.
          case m of
            Some (i, rm) \<Rightarrow> Returns (i, find_row_value col (rm_modify_values rm), p)
          | None \<Rightarrow>
              if proxy_row_to_model_row p row < 0 then Undefined
              else
                (case add_row_modif (row_modifs_new dm p row) (proxy_row_to_model_row p row) p of
                   (i, p') \<Rightarrow> Returns (i, None, p'))))"

fun remove_row_value :: "nat \<Rightarrow> 'v row_value list \<Rightarrow> 'v row_value list" where
  "remove_row_value col [] = []"
| "remove_row_value col (rv # rvs) = (if rv_column rv = col then rvs else rv # remove_row_value col rvs)"

fun replace_row_value :: "'v row_value \<Rightarrow> 'v row_value list \<Rightarrow> 'v row_value list" where
  "replace_row_value new [] = []"
| "replace_row_value new (rv # rvs) = (if rv_column rv = rv_column new then new # rvs else rv # replace_row_value new rvs)"

section \<open>Setting a value\<close>

text \<open>
  Whether the new value is refused (\<open>Some False\<close>), is there already (\<open>Some True\<close>) or is to be stored.
\<close>

definition value_decided ::
    "(gtype \<Rightarrow> 'v \<Rightarrow> 'v \<Rightarrow> int) \<Rightarrow> 'v proxied \<Rightarrow> 'v proxy \<Rightarrow> nat \<Rightarrow> int \<Rightarrow> 'v gvalue \<Rightarrow> (bool option \<times> 'v proxy) outcome" where
  "value_decided cmp dm p col row v =
     bind_outcome (gda_data_proxy_get_value_at dm p col row) (\<lambda>current.
       case current of
         None \<Rightarrow>
           bind_outcome (gda_data_proxy_get_value_attributes dm p row col) (\<lambda>attrs.
             if AttrNoModif \<in> attrs then Returns (Some False, p)
             else
               (case gda_data_proxy_describe_column dm col p of
                  (None, _) \<Rightarrow> Undefined
                | (Some c, p') \<Rightarrow>
                    Returns
                      (if G_VALUE_TYPE v \<noteq> GDA_TYPE_NULL \<and> col_type c \<noteq> GDA_TYPE_NULL \<and> col_type c \<noteq> G_VALUE_TYPE v
                       then Some False else None, p')))
       | Some x \<Rightarrow>
           Returns
             (if G_VALUE_TYPE x \<noteq> GDA_TYPE_NULL \<and> G_VALUE_TYPE v \<noteq> GDA_TYPE_NULL \<and> G_VALUE_TYPE v \<noteq> G_VALUE_TYPE x
              then Some False
              else if gda_value_compare cmp v x = 0 then Some True
              else None, p))"

definition store_value :: "'v gvalue \<Rightarrow> 'v row_value \<Rightarrow> 'v row_value" where
  "store_value v rv =
     (if is_null (Some v) then rv\<lparr>rv_value := None, rv_attributes := rv_attributes rv \<union> {AttrIsNull}\<rparr>
      else rv\<lparr>rv_value := Some v, rv_attributes := rv_attributes rv - {AttrIsNull}\<rparr>)"

definition is_modified :: "'v row_value \<Rightarrow> 'v row_value" where
  "is_modified rv = rv\<lparr>rv_attributes := rv_attributes rv - {AttrIsUnchanged, AttrIsDefault}\<rparr>"

definition new_row_value :: "'v proxy \<Rightarrow> 'v row_modif \<Rightarrow> nat \<Rightarrow> 'v gvalue \<Rightarrow> 'v row_value" where
  "new_row_value p rm col v =
     (let rv = store_value v \<lparr>rv_column = col, rv_value = None, rv_attributes = columns_attrs p ! col\<rparr> in
      rv\<lparr>rv_attributes := (if 0 \<le> rm_model_row rm then rv_attributes rv \<union> {AttrHasValueOrig}
                           else rv_attributes rv - {AttrHasValueOrig})\<rparr>)"

definition is_original :: "(gtype \<Rightarrow> 'v \<Rightarrow> 'v \<Rightarrow> int) \<Rightarrow> 'v row_modif \<Rightarrow> nat \<Rightarrow> 'v gvalue \<Rightarrow> bool" where
  "is_original cmp rm col v \<longleftrightarrow>
     (case rm_orig_values rm of
        None \<Rightarrow> False
      | Some orig \<Rightarrow>
          col < rm_orig_values_size rm \<and>
          (case orig ! col of None \<Rightarrow> False | Some ov \<Rightarrow> gda_value_compare cmp v ov = 0))"

definition modify_value ::
    "(gtype \<Rightarrow> 'v \<Rightarrow> 'v \<Rightarrow> int) \<Rightarrow> 'v proxy \<Rightarrow> 'v row_modif \<Rightarrow> nat \<Rightarrow> 'v row_value option \<Rightarrow> 'v gvalue \<Rightarrow> 'v row_modif" where
  "modify_value cmp p rm col rv v =
     rm\<lparr>rm_modify_values :=
       (case rv of
          Some rv \<Rightarrow>
            if is_original cmp rm col v then remove_row_value col (rm_modify_values rm)
            else replace_row_value (is_modified (store_value v rv)) (rm_modify_values rm)
        | None \<Rightarrow> is_modified (new_row_value p rm col v) # rm_modify_values rm)\<rparr>"

text \<open>A modification of a row of the proxied model that changes nothing any more is dropped.\<close>

definition drop_useless_modif :: "modif_id \<Rightarrow> 'v row_modif \<Rightarrow> 'v proxy \<Rightarrow> 'v proxy" where
  "drop_useless_modif i rm p =
     (if \<not> rm_to_be_deleted rm \<and> rm_modify_values rm = [] \<and> 0 \<le> rm_model_row rm
      then remove_modif i (hash_remove (rm_model_row rm) p) else p)"

definition gda_data_proxy_set_value_at ::
    "(gtype \<Rightarrow> 'v \<Rightarrow> 'v \<Rightarrow> int) \<Rightarrow> 'v proxied \<Rightarrow> 'v proxy \<Rightarrow> nat \<Rightarrow> int \<Rightarrow> 'v gptr \<Rightarrow>
       (bool \<times> proxy_error option \<times> 'v proxy) outcome" where
  "gda_data_proxy_set_value_at cmp dm p col row value =
     (case value of
        None \<Rightarrow> Returns (False, None, p)
      | Some v \<Rightarrow>
          if row < 0 then Returns (False, None, p)
          else
            bind_outcome (ensure_chunk_sync dm p) (\<lambda>p1.
              if row = 0 \<and> add_null_entry p1 then Returns (False, Some ReadOnlyRow, p1)
              else if col < model_nb_cols p1 then
                bind_outcome (gda_data_proxy_get_value_at dm p1 col row) (\<lambda>current.
                let err = (if current = None then Some ReadError else None) in
                bind_outcome (value_decided cmp dm p1 col row v) (\<lambda>(decided, p2).
                  case decided of
                    Some b \<Rightarrow> Returns (b, err, p2)
                  | None \<Rightarrow>
                      bind_outcome (find_or_create_row_modif dm p2 row col) (\<lambda>(i, rv, p3).
                        case modif_at p3 i of
                          None \<Rightarrow> Undefined
                        | Some rm \<Rightarrow>
                            (let rm' = modify_value cmp p3 rm col rv v in
                             Returns (True, err,
                               px_notify (PxUpdated row) (drop_useless_modif i rm' (update_modif i (\<lambda>_. rm') p3)))))))
              else Returns (False, Some ReadOnlyValue, p1)))"

section \<open>Rows that are deleted or added\<close>

text \<open>The chunk without the row at a position; the rows behind the absolute row move up.\<close>

definition chunk_without :: "'v proxy \<Rightarrow> int \<Rightarrow> int \<Rightarrow> 'v proxy" where
  "chunk_without p abs_row row =
     p\<lparr>chunk := map_option
         (\<lambda>m. g_array_remove_index (row - null_rows p) (map (\<lambda>v. if abs_row < v then v - 1 else v) m)) (chunk p)\<rparr>"

definition delete_changed :: "int \<Rightarrow> bool \<Rightarrow> 'v proxy \<Rightarrow> 'v proxy" where
  "delete_changed row b p = (if notify_changes p then px_emit (PxDeleteChanged row b) (px_notify (PxUpdated row) p) else p)"

definition gda_data_proxy_delete :: "'v proxied \<Rightarrow> 'v proxy \<Rightarrow> int \<Rightarrow> 'v proxy outcome" where
  "gda_data_proxy_delete dm p row =
     (if row < 0 then Returns p
      else
        bind_outcome (ensure_chunk_sync dm p) (\<lambda>p1.
          if add_null_entry p1 \<and> row = 0 then Returns p1
          else if AccessDelete \<notin> gda_data_proxy_get_access_flags dm then Returns p1
          else
            bind_outcome (row_modif_of p1 row) (\<lambda>m.
              case m of
                Some (i, rm) \<Rightarrow>
                  if rm_to_be_deleted rm then Returns p1
                  else if rm_model_row rm = - 1 then
                    Returns (px_notify (PxRemoved row)
                      (chunk_without (remove_new_row i (remove_modif i p1)) (proxy_row_to_absolute_row p1 row) row))
                  else
                    Returns (delete_changed row True (update_modif i (\<lambda>rm. rm\<lparr>rm_to_be_deleted := True\<rparr>) p1))
              | None \<Rightarrow>
                  Returns (delete_changed row True (snd (add_row_modif
                    ((row_modifs_new dm p1 row)\<lparr>rm_to_be_deleted := True\<rparr>) (proxy_row_to_model_row p1 row) p1))))))"

definition gda_data_proxy_undelete :: "'v proxied \<Rightarrow> 'v proxy \<Rightarrow> int \<Rightarrow> 'v proxy outcome" where
  "gda_data_proxy_undelete dm p row =
     (if row < 0 then Returns p
      else
        bind_outcome (ensure_chunk_sync dm p) (\<lambda>p1.
          bind_outcome (row_modif_of p1 row) (\<lambda>m.
            case m of
              None \<Rightarrow> Returns p1
            | Some (i, rm) \<Rightarrow>
                Returns (delete_changed row False
                  (if rm_modify_values rm = [] then remove_modif i (hash_remove (proxy_row_to_model_row p1 row) p1)
                   else update_modif i (\<lambda>rm. rm\<lparr>rm_to_be_deleted := False\<rparr>) p1)))))"

definition gda_data_proxy_remove_row :: "'v proxied \<Rightarrow> 'v proxy \<Rightarrow> int \<Rightarrow> (bool \<times> proxy_error option \<times> 'v proxy) outcome" where
  "gda_data_proxy_remove_row dm p row =
     (if add_null_entry p \<and> row = 0 then Returns (False, Some ReadOnlyRow, p)
      else bind_outcome (gda_data_proxy_delete dm p row) (\<lambda>p'. Returns (True, None, p')))"

text \<open>The value that a new row has in a column.\<close>

definition default_row_value :: "'v proxied \<Rightarrow> nat \<Rightarrow> 'v row_value" where
  "default_row_value dm col =
     (let c = pm_column dm col in
      \<lparr>rv_column = col,
       rv_value = (case col_default c of None \<Rightarrow> None | Some d \<Rightarrow> if G_VALUE_TYPE d = col_type c then Some d else None),
       rv_attributes =
         (if col_default c \<noteq> None \<or> col_auto_increment c then {AttrIsDefault, AttrCanBeDefault} else {}) \<union>
         (if col_allow_null c \<and> AttrCanBeNull \<in> pm_attributes dm col (- 1) then {AttrCanBeNull} else {})\<rparr>)"

definition gda_data_proxy_append :: "'v proxied \<Rightarrow> 'v proxy \<Rightarrow> (int \<times> 'v proxy) outcome" where
  "gda_data_proxy_append dm p =
     bind_outcome (ensure_chunk_sync dm p) (\<lambda>p1.
       if AccessInsert \<notin> gda_data_proxy_get_access_flags dm \<or> model_nb_rows p1 = - 1 then Returns (- 1, p1)
       else
         (let rm = (row_modifs_new dm p1 (- 1))
                \<lparr>rm_model_row := - 1, rm_orig_values := None, rm_orig_values_size := model_nb_cols p1,
                 rm_modify_values := map (default_row_value dm) (rev [0..<model_nb_cols p1])\<rparr>
          in
          case prepend_modif rm p1 of
            (i, p2) \<Rightarrow>
              (let p3 = p2\<lparr>new_rows := new_rows p2 @ [i]\<rparr>;
                   p4 = p3\<lparr>chunk := map_option (\<lambda>m. m @ [row_modif_to_absolute_row p3 i rm]) (chunk p3)\<rparr>;
                   row = (case chunk p3 of
                            Some m \<Rightarrow> int (length m) + null_rows p3
                          | None \<Rightarrow> gda_data_proxy_get_n_rows p4 - 1)
               in bind_outcome (if notify_changes p4 then px_row_inserted dm row p4 else Returns p4) (\<lambda>p5. Returns (row, p5)))))"

section \<open>Changes are taken back\<close>

text \<open>
  The loop over the values of a row: \<open>kept\<close> are those before the current one. A negative column stands for all of them.
  The second result is whether the row is announced as updated.
\<close>

function cancel_loop ::
    "int \<Rightarrow> bool \<Rightarrow> 'v row_value list \<Rightarrow> 'v row_value list \<Rightarrow> bool \<Rightarrow> 'v row_value list \<times> bool" where
  "cancel_loop col del kept [] upd = (kept, upd)"
| "cancel_loop col del kept (rv # rvs) upd =
     (if col < 0 \<or> int (rv_column rv) = col then
        if kept @ rvs = [] \<and> \<not> del then ([], upd)
        else if col < 0 then cancel_loop col del [] (kept @ rvs) True
        else (kept @ rvs, True)
      else cancel_loop col del (kept @ [rv]) rvs upd)"
  by pat_completeness auto
termination by (relation "measures [\<lambda>(_, _, kept, rvs, _). length kept + length rvs, \<lambda>(_, _, _, rvs, _). length rvs]") auto

definition gda_data_proxy_cancel_row_changes :: "'v proxied \<Rightarrow> 'v proxy \<Rightarrow> int \<Rightarrow> int \<Rightarrow> 'v proxy outcome" where
  "gda_data_proxy_cancel_row_changes dm p row col =
     (if row < 0 then Returns p
      else
        bind_outcome (ensure_chunk_sync dm p) (\<lambda>p1.
          if int (model_nb_cols p1) \<le> col then Returns p1
          else
            bind_outcome (row_modif_of p1 row) (\<lambda>m.
              case m of
                None \<Rightarrow> Returns p1
              | Some (i, rm) \<Rightarrow>
                  if rm_modify_values rm = [] then Returns p1
                  else
                    (case cancel_loop col (rm_to_be_deleted rm) [] (rm_modify_values rm) False of
                       (rvs, upd) \<Rightarrow>
                         if rvs = [] \<and> \<not> rm_to_be_deleted rm then
                           if rm_model_row rm < 0 then
                             Returns (px_notify (PxRemoved row)
                               (remove_new_row i (chunk_without (remove_modif i p1) (proxy_row_to_absolute_row p1 row) row)))
                           else
                             Returns ((if upd then px_notify (PxUpdated row) else id)
                               (hash_remove (rm_model_row rm) (remove_modif i p1)))
                         else
                           Returns ((if upd then px_notify (PxUpdated row) else id)
                             (update_modif i (\<lambda>rm. rm\<lparr>rm_modify_values := rvs\<rparr>) p1))))))"

text \<open>
  The rows that were added are dropped first. With a chunk, the number of the first of them is looked up in the chunk,
  which does not change, and the row at this place leaves the chunk to change to.
\<close>

fun drop_new_rows :: "'v proxy \<Rightarrow> modif_id list \<Rightarrow> int list \<Rightarrow> int list outcome" where
  "drop_new_rows p [] t = Returns t"
| "drop_new_rows p (i # is) t =
     (case modif_at p i of
        None \<Rightarrow> Undefined
      | Some rm \<Rightarrow>
          bind_outcome (row_modif_to_proxy_row (p\<lparr>new_rows := i # is, chunk_to := Some (Some t)\<rparr>) i rm) (\<lambda>row.
            drop_new_rows p is (if 0 \<le> row then g_array_remove_index (row - null_rows p) t else t)))"

fun announce_removed :: "int \<Rightarrow> modif_id list \<Rightarrow> 'v proxy \<Rightarrow> 'v proxy" where
  "announce_removed n [] p = p"
| "announce_removed n (i # is) p = announce_removed (n - 1) is (px_notify (PxRemoved (n - 1)) p)"

definition cancel_new_rows :: "'v proxied \<Rightarrow> 'v proxy \<Rightarrow> 'v proxy outcome" where
  "cancel_new_rows dm p =
     (if new_rows p = [] then Returns p
      else
        (case chunk p of
           Some m \<Rightarrow>
             bind_outcome (drop_new_rows p (new_rows p) m) (\<lambda>t.
               bind_outcome
                 (chunk_sync_idle dm
                   (p\<lparr>new_rows := [], chunk_to := Some (Some t), defer_sync := False, chunk_sep := 0, chunk_proxy_nb_rows := - 1\<rparr>))
                 (\<lambda>(_, p'). Returns (p'\<lparr>defer_sync := defer_sync p\<rparr>)))
         | None \<Rightarrow> Returns (announce_removed (gda_data_proxy_get_n_rows p) (new_rows p) (p\<lparr>new_rows := []\<rparr>))))"

fun cancel_modifs :: "(modif_id \<times> 'v row_modif) list \<Rightarrow> 'v proxy \<Rightarrow> 'v proxy outcome" where
  "cancel_modifs [] p = Returns (p\<lparr>all_modifs := []\<rparr>)"
| "cancel_modifs ((i, rm) # rms) p =
     (let p0 = p\<lparr>all_modifs := (i, rm) # rms\<rparr> in
      bind_outcome
        (if notify_changes p \<and> 0 \<le> rm_model_row rm then row_modif_to_proxy_row p0 i rm else Returns (- 1))
        (\<lambda>row.
          let p1 = (if 0 \<le> rm_model_row rm then hash_remove (rm_model_row rm) p0 else p0)\<lparr>all_modifs := rms\<rparr> in
          cancel_modifs rms (if 0 \<le> row then px_notify (PxUpdated row) p1 else p1)))"

definition gda_data_proxy_cancel_all_changes :: "'v proxied \<Rightarrow> 'v proxy \<Rightarrow> 'v proxy outcome" where
  "gda_data_proxy_cancel_all_changes dm p =
     bind_outcome (ensure_chunk_sync dm p) (\<lambda>p1.
       if chunk_to p1 \<noteq> None then Undefined
       else bind_outcome (cancel_new_rows dm p1) (\<lambda>p2. cancel_modifs (all_modifs p2) p2))"

section \<open>Lists of values, attributes, searching\<close>

fun check_values :: "'v proxied \<Rightarrow> nat \<Rightarrow> 'v gptr list \<Rightarrow> 'v proxy \<Rightarrow> (bool \<times> 'v proxy) outcome" where
  "check_values dm col [] p = Returns (True, p)"
| "check_values dm col (value # values) p =
     (if is_null value then check_values dm (Suc col) values p
      else
        (case gda_data_proxy_describe_column dm col p of
           (None, _) \<Rightarrow> Undefined
         | (Some c, p') \<Rightarrow>
             if col_type c \<noteq> G_VALUE_TYPE (contents_of value) then Returns (False, p')
             else check_values dm (Suc col) values p'))"

text \<open>
  \<open>err\<close> is the error that was set so far, which is the first one; the last result is the number of the column where the
  loop stopped.
\<close>

fun set_each ::
    "(gtype \<Rightarrow> 'v \<Rightarrow> 'v \<Rightarrow> int) \<Rightarrow> 'v proxied \<Rightarrow> int \<Rightarrow> nat \<Rightarrow> 'v gptr list \<Rightarrow> proxy_error option \<Rightarrow> 'v proxy \<Rightarrow>
       (bool \<times> proxy_error option \<times> 'v proxy \<times> nat) outcome" where
  "set_each cmp dm row col [] err p = Returns (True, err, p, col)"
| "set_each cmp dm row col (value # values) err p =
     (if value = None then set_each cmp dm row (Suc col) values err p
      else
        bind_outcome (gda_data_proxy_set_value_at cmp dm p col row value) (\<lambda>(ok, err1, p').
          let err' = (if err = None then err1 else err) in
          if ok then set_each cmp dm row (Suc col) values err' p' else Returns (False, err', p', col)))"

definition gda_data_proxy_set_values ::
    "(gtype \<Rightarrow> 'v \<Rightarrow> 'v \<Rightarrow> int) \<Rightarrow> 'v proxied \<Rightarrow> 'v proxy \<Rightarrow> int \<Rightarrow> 'v gptr list \<Rightarrow>
       (bool \<times> proxy_error option \<times> 'v proxy) outcome" where
  "gda_data_proxy_set_values cmp dm p row values =
     (if values = [] then Returns (True, None, p)
      else if gda_data_proxy_get_n_columns p < length values then Returns (False, None, p)
      else
        bind_outcome (check_values dm 0 values p) (\<lambda>(ok, p1).
          if \<not> ok then Returns (False, Some ValueTypeError, p1)
          else
            bind_outcome (set_each cmp dm row 0 values None (p1\<lparr>notify_changes := False\<rparr>)) (\<lambda>(ok, err, p2, col).
              let p3 = p2\<lparr>notify_changes := notify_changes p1\<rparr> in
              Returns (ok, err, if col \<noteq> 0 then px_notify (PxUpdated row) p3 else p3))))"

definition gda_data_proxy_append_values ::
    "(gtype \<Rightarrow> 'v \<Rightarrow> 'v \<Rightarrow> int) \<Rightarrow> 'v proxied \<Rightarrow> 'v proxy \<Rightarrow> 'v gptr list \<Rightarrow> (int \<times> proxy_error option \<times> 'v proxy) outcome" where
  "gda_data_proxy_append_values cmp dm p values =
     bind_outcome (ensure_chunk_sync dm p) (\<lambda>p1.
     bind_outcome (gda_data_proxy_append dm (p1\<lparr>notify_changes := False\<rparr>)) (\<lambda>(newrow, p2).
     bind_outcome (gda_data_proxy_set_values cmp dm p2 newrow values) (\<lambda>(ok, err, p3).
       if ok then
         (let p4 = p3\<lparr>notify_changes := notify_changes p1\<rparr> in
          bind_outcome (if notify_changes p4 then px_row_inserted dm newrow p4 else Returns p4) (\<lambda>p5. Returns (newrow, err, p5)))
       else
         bind_outcome (gda_data_proxy_remove_row dm p3 newrow) (\<lambda>(_, _, p4).
           Returns (- 1, err, p4\<lparr>notify_changes := notify_changes p1\<rparr>)))))"

definition gda_data_proxy_append_row :: "'v proxied \<Rightarrow> 'v proxy \<Rightarrow> (int \<times> 'v proxy) outcome" where
  "gda_data_proxy_append_row dm p = gda_data_proxy_append dm p"

text \<open>A null value is passed to \<open>gda_data_proxy_set_value_at\<close> as a null pointer, which it refuses.\<close>

definition default_value :: "'v proxy \<Rightarrow> 'v row_modif \<Rightarrow> nat \<Rightarrow> nat \<Rightarrow> 'v row_value option \<Rightarrow> 'v row_modif" where
  "default_value p rm col model_col rv =
     rm\<lparr>rm_modify_values :=
       (case rv of
          None \<Rightarrow>
            \<lparr>rv_column = model_col, rv_value = None,
             rv_attributes =
               (columns_attrs p ! col - {AttrIsUnchanged, AttrHasValueOrig}) \<union>
               (if 0 \<le> rm_model_row rm then {AttrHasValueOrig} else {}) \<union> {AttrIsDefault}\<rparr> # rm_modify_values rm
        | Some rv \<Rightarrow>
            replace_row_value (rv\<lparr>rv_value := None, rv_attributes := rv_attributes rv \<union> {AttrIsDefault}\<rparr>)
              (rm_modify_values rm))\<rparr>"

definition gda_data_proxy_alter_value_attributes ::
    "(gtype \<Rightarrow> 'v \<Rightarrow> 'v \<Rightarrow> int) \<Rightarrow> 'v proxied \<Rightarrow> 'v proxy \<Rightarrow> int \<Rightarrow> nat \<Rightarrow> value_attribute set \<Rightarrow> 'v proxy outcome" where
  "gda_data_proxy_alter_value_attributes cmp dm p row col alter_flags =
     (if row < 0 then Returns p
      else if model_nb_cols p = 0 then Undefined
      else
        (let model_col = col mod model_nb_cols p in
         if AttrIsNull \<in> alter_flags then
           bind_outcome (gda_data_proxy_set_value_at cmp dm p model_col row None) (\<lambda>(_, _, p'). Returns p')
         else
           bind_outcome (find_or_create_row_modif dm p row model_col) (\<lambda>(i, rv, p1).
             case modif_at p1 i of
               None \<Rightarrow> Undefined
             | Some rm \<Rightarrow>
                 (let p2 =
                    (if AttrIsDefault \<in> alter_flags
                     then px_notify (PxUpdated row) (update_modif i (\<lambda>_. default_value p1 rm col model_col rv) p1) else p1)
                  in
                  if AttrIsDefault \<in> alter_flags \<and> rv = None \<and> length (columns_attrs p1) \<le> col then Undefined
                  else if AttrIsUnchanged \<in> alter_flags then
                    (case rm_orig_values rm of
                       None \<Rightarrow> Returns p2
                     | Some orig \<Rightarrow>
                         bind_outcome (gda_data_proxy_set_value_at cmp dm p2 model_col row (orig ! model_col))
                           (\<lambda>(_, _, p'). Returns p'))
                  else Returns p2))))"

text \<open>A column that is not one of the current values ends the search with the answer 0.\<close>

fun match_proxy_row ::
    "(gtype \<Rightarrow> 'v \<Rightarrow> 'v \<Rightarrow> int) \<Rightarrow> 'v proxied \<Rightarrow> 'v proxy \<Rightarrow> bool \<Rightarrow> int \<Rightarrow> (nat \<times> 'v gptr) list \<Rightarrow> row_match outcome" where
  "match_proxy_row cmp dm p indexed row [] = Returns Matches"
| "match_proxy_row cmp dm p indexed row ((c, v) # kvs) =
     (if indexed \<and> model_nb_cols p \<le> c then Returns Refused
      else
        bind_outcome (gda_data_proxy_get_value_at dm p c row) (\<lambda>x.
          case (x, v) of
            (Some x, Some v) \<Rightarrow>
              if G_VALUE_TYPE x \<noteq> G_VALUE_TYPE v \<or> gda_value_compare cmp v x \<noteq> 0 then Returns Differs
              else match_proxy_row cmp dm p indexed row kvs
          | _ \<Rightarrow> Returns Differs))"

fun scan_proxy_rows ::
    "(gtype \<Rightarrow> 'v \<Rightarrow> 'v \<Rightarrow> int) \<Rightarrow> 'v proxied \<Rightarrow> 'v proxy \<Rightarrow> bool \<Rightarrow> (nat \<times> 'v gptr) list \<Rightarrow> nat list \<Rightarrow> int outcome" where
  "scan_proxy_rows cmp dm p indexed kvs [] = Returns (- 1)"
| "scan_proxy_rows cmp dm p indexed kvs (r # rs) =
     bind_outcome (match_proxy_row cmp dm p indexed (int r) kvs) (\<lambda>m.
       case m of
         Matches \<Rightarrow> Returns (int r)
       | Refused \<Rightarrow> Returns 0
       | Differs \<Rightarrow> scan_proxy_rows cmp dm p indexed kvs rs)"

text \<open>
  After \<open>ensure_chunk_sync\<close> no synchronisation is pending, so the loop that follows it in the code is left out. The array
  of columns has one entry for each value.
\<close>

definition gda_data_proxy_find_row_from_values ::
    "(gtype \<Rightarrow> 'v \<Rightarrow> 'v \<Rightarrow> int) \<Rightarrow> 'v proxied \<Rightarrow> 'v proxy \<Rightarrow> 'v gptr list \<Rightarrow> nat list option \<Rightarrow> (int \<times> 'v proxy) outcome" where
  "gda_data_proxy_find_row_from_values cmp dm p values cols_index =
     (if values = [] then Returns (0, p)
      else
        bind_outcome (ensure_chunk_sync dm p) (\<lambda>p1.
        bind_outcome
          (scan_proxy_rows cmp dm p1 (cols_index \<noteq> None)
            (zip (case cols_index of None \<Rightarrow> [0..<length values] | Some cs \<Rightarrow> cs) values)
            [0..<nat (gda_data_proxy_get_n_rows p1)])
          (\<lambda>r. Returns (r, p1))))"

definition gda_data_proxy_set_notify :: "'v proxy \<Rightarrow> bool \<Rightarrow> 'v proxy" where
  "gda_data_proxy_set_notify p b = p\<lparr>notify_changes := b\<rparr>"

end
