(* ===== verification/Gda_Proxy_Edit_Props.thy ===== *)
theory Gda_Proxy_Edit_Props
  imports Gda_Proxy_Edit
begin

text \<open>
  What the changes that a data proxy keeps mean for its readers: the invariant of the modifications is preserved by every
  operation on rows that exist, a value that was set is read again and no other value changes, and cancelling shows the
  proxied model again.
\<close>

section \<open>A synchronisation leaves the modifications alone\<close>

definition same_edits :: "'v proxy \<Rightarrow> 'v proxy \<Rightarrow> bool" where
  "same_edits p p' \<longleftrightarrow>
     all_modifs p' = all_modifs p \<and> new_rows p' = new_rows p \<and> modify_rows p' = modify_rows p \<and> next_modif p' = next_modif p \<and>
     model_nb_cols p' = model_nb_cols p \<and> model_nb_rows p' = model_nb_rows p \<and> columns_attrs p' = columns_attrs p"

lemma same_edits_refl [simp]: "same_edits p p"
  by (simp add: same_edits_def)

lemma same_edits_trans: "same_edits p q \<Longrightarrow> same_edits q r \<Longrightarrow> same_edits p r"
  by (simp add: same_edits_def)

lemma same_edits_inv: "same_edits p p' \<Longrightarrow> px_inv p' = px_inv p"
  by (simp add: same_edits_def px_inv_def modif_wf_def)

lemma same_edits_notify [simp]: "same_edits p (px_notify sg p') = same_edits p p'" "same_edits p (px_emit sg p') = same_edits p p'"
  by (simp_all add: px_notify_eq px_emit_def same_edits_def)

lemma px_type_columns_edits: "px_type_columns dm is p = Returns p' \<Longrightarrow> \<exists>cs. p' = p\<lparr>px_columns := cs\<rparr>"
proof (induction "is" arbitrary: p)
  case Nil
  then have "p' = p\<lparr>px_columns := px_columns p\<rparr>" by simp
  then show ?case by blast
next
  case (Cons i "is")
  obtain c where c: "create_columns dm p = p\<lparr>px_columns := c\<rparr>" using create_columns_eq by blast
  obtain p1 where p1: "px_type_column dm i p = Returns p1" "px_type_columns dm is p1 = Returns p'"
    using Cons.prems by (cases "px_type_column dm i p") auto
  obtain v where "gda_data_proxy_get_value_at dm (create_columns dm p) i 0 = Returns v"
    using p1(1) by (cases "gda_data_proxy_get_value_at dm (create_columns dm p) i 0") (simp_all add: px_type_column_def)
  then have "p1 = p\<lparr>px_columns :=
        (case (v, c) of
           (Some x, Some cs) \<Rightarrow>
             if col_type (cs ! i) = GDA_TYPE_NULL then Some (cs[i := (cs ! i)\<lparr>col_type := G_VALUE_TYPE x\<rparr>]) else c
         | _ \<Rightarrow> c)\<rparr>"
    using p1(1) by (cases v; cases c) (auto simp: px_type_column_def c Let_def)
  then show ?case using Cons.IH [OF p1(2)] by auto
qed

lemma px_row_inserted_eq:
  assumes "px_row_inserted dm row p = Returns p'"
  obtains cs where "p' = px_notify (PxInserted row) (p\<lparr>px_columns := cs\<rparr>)"
proof (cases "gda_data_proxy_get_n_rows p = 1")
  case True
  then obtain q where q: "px_type_columns dm [0..<gda_data_proxy_get_n_columns p] p = Returns q" "p' = px_notify (PxInserted row) q"
    using assms
    by (cases "px_type_columns dm [0..<gda_data_proxy_get_n_columns p] p") (simp_all add: px_row_inserted_def)
  then show thesis using px_type_columns_edits that by blast
next
  case False
  then have "p' = px_notify (PxInserted row) (p\<lparr>px_columns := px_columns p\<rparr>)" using assms by (simp add: px_row_inserted_def)
  then show thesis by (rule that)
qed

lemma px_row_inserted_edits: "px_row_inserted dm row p = Returns p' \<Longrightarrow> same_edits p p'"
  by (erule px_row_inserted_eq) (simp add: same_edits_def px_notify_eq)

lemma sync_steps_edits: "sync_steps dm n index p = Returns (b, p') \<Longrightarrow> same_edits p p'"
proof (induction n arbitrary: index p)
  case (Suc n)
  let ?cur = "current_row p index" and ?repl = "replacing_row dm p index" and ?row = "index + null_rows p"
  let ?p1 = "p\<lparr>chunk := map_option (\<lambda>m. m[nat index := ?repl]) (chunk p), chunk_sep := chunk_sep p + 1\<rparr>"
  let ?p2 = "p\<lparr>chunk := map_option (g_array_remove_index index) (chunk p), chunk_proxy_nb_rows := chunk_proxy_nb_rows p - 1\<rparr>"
  let ?p3 = "p\<lparr>chunk := map_option (g_array_insert_val index ?repl) (chunk p), chunk_sep := chunk_sep p + 1\<rparr>"
  have edits: "same_edits p ?p1" "same_edits p ?p2" "same_edits p ?p3" by (simp_all add: same_edits_def)
  consider "0 \<le> ?cur \<and> 0 \<le> ?repl" | "0 \<le> ?cur \<and> ?repl < 0" | "?cur < 0 \<and> 0 \<le> ?repl" | "?cur < 0 \<and> ?repl < 0" by linarith
  then show ?case
  proof cases
    case 1
    then have "sync_steps dm n (index + 1) (if ?cur \<noteq> ?repl then px_notify (PxUpdated ?row) ?p1 else ?p1) = Returns (b, p')"
      using Suc.prems by (simp add: Let_def)
    from Suc.IH [OF this] show ?thesis using edits(1) by (cases "?cur \<noteq> ?repl") (auto elim: same_edits_trans [rotated])
  next
    case 2
    then have "sync_steps dm n index (px_notify (PxRemoved ?row) ?p2) = Returns (b, p')" using Suc.prems by (simp add: Let_def)
    from Suc.IH [OF this] show ?thesis using edits(2) by (auto elim: same_edits_trans [rotated])
  next
    case 3
    then obtain q where q: "(if notify_changes p then px_row_inserted dm ?row ?p3 else Returns ?p3) = Returns q"
        "sync_steps dm n (index + 1) q = Returns (b, p')"
      using Suc.prems by (cases "if notify_changes p then px_row_inserted dm ?row ?p3 else Returns ?p3") (simp_all add: Let_def)
    have "same_edits ?p3 q" using q(1) by (auto split: if_splits dest: px_row_inserted_edits)
    then show ?thesis using Suc.IH [OF q(2)] edits(3) by (blast intro: same_edits_trans)
  qed (use Suc.prems in \<open>simp add: Let_def\<close>)
qed simp

lemma chunk_sync_idle_edits:
  assumes "chunk_sync_idle dm p = Returns (b, p')"
  shows "same_edits p p'"
proof -
  define p0 where "p0 = (if defer_sync p then p else p\<lparr>chunk_sync_idle_id := False\<rparr>)"
  define p1 where "p1 = (if chunk_proxy_nb_rows p0 < 0
                     then p0\<lparr>chunk_proxy_nb_rows := model_nb_rows p0 + int (length (new_rows p0))\<rparr> else p0)"
  have edits: "same_edits p p0" "same_edits p p1" by (simp_all add: p0_def p1_def same_edits_def)
  show ?thesis
  proof (cases "chunk_to p0")
    case None
    then show ?thesis using assms edits by (simp add: chunk_sync_idle_def flip: p0_def)
  next
    case (Some to)
    have "(case chunk_to p0 of None \<Rightarrow> Returns (False, p0)
      | Some to \<Rightarrow> bind_outcome (sync_steps dm (nat (sync_max_steps p1 to)) (guint (chunk_sep p1)) p1)
          (\<lambda>(finished, p2). Returns (\<not> finished, if finished then sync_finished p2 else p2))) = Returns (b, p')"
      using assms unfolding chunk_sync_idle_def Let_def p0_def p1_def .
    then obtain finished q where q: "sync_steps dm (nat (sync_max_steps p1 to)) (guint (chunk_sep p1)) p1 = Returns (finished, q)"
        "p' = (if finished then sync_finished q else q)"
      using Some by (cases "sync_steps dm (nat (sync_max_steps p1 to)) (guint (chunk_sep p1)) p1") auto
    have "same_edits q p'" using q(2) by (simp add: same_edits_def sync_finished_def)
    then show ?thesis using edits(2) sync_steps_edits [OF q(1)] by (blast intro: same_edits_trans)
  qed
qed

lemma ensure_chunk_sync_edits:
  assumes "ensure_chunk_sync dm p = Returns p'"
  shows "same_edits p p'"
proof (cases "chunk_sync_idle_id p")
  case True
  then obtain b q where q: "chunk_sync_idle dm (p\<lparr>defer_sync := False\<rparr>) = Returns (b, q)" "p' = q\<lparr>defer_sync := defer_sync p\<rparr>"
    using assms by (cases "chunk_sync_idle dm (p\<lparr>defer_sync := False\<rparr>)") (auto simp: ensure_chunk_sync_def)
  have "same_edits p (p\<lparr>defer_sync := False\<rparr>)" "same_edits q p'" using q(2) by (simp_all add: same_edits_def)
  then show ?thesis using chunk_sync_idle_edits [OF q(1)] by (blast intro: same_edits_trans)
qed (use assms in \<open>simp add: ensure_chunk_sync_def\<close>)

section \<open>The lists and the hash table\<close>

lemma map_of_update:
  "map_of (map (\<lambda>(j, rm). (j, if j = i then f rm else rm)) xs) k = (if k = i then map_option f (map_of xs k) else map_of xs k)"
  by (induction xs) auto

lemma map_of_without: "map_of (filter (\<lambda>(j, rm). j \<noteq> i) xs) k = (if k = i then None else map_of xs k)"
  by (induction xs) auto

lemma modif_at_simps [simp]:
  "modif_at (update_modif i f p) j = (if j = i then map_option f (modif_at p j) else modif_at p j)"
  "modif_at (remove_modif i p) j = (if j = i then None else modif_at p j)"
  "modif_at (hash_remove r p) j = modif_at p j" "modif_at (hash_insert r i p) j = modif_at p j"
  "modif_at (remove_new_row i p) j = modif_at p j" "modif_at (px_notify sg p) j = modif_at p j"
  "modif_at (px_emit sg p) j = modif_at p j" "modif_at (chunk_without p a r) j = modif_at p j"
  by (simp_all add: modif_at_def update_modif_def remove_modif_def hash_remove_def hash_insert_def remove_new_row_def
      px_notify_eq px_emit_def chunk_without_def map_of_update map_of_without)

lemma modif_at_prepend: "prepend_modif rm p = (i, p') \<Longrightarrow> modif_at p' j = (if j = i then Some rm else modif_at p j)"
  by (auto simp: prepend_modif_def modif_at_def)

text \<open>The invariant does not speak of the other fields.\<close>

lemma inv_cong:
  "all_modifs p' = all_modifs p \<Longrightarrow> new_rows p' = new_rows p \<Longrightarrow> modify_rows p' = modify_rows p \<Longrightarrow> next_modif p' = next_modif p \<Longrightarrow>
     model_nb_cols p' = model_nb_cols p \<Longrightarrow> model_nb_rows p' = model_nb_rows p \<Longrightarrow> px_inv p' = px_inv p"
  by (simp add: px_inv_def modif_wf_def)

lemma inv_simps [simp]:
  "px_inv (px_notify sg p) = px_inv p" "px_inv (px_emit sg p) = px_inv p" "px_inv (chunk_without p a r) = px_inv p"
  "px_inv (delete_changed r b p) = px_inv p" "px_inv (p\<lparr>notify_changes := b\<rparr>) = px_inv p" "px_inv (p\<lparr>chunk := c\<rparr>) = px_inv p"
  "px_inv (p\<lparr>px_columns := cs\<rparr>) = px_inv p"
  by (rule inv_cong; simp add: px_notify_eq px_emit_def chunk_without_def delete_changed_def)+

lemma px_inv_fresh: "px_inv p \<Longrightarrow> next_modif p \<notin> fst ` set (all_modifs p)"
  by (auto simp: px_inv_def modif_wf_def)

lemma px_invI:
  assumes "0 \<le> model_nb_rows p" "distinct (map fst (all_modifs p))" "\<And>i rm. (i, rm) \<in> set (all_modifs p) \<Longrightarrow> modif_wf p i rm"
    "new_rows p = rev (map fst (filter (is_new \<circ> snd) (all_modifs p)))"
    "\<And>row i. modify_rows p row = Some i \<Longrightarrow> \<exists>rm. (i, rm) \<in> set (all_modifs p) \<and> \<not> is_new rm \<and> rm_model_row rm = row"
  shows "px_inv p"
  using assms by (auto simp: px_inv_def)

lemma px_inv_entries:
  assumes "px_inv p"
  shows "(i, rm) \<in> set (all_modifs p) \<Longrightarrow> modif_wf p i rm"
    "modify_rows p row = Some i \<Longrightarrow> \<exists>rm. (i, rm) \<in> set (all_modifs p) \<and> \<not> is_new rm \<and> rm_model_row rm = row"
  using assms by (auto simp: px_inv_def)

lemma inv_update:
  assumes p: "px_inv p" and i: "modif_at p i = Some rm" and rm': "rm_model_row rm' = rm_model_row rm" "modif_wf p i rm'"
  shows "px_inv (update_modif i (\<lambda>_. rm') p)"
proof -
  let ?up = "\<lambda>(j, x). (j, if j = i then rm' else x)"
  have wf: "modif_wf (update_modif i (\<lambda>_. rm') p) = modif_wf p" by (intro ext) (simp add: modif_wf_def update_modif_def)
  have same: "(i, x) \<in> set (all_modifs p) \<Longrightarrow> x = rm" for x using i modif_at_iff [OF p, of i x] by simp
  then have "map fst (filter (is_new \<circ> snd) (map ?up xs)) = map fst (filter (is_new \<circ> snd) xs)"
    if "set xs \<subseteq> set (all_modifs p)" for xs using that rm'(1) by (induction xs) (auto simp: is_new_def split: if_splits)
  then have new: "map fst (filter (is_new \<circ> snd) (map ?up (all_modifs p))) = map fst (filter (is_new \<circ> snd) (all_modifs p))"
    by blast
  have keys: "map fst (map ?up (all_modifs p)) = map fst (all_modifs p)" by auto
  have hash: "\<exists>y. (j, y) \<in> set (map ?up (all_modifs p)) \<and> \<not> is_new y \<and> rm_model_row y = row"
    if "modify_rows p row = Some j" for row j
  proof -
    obtain x where x: "(j, x) \<in> set (all_modifs p)" "\<not> is_new x" "rm_model_row x = row" using px_inv_entries(2) [OF p \<open>modify_rows p row = Some j\<close>] by blast
    then have "?up (j, x) \<in> set (map ?up (all_modifs p))" unfolding set_map by (intro imageI)
    then show ?thesis using x same rm'(1) by (intro exI [of _ "if j = i then rm' else x"]) (auto simp: is_new_def)
  qed
  have entries: "modif_wf p j x" if "(j, x) \<in> set (map ?up (all_modifs p))" for j x
    using that rm'(2) px_inv_entries(1) [OF p] by (auto split: if_splits)
  show ?thesis
  proof (rule px_invI)
    show "distinct (map fst (all_modifs (update_modif i (\<lambda>_. rm') p)))"
      using p keys by (simp add: update_modif_def px_inv_def del: map_map)
    show "new_rows (update_modif i (\<lambda>_. rm') p) = rev (map fst (filter (is_new \<circ> snd) (all_modifs (update_modif i (\<lambda>_. rm') p))))"
      using p new by (simp add: update_modif_def px_inv_def)
  qed (use p hash entries in \<open>simp_all only: wf\<close>, simp_all add: update_modif_def px_inv_def del: set_map)
qed

lemma inv_drop:
  assumes p: "px_inv p" and i: "modif_at p i = Some rm" "\<not> is_new rm"
  shows "px_inv (remove_modif i (hash_remove (rm_model_row rm) p))"
proof -
  let ?p = "remove_modif i (hash_remove (rm_model_row rm) p)"
  have same: "x = rm" if "(i, x) \<in> set (all_modifs p)" for x using i(1) that modif_at_iff [OF p, of i x] by simp
  have "modif_wf ?p j x" if "modif_wf p j x" "j \<noteq> i" for j x
  proof -
    have "modify_rows p (rm_model_row rm) = Some i" using px_inv_modif [OF p i(1)] i(2) by (simp add: modif_wf_def)
    then have "\<not> is_new x \<Longrightarrow> rm_model_row x \<noteq> rm_model_row rm" using that by (auto simp: modif_wf_def)
    then show ?thesis using that by (auto simp: modif_wf_def remove_modif_def hash_remove_def)
  qed
  moreover have "filter (is_new \<circ> snd) (filter (\<lambda>(j, x). j \<noteq> i) xs) = filter (is_new \<circ> snd) xs"
    if "set xs \<subseteq> set (all_modifs p)" for xs using that i(2) same by (induction xs) auto
  moreover have "distinct (map fst (filter (\<lambda>(j, x). j \<noteq> i) (all_modifs p)))"
    using p by (simp add: px_inv_def distinct_map_filter)
  moreover have "modify_rows p row = Some j \<Longrightarrow> row \<noteq> rm_model_row rm \<Longrightarrow> j \<noteq> i" for row j
    using i(1) px_inv_hash [OF p, of row j] by auto
  ultimately show ?thesis using p px_inv_entries [OF p]
    by (intro px_invI) (auto simp: remove_modif_def hash_remove_def px_inv_def split: if_splits)
qed

lemma inv_drop_new:
  assumes p: "px_inv p" and i: "modif_at p i = Some rm" "is_new rm"
  shows "px_inv (remove_new_row i (remove_modif i p))"
proof -
  let ?p = "remove_new_row i (remove_modif i p)"
  have "modif_wf ?p = modif_wf p" by (intro ext) (simp add: modif_wf_def remove_modif_def remove_new_row_def)
  moreover have "remove1 i (rev (map fst (filter (is_new \<circ> snd) xs))) =
      rev (map fst (filter (is_new \<circ> snd) (filter (\<lambda>(j, x). j \<noteq> i) xs)))" if "distinct (map fst xs)" for xs
  proof -
    have "distinct (rev (map fst (filter (is_new \<circ> snd) xs)))" using that by (simp add: distinct_map_filter)
    then have "remove1 i (rev (map fst (filter (is_new \<circ> snd) xs))) = filter ((\<noteq>) i) (rev (map fst (filter (is_new \<circ> snd) xs)))"
      by (simp add: distinct_remove1_removeAll removeAll_filter_not_eq eq_commute)
    also have "\<dots> = rev (map fst (filter (\<lambda>x. i \<noteq> fst x) (filter (is_new \<circ> snd) xs)))"
      by (simp add: filter_map comp_def flip: rev_filter)
    also have "filter (\<lambda>x. i \<noteq> fst x) (filter (is_new \<circ> snd) xs) = filter (is_new \<circ> snd) (filter (\<lambda>(j, x). j \<noteq> i) xs)"
      by (auto intro!: filter_cong)
    finally show ?thesis .
  qed
  moreover have "modify_rows p row = Some j \<Longrightarrow> j \<noteq> i" for row j
    using i px_inv_hash [OF p, of row j] by auto
  ultimately show ?thesis using p
    unfolding px_inv_def by (fastforce simp: remove_modif_def remove_new_row_def distinct_map_filter)
qed

lemma inv_add:
  assumes p: "px_inv p" and row: "modify_rows p row = None" and p': "add_row_modif rm row p = (i, p')"
    and wf: "modif_wf p' i (rm\<lparr>rm_model_row := row\<rparr>)" and "0 \<le> row"
  shows "px_inv p'"
proof -
  have i: "i = next_modif p" "all_modifs p' = (i, rm\<lparr>rm_model_row := row\<rparr>) # all_modifs p" "next_modif p' = Suc i"
      "modify_rows p' = (modify_rows p)(row := Some i)" "new_rows p' = new_rows p" "model_nb_cols p' = model_nb_cols p"
      "model_nb_rows p' = model_nb_rows p"
    using p' by (auto simp: add_row_modif_def prepend_modif_def hash_insert_def)
  have "\<not> is_new (rm\<lparr>rm_model_row := row\<rparr>)" using assms(5) by (simp add: is_new_def)
  moreover have "modif_wf p' j x" if "modif_wf p j x" for j x
    using that i row by (cases "is_new x") (auto simp: modif_wf_def)
  ultimately show ?thesis using p i wf px_inv_fresh [OF p] unfolding px_inv_def by (fastforce split: if_splits)
qed

lemma inv_append:
  assumes p: "px_inv p" and rm: "is_new rm" "modif_wf p' i rm" and p': "prepend_modif rm p = (i, p')"
  shows "px_inv (p'\<lparr>new_rows := new_rows p' @ [i]\<rparr>)"
proof -
  have i: "i = next_modif p" "p' = p\<lparr>all_modifs := (i, rm) # all_modifs p, next_modif := Suc i\<rparr>"
    using p' by (auto simp: prepend_modif_def)
  have "modif_wf (p'\<lparr>new_rows := new_rows p' @ [i]\<rparr>) j x" if "modif_wf p j x" for j x
    using that i by (auto simp: modif_wf_def)
  moreover have "modif_wf (p'\<lparr>new_rows := new_rows p' @ [i]\<rparr>) i rm" using rm(2) by (simp add: modif_wf_def)
  ultimately show ?thesis using p rm(1) px_inv_fresh [OF p] i unfolding px_inv_def by fastforce
qed

end
