(* ===== verification/Gda_Proxy_View.thy ===== *)
theory Gda_Proxy_View
  imports Gda_Proxy_Edit_Props
begin

text \<open>
  What a reader of a data proxy sees: a table whose rows have their values, their original values, and the marks of rows
  that are to be deleted or were added. Editing the proxy is editing this table.
\<close>

section \<open>The table that is read\<close>

record 'v seen_row =
  sr_values :: "'v gptr list"
  sr_orig :: "'v gptr list"
  sr_deleted :: bool
  sr_added :: bool

fun readable :: "'v gptr outcome \<Rightarrow> 'v gptr" where
  "readable (Returns v) = v"
| "readable Undefined = None"

text \<open>A row as the functions of the interface return it, and all rows.\<close>

definition read_row :: "'v proxied \<Rightarrow> 'v proxy \<Rightarrow> int \<Rightarrow> 'v seen_row" where
  "read_row dm p row =
     \<lparr>sr_values = map (\<lambda>c. readable (gda_data_proxy_get_value_at dm p c row)) [0..<model_nb_cols p],
      sr_orig = map (\<lambda>c. readable (gda_data_proxy_get_value_at dm p (model_nb_cols p + c) row)) [0..<model_nb_cols p],
      sr_deleted = (gda_data_proxy_row_is_deleted p row = Returns True),
      sr_added = (gda_data_proxy_row_is_inserted p row = Returns True)\<rparr>"

definition view :: "'v proxied \<Rightarrow> 'v proxy \<Rightarrow> 'v seen_row list" where
  "view dm p = map (\<lambda>r. read_row dm p (int r)) [0..<nat (gda_data_proxy_get_n_rows p)]"

section \<open>Edits of the table\<close>

datatype 'v edit =
    ESet int nat "'v gvalue" | EAppend | EDelete int | EUndelete int | ECancelRow int | ECancelCell int nat | ECancelAll

fun do_edit :: "(gtype \<Rightarrow> 'v \<Rightarrow> 'v \<Rightarrow> int) \<Rightarrow> 'v proxied \<Rightarrow> 'v edit \<Rightarrow> 'v proxy \<Rightarrow> 'v proxy outcome" where
  "do_edit cmp dm (ESet r c v) p = bind_outcome (gda_data_proxy_set_value_at cmp dm p c r (Some v)) (\<lambda>(_, _, p'). Returns p')"
| "do_edit cmp dm EAppend p = bind_outcome (gda_data_proxy_append_row dm p) (\<lambda>(_, p'). Returns p')"
| "do_edit cmp dm (EDelete r) p = bind_outcome (gda_data_proxy_remove_row dm p r) (\<lambda>(_, _, p'). Returns p')"
| "do_edit cmp dm (EUndelete r) p = gda_data_proxy_undelete dm p r"
| "do_edit cmp dm (ECancelRow r) p = gda_data_proxy_cancel_row_changes dm p r (- 1)"
| "do_edit cmp dm (ECancelCell r c) p = gda_data_proxy_cancel_row_changes dm p r (int c)"
| "do_edit cmp dm ECancelAll p = gda_data_proxy_cancel_all_changes dm p"

fun do_edits :: "(gtype \<Rightarrow> 'v \<Rightarrow> 'v \<Rightarrow> int) \<Rightarrow> 'v proxied \<Rightarrow> 'v edit list \<Rightarrow> 'v proxy \<Rightarrow> 'v proxy outcome" where
  "do_edits cmp dm [] p = Returns p"
| "do_edits cmp dm (e # es) p = bind_outcome (do_edit cmp dm e p) (do_edits cmp dm es)"

text \<open>A value replaces one of its type or a null value, and a null value replaces any value.\<close>

definition replaces :: "'v gvalue \<Rightarrow> 'v gvalue \<Rightarrow> bool" where
  "replaces v x \<longleftrightarrow> G_VALUE_TYPE x = GDA_TYPE_NULL \<or> G_VALUE_TYPE v = GDA_TYPE_NULL \<or> G_VALUE_TYPE v = G_VALUE_TYPE x"

definition set_cell :: "nat \<Rightarrow> 'v gvalue \<Rightarrow> 'v seen_row \<Rightarrow> 'v seen_row" where
  "set_cell c v row =
     (case sr_values row ! c of
        Some x \<Rightarrow> if replaces v x then row\<lparr>sr_values := (sr_values row)[c := Some v]\<rparr> else row
      | None \<Rightarrow> row)"

definition restored :: "'v seen_row \<Rightarrow> 'v seen_row" where
  "restored row = row\<lparr>sr_values := sr_orig row\<rparr>"

definition added_row :: "'v proxied \<Rightarrow> nat \<Rightarrow> 'v seen_row" where
  "added_row dm n =
     \<lparr>sr_values = map (\<lambda>c. Some (contents_of (rv_value (default_row_value dm c)))) [0..<n], sr_orig = replicate n (Some GNull),
      sr_deleted = False, sr_added = True\<rparr>"

definition at_row :: "int \<Rightarrow> ('v seen_row \<Rightarrow> 'v seen_row) \<Rightarrow> 'v seen_row list \<Rightarrow> 'v seen_row list" where
  "at_row r f t = t[nat r := f (t ! nat r)]"

definition without_row :: "int \<Rightarrow> 'v seen_row list \<Rightarrow> 'v seen_row list" where
  "without_row r t = g_array_remove_index r t"

text \<open>\<open>b\<close> tells whether the first row is the null row, which cannot be set or deleted.\<close>

fun edit_table :: "'v proxied \<Rightarrow> nat \<Rightarrow> bool \<Rightarrow> 'v edit \<Rightarrow> 'v seen_row list \<Rightarrow> 'v seen_row list" where
  "edit_table dm n b (ESet r c v) t = (if b \<and> r = 0 then t else at_row r (set_cell c v) t)"
| "edit_table dm n b EAppend t = (if AccessInsert \<in> dm_access dm then t @ [added_row dm n] else t)"
| "edit_table dm n b (EDelete r) t =
     (if b \<and> r = 0 \<or> AccessDelete \<notin> dm_access dm then t
      else if sr_added (t ! nat r) then without_row r t
      else at_row r (\<lambda>row. row\<lparr>sr_deleted := True\<rparr>) t)"
| "edit_table dm n b (EUndelete r) t = at_row r (\<lambda>row. row\<lparr>sr_deleted := False\<rparr>) t"
| "edit_table dm n b (ECancelRow r) t = (if sr_added (t ! nat r) then without_row r t else at_row r restored t)"
| "edit_table dm n b (ECancelCell r c) t =
     at_row r (\<lambda>row. row\<lparr>sr_values := (sr_values row)[c := sr_orig row ! c]\<rparr>) t"
| "edit_table dm n b ECancelAll t = map (\<lambda>row. restored (row\<lparr>sr_deleted := False\<rparr>)) (filter (\<lambda>row. \<not> sr_added row) t)"

fun edits_table :: "'v proxied \<Rightarrow> nat \<Rightarrow> bool \<Rightarrow> 'v edit list \<Rightarrow> 'v seen_row list \<Rightarrow> 'v seen_row list" where
  "edits_table dm n b [] t = t"
| "edits_table dm n b (e # es) t = edits_table dm n b es (edit_table dm n b e t)"

text \<open>The edits name rows and columns that the table has; one value of an added row is not cancelled.\<close>

fun edit_fits :: "nat \<Rightarrow> 'v edit \<Rightarrow> 'v seen_row list \<Rightarrow> bool" where
  "edit_fits n (ESet r c v) t \<longleftrightarrow>
     0 \<le> r \<and> nat r < length t \<and> c < n \<and> (v = GNull \<or> G_VALUE_TYPE v \<noteq> GDA_TYPE_NULL)"
| "edit_fits n EAppend t \<longleftrightarrow> True"
| "edit_fits n (EDelete r) t \<longleftrightarrow> 0 \<le> r \<and> nat r < length t"
| "edit_fits n (EUndelete r) t \<longleftrightarrow> 0 \<le> r \<and> nat r < length t"
| "edit_fits n (ECancelRow r) t \<longleftrightarrow> 0 \<le> r \<and> nat r < length t"
| "edit_fits n (ECancelCell r c) t \<longleftrightarrow> 0 \<le> r \<and> nat r < length t \<and> c < n \<and> \<not> sr_added (t ! nat r)"
| "edit_fits n ECancelAll t \<longleftrightarrow> True"

fun edits_fit :: "'v proxied \<Rightarrow> nat \<Rightarrow> bool \<Rightarrow> 'v edit list \<Rightarrow> 'v seen_row list \<Rightarrow> bool" where
  "edits_fit dm n b [] t \<longleftrightarrow> True"
| "edits_fit dm n b (e # es) t \<longleftrightarrow> edit_fits n e t \<and> edits_fit dm n b es (edit_table dm n b e t)"

section \<open>The state between edits\<close>

definition edit_ready :: "'v proxied \<Rightarrow> 'v proxy \<Rightarrow> bool" where
  "edit_ready dm p \<longleftrightarrow>
     px_inv p \<and> notify_changes p \<and> chunk_to p = None \<and> \<not> chunk_sync_idle_id p \<and> \<not> force_direct_mapping p \<and>
     0 < model_nb_cols p \<and> model_nb_rows p + int (length (new_rows p)) < 2147483648 \<and>
     (\<forall>c < model_nb_cols p. \<forall>r. 0 \<le> r \<and> r < model_nb_rows p \<longrightarrow> dm_value_at dm c r \<noteq> None) \<and>
     (\<forall>i rm. modif_at p i = Some rm \<longrightarrow>
        (if is_new rm then rv_column ` set (rm_modify_values rm) = {..<model_nb_cols p}
         else rm_orig_values rm = Some (map (\<lambda>c. dm_value_at dm c (rm_model_row rm)) [0..<model_nb_cols p]))) \<and>
     (\<forall>m. chunk p = Some m \<longrightarrow>
        (\<exists>ws. m = ws @ map int [nat (model_nb_rows p)..<nat (model_nb_rows p) + length (new_rows p)] \<and> distinct ws \<and>
          set ws \<subseteq> {0..<model_nb_rows p}))"

text \<open>The modification of an absolute row, and what is seen of the row.\<close>

definition modif_id_of :: "'v proxy \<Rightarrow> int \<Rightarrow> modif_id option" where
  "modif_id_of p a = snd (absolute_row_to_model_row p a)"

definition modif_of :: "'v proxy \<Rightarrow> int \<Rightarrow> 'v row_modif option" where
  "modif_of p a = Option.bind (modif_id_of p a) (modif_at p)"

definition seen_cell :: "'v proxied \<Rightarrow> int \<Rightarrow> 'v row_modif option \<Rightarrow> nat \<Rightarrow> 'v gptr" where
  "seen_cell dm row m c =
     (case Option.bind m (\<lambda>rm. find_row_value c (rm_modify_values rm)) of
        Some rv \<Rightarrow> Some (contents_of (rv_value rv))
      | None \<Rightarrow> model_value dm c row)"

definition seen :: "'v proxied \<Rightarrow> nat \<Rightarrow> int \<Rightarrow> 'v row_modif option \<Rightarrow> 'v seen_row" where
  "seen dm n row m =
     \<lparr>sr_values = map (seen_cell dm row m) [0..<n],
      sr_orig = (if 0 \<le> row then map (\<lambda>c. dm_value_at dm c row) [0..<n] else replicate n (Some GNull)),
      sr_deleted = (case m of None \<Rightarrow> False | Some rm \<Rightarrow> rm_to_be_deleted rm),
      sr_added = (row < 0)\<rparr>"

definition seen_at :: "'v proxied \<Rightarrow> 'v proxy \<Rightarrow> int \<Rightarrow> 'v seen_row" where
  "seen_at dm p a = seen dm (model_nb_cols p) (if a < model_nb_rows p then a else - 1) (modif_of p a)"

definition null_seen :: "nat \<Rightarrow> 'v seen_row" where
  "null_seen n =
     \<lparr>sr_values = replicate n (Some GNull), sr_orig = replicate n (Some GNull), sr_deleted = False, sr_added = False\<rparr>"

definition null_view :: "'v proxy \<Rightarrow> 'v seen_row list" where
  "null_view p = (if add_null_entry p then [null_seen (model_nb_cols p)] else [])"

section \<open>Reading is seeing\<close>

lemma edit_ready_inv: "edit_ready dm p \<Longrightarrow> px_inv p"
  by (simp add: edit_ready_def)

lemma ensure_ready [simp]: "edit_ready dm p \<Longrightarrow> ensure_chunk_sync dm p = Returns p"
  by (simp add: edit_ready_def ensure_chunk_sync_def)

lemma modif_id_of_new:
  "model_nb_rows p \<le> a \<Longrightarrow> 0 \<le> model_nb_rows p \<Longrightarrow> modif_id_of p a = slist_nth (new_rows p) (nat (a - model_nb_rows p))"
  by (simp add: modif_id_of_def absolute_row_to_model_row_def)

lemma modif_id_of_old: "0 \<le> a \<Longrightarrow> a < model_nb_rows p \<Longrightarrow> modif_id_of p a = modify_rows p a"
  by (simp add: modif_id_of_def absolute_row_to_model_row_def)

lemma modif_of_modif:
  assumes "px_inv p" "modif_id_of p a = Some i"
  obtains rm where "modif_at p i = Some rm" "modif_of p a = Some rm" "modif_wf p i rm"
    "if a < model_nb_rows p then \<not> is_new rm \<and> rm_model_row rm = a else is_new rm"
proof -
  have a: "0 \<le> a" using assms(2) by (auto simp: modif_id_of_def absolute_row_to_model_row_def split: if_splits)
  have n: "0 \<le> model_nb_rows p" using assms(1) by (simp add: px_inv_def)
  show thesis
  proof (cases "a < model_nb_rows p")
    case True
    then have "modify_rows p a = Some i" using assms(2) a by (simp add: modif_id_of_old)
    then obtain rm where "modif_at p i = Some rm" "\<not> is_new rm" "rm_model_row rm = a" using px_inv_hash [OF assms(1)] by blast
    then show thesis using that assms True px_inv_modif [OF assms(1)] by (simp add: modif_of_def)
  next
    case False
    then have "i \<in> set (new_rows p)" using assms(2) n by (auto simp: modif_id_of_new dest: slist_nth_in)
    then obtain rm where "modif_at p i = Some rm" "is_new rm" using px_inv_new_row [OF assms(1)] by blast
    then show thesis using that assms False px_inv_modif [OF assms(1)] by (simp add: modif_of_def)
  qed
qed

lemma row_modif_of_eq:
  assumes "px_inv p"
  shows "row_modif_of p r =
    Returns (case modif_id_of p (proxy_row_to_absolute_row p r) of
        None \<Rightarrow> None | Some i \<Rightarrow> map_option (Pair i) (modif_of p (proxy_row_to_absolute_row p r)))"
proof (cases "modif_id_of p (proxy_row_to_absolute_row p r)")
  case None
  then show ?thesis by (simp add: row_modif_of_def proxy_row_to_row_modif_def modif_id_of_def)
next
  case (Some i)
  then obtain rm where "modif_at p i = Some rm" "modif_of p (proxy_row_to_absolute_row p r) = Some rm"
    using modif_of_modif [OF assms] by metis
  then show ?thesis using Some by (simp add: row_modif_of_def proxy_row_to_row_modif_def modif_id_of_def)
qed

lemma model_row_eq:
  "0 \<le> proxy_row_to_absolute_row p r \<Longrightarrow> 0 \<le> model_nb_rows p \<Longrightarrow>
     proxy_row_to_model_row p r =
       (if proxy_row_to_absolute_row p r < model_nb_rows p then proxy_row_to_absolute_row p r else - 1)"
  by (simp add: proxy_row_to_model_row_def absolute_row_to_model_row_def)

lemma new_row_present:
  assumes "px_inv p" "model_nb_rows p \<le> a" "a < model_nb_rows p + int (length (new_rows p))"
  obtains i rm where "modif_id_of p a = Some i" "modif_of p a = Some rm" "modif_at p i = Some rm" "is_new rm"
    "i = new_rows p ! nat (a - model_nb_rows p)"
proof -
  have "modif_id_of p a = Some (new_rows p ! nat (a - model_nb_rows p))"
    using assms by (simp add: modif_id_of_new px_inv_def slist_nth_def nat_less_iff)
  then show thesis using modif_of_modif [OF assms(1)] that assms(2) by (metis leD)
qed

lemma read_cells:
  assumes p: "edit_ready dm p" and r: "0 \<le> r" "r = 0 \<longrightarrow> \<not> add_null_entry p" and c: "c < model_nb_cols p"
    and a: "a = proxy_row_to_absolute_row p r" "0 \<le> a" "a < model_nb_rows p + int (length (new_rows p))"
  shows "gda_data_proxy_get_value_at dm p c r =
      Returns (seen_cell dm (if a < model_nb_rows p then a else - 1) (modif_of p a) c)"
    "gda_data_proxy_get_value_at dm p (model_nb_cols p + c) r =
      Returns (if a < model_nb_rows p then dm_value_at dm c a else Some GNull)"
proof -
  have inv: "px_inv p" "0 \<le> model_nb_rows p" using p by (simp_all add: edit_ready_def px_inv_def)
  have row: "proxy_row_to_model_row p r = (if a < model_nb_rows p then a else - 1)" using a inv model_row_eq [of p r] by simp
  note defs = gda_data_proxy_get_value_at_def row row_modif_of_eq [OF inv(1)] Let_def a(1) [symmetric]
  have c': "\<not> model_nb_cols p + c < model_nb_cols p" "model_nb_cols p + c < 2 * model_nb_cols p"
    "(model_nb_cols p + c) mod model_nb_cols p = c" using c by simp_all
  show "gda_data_proxy_get_value_at dm p c r =
      Returns (seen_cell dm (if a < model_nb_rows p then a else - 1) (modif_of p a) c)"
  proof (cases "modif_id_of p a")
    case None
    then show ?thesis using r c by (auto simp: defs modif_of_def seen_cell_def)
  next
    case (Some i)
    then obtain rm where rm: "modif_of p a = Some rm" using modif_of_modif [OF inv(1)] by metis
    show ?thesis using r c Some rm
      by (cases "find_row_value c (rm_modify_values rm)") (auto simp: defs seen_cell_def)
  qed
  show "gda_data_proxy_get_value_at dm p (model_nb_cols p + c) r =
      Returns (if a < model_nb_rows p then dm_value_at dm c a else Some GNull)"
  proof (cases "modif_id_of p a")
    case None
    then have "a < model_nb_rows p" using new_row_present [OF inv(1) _ a(3)] by fastforce
    then show ?thesis using r c c' None a(2) by (auto simp: defs model_value_def)
  next
    case (Some i)
    then obtain rm where rm: "modif_at p i = Some rm" "modif_of p a = Some rm" "modif_wf p i rm"
        "if a < model_nb_rows p then \<not> is_new rm \<and> rm_model_row rm = a else is_new rm"
      using modif_of_modif [OF inv(1)] by metis
    show ?thesis
    proof (cases "a < model_nb_rows p")
      case True
      then have "\<not> is_new rm" "rm_model_row rm = a" using rm(4) by simp_all
      then have "rm_orig_values rm = Some (map (\<lambda>c. dm_value_at dm c a) [0..<model_nb_cols p])"
        using p rm(1) unfolding edit_ready_def by metis
      then show ?thesis using r c c' Some rm(2) True by (auto simp: defs)
    next
      case False
      then have "rm_orig_values rm = None" using rm(3,4) by (simp add: modif_wf_def)
      then show ?thesis using r c c' Some rm(2) False by (auto simp: defs)
    qed
  qed
qed

lemma read_row_seen:
  assumes p: "edit_ready dm p" and r: "0 \<le> r" "r = 0 \<longrightarrow> \<not> add_null_entry p"
    and a: "a = proxy_row_to_absolute_row p r" "0 \<le> a" "a < model_nb_rows p + int (length (new_rows p))"
  shows "read_row dm p r = seen_at dm p a"
proof -
  have inv: "px_inv p" using p by (simp add: edit_ready_def)
  have "gda_data_proxy_row_is_deleted p r =
      Returns (case modif_of p a of None \<Rightarrow> False | Some rm \<Rightarrow> rm_to_be_deleted rm)"
  proof (cases "modif_id_of p a")
    case None
    then show ?thesis using r(1) a(1) by (simp add: gda_data_proxy_row_is_deleted_def row_modif_of_eq [OF inv] modif_of_def)
  next
    case (Some i)
    then obtain rm where "modif_of p a = Some rm" using modif_of_modif [OF inv] by metis
    then show ?thesis using r(1) a(1) Some by (simp add: gda_data_proxy_row_is_deleted_def row_modif_of_eq [OF inv])
  qed
  moreover have "gda_data_proxy_row_is_inserted p r = Returns (\<not> a < model_nb_rows p)"
  proof (cases "modif_id_of p a")
    case None
    then have "a < model_nb_rows p" using new_row_present [OF inv _ a(3)] by fastforce
    then show ?thesis using None r(1) a(1) by (simp add: gda_data_proxy_row_is_inserted_def row_modif_of_eq [OF inv])
  next
    case (Some i)
    then obtain rm where rm: "modif_of p a = Some rm" "modif_wf p i rm"
        "if a < model_nb_rows p then \<not> is_new rm \<and> rm_model_row rm = a else is_new rm"
      using modif_of_modif [OF inv] by metis
    then have "rm_model_row rm < 0 \<longleftrightarrow> \<not> a < model_nb_rows p" using a(2) by (auto simp: is_new_def)
    then show ?thesis using Some rm(1) r(1) a(1) by (simp add: gda_data_proxy_row_is_inserted_def row_modif_of_eq [OF inv])
  qed
  ultimately show ?thesis using read_cells [OF p r _ a] a(2)
    by (auto simp: read_row_def seen_at_def seen_def intro!: nth_equalityI)
qed

lemma read_null_row:
  assumes p: "edit_ready dm p" and b: "add_null_entry p"
  shows "read_row dm p 0 = null_seen (model_nb_cols p)"
proof -
  have "proxy_row_to_absolute_row p 0 = - 1" using p b by (simp add: proxy_row_to_absolute_row_def edit_ready_def)
  then have "row_modif_of p 0 = Returns None"
    by (simp add: row_modif_of_def proxy_row_to_row_modif_def absolute_row_to_model_row_def)
  then show ?thesis using b
    by (simp add: read_row_def null_seen_def gda_data_proxy_get_value_at_def gda_data_proxy_row_is_deleted_def
        gda_data_proxy_row_is_inserted_def map_replicate_const)
qed

lemma old_rows_bounds:
  assumes "edit_ready dm p"
  shows "set (old_rows p) \<subseteq> {0..<model_nb_rows p + int (length (new_rows p))}" "distinct (old_rows p)"
proof -
  have n: "0 \<le> model_nb_rows p" using assms by (simp add: edit_ready_def px_inv_def)
  have "set (old_rows p) \<subseteq> {0..<model_nb_rows p + int (length (new_rows p))} \<and> distinct (old_rows p)"
  proof (cases "chunk p")
    case None
    then show ?thesis using n by (auto simp: old_rows_def distinct_map inj_on_def)
  next
    case (Some m)
    then obtain ws where ws: "m = ws @ map int [nat (model_nb_rows p)..<nat (model_nb_rows p) + length (new_rows p)]"
        "distinct ws" "set ws \<subseteq> {0..<model_nb_rows p}"
      using assms by (auto simp: edit_ready_def)
    have "x < model_nb_rows p + int (length (new_rows p))" if "x \<in> set ws" for x using ws(3) that by fastforce
    moreover have "0 \<le> x" if "x \<in> set ws" for x using ws(3) that by fastforce
    moreover have "x \<notin> set ws" if "nat (model_nb_rows p) \<le> k" "x = int k" for x k using ws(3) that n by fastforce
    ultimately show ?thesis using ws(1,2) n Some by (auto simp: old_rows_def distinct_map inj_on_def)
  qed
  then show "set (old_rows p) \<subseteq> {0..<model_nb_rows p + int (length (new_rows p))}" "distinct (old_rows p)" by simp_all
qed

lemma ready_rows:
  assumes p: "edit_ready dm p"
  shows "gda_data_proxy_get_n_rows p = int (length (old_rows p)) + null_rows p"
    "j < length (old_rows p) \<Longrightarrow> proxy_row_to_absolute_row p (int j + null_rows p) = old_rows p ! j"
  using p shown_rows_settled(2) [of p j]
  by (auto simp: edit_ready_def px_inv_def gda_data_proxy_get_n_rows_def old_rows_def null_rows_def Let_def split: option.split)

text \<open>The table is the null row and what is seen at the absolute rows that are shown.\<close>

lemma view_seen:
  assumes p: "edit_ready dm p"
  shows "view dm p = null_view p @ map (seen_at dm p) (old_rows p)"
proof -
  have row: "read_row dm p (int j + null_rows p) = seen_at dm p (old_rows p ! j)" if j: "j < length (old_rows p)" for j
  proof (rule read_row_seen [OF p])
    show "old_rows p ! j = proxy_row_to_absolute_row p (int j + null_rows p)" using ready_rows(2) [OF p j] by simp
    show "0 \<le> old_rows p ! j" "old_rows p ! j < model_nb_rows p + int (length (new_rows p))"
      using old_rows_bounds(1) [OF p] nth_mem [OF j] by auto
  qed (auto simp: null_rows_def)
  show ?thesis
  proof (cases "add_null_entry p")
    case True
    have "nat (int (length (old_rows p)) + 1) = Suc (length (old_rows p))" by simp
    moreover have "map (\<lambda>r. read_row dm p (int r)) [Suc 0..<Suc (length (old_rows p))] =
        map (\<lambda>j. read_row dm p (int j + null_rows p)) [0..<length (old_rows p)]"
      using True by (simp add: map_Suc_upt [symmetric] null_rows_def comp_def add.commute del: upt_Suc)
    moreover have "map (\<lambda>j. read_row dm p (int j + null_rows p)) [0..<length (old_rows p)] = map (seen_at dm p) (old_rows p)"
      using row by (intro nth_equalityI) simp_all
    ultimately show ?thesis using True ready_rows(1) [OF p] read_null_row [OF p True]
      by (simp add: view_def null_view_def null_rows_def upt_rec [of 0] del: upt_Suc)
  next
    case False
    then have "view dm p = map (\<lambda>j. read_row dm p (int j + null_rows p)) [0..<length (old_rows p)]"
      using ready_rows(1) [OF p] by (simp add: view_def null_rows_def)
    also have "\<dots> = map (seen_at dm p) (old_rows p)" using row by (intro nth_equalityI) simp_all
    finally show ?thesis using False by (simp add: null_view_def)
  qed
qed

end
