(* ===== verification/Gda_Proxy_Refines.thy ===== *)
theory Gda_Proxy_Refines
  imports Gda_Proxy_View
begin

text \<open>
  Editing a data proxy is editing the table that its readers see. The changes of the state are of five kinds: a
  modification of a row is changed, added or dropped, and a row is added or withdrawn. Each of them is shown to keep the
  state between edits, and to change what is seen at one row.
\<close>

section \<open>One row of the table\<close>

lemma modif_id_inj:
  assumes p: "px_inv p" and a: "modif_id_of p a = Some i" and b: "modif_id_of p b = Some i"
  shows "a = b"
proof -
  have n: "0 \<le> model_nb_rows p" using p by (simp add: px_inv_def)
  obtain rm where rm: "modif_at p i = Some rm" "if a < model_nb_rows p then \<not> is_new rm \<and> rm_model_row rm = a else is_new rm"
    using modif_of_modif [OF p a] by blast
  have rm': "if b < model_nb_rows p then \<not> is_new rm \<and> rm_model_row rm = b else is_new rm"
    using modif_of_modif [OF p b] rm(1) by (metis option.inject)
  show ?thesis
  proof (cases "a < model_nb_rows p")
    case True
    then show ?thesis using rm(2) rm' by (cases "b < model_nb_rows p") auto
  next
    case False
    then have ab: "model_nb_rows p \<le> a" "model_nb_rows p \<le> b" using rm(2) rm' by (auto split: if_splits)
    then have "slist_nth (new_rows p) (nat (a - model_nb_rows p)) = Some i" "slist_nth (new_rows p) (nat (b - model_nb_rows p)) = Some i"
      using a b n by (simp_all add: modif_id_of_new)
    then have "nat (a - model_nb_rows p) = nat (b - model_nb_rows p)"
      using px_inv_distinct_new [OF p] by (auto simp: slist_nth_def nth_eq_iff_index_eq split: if_splits)
    then show ?thesis using ab by simp
  qed
qed

text \<open>A row number of the table names an absolute row.\<close>

lemma ready_row:
  assumes p: "edit_ready dm p" and r: "0 \<le> r" "nat r < length (view dm p)" "\<not> (add_null_entry p \<and> r = 0)"
  obtains j a where "j < length (old_rows p)" "nat r = length (null_view p) + j" "a = old_rows p ! j" "r = int j + null_rows p"
    "proxy_row_to_absolute_row p r = a" "0 \<le> a" "a < model_nb_rows p + int (length (new_rows p))" "view dm p ! nat r = seen_at dm p a"
proof -
  define j where "j = nat r - length (null_view p)"
  have j: "j < length (old_rows p)" "nat r = length (null_view p) + j" "r = int j + null_rows p"
    using r by (auto simp: j_def view_seen [OF p] null_view_def null_rows_def split: if_splits)
  moreover have "proxy_row_to_absolute_row p r = old_rows p ! j" using ready_rows(2) [OF p j(1)] j(3) by simp
  moreover have "0 \<le> old_rows p ! j" "old_rows p ! j < model_nb_rows p + int (length (new_rows p))"
    using old_rows_bounds(1) [OF p] nth_mem [OF j(1)] by auto
  moreover have "view dm p ! nat r = seen_at dm p (old_rows p ! j)"
    using j by (simp add: view_seen [OF p] nth_append)
  ultimately show thesis using that by blast
qed

definition changes_only :: "int \<Rightarrow> 'v proxy \<Rightarrow> 'v proxy \<Rightarrow> bool" where
  "changes_only a p p' \<longleftrightarrow>
     chunk p' = chunk p \<and> new_rows p' = new_rows p \<and> model_nb_rows p' = model_nb_rows p \<and> model_nb_cols p' = model_nb_cols p \<and>
     add_null_entry p' = add_null_entry p \<and> (\<forall>b. b \<noteq> a \<longrightarrow> modif_of p' b = modif_of p b)"

lemma changes_only_seen:
  "changes_only a p p' \<Longrightarrow> b \<noteq> a \<Longrightarrow> seen_at dm p' b = seen_at dm p b"
  by (simp add: changes_only_def seen_at_def)

lemma view_at_row:
  assumes p: "edit_ready dm p" "edit_ready dm p'" and c: "changes_only a p p'"
    and r: "0 \<le> r" "nat r < length (view dm p)" "\<not> (add_null_entry p \<and> r = 0)" "proxy_row_to_absolute_row p r = a"
    and f: "seen_at dm p' a = f (seen_at dm p a)"
  shows "view dm p' = at_row r f (view dm p)"
proof -
  obtain j where j: "j < length (old_rows p)" "nat r = length (null_view p) + j" "a = old_rows p ! j" "view dm p ! nat r = seen_at dm p a"
    using ready_row [OF p(1) r(1-3)] r(4) by metis
  have "old_rows p' = old_rows p" "null_view p' = null_view p"
    using c by (auto simp: changes_only_def old_rows_def null_view_def cong: option.case_cong)
  then have "view dm p' = null_view p @ map (seen_at dm p') (old_rows p)" using view_seen [OF p(2)] by simp
  also have "map (seen_at dm p') (old_rows p) = (map (seen_at dm p) (old_rows p))[j := f (seen_at dm p a)]"
  proof (rule nth_equalityI)
    fix k assume "k < length (map (seen_at dm p') (old_rows p))"
    then have k: "k < length (old_rows p)" by simp
    show "map (seen_at dm p') (old_rows p) ! k = (map (seen_at dm p) (old_rows p))[j := f (seen_at dm p a)] ! k"
    proof (cases "k = j")
      case True
      then show ?thesis using j(1,3) f by simp
    next
      case False
      then have "old_rows p ! k \<noteq> a" using old_rows_bounds(2) [OF p(1)] j k by (simp add: nth_eq_iff_index_eq)
      then show ?thesis using False k changes_only_seen [OF c] by simp
    qed
  qed simp
  finally show ?thesis using j by (simp add: at_row_def view_seen [OF p(1)] list_update_append)
qed

section \<open>The modification of one row is changed, added or dropped\<close>

text \<open>The rest of the state between edits.\<close>

definition modif_ready :: "'v proxied \<Rightarrow> nat \<Rightarrow> 'v row_modif \<Rightarrow> bool" where
  "modif_ready dm n rm \<longleftrightarrow>
     (if is_new rm then rv_column ` set (rm_modify_values rm) = {..<n}
      else rm_orig_values rm = Some (map (\<lambda>c. dm_value_at dm c (rm_model_row rm)) [0..<n]))"

lemma edit_ready_modif: "edit_ready dm p \<Longrightarrow> modif_at p i = Some rm \<Longrightarrow> modif_ready dm (model_nb_cols p) rm"
  by (simp add: edit_ready_def modif_ready_def)

lemma edit_ready_notifies: "edit_ready dm p \<Longrightarrow> notify_changes p"
  by (simp add: edit_ready_def)

lemma edit_ready_same:
  assumes "edit_ready dm p" "px_inv p'" "\<And>i rm. modif_at p' i = Some rm \<Longrightarrow> modif_ready dm (model_nb_cols p) rm"
    "notify_changes p' = notify_changes p" "chunk_to p' = chunk_to p" "chunk_sync_idle_id p' = chunk_sync_idle_id p"
    "force_direct_mapping p' = force_direct_mapping p" "model_nb_cols p' = model_nb_cols p" "model_nb_rows p' = model_nb_rows p"
    "chunk p' = chunk p" "length (new_rows p') = length (new_rows p)"
  shows "edit_ready dm p'"
  using assms by (simp add: edit_ready_def modif_ready_def)

lemma edit_ready_notify [simp]:
  "edit_ready dm (px_notify sg p) = edit_ready dm p" "edit_ready dm (px_emit sg p) = edit_ready dm p"
  "edit_ready dm (delete_changed r b p) = edit_ready dm p"
proof -
  have same: "edit_ready dm (p\<lparr>px_signals := s\<rparr>) = edit_ready dm p" for s
    by (simp add: edit_ready_def modif_at_def px_inv_def modif_wf_def)
  then show "edit_ready dm (px_notify sg p) = edit_ready dm p" "edit_ready dm (px_emit sg p) = edit_ready dm p"
    "edit_ready dm (delete_changed r b p) = edit_ready dm p"
    by (simp_all add: px_notify_eq px_emit_def delete_changed_def)
qed

lemma modif_of_notify [simp]:
  "modif_of (px_notify sg p) a = modif_of p a" "modif_of (px_emit sg p) a = modif_of p a"
  "modif_of (delete_changed r b p) a = modif_of p a"
proof -
  have "modif_at (p\<lparr>px_signals := s\<rparr>) = modif_at p" for s by (simp add: fun_eq_iff modif_at_def)
  then have "modif_of (p\<lparr>px_signals := s\<rparr>) a = modif_of p a" for s
    by (simp add: modif_of_def modif_id_of_def absolute_row_to_model_row_def)
  then show "modif_of (px_notify sg p) a = modif_of p a" "modif_of (px_emit sg p) a = modif_of p a"
    "modif_of (delete_changed r b p) a = modif_of p a"
    by (simp_all add: px_notify_eq px_emit_def delete_changed_def)
qed

lemma notify_fields [simp]:
  "chunk (px_notify sg p) = chunk p" "new_rows (px_notify sg p) = new_rows p" "model_nb_rows (px_notify sg p) = model_nb_rows p"
  "model_nb_cols (px_notify sg p) = model_nb_cols p" "add_null_entry (px_notify sg p) = add_null_entry p"
  "chunk (delete_changed r b p) = chunk p" "new_rows (delete_changed r b p) = new_rows p" "model_nb_rows (delete_changed r b p) = model_nb_rows p"
  "model_nb_cols (delete_changed r b p) = model_nb_cols p" "add_null_entry (delete_changed r b p) = add_null_entry p"
  "chunk (px_emit sg p) = chunk p" "new_rows (px_emit sg p) = new_rows p" "model_nb_rows (px_emit sg p) = model_nb_rows p"
  "model_nb_cols (px_emit sg p) = model_nb_cols p" "add_null_entry (px_emit sg p) = add_null_entry p"
  by (simp_all add: px_notify_eq px_emit_def delete_changed_def)

lemma changes_only_notify [simp]:
  "changes_only a p (px_notify sg p') = changes_only a p p'" "changes_only a p (delete_changed r b p') = changes_only a p p'"
  by (simp_all add: changes_only_def)

lemma seen_at_notify [simp]:
  "seen_at dm (px_notify sg p) = seen_at dm p" "seen_at dm (delete_changed r b p) = seen_at dm p" "seen_at dm (px_emit sg p) = seen_at dm p"
  by (simp_all add: seen_at_def fun_eq_iff)

lemma update_ready:
  assumes p: "edit_ready dm p" and a: "modif_id_of p a = Some i" "modif_of p a = Some rm"
    and rm': "rm_model_row rm' = rm_model_row rm" "modif_wf p i rm'" "modif_ready dm (model_nb_cols p) rm'"
  defines "p' \<equiv> update_modif i (\<lambda>_. rm') p"
  shows "edit_ready dm p'" "changes_only a p p'" "modif_of p' a = Some rm'"
proof -
  have inv: "px_inv p" using p by (rule edit_ready_inv)
  have i: "modif_at p i = Some rm" using a by (simp add: modif_of_def)
  have id: "modif_id_of p' b = modif_id_of p b" for b
    by (simp add: p'_def modif_id_of_def absolute_row_to_model_row_def update_modif_def)
  show "edit_ready dm p'"
  proof (rule edit_ready_same [OF p])
    show "px_inv p'" unfolding p'_def using inv i rm'(1,2) by (rule inv_update)
    show "modif_ready dm (model_nb_cols p) x" if "modif_at p' k = Some x" for k x
      using that edit_ready_modif [OF p] rm'(3) i by (auto simp: p'_def split: if_splits)
  qed (simp_all add: p'_def update_modif_def)
  have "modif_of p' b = modif_of p b" if "b \<noteq> a" for b
  proof (cases "modif_id_of p b")
    case (Some k)
    then have "k \<noteq> i" using modif_id_inj [OF inv a(1)] that by blast
    then show ?thesis using Some by (simp add: modif_of_def id) (simp add: p'_def)
  qed (simp add: modif_of_def id)
  then show "changes_only a p p'" by (simp add: changes_only_def) (simp add: p'_def update_modif_def)
  show "modif_of p' a = Some rm'" using a(1) i by (simp add: modif_of_def id) (simp add: p'_def)
qed

lemma drop_ready:
  assumes p: "edit_ready dm p" and a: "modif_id_of p a = Some i" "0 \<le> a" "a < model_nb_rows p"
  defines "p' \<equiv> remove_modif i (hash_remove a p)"
  shows "edit_ready dm p'" "changes_only a p p'" "modif_of p' a = None"
proof -
  have inv: "px_inv p" using p by (rule edit_ready_inv)
  obtain rm where rm: "modif_at p i = Some rm" "\<not> is_new rm" "rm_model_row rm = a"
    using modif_of_modif [OF inv a(1)] a(3) by metis
  have id: "modif_id_of p' b = (if b = a then None else modif_id_of p b)" for b
    using a(2,3) by (auto simp: p'_def modif_id_of_def absolute_row_to_model_row_def remove_modif_def hash_remove_def)
  show "edit_ready dm p'"
  proof (rule edit_ready_same [OF p])
    show "px_inv p'" unfolding p'_def using inv_drop [OF inv rm(1,2)] rm(3) by simp
    show "modif_ready dm (model_nb_cols p) x" if "modif_at p' k = Some x" for k x
      using that edit_ready_modif [OF p] by (auto simp: p'_def split: if_splits)
  qed (simp_all add: p'_def remove_modif_def hash_remove_def)
  have "modif_of p' b = modif_of p b" if "b \<noteq> a" for b
  proof (cases "modif_id_of p b")
    case (Some k)
    then have "k \<noteq> i" using modif_id_inj [OF inv a(1)] that by blast
    then show ?thesis using Some that by (simp add: modif_of_def id) (simp add: p'_def)
  qed (use that in \<open>simp add: modif_of_def id\<close>)
  then show "changes_only a p p'" by (simp add: changes_only_def) (simp add: p'_def remove_modif_def hash_remove_def)
  show "modif_of p' a = None" by (simp add: modif_of_def id)
qed

lemma add_ready:
  assumes p: "edit_ready dm p" and a: "modif_id_of p a = None" "0 \<le> a" "a < model_nb_rows p"
    and rm: "rm_orig_values rm = Some (map (\<lambda>c. dm_value_at dm c a) [0..<model_nb_cols p])" "rm_orig_values_size rm = model_nb_cols p"
      "distinct (map rv_column (rm_modify_values rm))" "\<forall>rv \<in> set (rm_modify_values rm). rv_column rv < model_nb_cols p"
      "rm_to_be_deleted rm \<or> rm_modify_values rm \<noteq> []"
  defines "p' \<equiv> snd (add_row_modif rm a p)"
  shows "edit_ready dm p'" "changes_only a p p'" "modif_of p' a = Some (rm\<lparr>rm_model_row := a\<rparr>)"
proof -
  have inv: "px_inv p" using p by (rule edit_ready_inv)
  let ?i = "next_modif p"
  have p': "add_row_modif rm a p = (?i, p')" by (simp add: p'_def add_row_modif_def prepend_modif_def)
  have fields: "all_modifs p' = (?i, rm\<lparr>rm_model_row := a\<rparr>) # all_modifs p" "next_modif p' = Suc ?i"
      "modify_rows p' = (modify_rows p)(a := Some ?i)" "new_rows p' = new_rows p" "model_nb_cols p' = model_nb_cols p"
      "model_nb_rows p' = model_nb_rows p" "chunk p' = chunk p" "add_null_entry p' = add_null_entry p"
    by (simp_all add: p'_def add_row_modif_def prepend_modif_def hash_insert_def)
  have at: "modif_at p' k = (if k = ?i then Some (rm\<lparr>rm_model_row := a\<rparr>) else modif_at p k)" for k
    by (simp add: modif_at_def fields(1))
  have id: "modif_id_of p' b = (if b = a then Some ?i else modif_id_of p b)" for b
    using a(2,3) fields by (auto simp: modif_id_of_def absolute_row_to_model_row_def)
  have old: "k \<noteq> ?i" if "modif_id_of p b = Some k" for b k
  proof -
    obtain x where "modif_wf p k x" using modif_of_modif [OF inv \<open>modif_id_of p b = Some k\<close>] by blast
    then show ?thesis by (auto simp: modif_wf_def)
  qed
  show "edit_ready dm p'"
  proof (rule edit_ready_same [OF p])
    show "px_inv p'"
    proof (rule inv_add [OF inv _ p' _ a(2)])
      show "modify_rows p a = None" using a by (simp add: modif_id_of_old)
      show "modif_wf p' ?i (rm\<lparr>rm_model_row := a\<rparr>)"
        using rm a(2,3) fields by (simp add: modif_wf_def is_new_def)
    qed
    show "modif_ready dm (model_nb_cols p) x" if "modif_at p' k = Some x" for k x
      using that edit_ready_modif [OF p, of k x] rm(1) a(2) by (auto simp: at modif_ready_def is_new_def split: if_splits)
  qed (simp_all add: p'_def add_row_modif_def prepend_modif_def hash_insert_def)
  show "changes_only a p p'" using old fields by (auto simp: changes_only_def modif_of_def id at split: bind_split)
  show "modif_of p' a = Some (rm\<lparr>rm_model_row := a\<rparr>)" by (simp add: modif_of_def id at)
qed

section \<open>Edits and what observers are told of them\<close>

definition edited :: "'v proxied \<Rightarrow> ('v seen_row list \<Rightarrow> 'v seen_row list) \<Rightarrow> 'v proxy \<Rightarrow> 'v proxy \<Rightarrow> bool" where
  "edited dm f p p' \<longleftrightarrow>
     edit_ready dm p' \<and> view dm p' = f (view dm p) \<and> model_nb_rows p' = model_nb_rows p \<and> model_nb_cols p' = model_nb_cols p \<and>
     add_null_entry p' = add_null_entry p \<and> length (new_rows p') \<le> Suc (length (new_rows p))"

definition told :: "'v proxied \<Rightarrow> 'v proxy \<Rightarrow> 'v proxy \<Rightarrow> bool" where
  "told dm p p' \<longleftrightarrow> (\<exists>S. px_signals p' = px_signals p @ S \<and> observe (read_row dm p') S (view dm p) = view dm p')"

lemma edited_same [simp]: "edited dm f p p \<longleftrightarrow> edit_ready dm p \<and> f (view dm p) = view dm p"
  by (auto simp: edited_def)

lemma told_same [simp]: "told dm p p"
  by (simp add: told_def observe_def)

lemma edited_cong: "f (view dm p) = g (view dm p) \<Longrightarrow> edited dm f p p' = edited dm g p p'"
  by (simp add: edited_def)

lemma read_view: "0 \<le> r \<Longrightarrow> nat r < length (view dm p) \<Longrightarrow> read_row dm p r = view dm p ! nat r"
  by (simp add: view_def)

lemma told_updated:
  assumes v: "view dm p' = at_row r f (view dm p)" and r: "0 \<le> r" "nat r < length (view dm p)"
    and S: "px_signals p' = px_signals p @ PxUpdated r # S" "\<forall>sg \<in> set S. \<exists>n b. sg = PxDeleteChanged n b"
  shows "told dm p p'"
proof -
  have "read_row dm p' r = view dm p' ! nat r" using v r by (simp add: read_view at_row_def)
  then have "(view dm p)[nat r := read_row dm p' r] = view dm p'" using v r by (simp add: at_row_def)
  moreover have "observe read S xs = xs" for read and xs :: "'a seen_row list"
    using S(2) by (induction S arbitrary: xs) (auto simp: observe_def)
  ultimately show ?thesis using S(1) by (auto simp: told_def observe_def)
qed

lemma view_notify [simp]:
  "view dm (px_notify sg p) = view dm p" "view dm (px_emit sg p) = view dm p" "view dm (delete_changed r b p) = view dm p"
  if "edit_ready dm p"
  using that by (simp_all add: view_seen old_rows_def null_view_def cong: option.case_cong)

lemma row_edited:
  assumes p: "edit_ready dm p" "edit_ready dm p'" and c: "changes_only a p p'"
    and r: "0 \<le> r" "nat r < length (view dm p)" "\<not> (add_null_entry p \<and> r = 0)" "proxy_row_to_absolute_row p r = a"
    and f: "seen_at dm p' a = f (seen_at dm p a)"
  shows "edited dm (at_row r f) p p'"
  using view_at_row [where f = f, OF p c r] f p(2) c by (simp add: edited_def changes_only_def)

section \<open>Setting a value\<close>

lemma find_row_value_none: "find_row_value c rvs = None \<longleftrightarrow> c \<notin> rv_column ` set rvs"
  by (auto simp: find_row_value_def find_None_iff)

lemma find_row_value_some: "find_row_value c rvs = Some rv \<Longrightarrow> rv \<in> set rvs \<and> rv_column rv = c"
  by (auto simp: find_row_value_def find_Some_iff)

lemma find_row_value_Cons: "find_row_value c (rv # rvs) = (if rv_column rv = c then Some rv else find_row_value c rvs)"
  by (simp add: find_row_value_def)

lemma remove_row_value_columns: "map rv_column (remove_row_value c rvs) = remove1 c (map rv_column rvs)"
  by (induction rvs) auto

lemma find_removed:
  "distinct (map rv_column rvs) \<Longrightarrow>
     find_row_value c' (remove_row_value c rvs) = (if c' = c then None else find_row_value c' rvs)"
  by (induction rvs) (auto simp: find_row_value_Cons find_row_value_none find_row_value_def [of _ "[]"] image_iff)

lemma replace_row_value_columns: "map rv_column (replace_row_value new rvs) = map rv_column rvs"
  by (induction rvs) auto

lemma find_replaced:
  "find_row_value c' (replace_row_value new rvs) =
     (if c' = rv_column new \<and> find_row_value c' rvs \<noteq> None then Some new else find_row_value c' rvs)"
  by (induction rvs) (auto simp: find_row_value_Cons find_row_value_def [of _ "[]"])

text \<open>What a change of the values of a modification shows.\<close>

lemma seen_set_cell:
  assumes c: "c < n" and row: "0 \<le> row \<or> row = - 1"
    and x: "seen_cell dm row m c = Some x" "replaces v x" and v: "seen_cell dm row m' c = Some v"
    and same: "\<And>c'. c' \<noteq> c \<Longrightarrow> seen_cell dm row m' c' = seen_cell dm row m c'"
      "(case m' of None \<Rightarrow> False | Some rm \<Rightarrow> rm_to_be_deleted rm) = (case m of None \<Rightarrow> False | Some rm \<Rightarrow> rm_to_be_deleted rm)"
  shows "seen dm n row m' = set_cell c v (seen dm n row m)"
proof -
  have "map (seen_cell dm row m') [0..<n] = (map (seen_cell dm row m) [0..<n])[c := Some v]"
    using c v same(1) by (intro nth_equalityI) (auto simp: nth_list_update)
  then show ?thesis using c x same(2) by (simp add: seen_def set_cell_def)
qed

lemma stored_value:
  assumes "v = GNull \<or> G_VALUE_TYPE v \<noteq> GDA_TYPE_NULL"
  shows "contents_of (rv_value (is_modified (store_value v rv))) = v" "rv_column (is_modified (store_value v rv)) = rv_column rv"
    "contents_of (rv_value (is_modified (new_row_value p rm c v))) = v" "rv_column (is_modified (new_row_value p rm c v)) = c"
  using assms by (auto simp: store_value_def is_modified_def new_row_value_def contents_of_def is_null_def Let_def)

lemma remove_update: "remove_modif i (hash_remove a (update_modif i f p)) = remove_modif i (hash_remove a p)"
proof -
  have "filter (\<lambda>(j, rm). j \<noteq> i) (map (\<lambda>(j, rm). (j, if j = i then f rm else rm)) xs) = filter (\<lambda>(j, rm). j \<noteq> i) xs" for xs
    by (induction xs) auto
  then show ?thesis by (simp add: remove_modif_def hash_remove_def update_modif_def)
qed

lemma update_added:
  assumes "px_inv p" "rm_model_row rm' = a"
  shows "update_modif (next_modif p) (\<lambda>_. rm') (snd (add_row_modif rm a p)) = snd (add_row_modif rm' a p)"
proof -
  have "map (\<lambda>(j, rm). (j, if j = next_modif p then rm' else rm)) (all_modifs p) = all_modifs p"
    using px_inv_fresh [OF assms(1)] by (intro map_idI) force
  moreover have "rm'\<lparr>rm_model_row := a\<rparr> = rm'" using assms(2) by (intro row_modif.equality) simp_all
  ultimately show ?thesis by (simp add: update_modif_def add_row_modif_def prepend_modif_def hash_insert_def)
qed

text \<open>The value of a cell, and whether a new one is stored.\<close>

lemma cell_present:
  assumes p: "edit_ready dm p" and a: "0 \<le> a" "a < model_nb_rows p + int (length (new_rows p))" and c: "c < model_nb_cols p"
  obtains x where "seen_cell dm (if a < model_nb_rows p then a else - 1) (modif_of p a) c = Some x"
proof (cases "a < model_nb_rows p")
  case True
  then have "dm_value_at dm c a \<noteq> None" using p a c by (simp add: edit_ready_def)
  then have "seen_cell dm (if a < model_nb_rows p then a else - 1) (modif_of p a) c \<noteq> None"
    using True a(1) by (auto simp: seen_cell_def model_value_def split: option.split)
  then show thesis using that by blast
next
  case False
  then obtain i rm where rm: "modif_of p a = Some rm" "modif_at p i = Some rm" "is_new rm"
    using new_row_present [OF edit_ready_inv [OF p] _ a(2)] by (metis leI)
  then have "c \<in> rv_column ` set (rm_modify_values rm)"
    using edit_ready_modif [OF p rm(2)] c by (simp add: modif_ready_def)
  then have "find_row_value c (rm_modify_values rm) \<noteq> None" using find_row_value_none by metis
  then show thesis using rm(1) that by (auto simp: seen_cell_def)
qed

lemma set_value_steps:
  assumes p: "edit_ready dm p" and cmp: "decides_equality cmp"
    and r: "0 \<le> r" "\<not> (add_null_entry p \<and> r = 0)" "c < model_nb_cols p"
    and a: "proxy_row_to_absolute_row p r = a" "0 \<le> a" "a < model_nb_rows p + int (length (new_rows p))"
    and x: "seen_cell dm (if a < model_nb_rows p then a else - 1) (modif_of p a) c = Some x"
  shows "\<not> replaces v x \<Longrightarrow> gda_data_proxy_set_value_at cmp dm p c r (Some v) = Returns (False, None, p)"
    "replaces v x \<Longrightarrow> v = x \<Longrightarrow> gda_data_proxy_set_value_at cmp dm p c r (Some v) = Returns (True, None, p)"
    "replaces v x \<Longrightarrow> v \<noteq> x \<Longrightarrow> gda_data_proxy_set_value_at cmp dm p c r (Some v) =
       bind_outcome (find_or_create_row_modif dm p r c) (\<lambda>(i, rv, p3).
         case modif_at p3 i of
           None \<Rightarrow> Undefined
         | Some rm \<Rightarrow>
             (let rm' = modify_value cmp p3 rm c rv v in
              Returns (True, None, px_notify (PxUpdated r) (drop_useless_modif i rm' (update_modif i (\<lambda>_. rm') p3)))))"
proof -
  have get: "gda_data_proxy_get_value_at dm p c r = Returns (Some x)"
  proof -
    have "r = 0 \<longrightarrow> \<not> add_null_entry p" using r(2) by blast
    from read_cells(1) [OF p r(1) this r(3) a(1) [symmetric] a(2,3)] show ?thesis using x by simp
  qed
  note defs = gda_data_proxy_set_value_at_def ensure_ready [OF p] get value_decided_def replaces_def compare_0 [OF cmp]
  show "\<not> replaces v x \<Longrightarrow> gda_data_proxy_set_value_at cmp dm p c r (Some v) = Returns (False, None, p)"
    using r by (auto simp: defs Let_def)
  show "replaces v x \<Longrightarrow> v = x \<Longrightarrow> gda_data_proxy_set_value_at cmp dm p c r (Some v) = Returns (True, None, p)"
    using r by (auto simp: defs Let_def)
  show "replaces v x \<Longrightarrow> v \<noteq> x \<Longrightarrow> gda_data_proxy_set_value_at cmp dm p c r (Some v) =
       bind_outcome (find_or_create_row_modif dm p r c) (\<lambda>(i, rv, p3).
         case modif_at p3 i of
           None \<Rightarrow> Undefined
         | Some rm \<Rightarrow>
             (let rm' = modify_value cmp p3 rm c rv v in
              Returns (True, None, px_notify (PxUpdated r) (drop_useless_modif i rm' (update_modif i (\<lambda>_. rm') p3)))))"
    using r by (auto simp: defs Let_def)
qed

text \<open>The modification of the row after the value was stored; none if the row is as it was.\<close>

definition kept_modif :: "'v row_modif \<Rightarrow> 'v row_modif option" where
  "kept_modif rm = (if \<not> rm_to_be_deleted rm \<and> rm_modify_values rm = [] \<and> 0 \<le> rm_model_row rm then None else Some rm)"

lemma modify_value_wf:
  assumes "modif_wf p i rm" "modif_ready dm (model_nb_cols p) rm" "find_row_value c (rm_modify_values rm) = rv" "c < model_nb_cols p"
    "kept_modif (modify_value cmp q rm c rv v) = Some rm'"
  shows "rm_model_row rm' = rm_model_row rm" "modif_wf p i rm'" "modif_ready dm (model_nb_cols p) rm'"
proof -
  let ?rm = "modify_value cmp q rm c rv v"
  have rm': "rm' = ?rm" "rm_to_be_deleted rm' \<or> rm_modify_values rm' \<noteq> [] \<or> rm_model_row rm' < 0"
    using assms(5) by (auto simp: kept_modif_def split: if_splits)
  have same: "rm_model_row ?rm = rm_model_row rm" "rm_to_be_deleted ?rm = rm_to_be_deleted rm" "rm_orig_values ?rm = rm_orig_values rm"
      "rm_orig_values_size ?rm = rm_orig_values_size rm" "is_new ?rm = is_new rm"
    by (simp_all add: modify_value_def is_new_def)
  have cols: "distinct (map rv_column (rm_modify_values ?rm))"
      "set (map rv_column (rm_modify_values ?rm)) \<subseteq> insert c (set (map rv_column (rm_modify_values rm)))"
      "is_new rm \<longrightarrow> set (map rv_column (rm_modify_values ?rm)) = insert c (set (map rv_column (rm_modify_values rm)))"
  proof -
    have d: "distinct (map rv_column (rm_modify_values rm))" using assms(1) by (simp add: modif_wf_def)
    have "distinct (map rv_column (rm_modify_values ?rm)) \<and>
        set (map rv_column (rm_modify_values ?rm)) \<subseteq> insert c (set (map rv_column (rm_modify_values rm))) \<and>
        (is_new rm \<longrightarrow> set (map rv_column (rm_modify_values ?rm)) = insert c (set (map rv_column (rm_modify_values rm))))"
    proof (cases rv)
      case None
      then have "c \<notin> set (map rv_column (rm_modify_values rm))" using assms(3) find_row_value_none by fastforce
      moreover have "map rv_column (rm_modify_values ?rm) = c # map rv_column (rm_modify_values rm)"
        using None by (simp add: modify_value_def is_modified_def new_row_value_def store_value_def Let_def)
      ultimately show ?thesis using d by simp
    next
      case (Some y)
      then have y: "y \<in> set (rm_modify_values rm)" "rv_column y = c" using assms(3) find_row_value_some by metis+
      then have "c \<in> set (map rv_column (rm_modify_values rm))" by auto
      moreover have "is_new rm \<Longrightarrow> \<not> is_original cmp rm c v" using assms(1) by (simp add: modif_wf_def is_original_def)
      moreover have "map rv_column (rm_modify_values ?rm) =
          (if is_original cmp rm c v then remove1 c (map rv_column (rm_modify_values rm)) else map rv_column (rm_modify_values rm))"
        using Some by (simp add: modify_value_def remove_row_value_columns replace_row_value_columns)
      ultimately show ?thesis using d set_remove1_subset [of c "map rv_column (rm_modify_values rm)"] by auto
    qed
    then show "distinct (map rv_column (rm_modify_values ?rm))"
      "set (map rv_column (rm_modify_values ?rm)) \<subseteq> insert c (set (map rv_column (rm_modify_values rm)))"
      "is_new rm \<longrightarrow> set (map rv_column (rm_modify_values ?rm)) = insert c (set (map rv_column (rm_modify_values rm)))" by blast+
  qed
  show "rm_model_row rm' = rm_model_row rm" using rm' same by simp
  have "is_new rm \<Longrightarrow> rm_modify_values ?rm \<noteq> []" using cols(3) by auto
  then have kept: "rm_to_be_deleted ?rm \<or> rm_modify_values ?rm \<noteq> []"
    using rm' same assms(1) by (auto simp: modif_wf_def is_new_def split: if_splits)
  have small: "\<forall>y \<in> set (rm_modify_values ?rm). rv_column y < model_nb_cols p"
    using cols(2) assms(1,4) by (fastforce simp: modif_wf_def)
  show "modif_wf p i rm'" using assms(1) rm'(1) same cols(1) kept small by (simp add: modif_wf_def)
  show "modif_ready dm (model_nb_cols p) rm'"
    using assms(2,4) cols(3) same rm'(1) by (auto simp: modif_ready_def)
qed

lemma modify_value_seen:
  assumes cmp: "decides_equality cmp" and v: "v = GNull \<or> G_VALUE_TYPE v \<noteq> GDA_TYPE_NULL"
    and rm: "distinct (map rv_column (rm_modify_values rm))" "find_row_value c (rm_modify_values rm) = rv" "c < n"
      "0 \<le> row \<longrightarrow> rm_orig_values rm = Some (map (\<lambda>c. dm_value_at dm c row) [0..<n])" "\<not> 0 \<le> row \<longrightarrow> rm_orig_values rm = None"
  shows "seen_cell dm row (Some (modify_value cmp q rm c rv v)) c = Some v"
    "c' \<noteq> c \<Longrightarrow> seen_cell dm row (Some (modify_value cmp q rm c rv v)) c' = seen_cell dm row (Some rm) c'"
    "rm_to_be_deleted (modify_value cmp q rm c rv v) = rm_to_be_deleted rm"
proof -
  show "rm_to_be_deleted (modify_value cmp q rm c rv v) = rm_to_be_deleted rm" by (simp add: modify_value_def)
  have orig: "dm_value_at dm c row = Some v" "0 \<le> row" if "is_original cmp rm c v"
    using that rm(3-5) by (auto simp: is_original_def compare_0 [OF cmp] split: option.splits)
  show "seen_cell dm row (Some (modify_value cmp q rm c rv v)) c = Some v"
    using rm(1,2) stored_value [OF v] find_row_value_some [of c "rm_modify_values rm"] orig
    by (cases rv) (auto simp: seen_cell_def modify_value_def find_row_value_Cons find_removed find_replaced model_value_def)
  show "seen_cell dm row (Some (modify_value cmp q rm c rv v)) c' = seen_cell dm row (Some rm) c'" if "c' \<noteq> c"
    using rm(1,2) stored_value [OF v] find_row_value_some [of c "rm_modify_values rm"] that
    by (cases rv) (auto simp: seen_cell_def modify_value_def find_row_value_Cons find_removed find_replaced)
qed

lemma kept_modif_seen:
  assumes "kept_modif rm = None"
  shows "seen_cell dm row None c = seen_cell dm row (Some rm) c" "\<not> rm_to_be_deleted rm"
  using assms by (auto simp: kept_modif_def seen_cell_def find_row_value_def split: if_splits)

lemma row_modifs_new_simps:
  "0 \<le> r \<Longrightarrow> proxy_row_to_model_row p r = a \<Longrightarrow> 0 \<le> a \<Longrightarrow>
     row_modifs_new dm p r =
       \<lparr>rm_model_row = 0, rm_to_be_deleted = False, rm_modify_values = [],
        rm_orig_values = Some (map (\<lambda>c. dm_value_at dm c a) [0..<model_nb_cols p]), rm_orig_values_size = model_nb_cols p\<rparr>"
  by (simp add: row_modifs_new_def model_value_def)

text \<open>A stored value is seen in its cell, and an observer is told of the row.\<close>

lemma set_modified:
  assumes p: "edit_ready dm p" and cmp: "decides_equality cmp"
    and r: "0 \<le> r" "nat r < length (view dm p)" "\<not> (add_null_entry p \<and> r = 0)" "c < model_nb_cols p"
    and v: "v = GNull \<or> G_VALUE_TYPE v \<noteq> GDA_TYPE_NULL"
    and a: "proxy_row_to_absolute_row p r = a" "0 \<le> a" "a < model_nb_rows p + int (length (new_rows p))"
    and x: "seen_cell dm (if a < model_nb_rows p then a else - 1) (modif_of p a) c = Some x" "replaces v x"
    and m: "modif_id_of p a = Some i" "modif_of p a = Some rm"
  defines "rm' \<equiv> modify_value cmp p rm c (find_row_value c (rm_modify_values rm)) v"
  defines "p' \<equiv> drop_useless_modif i rm' (update_modif i (\<lambda>_. rm') p)"
  shows "edited dm (at_row r (set_cell c v)) p p'" "px_signals p' = px_signals p"
proof -
  have inv: "px_inv p" using p by (rule edit_ready_inv)
  obtain rm0 where rm0: "modif_at p i = Some rm0" "modif_of p a = Some rm0" "modif_wf p i rm0"
      "if a < model_nb_rows p then \<not> is_new rm0 \<and> rm_model_row rm0 = a else is_new rm0"
    using modif_of_modif [OF inv m(1)] by metis
  then have rm: "modif_at p i = Some rm" "modif_wf p i rm" "if a < model_nb_rows p then \<not> is_new rm \<and> rm_model_row rm = a else is_new rm"
    using m(2) by simp_all
  have ready: "modif_ready dm (model_nb_cols p) rm" using edit_ready_modif [OF p rm(1)] .
  let ?row = "if a < model_nb_rows p then a else - 1"
  have "0 \<le> ?row \<longrightarrow> rm_orig_values rm = Some (map (\<lambda>c. dm_value_at dm c ?row) [0..<model_nb_cols p])"
      "\<not> 0 \<le> ?row \<longrightarrow> rm_orig_values rm = None"
    using ready rm(2,3) a(2) by (auto simp: modif_ready_def modif_wf_def split: if_splits)
  moreover have "distinct (map rv_column (rm_modify_values rm))" using rm(2) by (simp add: modif_wf_def)
  ultimately have new: "seen_cell dm ?row (Some rm') c = Some v"
      "\<And>c'. c' \<noteq> c \<Longrightarrow> seen_cell dm ?row (Some rm') c' = seen_cell dm ?row (Some rm) c'" "rm_to_be_deleted rm' = rm_to_be_deleted rm"
    unfolding rm'_def using modify_value_seen [OF cmp v _ refl r(4)] by blast+
  have model_row: "rm_model_row rm' = rm_model_row rm" by (simp add: rm'_def modify_value_def)
  show sig: "px_signals p' = px_signals p"
    by (simp add: p'_def drop_useless_modif_def update_modif_def remove_modif_def hash_remove_def)
  show "edited dm (at_row r (set_cell c v)) p p'"
  proof (cases "kept_modif rm'")
    case None
    then have gone: "\<not> rm_to_be_deleted rm'" "rm_modify_values rm' = []" "0 \<le> rm_model_row rm'" by (auto simp: kept_modif_def split: if_splits)
    then have old: "a < model_nb_rows p" "rm_model_row rm = a" using rm(3) model_row by (auto simp: is_new_def split: if_splits)
    have "p' = remove_modif i (hash_remove a p)"
      using gone old(2) model_row by (simp add: p'_def drop_useless_modif_def remove_update)
    then have d: "edit_ready dm p'" "changes_only a p p'" "modif_of p' a = None" using drop_ready [OF p m(1) a(2) old(1)] by simp_all
    have "seen dm (model_nb_cols p) ?row None = set_cell c v (seen dm (model_nb_cols p) ?row (modif_of p a))"
      using new kept_modif_seen [OF None] x m(2) a(2) by (intro seen_set_cell [OF r(4) _ x]) auto
    then have "seen_at dm p' a = set_cell c v (seen_at dm p a)" using d(2,3) by (simp add: seen_at_def changes_only_def)
    then show ?thesis using row_edited [OF p d(1,2) r(1-3) a(1)] by blast
  next
    case (Some rm2)
    then have "rm2 = rm'" and kept: "p' = update_modif i (\<lambda>_. rm') p"
      by (auto simp: kept_modif_def p'_def drop_useless_modif_def split: if_splits)
    then have "kept_modif rm' = Some rm'" using Some by simp
    from modify_value_wf [OF rm(2) ready refl r(4) this [unfolded rm'_def]]
    have u: "edit_ready dm p'" "changes_only a p p'" "modif_of p' a = Some rm'"
      using update_ready [OF p m, of rm'] kept by (simp_all add: rm'_def)
    have "seen dm (model_nb_cols p) ?row (Some rm') = set_cell c v (seen dm (model_nb_cols p) ?row (modif_of p a))"
      using new x m(2) a(2) by (intro seen_set_cell [OF r(4) _ x]) auto
    then have "seen_at dm p' a = set_cell c v (seen_at dm p a)" using u(2,3) by (simp add: seen_at_def changes_only_def)
    then show ?thesis using row_edited [OF p u(1,2) r(1-3) a(1)] by blast
  qed
qed

lemma set_unmodified:
  assumes p: "edit_ready dm p" and r: "0 \<le> r" "nat r < length (view dm p)" "\<not> (add_null_entry p \<and> r = 0)" "c < model_nb_cols p"
    and v: "v = GNull \<or> G_VALUE_TYPE v \<noteq> GDA_TYPE_NULL"
    and a: "proxy_row_to_absolute_row p r = a" "0 \<le> a" "a < model_nb_rows p"
    and x: "dm_value_at dm c a = Some x" "replaces v x" and m: "modif_id_of p a = None"
  shows "\<exists>p'. bind_outcome (find_or_create_row_modif dm p r c) (\<lambda>(i, rv, p3).
         case modif_at p3 i of
           None \<Rightarrow> Undefined
         | Some rm \<Rightarrow>
             (let rm' = modify_value cmp p3 rm c rv v in
              Returns (True, None :: proxy_error option, px_notify (PxUpdated r) (drop_useless_modif i rm' (update_modif i (\<lambda>_. rm') p3)))))
        = Returns (True, None, px_notify (PxUpdated r) p') \<and> edited dm (at_row r (set_cell c v)) p p' \<and> px_signals p' = px_signals p \<and>
        changes_only a p p' \<and> (\<exists>rm. modif_of p' a = Some rm \<and> \<not> is_new rm \<and> \<not> rm_to_be_deleted rm \<and> map rv_column (rm_modify_values rm) = [c])"
proof -
  have inv: "px_inv p" using p by (rule edit_ready_inv)
  have n: "0 \<le> model_nb_rows p" using inv by (simp add: px_inv_def)
  have row: "proxy_row_to_model_row p r = a" using a n model_row_eq [of p r] by simp
  let ?new = "row_modifs_new dm p r" and ?i = "next_modif p"
  let ?p3 = "snd (add_row_modif ?new a p)" and ?rm = "?new\<lparr>rm_model_row := a\<rparr>"
  have new: "?new = \<lparr>rm_model_row = 0, rm_to_be_deleted = False, rm_modify_values = [],
        rm_orig_values = Some (map (\<lambda>c. dm_value_at dm c a) [0..<model_nb_cols p]), rm_orig_values_size = model_nb_cols p\<rparr>"
    using row_modifs_new_simps [OF r(1) row a(2)] .
  have add: "add_row_modif ?new a p = (?i, ?p3)" "modif_at ?p3 ?i = Some ?rm"
    by (simp_all add: add_row_modif_def prepend_modif_def hash_insert_def modif_at_def)
  have find: "find_or_create_row_modif dm p r c = Returns (?i, None, ?p3)"
  proof -
    have "fst (add_row_modif ?new a p) = ?i" using add(1) by (metis fst_conv)
    then show ?thesis using r(1) m a row_modif_of_eq [OF inv, of r] row by (simp add: find_or_create_row_modif_def case_prod_beta)
  qed
  let ?rm' = "modify_value cmp ?p3 ?rm c None v"
  have rm': "rm_model_row ?rm' = a" "rm_to_be_deleted ?rm' = False"
      "rm_orig_values ?rm' = Some (map (\<lambda>c. dm_value_at dm c a) [0..<model_nb_cols p])" "rm_orig_values_size ?rm' = model_nb_cols p"
      "rm_modify_values ?rm' = [is_modified (new_row_value ?p3 ?rm c v)]"
    by (simp_all add: modify_value_def new)
  then have kept: "drop_useless_modif ?i ?rm' (update_modif ?i (\<lambda>_. ?rm') ?p3) = update_modif ?i (\<lambda>_. ?rm') ?p3"
    by (simp add: drop_useless_modif_def)
  define p' where "p' = snd (add_row_modif ?rm' a p)"
  have p': "update_modif ?i (\<lambda>_. ?rm') ?p3 = p'" unfolding p'_def by (rule update_added [OF inv rm'(1)])
  note kept' = kept [unfolded p']
  have d: "edit_ready dm p'" "changes_only a p p'" "modif_of p' a = Some (?rm'\<lparr>rm_model_row := a\<rparr>)"
    using add_ready [OF p m a(2,3) rm'(3,4)] rm'(5) r(4) stored_value(4) [OF v] unfolding p'_def by simp_all
  have "?rm'\<lparr>rm_model_row := a\<rparr> = ?rm'" using rm'(1) by (intro row_modif.equality) simp_all
  then have m': "modif_of p' a = Some ?rm'" using d(3) by simp
  have cell: "seen_cell dm a (Some ?rm') c' = (if c' = c then Some v else model_value dm c' a)" for c'
    using stored_value(3,4) [OF v] by (simp add: seen_cell_def rm'(5) find_row_value_Cons find_row_value_def [of _ "[]"])
  have "seen dm (model_nb_cols p) a (Some ?rm') = set_cell c v (seen dm (model_nb_cols p) a (modif_of p a))"
  proof (rule seen_set_cell [OF r(4)])
    have none: "modif_of p a = None" using m by (simp add: modif_of_def)
    show "0 \<le> a \<or> a = - 1" using a(2) by simp
    show "seen_cell dm a (modif_of p a) c = Some x" using none x(1) a(2) by (simp add: seen_cell_def model_value_def)
    show "replaces v x" by (rule x(2))
    show "seen_cell dm a (Some ?rm') c = Some v" by (simp add: cell)
    show "seen_cell dm a (Some ?rm') c' = seen_cell dm a (modif_of p a) c'" if "c' \<noteq> c" for c'
      using that none by (simp add: cell) (simp add: seen_cell_def)
    show "(case Some ?rm' of None \<Rightarrow> False | Some rm \<Rightarrow> rm_to_be_deleted rm) =
        (case modif_of p a of None \<Rightarrow> False | Some rm \<Rightarrow> rm_to_be_deleted rm)" using none rm'(2) by simp
  qed
  then have "seen_at dm p' a = set_cell c v (seen_at dm p a)" using d(2) m' a(3) by (simp add: seen_at_def changes_only_def)
  then have "edited dm (at_row r (set_cell c v)) p p'" using row_edited [OF p d(1,2) r(1-3) a(1)] by blast
  moreover have "px_signals p' = px_signals p" by (simp add: p'_def add_row_modif_def prepend_modif_def hash_insert_def)
  moreover have "modif_of p' a = Some ?rm' \<and> \<not> is_new ?rm' \<and> \<not> rm_to_be_deleted ?rm' \<and> map rv_column (rm_modify_values ?rm') = [c]"
    using m' rm'(1,2,5) a(2) stored_value(4) [OF v] by (simp add: is_new_def)
  ultimately show ?thesis using add(2) d(2) by (intro exI [of _ p']) (simp add: find Let_def p' kept')
qed

lemma changes_only_row:
  assumes "edit_ready dm p" "edit_ready dm p'" "changes_only a p p'"
  shows "proxy_row_to_absolute_row p' = proxy_row_to_absolute_row p"
  using assms by (auto simp: fun_eq_iff proxy_row_to_absolute_row_def edit_ready_def changes_only_def split: option.split)

lemma edited_notify: "edited dm f p p' \<Longrightarrow> edited dm f p (px_notify sg p')" "edited dm f p p' \<Longrightarrow> edited dm f p (delete_changed r b p')"
  by (simp_all add: edited_def)

lemma told_notify:
  assumes "edited dm (at_row r f) p p'" "edit_ready dm p" "px_signals p' = px_signals p" "0 \<le> r" "nat r < length (view dm p)"
  shows "told dm p (px_notify (PxUpdated r) p')" "told dm p (delete_changed r b p')"
proof -
  have on: "edit_ready dm p'" "notify_changes p'" using assms(1) edit_ready_notifies by (auto simp: edited_def)
  have v: "view dm p' = at_row r f (view dm p)" using assms(1) by (simp add: edited_def)
  show "told dm p (px_notify (PxUpdated r) p')"
    by (rule told_updated [where S = "[]" and f = f])
      (use on v assms in simp_all, use on(2) assms(3) in \<open>simp add: px_notify_def px_emit_def\<close>)
  show "told dm p (delete_changed r b p')"
    by (rule told_updated [where S = "[PxDeleteChanged r b]" and f = f])
      (use on v assms in simp_all, use on(2) assms(3) in \<open>simp add: delete_changed_def px_notify_def px_emit_def\<close>)
qed

lemma at_row_same: "0 \<le> r \<Longrightarrow> nat r < length t \<Longrightarrow> f (t ! nat r) = t ! nat r \<Longrightarrow> at_row r f t = t"
  by (simp add: at_row_def)

lemma set_value_edits:
  assumes p: "edit_ready dm p" and cmp: "decides_equality cmp"
    and r: "0 \<le> r" "nat r < length (view dm p)" "\<not> (add_null_entry p \<and> r = 0)" "c < model_nb_cols p"
    and v: "v = GNull \<or> G_VALUE_TYPE v \<noteq> GDA_TYPE_NULL"
  shows "\<exists>ok p'. gda_data_proxy_set_value_at cmp dm p c r (Some v) = Returns (ok, None, p') \<and>
    edited dm (at_row r (set_cell c v)) p p' \<and> told dm p p'"
proof -
  obtain a where a: "proxy_row_to_absolute_row p r = a" "0 \<le> a" "a < model_nb_rows p + int (length (new_rows p))"
      "view dm p ! nat r = seen_at dm p a"
    using ready_row [OF p r(1-3)] by metis
  let ?row = "if a < model_nb_rows p then a else - 1"
  obtain x where x: "seen_cell dm ?row (modif_of p a) c = Some x" using cell_present [OF p a(2,3) r(4)] .
  then have cell: "sr_values (view dm p ! nat r) ! c = Some x" using r(4) by (simp add: a(4) seen_at_def seen_def)
  note steps = set_value_steps [OF p cmp r(1,3,4) a(1-3) x, of v]
  have unchanged: "edited dm (at_row r (set_cell c v)) p p" if "\<not> replaces v x \<or> v = x"
  proof -
    have "set_cell c v (view dm p ! nat r) = view dm p ! nat r"
      using that cell list_update_id [of "sr_values (view dm p ! nat r)" c] by (auto simp: set_cell_def)
    then have "at_row r (set_cell c v) (view dm p) = view dm p" using r by (intro at_row_same)
    then show ?thesis using p by simp
  qed
  show ?thesis
  proof (cases "replaces v x \<and> v \<noteq> x")
    case False
    then show ?thesis using steps(1,2) unchanged told_same by (metis (full_types))
  next
    case True
    show ?thesis
    proof (cases "modif_id_of p a")
      case None
      then have old: "a < model_nb_rows p" using new_row_present [OF edit_ready_inv [OF p] _ a(3)] by fastforce
      then have "dm_value_at dm c a = Some x" using x None a(2) by (simp add: seen_cell_def modif_of_def model_value_def)
      from set_unmodified [OF p r v a(1,2) old this _ None, of cmp] True
      obtain p' where "gda_data_proxy_set_value_at cmp dm p c r (Some v) = Returns (True, None, px_notify (PxUpdated r) p')"
          "edited dm (at_row r (set_cell c v)) p p'" "px_signals p' = px_signals p"
        unfolding steps(3) [OF conjunct1 [OF True] conjunct2 [OF True]] by blast
      then show ?thesis using edited_notify(1) told_notify(1) [OF _ p _ r(1,2)] by blast
    next
      case (Some i)
      then obtain rm where rm: "modif_at p i = Some rm" "modif_of p a = Some rm" using modif_of_modif [OF edit_ready_inv [OF p]] by metis
      have find: "find_or_create_row_modif dm p r c = Returns (i, find_row_value c (rm_modify_values rm), p)"
        using r(1) Some rm(2) a(1) by (simp add: find_or_create_row_modif_def row_modif_of_eq [OF edit_ready_inv [OF p]])
      let ?p' = "drop_useless_modif i (modify_value cmp p rm c (find_row_value c (rm_modify_values rm)) v)
          (update_modif i (\<lambda>_. modify_value cmp p rm c (find_row_value c (rm_modify_values rm)) v) p)"
      have "gda_data_proxy_set_value_at cmp dm p c r (Some v) = Returns (True, None, px_notify (PxUpdated r) ?p')"
        using steps(3) True rm(1) by (simp add: find Let_def)
      moreover have "edited dm (at_row r (set_cell c v)) p ?p'" "px_signals ?p' = px_signals p"
        using set_modified [OF p cmp r v a(1-3) x _ Some rm(2)] True by blast+
      ultimately show ?thesis using edited_notify(1) told_notify(1) [OF _ p _ r(1,2)] by blast
    qed
  qed
qed

end
