(* ===== verification/Gda_Proxy_Rows.thy ===== *)
theory Gda_Proxy_Rows
  imports Gda_Proxy_Refines
begin

text \<open>
  Rows of a data proxy that are added, withdrawn, marked to be deleted, and the changes of a row that are taken back, as
  edits of the table that is seen.
\<close>

section \<open>Lists without one element\<close>

lemma map_remove_index: "map f (g_array_remove_index i xs) = g_array_remove_index i (map f xs)"
  by (simp add: g_array_remove_index_def take_map drop_map)

lemma length_remove_index: "nat i < length xs \<Longrightarrow> length (g_array_remove_index i xs) = length xs - 1"
  by (simp add: g_array_remove_index_def)

lemma nth_remove_index:
  "nat i < length xs \<Longrightarrow> k < length xs - 1 \<Longrightarrow> g_array_remove_index i xs ! k = xs ! (if k < nat i then k else Suc k)"
  by (auto simp: g_array_remove_index_def nth_append min_def)

lemma remove_index_append:
  "0 \<le> i \<Longrightarrow> g_array_remove_index (int (length ys) + i) (ys @ xs) = ys @ g_array_remove_index i xs"
  by (simp add: g_array_remove_index_def nat_add_distrib)

lemma remove_index_cong:
  assumes "nat i < length xs" "\<And>k. k < length xs \<Longrightarrow> k \<noteq> nat i \<Longrightarrow> f (xs ! k) = h (xs ! k)"
  shows "g_array_remove_index i (map f xs) = g_array_remove_index i (map h xs)"
proof (rule nth_equalityI)
  show "length (g_array_remove_index i (map f xs)) = length (g_array_remove_index i (map h xs))"
    using assms(1) by (simp add: length_remove_index)
  fix k assume "k < length (g_array_remove_index i (map f xs))"
  then have k: "k < length xs - 1" using assms(1) by (simp add: length_remove_index)
  then show "g_array_remove_index i (map f xs) ! k = g_array_remove_index i (map h xs) ! k"
    using assms(1) assms(2) [of "if k < nat i then k else Suc k"] by (auto simp: nth_remove_index)
qed

lemma nth_remove1: "distinct xs \<Longrightarrow> k < length xs \<Longrightarrow> remove1 (xs ! k) xs = g_array_remove_index (int k) xs"
proof -
  have "remove1 (xs ! k) xs = take k xs @ drop (Suc k) xs" if "distinct xs" "k < length xs" using that
  proof (induction xs arbitrary: k)
    case (Cons x xs)
    then show ?case by (cases k) auto
  qed simp
  then show "distinct xs \<Longrightarrow> k < length xs \<Longrightarrow> remove1 (xs ! k) xs = g_array_remove_index (int k) xs"
    by (simp add: g_array_remove_index_def)
qed

section \<open>A row is withdrawn\<close>

definition withdrawn :: "modif_id \<Rightarrow> int \<Rightarrow> int \<Rightarrow> 'v proxy \<Rightarrow> 'v proxy" where
  "withdrawn i a r p = chunk_without (remove_new_row i (remove_modif i p)) a r"

lemma withdrawn_later: "remove_new_row i (chunk_without (remove_modif i p) a r) = withdrawn i a r p"
  by (simp add: withdrawn_def remove_new_row_def chunk_without_def remove_modif_def null_rows_def)

lemma withdrawn_fields:
  "all_modifs (withdrawn i a r p) = filter (\<lambda>(j, rm). j \<noteq> i) (all_modifs p)" "new_rows (withdrawn i a r p) = remove1 i (new_rows p)"
  "modify_rows (withdrawn i a r p) = modify_rows p" "model_nb_rows (withdrawn i a r p) = model_nb_rows p"
  "model_nb_cols (withdrawn i a r p) = model_nb_cols p" "add_null_entry (withdrawn i a r p) = add_null_entry p"
  "notify_changes (withdrawn i a r p) = notify_changes p" "chunk_to (withdrawn i a r p) = chunk_to p"
  "chunk_sync_idle_id (withdrawn i a r p) = chunk_sync_idle_id p" "force_direct_mapping (withdrawn i a r p) = force_direct_mapping p"
  "px_signals (withdrawn i a r p) = px_signals p"
  "chunk (withdrawn i a r p) = map_option
     (\<lambda>m. g_array_remove_index (r - null_rows p) (map (\<lambda>v. if a < v then v - 1 else v) m)) (chunk p)"
  by (simp_all add: withdrawn_def chunk_without_def remove_new_row_def remove_modif_def null_rows_def)

text \<open>The numbers of the rows behind it go down by one.\<close>

lemma withdrawn_modif:
  assumes p: "px_inv p" and a: "modif_id_of p a = Some i" "model_nb_rows p \<le> a" and b: "0 \<le> b"
  shows "modif_of (withdrawn i a r p) b = modif_of p (if b < a then b else b + 1)"
proof -
  let ?p = "withdrawn i a r p"
  have n: "0 \<le> model_nb_rows p" using p by (simp add: px_inv_def)
  have d: "distinct (new_rows p)" using p by (rule px_inv_distinct_new)
  define k where "k = nat (a - model_nb_rows p)"
  have k: "k < length (new_rows p)" "new_rows p ! k = i" "a = model_nb_rows p + int k"
    using a n by (auto simp: k_def modif_id_of_new slist_nth_def split: if_splits)
  have new: "new_rows ?p = g_array_remove_index (int k) (new_rows p)"
    using nth_remove1 [OF d k(1)] k(2) by (simp add: withdrawn_fields)
  have "modif_id_of ?p b = modif_id_of p (if b < a then b else b + 1)"
  proof (cases "b < model_nb_rows p")
    case True
    then show ?thesis using a(2) b by (simp add: modif_id_of_old withdrawn_fields)
  next
    case False
    define l where "l = nat (b - model_nb_rows p)"
    have l: "b = model_nb_rows p + int l" using False by (simp add: l_def)
    have "slist_nth (g_array_remove_index (int k) (new_rows p)) l = slist_nth (new_rows p) (if l < k then l else Suc l)"
      using k(1) by (auto simp: slist_nth_def length_remove_index nth_remove_index)
    moreover have "modif_id_of ?p b = slist_nth (new_rows ?p) l"
      using l n by (simp add: modif_id_of_new withdrawn_fields(4))
    moreover have "modif_id_of p (if b < a then b else b + 1) = slist_nth (new_rows p) (if l < k then l else Suc l)"
      using l k(3) n by (auto simp: modif_id_of_new nat_add_distrib add.commute)
    ultimately show ?thesis by (simp add: new)
  qed
  moreover have "modif_at ?p j = modif_at p j" if "modif_id_of p (if b < a then b else b + 1) = Some j" for j
  proof -
    have "(if b < a then b else b + 1) \<noteq> a" by simp
    then have "j \<noteq> i" using modif_id_inj [OF p a(1)] that by metis
    then show ?thesis by (simp add: modif_at_def withdrawn_fields map_of_without)
  qed
  ultimately show ?thesis by (auto simp: modif_of_def split: bind_split)
qed

lemma withdrawn_rows:
  assumes p: "edit_ready dm p" and j: "j < length (old_rows p)" "old_rows p ! j = a" "model_nb_rows p \<le> a"
    and a: "modif_id_of p a = Some i"
  defines "p' \<equiv> withdrawn i a (int j + null_rows p) p"
  shows "old_rows p' = g_array_remove_index (int j) (map (\<lambda>v. if a < v then v - 1 else v) (old_rows p))" "edit_ready dm p'"
proof -
  have inv: "px_inv p" using p by (rule edit_ready_inv)
  have n: "0 \<le> model_nb_rows p" using inv by (simp add: px_inv_def)
  let ?n = "nat (model_nb_rows p)" and ?m = "length (new_rows p)" and ?down = "\<lambda>v. if a < v then v - 1 else v"
  have m: "0 < ?m" "length (new_rows p') = ?m - 1"
  proof -
    have "i \<in> set (new_rows p)" using a j(3) n by (auto simp: modif_id_of_new dest: slist_nth_in)
    then show "0 < ?m" "length (new_rows p') = ?m - 1" by (auto simp: p'_def withdrawn_fields length_remove1)
  qed
  have bound: "a < model_nb_rows p + int ?m" using old_rows_bounds(1) [OF p] nth_mem [OF j(1)] j(2) by auto
  have shrink: "g_array_remove_index (int j) (map ?down (ws @ map int [?n..<?n + ?m])) = ws @ map int [?n..<?n + (?m - 1)]"
    if ws: "set ws \<subseteq> {0..<model_nb_rows p}" "j < length (ws @ map int [?n..<?n + ?m])" "(ws @ map int [?n..<?n + ?m]) ! j = a" for ws
  proof -
    define k where "k = nat (a - model_nb_rows p)"
    have "\<not> j < length ws" using ws j(3) nth_mem [of j ws] by (fastforce simp: nth_append)
    then have "j = length ws + k" using ws(2,3) n by (auto simp: nth_append k_def)
    then have jk: "int j = int (length ws) + int k" by simp
    have "map ?down ws = ws" using ws(1) j(3) by (intro map_idI) fastforce
    moreover have "g_array_remove_index (int k) (map ?down (map int [?n..<?n + ?m])) = map int [?n..<?n + (?m - 1)]"
      using bound j(3) n m(1)
      by (intro nth_equalityI) (auto simp: k_def length_remove_index nth_remove_index nat_less_iff)
    ultimately show ?thesis by (simp add: jk remove_index_append)
  qed
  have rows: "old_rows p' = g_array_remove_index (int j) (map ?down (old_rows p)) \<and>
      (\<forall>m. chunk p' = Some m \<longrightarrow> (\<exists>ws. m = ws @ map int [?n..<?n + (?m - 1)] \<and> distinct ws \<and> set ws \<subseteq> {0..<model_nb_rows p}))"
  proof (cases "chunk p")
    case None
    have all: "map int [0..<?n + ?m] = map int [0..<?n] @ map int [?n..<?n + ?m]"
      by (metis map_append upt_add_eq_append zero_le)
    have "map int [0..<?n] @ map int [?n..<?n + (?m - 1)] = map int [0..<?n + (?m - 1)]"
      by (metis map_append upt_add_eq_append zero_le)
    moreover have "set (map int [0..<?n]) \<subseteq> {0..<model_nb_rows p}" using n by auto
    ultimately have "g_array_remove_index (int j) (map ?down (old_rows p)) = map int [0..<?n + (?m - 1)]"
      using shrink [of "map int [0..<?n]"] j(1,2) None by (simp add: old_rows_def all del: map_append)
    moreover have "chunk p' = None" "model_nb_rows p' = model_nb_rows p" using None by (simp_all add: p'_def withdrawn_fields)
    then have "old_rows p' = map int [0..<?n + (?m - 1)]" using m(2) by (simp add: old_rows_def)
    ultimately show ?thesis using \<open>chunk p' = None\<close> by simp
  next
    case (Some c)
    then obtain ws where ws: "c = ws @ map int [?n..<?n + ?m]" "distinct ws" "set ws \<subseteq> {0..<model_nb_rows p}"
      using p by (auto simp: edit_ready_def)
    then have "g_array_remove_index (int j) (map ?down c) = ws @ map int [?n..<?n + (?m - 1)]"
      using shrink [of ws] j(1,2) Some by (simp add: old_rows_def)
    then show ?thesis using ws(2,3) Some by (auto simp: old_rows_def p'_def withdrawn_fields)
  qed
  then show "old_rows p' = g_array_remove_index (int j) (map ?down (old_rows p))" by simp
  obtain rm where rm: "modif_at p i = Some rm" "is_new rm"
    using modif_of_modif [OF inv a] j(3) by (metis leD)
  have "px_inv p'" unfolding p'_def withdrawn_def using inv_drop_new [OF inv rm] by simp
  moreover have "modif_ready dm (model_nb_cols p) x" if "modif_at p' k = Some x" for k x
    using that edit_ready_modif [OF p] by (auto simp: p'_def modif_at_def withdrawn_fields map_of_without split: if_splits)
  moreover have "length (new_rows p') \<le> ?m" using m(2) by simp
  moreover have "\<forall>c. chunk p' = Some c \<longrightarrow> (\<exists>ws. c = ws @ map int [?n..<?n + length (new_rows p')] \<and> distinct ws \<and>
      set ws \<subseteq> {0..<model_nb_rows p})" using rows [folded m(2)] by blast
  moreover have "model_nb_rows p' = model_nb_rows p" "model_nb_cols p' = model_nb_cols p" "notify_changes p'" "chunk_to p' = None"
      "\<not> chunk_sync_idle_id p'" "\<not> force_direct_mapping p'"
    using p by (simp_all add: p'_def withdrawn_fields edit_ready_def)
  ultimately show "edit_ready dm p'" using p by (simp add: edit_ready_def modif_ready_def)
qed

lemma withdrawn_view:
  assumes p: "edit_ready dm p" and r: "0 \<le> r" "nat r < length (view dm p)" "\<not> (add_null_entry p \<and> r = 0)"
    and a: "proxy_row_to_absolute_row p r = a" "modif_id_of p a = Some i" "model_nb_rows p \<le> a"
  defines "p' \<equiv> withdrawn i a r p"
  shows "edited dm (without_row r) p p'" "told dm p (px_notify (PxRemoved r) p')"
proof -
  obtain j where j: "j < length (old_rows p)" "nat r = length (null_view p) + j" "old_rows p ! j = a" "r = int j + null_rows p"
    using ready_row [OF p r] a(1) by metis
  note rows = withdrawn_rows [OF p j(1,3) a(3,2), folded j(4), folded p'_def]
  have inv: "px_inv p" using p by (rule edit_ready_inv)
  let ?down = "\<lambda>v. if a < v then v - 1 else v"
  have seen: "seen_at dm p' (?down v) = seen_at dm p v" if "v \<noteq> a" "0 \<le> v" for v
  proof -
    have "0 \<le> ?down v" using that a(3) inv by (auto simp: px_inv_def)
    then have "modif_of p' (?down v) = modif_of p v"
      using withdrawn_modif [OF inv a(2,3), of "?down v" r] that(1) by (auto simp: p'_def split: if_splits)
    then show ?thesis using that a(3) by (auto simp: seen_at_def p'_def withdrawn_fields)
  qed
  have nonneg: "0 \<le> old_rows p ! k" if "k < length (old_rows p)" for k
    using old_rows_bounds(1) [OF p] nth_mem [OF that] by auto
  have other: "old_rows p ! k \<noteq> a" if "k < length (old_rows p)" "k \<noteq> j" for k
    using that j(1,3) old_rows_bounds(2) [OF p] by (metis nth_eq_iff_index_eq)
  have "map (seen_at dm p') (old_rows p') = g_array_remove_index (int j) (map (seen_at dm p' \<circ> ?down) (old_rows p))"
    by (simp add: rows(1) map_remove_index)
  also have "\<dots> = g_array_remove_index (int j) (map (seen_at dm p) (old_rows p))"
    by (rule remove_index_cong) (use j(1) nonneg other seen in auto)
  also have "null_view p' = null_view p" by (simp add: null_view_def p'_def withdrawn_fields)
  ultimately have "view dm p' = null_view p @ g_array_remove_index (int j) (map (seen_at dm p) (old_rows p))"
    using view_seen [OF rows(2)] by simp
  moreover have "r = int (length (null_view p)) + int j" using j(2) r(1) by simp
  ultimately have v: "view dm p' = without_row r (view dm p)"
    using view_seen [OF p] by (simp add: without_row_def remove_index_append)
  then show "edited dm (without_row r) p p'"
    using rows(2) length_remove1 [of i "new_rows p"] by (auto simp: edited_def p'_def withdrawn_fields)
  have "px_signals (px_notify (PxRemoved r) p') = px_signals p @ [PxRemoved r]"
    using edit_ready_notifies [OF p] by (simp add: px_notify_def px_emit_def p'_def withdrawn_fields)
  then show "told dm p (px_notify (PxRemoved r) p')"
    using v rows(2) by (simp add: told_def observe_def without_row_def)
qed

section \<open>A row is added\<close>

text \<open>A row is appended with its signal, or without one while the notification is off.\<close>

lemma append_view:
  assumes p: "edit_ready dm p" and access: "AccessInsert \<in> dm_access dm"
    and fits: "model_nb_rows p + int (length (new_rows p)) + 1 < 2147483648"
  shows "\<exists>row p'. gda_data_proxy_append_row dm p = Returns (row, p') \<and> edited dm (\<lambda>t. t @ [added_row dm (model_nb_cols p)]) p p' \<and>
      told dm p p' \<and> row = int (length (view dm p)) \<and> length (new_rows p') = Suc (length (new_rows p))" (is ?append)
    "\<exists>q. gda_data_proxy_append dm (p\<lparr>notify_changes := False\<rparr>) = Returns (int (length (view dm p)), q\<lparr>notify_changes := False\<rparr>) \<and>
      edited dm (\<lambda>t. t @ [added_row dm (model_nb_cols p)]) p q \<and> px_signals q = px_signals p" (is ?silent)
proof -
  have inv: "px_inv p" using p by (rule edit_ready_inv)
  have n: "0 \<le> model_nb_rows p" using inv by (simp add: px_inv_def)
  let ?n = "nat (model_nb_rows p)" and ?m = "length (new_rows p)"
  define rm where "rm = (row_modifs_new dm p (- 1))
      \<lparr>rm_model_row := - 1, rm_orig_values := None, rm_orig_values_size := model_nb_cols p,
       rm_modify_values := map (default_row_value dm) (rev [0..<model_nb_cols p])\<rparr>"
  define i where "i = next_modif p"
  define p2 where "p2 = p\<lparr>all_modifs := (i, rm) # all_modifs p, next_modif := Suc i\<rparr>"
  define p3 where "p3 = p2\<lparr>new_rows := new_rows p2 @ [i]\<rparr>"
  define p4 where "p4 = p3\<lparr>chunk := map_option (\<lambda>m. m @ [row_modif_to_absolute_row p3 i rm]) (chunk p3)\<rparr>"
  define row where "row = (case chunk p3 of Some m \<Rightarrow> int (length m) + null_rows p3 | None \<Rightarrow> gda_data_proxy_get_n_rows p4 - 1)"
  have prep: "prepend_modif rm p = (i, p2)" by (simp add: prepend_modif_def p2_def i_def)
  have rm: "is_new rm" "rm_modify_values rm = map (default_row_value dm) (rev [0..<model_nb_cols p])" "\<not> rm_to_be_deleted rm"
      "rm_orig_values rm = None" "rm_orig_values_size rm = model_nb_cols p"
    by (simp_all add: rm_def is_new_def row_modifs_new_def)
  have cols: "map rv_column (rm_modify_values rm) = rev [0..<model_nb_cols p]"
    by (simp add: rm(2) default_row_value_def comp_def Let_def)
  have same: "model_nb_rows p4 = model_nb_rows p" "model_nb_cols p4 = model_nb_cols p" "add_null_entry p4 = add_null_entry p"
      "notify_changes p4 = notify_changes p" "new_rows p4 = new_rows p @ [i]" "px_signals p4 = px_signals p"
      "all_modifs p4 = (i, rm) # all_modifs p" "modify_rows p4 = modify_rows p" "chunk_to p4 = chunk_to p"
      "chunk_sync_idle_id p4 = chunk_sync_idle_id p" "force_direct_mapping p4 = force_direct_mapping p"
    by (simp_all add: p4_def p3_def p2_def)
  have fresh: "i \<notin> set (new_rows p)" "modif_at p i = None"
  proof -
    show "modif_at p i = None"
      using px_inv_fresh [OF inv] by (simp add: i_def modif_at_def map_of_eq_None_iff)
    then show "i \<notin> set (new_rows p)" using px_inv_new_row [OF inv, of i] by simp
  qed
  have number: "row_modif_to_absolute_row p3 i rm = model_nb_rows p + int ?m"
  proof -
    have "slist_index i (new_rows p @ [i]) = int ?m"
      using fresh(1) px_inv_distinct_new [OF inv] slist_index_nth [of "new_rows p @ [i]" ?m] by simp
    then show ?thesis using rm(1) n by (simp add: row_modif_to_absolute_row_def is_new_def p3_def p2_def)
  qed
  have ready: "edit_ready dm p4"
  proof -
    have "px_inv (p2\<lparr>new_rows := new_rows p2 @ [i]\<rparr>)"
    proof (rule inv_append [OF inv rm(1) _ prep])
      have "model_nb_cols p \<noteq> 0" using p by (simp add: edit_ready_def)
      moreover have "\<forall>rv \<in> set (rm_modify_values rm). rv_column rv < model_nb_cols p"
        by (simp add: rm(2) default_row_value_def Let_def)
      ultimately show "modif_wf p2 i rm"
        using rm(1,3-5) cols by (simp add: modif_wf_def p2_def rm(2))
    qed
    then have "px_inv p4" by (simp add: p4_def p3_def)
    moreover have "modif_ready dm (model_nb_cols p) x" if "modif_at p4 k = Some x" for k x
    proof (cases "k = i")
      case True
      then have "x = rm" using that same(7) by (simp add: modif_at_def)
      moreover have "rv_column ` set (rm_modify_values rm) = {..<model_nb_cols p}"
        using arg_cong [OF cols, of set] by auto
      ultimately show ?thesis using rm(1) by (simp add: modif_ready_def)
    next
      case False
      then show ?thesis using that same(7) edit_ready_modif [OF p] by (simp add: modif_at_def)
    qed
    moreover have "\<exists>ws. m = ws @ map int [?n..<?n + Suc ?m] \<and> distinct ws \<and> set ws \<subseteq> {0..<model_nb_rows p}"
      if "chunk p4 = Some m" for m
    proof -
      obtain c where c: "chunk p = Some c" "m = c @ [model_nb_rows p + int ?m]"
        using \<open>chunk p4 = Some m\<close> number by (cases "chunk p") (simp_all add: p4_def p3_def p2_def)
      then obtain ws where "c = ws @ map int [?n..<?n + ?m]" "distinct ws" "set ws \<subseteq> {0..<model_nb_rows p}"
        using p by (auto simp: edit_ready_def)
      then show ?thesis using c(2) n by (intro exI [of _ ws]) simp
    qed
    ultimately show ?thesis using p fits same
      unfolding edit_ready_def modif_ready_def by (simp add: edit_ready_def)
  qed
  have rows: "old_rows p4 = old_rows p @ [model_nb_rows p + int ?m]"
    using number n by (cases "chunk p") (simp_all add: old_rows_def p4_def p3_def p2_def)
  have m_old: "modif_of p4 b = modif_of p b" if "0 \<le> b" "b < model_nb_rows p + int ?m" for b
  proof -
    have "modif_id_of p4 b = modif_id_of p b"
    proof (cases "b < model_nb_rows p")
      case False
      then show ?thesis using that n same by (simp add: modif_id_of_new slist_nth_def nth_append nat_less_iff)
    qed (use that same in \<open>simp add: modif_id_of_old\<close>)
    moreover have "k \<noteq> i" if "modif_id_of p b = Some k" for k
      using modif_of_modif [OF inv \<open>modif_id_of p b = Some k\<close>] fresh(2) by (metis option.distinct(1))
    ultimately show ?thesis using same(7) by (auto simp: modif_of_def modif_at_def split: bind_split)
  qed
  have m_new: "modif_of p4 (model_nb_rows p + int ?m) = Some rm"
    using n same by (simp add: modif_of_def modif_id_of_new slist_nth_def modif_at_def)
  have "map (seen_at dm p4) (old_rows p) = map (seen_at dm p) (old_rows p)"
    using old_rows_bounds(1) [OF p] m_old same by (auto simp: seen_at_def)
  moreover have "seen_at dm p4 (model_nb_rows p + int ?m) = added_row dm (model_nb_cols p)"
  proof -
    have "seen_cell dm (- 1) (Some rm) c = Some (contents_of (rv_value (default_row_value dm c)))" if "c < model_nb_cols p" for c
    proof -
      have "find_row_value c (map (default_row_value dm) cs) = Some (default_row_value dm c)" if "c \<in> set cs" for cs
        using that by (induction cs) (auto simp: find_row_value_Cons default_row_value_def Let_def)
      then show ?thesis using that by (simp add: seen_cell_def rm(2))
    qed
    then show ?thesis using same(1,2) m_new rm(3) by (simp add: seen_at_def seen_def added_row_def)
  qed
  ultimately have v: "view dm p4 = view dm p @ [added_row dm (model_nb_cols p)]"
    using view_seen [OF ready] view_seen [OF p] rows same(2,3) by (simp add: null_view_def)
  have row: "row = int (length (view dm p))"
    using ready_rows(1) [OF p] ready_rows(1) [OF ready] rows view_seen [OF p]
    by (cases "chunk p") (auto simp: row_def p3_def p2_def null_rows_def null_view_def old_rows_def same)
  have insert: "AccessInsert \<in> gda_data_proxy_get_access_flags dm" using access by (simp add: gda_data_proxy_get_access_flags_def)
  obtain cs where ins: "px_row_inserted dm row p4 = Returns (px_notify (PxInserted row) (p4\<lparr>px_columns := cs\<rparr>))"
    using px_row_inserted_live [OF px_inv_live [OF edit_ready_inv [OF ready]]] by blast
  define p5 where "p5 = px_notify (PxInserted row) (p4\<lparr>px_columns := cs\<rparr>)"
  have call: "gda_data_proxy_append_row dm p = Returns (row, p5)"
  proof -
    have "gda_data_proxy_append dm p = bind_outcome (if notify_changes p4 then px_row_inserted dm row p4 else Returns p4) (\<lambda>p5. Returns (row, p5))"
      using n p insert by (simp add: gda_data_proxy_append_def Let_def prep p3_def p4_def row_def flip: rm_def cong: option.case_cong)
    then show ?thesis using ins edit_ready_notifies [OF ready] by (simp add: gda_data_proxy_append_row_def p5_def)
  qed
  have cols_unrelated: "edit_ready dm (p4\<lparr>px_columns := cs\<rparr>)" "view dm (p4\<lparr>px_columns := cs\<rparr>) = view dm p4"
  proof -
    have at: "modif_at (p4\<lparr>px_columns := cs\<rparr>) = modif_at p4" by (simp add: fun_eq_iff modif_at_def)
    show r: "edit_ready dm (p4\<lparr>px_columns := cs\<rparr>)" using ready by (simp add: edit_ready_def at)
    have "seen_at dm (p4\<lparr>px_columns := cs\<rparr>) = seen_at dm p4"
      by (simp add: fun_eq_iff seen_at_def modif_of_def modif_id_of_def absolute_row_to_model_row_def at)
    then show "view dm (p4\<lparr>px_columns := cs\<rparr>) = view dm p4"
      by (simp add: view_seen [OF r] view_seen [OF ready] old_rows_def null_view_def cong: option.case_cong)
  qed
  then have p5: "edit_ready dm p5" "view dm p5 = view dm p @ [added_row dm (model_nb_cols p)]" by (simp_all add: p5_def v)
  have "px_signals p5 = px_signals p @ [PxInserted row]"
    using edit_ready_notifies [OF ready] same(6) by (simp add: p5_def px_notify_def px_emit_def)
  moreover have "read_row dm p5 row = added_row dm (model_nb_cols p)"
    using p5(2) row by (subst read_view) simp_all
  ultimately have "told dm p p5" using p5(2) row by (simp add: told_def observe_def g_array_insert_val_def)
  moreover have "edited dm (\<lambda>t. t @ [added_row dm (model_nb_cols p)]) p p5"
    using p5 same by (simp add: edited_def p5_def px_notify_eq)
  moreover have "length (new_rows p5) = Suc ?m" using same by (simp add: p5_def px_notify_eq)
  ultimately show ?append using call row by blast
  have "gda_data_proxy_append dm (p\<lparr>notify_changes := False\<rparr>) = Returns (row, p4\<lparr>notify_changes := False\<rparr>)"
  proof -
    let ?q = "p\<lparr>notify_changes := False\<rparr>"
    have rm': "(row_modifs_new dm ?q (- 1))\<lparr>rm_model_row := - 1, rm_orig_values := None, rm_orig_values_size := model_nb_cols p,
        rm_modify_values := map (default_row_value dm) (rev [0..<model_nb_cols p])\<rparr> = rm"
      by (simp add: rm_def row_modifs_new_def)
    have prep': "prepend_modif rm ?q = (i, p2\<lparr>notify_changes := False\<rparr>)" by (simp add: prepend_modif_def p2_def i_def)
    have "ensure_chunk_sync dm ?q = Returns ?q" using p by (simp add: edit_ready_def ensure_chunk_sync_def)
    then show ?thesis
      using n insert by (simp add: gda_data_proxy_append_def Let_def prep' rm')
        (simp add: row_def p4_def p3_def p2_def null_rows_def row_modif_to_absolute_row_def
          gda_data_proxy_get_n_rows_def cong: option.case_cong)
  qed
  moreover have "edited dm (\<lambda>t. t @ [added_row dm (model_nb_cols p)]) p p4" using ready v same by (simp add: edited_def)
  ultimately show ?silent using row same(6) by blast
qed

section \<open>Marks of deletion\<close>

lemma update_const:
  assumes "px_inv p" "modif_at p i = Some rm"
  shows "update_modif i f p = update_modif i (\<lambda>_. f rm) p"
proof -
  have "map (\<lambda>(j, x). (j, if j = i then f x else x)) (all_modifs p) = map (\<lambda>(j, x). (j, if j = i then f rm else x)) (all_modifs p)"
  proof (rule map_cong [OF refl])
    fix e assume e: "e \<in> set (all_modifs p)"
    have "x = rm" if "(i, x) \<in> set (all_modifs p)" for x using modif_at_iff [OF assms(1), of i x] assms(2) that by simp
    then show "(case e of (j, x) \<Rightarrow> (j, if j = i then f x else x)) = (case e of (j, x) \<Rightarrow> (j, if j = i then f rm else x))"
      using e by (cases e) auto
  qed
  then show ?thesis by (simp add: update_modif_def)
qed

lemma marked_modif:
  assumes p: "edit_ready dm p" and a: "modif_id_of p a = Some i" "modif_of p a = Some rm" "\<not> is_new rm" "0 \<le> a" "a < model_nb_rows p"
    and b: "b \<or> rm_modify_values rm \<noteq> []"
  defines "p' \<equiv> update_modif i (\<lambda>rm. rm\<lparr>rm_to_be_deleted := b\<rparr>) p"
  shows "edit_ready dm p'" "changes_only a p p'" "modif_of p' a = Some (rm\<lparr>rm_to_be_deleted := b\<rparr>)"
    "seen_at dm p' a = (seen_at dm p a)\<lparr>sr_deleted := b\<rparr>" "px_signals p' = px_signals p"
proof -
  have inv: "px_inv p" using p by (rule edit_ready_inv)
  have at: "modif_at p i = Some rm" using a(1,2) by (simp add: modif_of_def)
  have p': "p' = update_modif i (\<lambda>_. rm\<lparr>rm_to_be_deleted := b\<rparr>) p" unfolding p'_def by (rule update_const [OF inv at])
  have "modif_wf p i (rm\<lparr>rm_to_be_deleted := b\<rparr>)"
    using px_inv_modif [OF inv at] a(3) b by (simp add: modif_wf_def is_new_def)
  moreover have "modif_ready dm (model_nb_cols p) (rm\<lparr>rm_to_be_deleted := b\<rparr>)"
    using edit_ready_modif [OF p at] by (simp add: modif_ready_def is_new_def)
  ultimately show r: "edit_ready dm p'" "changes_only a p p'" and m: "modif_of p' a = Some (rm\<lparr>rm_to_be_deleted := b\<rparr>)"
    using update_ready [OF p a(1,2), of "rm\<lparr>rm_to_be_deleted := b\<rparr>"] by (simp_all add: p')
  from m show "seen_at dm p' a = (seen_at dm p a)\<lparr>sr_deleted := b\<rparr>"
    using a(2) r(2) by (simp add: seen_at_def seen_def changes_only_def seen_cell_def fun_eq_iff)
  show "px_signals p' = px_signals p" by (simp add: p' update_modif_def)
qed

lemma row_modif_cases:
  assumes p: "edit_ready dm p" and a: "proxy_row_to_absolute_row p r = a" "0 \<le> a" "a < model_nb_rows p + int (length (new_rows p))"
  obtains (unmodified) "row_modif_of p r = Returns None" "modif_id_of p a = None" "modif_of p a = None" "a < model_nb_rows p"
  | (old) i rm where "row_modif_of p r = Returns (Some (i, rm))" "modif_id_of p a = Some i" "modif_of p a = Some rm"
      "modif_at p i = Some rm" "modif_wf p i rm" "a < model_nb_rows p" "\<not> is_new rm" "rm_model_row rm = a"
  | (new) i rm where "row_modif_of p r = Returns (Some (i, rm))" "modif_id_of p a = Some i" "modif_of p a = Some rm"
      "modif_at p i = Some rm" "modif_wf p i rm" "model_nb_rows p \<le> a" "is_new rm"
proof (cases "modif_id_of p a")
  case None
  then have "a < model_nb_rows p" using new_row_present [OF edit_ready_inv [OF p] _ a(3)] by fastforce
  then show thesis using None unmodified a(1) row_modif_of_eq [OF edit_ready_inv [OF p], of r] by (simp add: modif_of_def)
next
  case (Some i)
  then obtain rm where rm: "modif_at p i = Some rm" "modif_of p a = Some rm" "modif_wf p i rm"
      "if a < model_nb_rows p then \<not> is_new rm \<and> rm_model_row rm = a else is_new rm"
    using modif_of_modif [OF edit_ready_inv [OF p]] by metis
  then have "row_modif_of p r = Returns (Some (i, rm))" using Some a(1) row_modif_of_eq [OF edit_ready_inv [OF p], of r] by simp
  then show thesis using old new Some rm by (cases "a < model_nb_rows p") auto
qed

lemma row_edit:
  assumes p: "edit_ready dm p" and r: "0 \<le> r" "nat r < length (view dm p)" "\<not> (add_null_entry p \<and> r = 0)" "proxy_row_to_absolute_row p r = a"
    and p': "edit_ready dm p'" "changes_only a p p'" "seen_at dm p' a = f (seen_at dm p a)" "px_signals p' = px_signals p"
  shows "edited dm (at_row r f) p (px_notify (PxUpdated r) p')" "told dm p (px_notify (PxUpdated r) p')"
    "edited dm (at_row r f) p (delete_changed r b p')" "told dm p (delete_changed r b p')" "edited dm (at_row r f) p p'"
proof -
  show e: "edited dm (at_row r f) p p'" by (rule row_edited [where f = f, OF p p'(1,2) r p'(3)])
  then show "edited dm (at_row r f) p (px_notify (PxUpdated r) p')" "edited dm (at_row r f) p (delete_changed r b p')"
    by (rule edited_notify)+
  show "told dm p (px_notify (PxUpdated r) p')" "told dm p (delete_changed r b p')"
    using told_notify [OF e p p'(4) r(1,2)] by auto
qed

lemma row_same:
  assumes p: "edit_ready dm p" and r: "0 \<le> r" "nat r < length (view dm p)" "f (view dm p ! nat r) = view dm p ! nat r"
  shows "edited dm (at_row r f) p p"
  using p at_row_same [of r "view dm p" f] r by simp

lemma remove_row_edits:
  assumes p: "edit_ready dm p" and access: "AccessDelete \<in> dm_access dm"
    and r: "0 \<le> r" "nat r < length (view dm p)" "\<not> (add_null_entry p \<and> r = 0)"
  shows "\<exists>p'. gda_data_proxy_remove_row dm p r = Returns (True, None, p') \<and> told dm p p' \<and>
    edited dm (if sr_added (view dm p ! nat r) then without_row r else at_row r (\<lambda>row. row\<lparr>sr_deleted := True\<rparr>)) p p'"
proof -
  have inv: "px_inv p" using p by (rule edit_ready_inv)
  obtain a where a: "proxy_row_to_absolute_row p r = a" "0 \<le> a" "a < model_nb_rows p + int (length (new_rows p))"
      "view dm p ! nat r = seen_at dm p a"
    using ready_row [OF p r] by metis
  have added: "sr_added (view dm p ! nat r) \<longleftrightarrow> model_nb_rows p \<le> a" using a by (auto simp: seen_at_def seen_def)
  have "AccessDelete \<in> gda_data_proxy_get_access_flags dm" using access by (simp add: gda_data_proxy_get_access_flags_def)
  note defs = gda_data_proxy_remove_row_def gda_data_proxy_delete_def this ensure_ready [OF p]
  from p a(1-3) show ?thesis
  proof (cases rule: row_modif_cases)
    case unmodified
    have row: "proxy_row_to_model_row p r = a" using a unmodified inv model_row_eq [of p r] by (simp add: px_inv_def)
    let ?rm = "(row_modifs_new dm p r)\<lparr>rm_to_be_deleted := True\<rparr>"
    define p' where "p' = snd (add_row_modif ?rm a p)"
    have new: "?rm = \<lparr>rm_model_row = 0, rm_to_be_deleted = True, rm_modify_values = [],
        rm_orig_values = Some (map (\<lambda>c. dm_value_at dm c a) [0..<model_nb_cols p]), rm_orig_values_size = model_nb_cols p\<rparr>"
      using row_modifs_new_simps [OF r(1) row a(2)] by simp
    have p': "edit_ready dm p'" "changes_only a p p'" "modif_of p' a = Some (?rm\<lparr>rm_model_row := a\<rparr>)"
      unfolding p'_def by (rule add_ready [OF p unmodified(2) a(2) unmodified(4)]; simp add: new)+
    have "seen_at dm p' a = (seen_at dm p a)\<lparr>sr_deleted := True\<rparr>"
      using p'(2,3) unmodified(3) by (simp add: seen_at_def seen_def changes_only_def seen_cell_def new fun_eq_iff find_row_value_def)
    moreover have "px_signals p' = px_signals p" by (simp add: p'_def add_row_modif_def prepend_modif_def hash_insert_def)
    moreover have "gda_data_proxy_remove_row dm p r = Returns (True, None, delete_changed r True p')"
      using r(1,3) unmodified(1) row by (auto simp: defs p'_def)
    ultimately show ?thesis using row_edit(3,4) [where f = "\<lambda>row. row\<lparr>sr_deleted := True\<rparr>", OF p r a(1) p'(1,2)] unmodified(4) added by auto
  next
    case (old i rm)
    let ?p = "update_modif i (\<lambda>rm. rm\<lparr>rm_to_be_deleted := True\<rparr>) p"
    note m = marked_modif(1,2,4,5) [OF p old(2,3,7) a(2) old(6), of True, simplified]
    show ?thesis
    proof (cases "rm_to_be_deleted rm")
      case True
      have "gda_data_proxy_remove_row dm p r = Returns (True, None, p)" using r(1,3) old(1) True by (auto simp: defs)
      moreover have "(view dm p ! nat r)\<lparr>sr_deleted := True\<rparr> = view dm p ! nat r"
        using True old(3) by (simp add: a(4) seen_at_def seen_def)
      ultimately show ?thesis using row_same [OF p r(1,2), of "\<lambda>row. row\<lparr>sr_deleted := True\<rparr>"] added old(6) by auto
    next
      case False
      have "gda_data_proxy_remove_row dm p r = Returns (True, None, delete_changed r True ?p)"
        using r(1,3) old(1,7) False by (auto simp: defs is_new_def)
      then show ?thesis using row_edit(3,4) [where f = "\<lambda>row. row\<lparr>sr_deleted := True\<rparr>", OF p r a(1) m] added old(6) by auto
    qed
  next
    case (new i rm)
    have "\<not> rm_to_be_deleted rm" "rm_model_row rm = - 1" using new(5,7) by (simp_all add: modif_wf_def is_new_def)
    then have "gda_data_proxy_remove_row dm p r = Returns (True, None, px_notify (PxRemoved r) (withdrawn i a r p))"
      using r(1,3) new(1) a(1) by (auto simp: defs withdrawn_def)
    then show ?thesis
      using withdrawn_view [OF p r a(1) new(2,6)] added new(6) edited_notify(1) by fastforce
  qed
qed

text \<open>The null row has no modification.\<close>

lemma null_row:
  assumes p: "edit_ready dm p" and b: "add_null_entry p"
  shows "row_modif_of p 0 = Returns None" "view dm p ! 0 = null_seen (model_nb_cols p)"
proof -
  have "proxy_row_to_absolute_row p 0 = - 1" using p b by (simp add: proxy_row_to_absolute_row_def edit_ready_def)
  then show "row_modif_of p 0 = Returns None"
    by (simp add: row_modif_of_def proxy_row_to_row_modif_def absolute_row_to_model_row_def)
  show "view dm p ! 0 = null_seen (model_nb_cols p)" using b by (simp add: view_seen [OF p] null_view_def)
qed

lemma undelete_edits:
  assumes p: "edit_ready dm p" and r: "0 \<le> r" "nat r < length (view dm p)"
  shows "\<exists>p'. gda_data_proxy_undelete dm p r = Returns p' \<and> told dm p p' \<and> edited dm (at_row r (\<lambda>row. row\<lparr>sr_deleted := False\<rparr>)) p p'"
proof -
  have inv: "px_inv p" using p by (rule edit_ready_inv)
  note defs = gda_data_proxy_undelete_def ensure_ready [OF p]
  have same: ?thesis if "row_modif_of p r = Returns None" "\<not> sr_deleted (view dm p ! nat r)"
  proof -
    have "edited dm (at_row r (\<lambda>row. row\<lparr>sr_deleted := False\<rparr>)) p p"
      using that(2) by (intro row_same [OF p r]) simp
    then show ?thesis using that(1) r(1) by (auto simp: defs)
  qed
  show ?thesis
  proof (cases "add_null_entry p \<and> r = 0")
    case True
    then show ?thesis using same null_row [OF p] by (simp add: null_seen_def)
  next
    case False
    then obtain a where a: "proxy_row_to_absolute_row p r = a" "0 \<le> a" "a < model_nb_rows p + int (length (new_rows p))"
        "view dm p ! nat r = seen_at dm p a"
      using ready_row [OF p r] by metis
    from p a(1-3) show ?thesis
    proof (cases rule: row_modif_cases)
      case unmodified
      then show ?thesis using same by (simp add: a(4) seen_at_def seen_def)
    next
      case (old i rm)
      have row: "proxy_row_to_model_row p r = a" using a old(6) inv model_row_eq [of p r] by (simp add: px_inv_def)
      show ?thesis
      proof (cases "rm_modify_values rm = []")
        case True
        let ?p = "remove_modif i (hash_remove a p)"
        have d: "edit_ready dm ?p" "changes_only a p ?p" "modif_of ?p a = None" using drop_ready [OF p old(2) a(2) old(6)] by simp_all
        then have "seen_at dm ?p a = (seen_at dm p a)\<lparr>sr_deleted := False\<rparr>"
          using True old(3) by (simp add: seen_at_def seen_def changes_only_def seen_cell_def fun_eq_iff find_row_value_def)
        moreover have "px_signals ?p = px_signals p" by (simp add: remove_modif_def hash_remove_def)
        moreover have "gda_data_proxy_undelete dm p r = Returns (delete_changed r False ?p)"
          using r(1) old(1) True row by (simp add: defs)
        ultimately show ?thesis
          using row_edit(3,4) [where f = "\<lambda>row. row\<lparr>sr_deleted := False\<rparr>", OF p r False a(1) d(1,2)] by auto
      next
        case nonempty: False
        have "gda_data_proxy_undelete dm p r = Returns (delete_changed r False (update_modif i (\<lambda>rm. rm\<lparr>rm_to_be_deleted := False\<rparr>) p))"
          using r(1) old(1) nonempty by (simp add: defs)
        moreover note m = marked_modif(1,2,4,5) [OF p old(2,3,7) a(2) old(6), of False]
        ultimately show ?thesis
          using row_edit(3,4) [where f = "\<lambda>row. row\<lparr>sr_deleted := False\<rparr>", OF p r False a(1) m] nonempty by auto
      qed
    next
      case (new i rm)
      let ?p = "update_modif i (\<lambda>rm. rm\<lparr>rm_to_be_deleted := False\<rparr>) p"
      have wf: "\<not> rm_to_be_deleted rm" "rm_modify_values rm \<noteq> []" using new(5,7) by (auto simp: modif_wf_def)
      then have "rm\<lparr>rm_to_be_deleted := False\<rparr> = rm" by (intro row_modif.equality) simp_all
      then have "?p = update_modif i (\<lambda>_. rm) p" using update_const [OF inv new(4), of "\<lambda>rm. rm\<lparr>rm_to_be_deleted := False\<rparr>"] by simp
      then have u: "edit_ready dm ?p" "changes_only a p ?p" "modif_of ?p a = Some rm" "px_signals ?p = px_signals p"
        using update_ready [OF p new(2,3) refl new(5) edit_ready_modif [OF p new(4)]] by (simp_all add: update_modif_def)
      have "seen_at dm ?p a = (seen_at dm p a)\<lparr>sr_deleted := False\<rparr>"
        using u(2,3) new(3) wf(1) by (simp add: seen_at_def seen_def changes_only_def)
      moreover have "gda_data_proxy_undelete dm p r = Returns (delete_changed r False ?p)" using r(1) new(1) wf(2) by (simp add: defs)
      ultimately show ?thesis
        using row_edit(3,4) [where f = "\<lambda>row. row\<lparr>sr_deleted := False\<rparr>", OF p r False a(1) u(1,2)] u(4) by auto
    qed
  qed
qed

section \<open>Changes of a row are taken back\<close>

lemma cancel_loop_all:
  "cancel_loop (- 1) del kept rvs upd =
     (if rvs = [] then (kept, upd) else ([], upd \<or> del \<or> 1 < length (kept @ rvs)))"
proof (induction "- 1 :: int" del kept rvs upd rule: cancel_loop.induct)
  case (2 del kept rv rvs upd)
  show ?case
  proof (cases "kept @ rvs = [] \<and> \<not> del")
    case False
    then have "cancel_loop (- 1) del kept (rv # rvs) upd = cancel_loop (- 1) del [] (kept @ rvs) True"
      by (simp only: cancel_loop.simps(2) if_not_P [OF False]) simp
    also have "\<dots> = ([], True)" using 2(1) False by (cases "kept @ rvs = []") auto
    finally have loop: "cancel_loop (- 1) del kept (rv # rvs) upd = ([], True)" .
    have "upd \<or> del \<or> 1 < length (kept @ rv # rvs)" using False by (cases kept; cases rvs) auto
    then show ?thesis using loop by (simp only: list.simps if_False)
  qed auto
qed simp

lemma cancel_loop_one:
  "0 \<le> col \<Longrightarrow> cancel_loop col del kept rvs upd =
     (case find_row_value (nat col) rvs of
        None \<Rightarrow> (kept @ rvs, upd)
      | Some _ \<Rightarrow> (kept @ remove_row_value (nat col) rvs,
                   if kept @ remove_row_value (nat col) rvs = [] \<and> \<not> del then upd else True))"
proof (induction rvs arbitrary: kept upd)
  case (Cons rv rvs)
  then show ?case by (cases "int (rv_column rv) = col") (auto simp: find_row_value_Cons split: option.split)
qed (simp add: find_row_value_def)

text \<open>Whether the row changes without a signal: its only changed value is taken back.\<close>

definition silent_cancel :: "'v proxy \<Rightarrow> int \<Rightarrow> int \<Rightarrow> bool" where
  "silent_cancel p r col \<longleftrightarrow>
     (case modif_of p (proxy_row_to_absolute_row p r) of
        None \<Rightarrow> False
      | Some rm \<Rightarrow>
          \<not> is_new rm \<and> \<not> rm_to_be_deleted rm \<and> length (rm_modify_values rm) = 1 \<and>
          (col < 0 \<or> find_row_value (nat col) (rm_modify_values rm) \<noteq> None))"

lemma kept_values:
  assumes p: "edit_ready dm p" and a: "modif_id_of p a = Some i" "modif_of p a = Some rm" "\<not> is_new rm" "0 \<le> a" "a < model_nb_rows p"
    and rvs: "distinct (map rv_column rvs)" "\<forall>rv \<in> set rvs. rv_column rv < model_nb_cols p" "rm_to_be_deleted rm \<or> rvs \<noteq> []"
  defines "p' \<equiv> update_modif i (\<lambda>rm. rm\<lparr>rm_modify_values := rvs\<rparr>) p"
  shows "edit_ready dm p'" "changes_only a p p'" "modif_of p' a = Some (rm\<lparr>rm_modify_values := rvs\<rparr>)" "px_signals p' = px_signals p"
proof -
  have inv: "px_inv p" using p by (rule edit_ready_inv)
  have at: "modif_at p i = Some rm" using a(1,2) by (simp add: modif_of_def)
  have p': "p' = update_modif i (\<lambda>_. rm\<lparr>rm_modify_values := rvs\<rparr>) p" unfolding p'_def by (rule update_const [OF inv at])
  have "modif_wf p i (rm\<lparr>rm_modify_values := rvs\<rparr>)"
    using px_inv_modif [OF inv at] a(3) rvs by (simp add: modif_wf_def is_new_def)
  moreover have "modif_ready dm (model_nb_cols p) (rm\<lparr>rm_modify_values := rvs\<rparr>)"
    using edit_ready_modif [OF p at] a(3) by (simp add: modif_ready_def is_new_def)
  ultimately show "edit_ready dm p'" "changes_only a p p'" "modif_of p' a = Some (rm\<lparr>rm_modify_values := rvs\<rparr>)"
    using update_ready [OF p a(1,2), of "rm\<lparr>rm_modify_values := rvs\<rparr>"] by (simp_all add: p')
  show "px_signals p' = px_signals p" by (simp add: p' update_modif_def)
qed

text \<open>The values of a row of the proxied model without those of the columns \<open>cs\<close>.\<close>

definition restored_at :: "nat set \<Rightarrow> 'v seen_row \<Rightarrow> 'v seen_row" where
  "restored_at cs row =
     row\<lparr>sr_values := map (\<lambda>c. if c \<in> cs then sr_orig row ! c else sr_values row ! c) [0..<length (sr_values row)]\<rparr>"

lemma seen_restored:
  assumes "0 \<le> a" "\<And>c. c < n \<Longrightarrow> seen_cell dm a m' c = (if c \<in> cs then dm_value_at dm c a else seen_cell dm a m c)"
    "(case m' of None \<Rightarrow> False | Some rm \<Rightarrow> rm_to_be_deleted rm) = (case m of None \<Rightarrow> False | Some rm \<Rightarrow> rm_to_be_deleted rm)"
  shows "seen dm n a m' = restored_at cs (seen dm n a m)"
  using assms by (simp add: seen_def restored_at_def)

lemma cancel_old_row:
  assumes p: "edit_ready dm p" and r: "0 \<le> r" "nat r < length (view dm p)" "\<not> (add_null_entry p \<and> r = 0)"
    and a: "proxy_row_to_absolute_row p r = a" "0 \<le> a" "a < model_nb_rows p"
    and m: "row_modif_of p r = Returns (Some (i, rm))" "modif_id_of p a = Some i" "modif_of p a = Some rm" "modif_wf p i rm"
      "\<not> is_new rm" "rm_model_row rm = a"
    and col: "col < int (model_nb_cols p)"
    and rvs: "cancel_loop col (rm_to_be_deleted rm) [] (rm_modify_values rm) False = (rvs, upd)" "rm_modify_values rm \<noteq> []"
      "\<And>c. find_row_value c rvs = (if c \<in> cs then None else find_row_value c (rm_modify_values rm))"
      "distinct (map rv_column rvs)" "set rvs \<subseteq> set (rm_modify_values rm)"
  shows "\<exists>p'. gda_data_proxy_cancel_row_changes dm p r col = Returns p' \<and> edited dm (at_row r (restored_at cs)) p p' \<and>
    (upd \<longrightarrow> told dm p p') \<and> (\<not> upd \<longrightarrow> px_signals p' = px_signals p)"
proof -
  have inv: "px_inv p" using p by (rule edit_ready_inv)
  define p' where "p' = (if rvs = [] \<and> \<not> rm_to_be_deleted rm then hash_remove a (remove_modif i p)
      else update_modif i (\<lambda>rm. rm\<lparr>rm_modify_values := rvs\<rparr>) p)"
  have call: "gda_data_proxy_cancel_row_changes dm p r col = Returns ((if upd then px_notify (PxUpdated r) else id) p')"
    using r(1) m(1,6) a(2) col rvs(1,2) by (simp add: gda_data_proxy_cancel_row_changes_def ensure_ready [OF p] p'_def)
  have p': "edit_ready dm p'" "changes_only a p p'" "px_signals p' = px_signals p" "seen_at dm p' a = restored_at cs (seen_at dm p a)"
  proof -
    have cell: "seen_cell dm a (Some (rm\<lparr>rm_modify_values := rvs\<rparr>)) c = (if c \<in> cs then dm_value_at dm c a else seen_cell dm a (Some rm) c)" for c
      using rvs(3) [of c] a(2) by (simp add: seen_cell_def model_value_def)
    have "edit_ready dm p' \<and> changes_only a p p' \<and> px_signals p' = px_signals p \<and> seen_at dm p' a = restored_at cs (seen_at dm p a)"
    proof (cases "rvs = [] \<and> \<not> rm_to_be_deleted rm")
      case True
      have "p' = remove_modif i (hash_remove a p)" using True by (simp add: p'_def remove_modif_def hash_remove_def)
      then have d: "edit_ready dm p'" "changes_only a p p'" "modif_of p' a = None" "px_signals p' = px_signals p"
        using drop_ready [OF p m(2) a(2,3)] by (simp_all add: remove_modif_def hash_remove_def)
      have "seen_cell dm a None c = seen_cell dm a (Some (rm\<lparr>rm_modify_values := rvs\<rparr>)) c" for c
        using True by (simp add: seen_cell_def find_row_value_def)
      then have "seen_cell dm a None c = (if c \<in> cs then dm_value_at dm c a else seen_cell dm a (Some rm) c)" for c
        using cell [of c] by (rule trans)
      then have "seen dm (model_nb_cols p) a None = restored_at cs (seen dm (model_nb_cols p) a (Some rm))"
        using True a(2) by (intro seen_restored) simp_all
      then show ?thesis using d m(3) a(3) by (simp add: seen_at_def changes_only_def)
    next
      case False
      have small: "\<forall>rv \<in> set rvs. rv_column rv < model_nb_cols p" using m(4) rvs(5) by (auto simp: modif_wf_def)
      have keep: "rm_to_be_deleted rm \<or> rvs \<noteq> []" using False by blast
      have "p' = update_modif i (\<lambda>rm. rm\<lparr>rm_modify_values := rvs\<rparr>) p" unfolding p'_def by (rule if_not_P [OF False])
      then have u: "edit_ready dm p'" "changes_only a p p'" "modif_of p' a = Some (rm\<lparr>rm_modify_values := rvs\<rparr>)" "px_signals p' = px_signals p"
        using kept_values [OF p m(2,3,5) a(2,3) rvs(4) small keep] by simp_all
      have "seen dm (model_nb_cols p) a (Some (rm\<lparr>rm_modify_values := rvs\<rparr>)) = restored_at cs (seen dm (model_nb_cols p) a (Some rm))"
        using a(2) by (intro seen_restored) (simp_all add: cell)
      then show ?thesis using u m(3) a(3) by (simp add: seen_at_def changes_only_def)
    qed
    then show "edit_ready dm p'" "changes_only a p p'" "px_signals p' = px_signals p" "seen_at dm p' a = restored_at cs (seen_at dm p a)"
      by blast+
  qed
  note e = row_edit [where f = "restored_at cs", OF p r a(1) p'(1,2,4,3)]
  show ?thesis using call e(1,2,5) p'(3) by (cases upd) auto
qed

lemma restored_at_all: "length (sr_orig row) = length (sr_values row) \<Longrightarrow> restored_at {..<length (sr_values row)} row = restored row"
  by (auto simp: restored_at_def restored_def intro!: seen_row.equality nth_equalityI)

lemma restored_at_one:
  "c < length (sr_values row) \<Longrightarrow> restored_at {c} row = row\<lparr>sr_values := (sr_values row)[c := sr_orig row ! c]\<rparr>"
  by (auto simp: restored_at_def intro!: seen_row.equality nth_equalityI)

lemma seen_lengths:
  assumes "edit_ready dm p" "nat r < length (view dm p)" "0 \<le> r"
  shows "length (sr_values (view dm p ! nat r)) = model_nb_cols p" "length (sr_orig (view dm p ! nat r)) = model_nb_cols p"
  using read_view [OF assms(3,2)] by (simp_all add: read_row_def flip: read_view [OF assms(3,2)])

lemma at_row_cong: "0 \<le> r \<Longrightarrow> nat r < length t \<Longrightarrow> f (t ! nat r) = g (t ! nat r) \<Longrightarrow> at_row r f t = at_row r g t"
  by (simp add: at_row_def)

text \<open>A row that has no changed values is as it was.\<close>

lemma cancel_nothing:
  assumes p: "edit_ready dm p" and r: "0 \<le> r" "nat r < length (view dm p)" and col: "col < int (model_nb_cols p)"
    and m: "row_modif_of p r = Returns None \<or> (\<exists>i rm. row_modif_of p r = Returns (Some (i, rm)) \<and> rm_modify_values rm = [])"
    and same: "\<And>c. c < model_nb_cols p \<Longrightarrow> sr_values (view dm p ! nat r) ! c = sr_orig (view dm p ! nat r) ! c"
  shows "gda_data_proxy_cancel_row_changes dm p r col = Returns p" "edited dm (at_row r (restored_at cs)) p p"
proof -
  show "gda_data_proxy_cancel_row_changes dm p r col = Returns p"
    using r(1) col m by (auto simp: gda_data_proxy_cancel_row_changes_def ensure_ready [OF p])
  have "restored_at cs (view dm p ! nat r) = view dm p ! nat r"
    using same seen_lengths [OF p r(2,1)] by (auto simp: restored_at_def intro!: seen_row.equality nth_equalityI)
  then show "edited dm (at_row r (restored_at cs)) p p" by (rule row_same [OF p r])
qed

lemma unmodified_values:
  assumes "a < model_nb_rows p" "0 \<le> a" "\<And>c. Option.bind (modif_of p a) (\<lambda>rm. find_row_value c (rm_modify_values rm)) = None" "c < model_nb_cols p"
  shows "sr_values (seen_at dm p a) ! c = sr_orig (seen_at dm p a) ! c"
  using assms by (simp add: seen_at_def seen_def seen_cell_def model_value_def)

lemma cancel_edits:
  assumes p: "edit_ready dm p" and r: "0 \<le> r" "nat r < length (view dm p)" and col: "col < int (model_nb_cols p)"
    and one: "0 \<le> col \<longrightarrow> \<not> sr_added (view dm p ! nat r)" and all: "col < 0 \<longrightarrow> col = - 1"
  defines "cs \<equiv> (if col < 0 then {..<model_nb_cols p} else {nat col})"
  shows "\<exists>p'. gda_data_proxy_cancel_row_changes dm p r col = Returns p' \<and>
    edited dm (if sr_added (view dm p ! nat r) then without_row r else at_row r (restored_at cs)) p p' \<and>
    (if silent_cancel p r col then px_signals p' = px_signals p else told dm p p')"
proof (cases "add_null_entry p \<and> r = 0")
  case True
  have "modif_of p (proxy_row_to_absolute_row p r) = None"
    using True p by (simp add: proxy_row_to_absolute_row_def edit_ready_def modif_of_def modif_id_of_def absolute_row_to_model_row_def)
  then have "\<not> silent_cancel p r col" by (simp add: silent_cancel_def)
  moreover have "row_modif_of p r = Returns None" "\<not> sr_added (view dm p ! nat r)"
    "\<And>c. c < model_nb_cols p \<Longrightarrow> sr_values (view dm p ! nat r) ! c = sr_orig (view dm p ! nat r) ! c"
    using True null_row [OF p] by (simp_all add: null_seen_def)
  ultimately show ?thesis using cancel_nothing [OF p r col] by auto
next
  case False
  then obtain a where a: "proxy_row_to_absolute_row p r = a" "0 \<le> a" "a < model_nb_rows p + int (length (new_rows p))"
      "view dm p ! nat r = seen_at dm p a"
    using ready_row [OF p r] by metis
  have added: "sr_added (view dm p ! nat r) \<longleftrightarrow> model_nb_rows p \<le> a" using a by (auto simp: seen_at_def seen_def)
  from p a(1-3) show ?thesis
  proof (cases rule: row_modif_cases)
    case unmodified
    then have "\<not> silent_cancel p r col" using a(1) by (simp add: silent_cancel_def)
    moreover have "sr_values (view dm p ! nat r) ! c = sr_orig (view dm p ! nat r) ! c" if "c < model_nb_cols p" for c
      unfolding a(4) using unmodified a(2) that by (intro unmodified_values) simp_all
    ultimately show ?thesis using cancel_nothing [OF p r col] unmodified added by auto
  next
    case (old i rm)
    have silent: "silent_cancel p r col \<longleftrightarrow> \<not> rm_to_be_deleted rm \<and> length (rm_modify_values rm) = 1 \<and>
        (col < 0 \<or> find_row_value (nat col) (rm_modify_values rm) \<noteq> None)"
      using old(3,7) a(1) by (simp add: silent_cancel_def)
    have wf: "distinct (map rv_column (rm_modify_values rm))" "\<forall>rv \<in> set (rm_modify_values rm). rv_column rv < model_nb_cols p"
        "rm_to_be_deleted rm \<or> rm_modify_values rm \<noteq> []"
      using old(5) by (auto simp: modif_wf_def)
    show ?thesis
    proof (cases "rm_modify_values rm = []")
      case True
      then have "\<not> silent_cancel p r col" by (simp add: silent)
      moreover have "sr_values (view dm p ! nat r) ! c = sr_orig (view dm p ! nat r) ! c" if "c < model_nb_cols p" for c
        unfolding a(4) using True old a(2) that by (intro unmodified_values) (simp_all add: find_row_value_def)
      ultimately show ?thesis using cancel_nothing [OF p r col] True old(1,6) added by auto
    next
      case nonempty: False
      obtain rvs upd where loop: "cancel_loop col (rm_to_be_deleted rm) [] (rm_modify_values rm) False = (rvs, upd)" by fastforce
      have "(\<forall>c. find_row_value c rvs = (if c \<in> cs then None else find_row_value c (rm_modify_values rm))) \<and>
          distinct (map rv_column rvs) \<and> set rvs \<subseteq> set (rm_modify_values rm) \<and>
          (silent_cancel p r col \<longleftrightarrow> \<not> upd \<and> rvs \<noteq> rm_modify_values rm)"
      proof (cases "col < 0")
        case True
        then have "rvs = []" "upd \<longleftrightarrow> rm_to_be_deleted rm \<or> 1 < length (rm_modify_values rm)"
          using loop all nonempty by (auto simp: cancel_loop_all)
        moreover have "find_row_value c (rm_modify_values rm) = None" if "c \<notin> cs" for c
          using that wf(2) True by (auto simp: cs_def find_row_value_none)
        ultimately show ?thesis using True nonempty silent by (cases "rm_modify_values rm") (auto simp: find_row_value_def [of _ "[]"])
      next
        case False
        have "set (remove_row_value c rvs) \<subseteq> set rvs" for c and rvs :: "'a row_value list" by (induction rvs) auto
        moreover have "distinct (map rv_column (remove_row_value c (rm_modify_values rm)))" for c
          using wf(1) by (simp add: remove_row_value_columns distinct_remove1)
        moreover have "remove_row_value c rvs = [] \<longleftrightarrow> length rvs = 1" "remove_row_value c rvs \<noteq> rvs"
          if "find_row_value c rvs \<noteq> None" for c and rvs :: "'a row_value list"
        proof -
          have "length (remove_row_value c rvs) = length rvs - 1 \<and> rvs \<noteq> []"
            using that by (induction rvs) (auto simp: find_row_value_Cons find_row_value_def [of _ "[]"] split: if_splits)
          then show "remove_row_value c rvs = [] \<longleftrightarrow> length rvs = 1" "remove_row_value c rvs \<noteq> rvs"
            by (cases rvs; auto)+
        qed
        ultimately show ?thesis
          using loop False find_removed [OF wf(1)] silent wf
          by (cases "find_row_value (nat col) (rm_modify_values rm)") (auto simp: cancel_loop_one cs_def)
      qed
      then have found: "\<And>c. find_row_value c rvs = (if c \<in> cs then None else find_row_value c (rm_modify_values rm))"
          and loop': "distinct (map rv_column rvs)" "set rvs \<subseteq> set (rm_modify_values rm)"
          and upd: "silent_cancel p r col \<longleftrightarrow> \<not> upd \<and> rvs \<noteq> rm_modify_values rm" by blast+
      obtain p' where p': "gda_data_proxy_cancel_row_changes dm p r col = Returns p'" "edited dm (at_row r (restored_at cs)) p p'"
          "upd \<longrightarrow> told dm p p'" "\<not> upd \<longrightarrow> px_signals p' = px_signals p"
        using cancel_old_row [where cs = cs, OF p r False a(1,2) old(6,1-3,5,7,8) col loop nonempty found loop'] by blast
      have "told dm p p'" if "rvs = rm_modify_values rm" "\<not> upd"
      proof -
        have "sr_values (view dm p ! nat r) ! c = sr_orig (view dm p ! nat r) ! c" if "c \<in> cs" "c < model_nb_cols p" for c
        proof -
          have "find_row_value c (rm_modify_values rm) = None" using found [of c] that(1) \<open>rvs = rm_modify_values rm\<close> by simp
          then show ?thesis using a(2) old(3,6) that(2) by (simp add: a(4) seen_at_def seen_def seen_cell_def model_value_def)
        qed
        then have "restored_at cs (view dm p ! nat r) = view dm p ! nat r"
          using seen_lengths [OF p r(2,1)] by (auto simp: restored_at_def intro!: seen_row.equality nth_equalityI)
        then have "view dm p' = view dm p" using p'(2) r at_row_same by (simp add: edited_def)
        then show ?thesis using p'(4) that(2) by (simp add: told_def observe_def)
      qed
      then show ?thesis using p' upd added old(6) by (intro exI [of _ p']) auto
    qed
  next
    case (new i rm)
    have wf: "\<not> rm_to_be_deleted rm" "rm_modify_values rm \<noteq> []" "rm_model_row rm = - 1" using new(5,7) by (auto simp: modif_wf_def is_new_def)
    have "col = - 1" using one all added new(6) by auto
    then have "gda_data_proxy_cancel_row_changes dm p r col = Returns (px_notify (PxRemoved r) (withdrawn i a r p))"
      using r(1) new(1) a(1) wf
      by (auto simp: gda_data_proxy_cancel_row_changes_def ensure_ready [OF p] cancel_loop_all withdrawn_later)
    moreover have "\<not> silent_cancel p r col" using new(3,7) a(1) by (simp add: silent_cancel_def)
    ultimately show ?thesis
      using withdrawn_view [OF p r False a(1) new(2,6)] added new(6) edited_notify(1) by fastforce
  qed
qed

end
