(* ===== verification/Gda_Proxy_History.thy ===== *)
theory Gda_Proxy_History
  imports Gda_Proxy_Rows
begin

text \<open>
  All changes of a data proxy are taken back, and histories of edits: the proxy refines the table that is edited, and
  observers follow every edit but one.
\<close>

section \<open>The rows that were added leave the chunk\<close>

lemma sync_removes:
  assumes "chunk p = Some (t @ ys)" "chunk_to p = Some (Some t)" "\<forall>y \<in> set ys. 0 \<le> y" "notify_changes p" "int (length t) < 4294967296"
  shows "sync_steps dm (length ys + Suc k) (int (length t)) p =
    Returns (True, p\<lparr>chunk := Some t, chunk_proxy_nb_rows := chunk_proxy_nb_rows p - int (length ys),
      px_signals := px_signals p @ replicate (length ys) (PxRemoved (int (length t) + null_rows p))\<rparr>)"
  using assms
proof (induction ys arbitrary: p)
  case Nil
  then have "p\<lparr>chunk := Some t, chunk_proxy_nb_rows := chunk_proxy_nb_rows p, px_signals := px_signals p\<rparr> = p"
    by (intro proxy.equality) simp_all
  then show ?case using Nil by (simp add: current_row_def replacing_row_def Let_def)
next
  case (Cons y ys)
  let ?p = "px_notify (PxRemoved (int (length t) + null_rows p))
      (p\<lparr>chunk := Some (t @ ys), chunk_proxy_nb_rows := chunk_proxy_nb_rows p - 1\<rparr>)"
  have rows: "current_row p (int (length t)) = y" "replacing_row dm p (int (length t)) = - 1"
    using Cons.prems by (simp_all add: current_row_def replacing_row_def)
  have p: "?p = p\<lparr>chunk := Some (t @ ys), chunk_proxy_nb_rows := chunk_proxy_nb_rows p - 1,
      px_signals := px_signals p @ [PxRemoved (int (length t) + null_rows p)]\<rparr>"
    using Cons.prems(4) by (simp add: px_notify_def px_emit_def)
  have "sync_steps dm (length (y # ys) + Suc k) (int (length t)) p = sync_steps dm (length ys + Suc k) (int (length t)) ?p"
    using Cons.prems rows by (simp add: Let_def g_array_remove_index_def)
  also have "\<dots> = Returns (True, ?p\<lparr>chunk := Some t, chunk_proxy_nb_rows := chunk_proxy_nb_rows ?p - int (length ys),
      px_signals := px_signals ?p @ replicate (length ys) (PxRemoved (int (length t) + null_rows ?p))\<rparr>)"
    using Cons.prems by (intro Cons.IH) (simp_all add: p)
  also have "\<dots> = Returns (True, p\<lparr>chunk := Some t, chunk_proxy_nb_rows := chunk_proxy_nb_rows p - int (length (y # ys)),
      px_signals := px_signals p @ replicate (length (y # ys)) (PxRemoved (int (length t) + null_rows p))\<rparr>)"
    unfolding p by (simp add: null_rows_def)
  finally show ?case .
qed

lemma sync_keeps:
  assumes "chunk p = Some (t @ ys)" "chunk_to p = Some (Some t)" "\<forall>y \<in> set t. 0 \<le> y" "i \<le> length t" "int (length t) < 4294967296"
  shows "sync_steps dm ((length t - i) + k) (int i) p = sync_steps dm k (int (length t)) (p\<lparr>chunk_sep := chunk_sep p + int (length t - i)\<rparr>)"
  using assms
proof (induction "length t - i" arbitrary: i p)
  case 0
  then have "p\<lparr>chunk_sep := chunk_sep p + int (length t - i)\<rparr> = p" by (intro proxy.equality) simp_all
  then show ?case using 0 by simp
next
  case (Suc n)
  let ?p = "p\<lparr>chunk := map_option (\<lambda>m. m[nat (int i) := t ! i]) (chunk p), chunk_sep := chunk_sep p + 1\<rparr>"
  have i: "i < length t" "length t - i = Suc (length t - Suc i)" "n = length t - Suc i" using Suc.hyps(2) by simp_all
  have rows: "current_row p (int i) = t ! i" "replacing_row dm p (int i) = t ! i"
    using Suc.prems i by (simp_all add: current_row_def replacing_row_def nth_append)
  have "?p = p\<lparr>chunk_sep := chunk_sep p + 1\<rparr>"
    using Suc.prems(1) i by (intro proxy.equality) (simp_all add: list_update_append)
  then have "sync_steps dm ((length t - i) + k) (int i) p = sync_steps dm ((length t - Suc i) + k) (int (Suc i)) (p\<lparr>chunk_sep := chunk_sep p + 1\<rparr>)"
    using i Suc.prems(3) rows by (simp add: Let_def add.commute)
  also have "\<dots> = sync_steps dm k (int (length t)) (p\<lparr>chunk_sep := chunk_sep p + 1, chunk_sep := chunk_sep p + 1 + int (length t - Suc i)\<rparr>)"
    using Suc.hyps(1) [OF i(3), of "p\<lparr>chunk_sep := chunk_sep p + 1\<rparr>"] Suc.prems i(1) by simp
  finally show ?case using i by simp
qed

lemma drop_added:
  assumes "\<And>i. i \<in> set is \<Longrightarrow> \<exists>rm. modif_at p i = Some rm \<and> is_new rm" "0 \<le> model_nb_rows p" "\<not> force_direct_mapping p"
    "chunk p = Some (ws @ map int [nat (model_nb_rows p)..<nat (model_nb_rows p) + m])" "set ws \<subseteq> {0..<model_nb_rows p}"
    "length is \<le> length zs" "0 < m"
  shows "drop_new_rows p is (ws @ zs) = Returns (ws @ drop (length is) zs)"
  using assms
proof (induction "is" arbitrary: zs)
  case (Cons i "is")
  let ?n = "nat (model_nb_rows p)" and ?q = "p\<lparr>new_rows := i # is, chunk_to := Some (Some (ws @ zs))\<rparr>"
  obtain rm where rm: "modif_at p i = Some rm" "is_new rm" using Cons.prems(1) by auto
  have abs: "row_modif_to_absolute_row ?q i rm = model_nb_rows p"
    using rm(2) Cons.prems(2) by (simp add: row_modif_to_absolute_row_def is_new_def)
  have "[?n..<?n + m] = ?n # [Suc ?n..<?n + m]" using Cons.prems(7) by (simp add: upt_conv_Cons)
  moreover have "slist_index x (us @ x # vs) = int (length us)" if "x \<notin> set us" for x :: int and us vs
    using that by (induction us) (auto simp: Let_def)
  moreover have "model_nb_rows p \<notin> set ws" using Cons.prems(5) by auto
  ultimately have "slist_index (model_nb_rows p) (ws @ map int [?n..<?n + m]) = int (length ws)" using Cons.prems(2) by simp
  then have "row_modif_to_proxy_row ?q i rm = Returns (int (length ws) + null_rows p)"
    using abs Cons.prems(2-4)
    by (simp add: row_modif_to_proxy_row_def absolute_row_to_proxy_row_def null_rows_def Let_def)
  moreover have "g_array_remove_index (int (length ws)) (ws @ zs) = ws @ drop 1 zs" by (simp add: g_array_remove_index_def)
  moreover have "0 \<le> null_rows p" by (simp add: null_rows_def)
  ultimately have "drop_new_rows p (i # is) (ws @ zs) = drop_new_rows p is (ws @ drop 1 zs)" using rm(1) by simp
  also have "\<dots> = Returns (ws @ drop (length is) (drop 1 zs))"
    using Cons.prems by (intro Cons.IH) auto
  finally show ?case by simp
qed simp

lemma announce_removed_eq:
  "notify_changes p \<Longrightarrow> announce_removed n is p =
     p\<lparr>px_signals := px_signals p @ map (\<lambda>k. PxRemoved (n - 1 - int k)) [0..<length is]\<rparr>"
proof (induction "is" arbitrary: n p)
  case Nil
  then show ?case by (intro proxy.equality) simp_all
next
  case (Cons i "is")
  have "map (\<lambda>k. PxRemoved (n - 1 - int k)) [0..<length (i # is)] = PxRemoved (n - 1) # map (\<lambda>k. PxRemoved (n - 1 - 1 - int k)) [0..<length is]"
    by (simp add: upt_conv_Cons map_Suc_upt [symmetric] del: upt_Suc)
  then show ?case using Cons by (simp add: px_notify_def px_emit_def)
qed

section \<open>All changes are taken back\<close>

text \<open>The rows of the proxied model that are shown.\<close>

definition model_rows :: "'v proxy \<Rightarrow> int list" where
  "model_rows p = take (length (old_rows p) - length (new_rows p)) (old_rows p)"

lemma old_rows_split:
  assumes p: "edit_ready dm p"
  shows "old_rows p = model_rows p @ map int [nat (model_nb_rows p)..<nat (model_nb_rows p) + length (new_rows p)]"
    "distinct (model_rows p)" "set (model_rows p) \<subseteq> {0..<model_nb_rows p}"
    "chunk p = None \<Longrightarrow> model_rows p = map int [0..<nat (model_nb_rows p)]"
proof -
  have n: "0 \<le> model_nb_rows p" using edit_ready_inv [OF p] by (simp add: px_inv_def)
  let ?new = "map int [nat (model_nb_rows p)..<nat (model_nb_rows p) + length (new_rows p)]"
  obtain ws where ws: "old_rows p = ws @ ?new" "distinct ws" "set ws \<subseteq> {0..<model_nb_rows p}"
      "chunk p = None \<longrightarrow> ws = map int [0..<nat (model_nb_rows p)]"
  proof (cases "chunk p")
    case None
    have "old_rows p = map int [0..<nat (model_nb_rows p)] @ ?new"
      using None by (simp add: old_rows_def flip: map_append upt_add_eq_append)
    moreover have "set (map int [0..<nat (model_nb_rows p)]) \<subseteq> {0..<model_nb_rows p}" using n by auto
    moreover have "distinct (map int [0..<nat (model_nb_rows p)])" by (simp add: distinct_map inj_on_def)
    ultimately show thesis using that by blast
  next
    case (Some m)
    then show thesis using p that by (auto simp: edit_ready_def old_rows_def)
  qed
  then have "model_rows p = ws" by (simp add: model_rows_def)
  then show "old_rows p = model_rows p @ ?new" "distinct (model_rows p)" "set (model_rows p) \<subseteq> {0..<model_nb_rows p}"
    "chunk p = None \<Longrightarrow> model_rows p = map int [0..<nat (model_nb_rows p)]" using ws by simp_all
qed

lemma observe_replicate_removed:
  "observe read (replicate k (PxRemoved (int (length xs)))) (xs @ ys) = xs @ drop k ys"
proof (induction k arbitrary: ys)
  case (Suc k)
  have "observe read (replicate (Suc k) (PxRemoved (int (length xs)))) (xs @ ys) =
      observe read (replicate k (PxRemoved (int (length xs)))) (xs @ drop 1 ys)"
    by (simp add: observe_def g_array_remove_index_def)
  then show ?case using Suc.IH [of "drop 1 ys"] by simp
qed (simp add: observe_def)

lemma observe_removed_down:
  "length xs = k + m \<Longrightarrow>
     observe read (map (\<lambda>j. PxRemoved (int (length xs) - 1 - int j)) [0..<k]) xs = take m xs"
proof (induction k arbitrary: m)
  case (Suc k)
  have split: "[0..<Suc k] = [0..<k] @ [k]" by simp
  have "observe read (map (\<lambda>j. PxRemoved (int (length xs) - 1 - int j)) [0..<k]) xs = take (Suc m) xs"
    using Suc by (intro Suc.IH) simp
  moreover have "g_array_remove_index (int (length xs) - 1 - int k) (take (Suc m) xs) = take m xs"
  proof -
    have "nat (int (length xs) - 1 - int k) = m" using Suc.prems by simp
    then show ?thesis by (simp add: g_array_remove_index_def min_def)
  qed
  ultimately show ?case unfolding split map_append observe_append by (simp add: observe_def)
qed (simp add: observe_def)

text \<open>Without the rows that were added; an observer is left with the rows of the proxied model.\<close>

lemma cancel_new_view:
  assumes p: "edit_ready dm p"
  shows "\<exists>q S. cancel_new_rows dm p = Returns q \<and> px_signals q = px_signals p @ S \<and>
    (\<forall>read. observe read S (view dm p) = null_view p @ map (seen_at dm p) (model_rows p)) \<and>
    all_modifs q = all_modifs p \<and> modify_rows q = modify_rows p \<and> new_rows q = [] \<and> model_nb_rows q = model_nb_rows p \<and>
    model_nb_cols q = model_nb_cols p \<and> add_null_entry q = add_null_entry p \<and> notify_changes q \<and> chunk_to q = None \<and>
    \<not> chunk_sync_idle_id q \<and> \<not> force_direct_mapping q \<and> next_modif q = next_modif p \<and>
    chunk q = map_option (\<lambda>_. model_rows p) (chunk p)"
proof (cases "new_rows p = []")
  case True
  have "chunk p = map_option (\<lambda>_. model_rows p) (chunk p)"
    using True by (cases "chunk p") (simp_all add: model_rows_def old_rows_def)
  moreover have "view dm p = null_view p @ map (seen_at dm p) (model_rows p)"
    using True view_seen [OF p] by (simp add: model_rows_def)
  ultimately show ?thesis using True p
    by (intro exI [of _ p] exI [of _ "[]"]) (auto simp: cancel_new_rows_def observe_def edit_ready_def)
next
  case new: False
  have inv: "px_inv p" using p by (rule edit_ready_inv)
  have n: "0 \<le> model_nb_rows p" using inv by (simp add: px_inv_def)
  note split = old_rows_split [OF p]
  let ?M = "length (new_rows p)" and ?n = "nat (model_nb_rows p)" and ?xs = "null_view p @ map (seen_at dm p) (model_rows p)"
  have view: "view dm p = ?xs @ map (seen_at dm p) (map int [?n..<?n + ?M])"
    by (simp add: view_seen [OF p] split(1))
  have null: "int (length (null_view p)) = null_rows p" by (simp add: null_view_def null_rows_def)
  show ?thesis
  proof (cases "chunk p")
    case None
    define S where "S = map (\<lambda>k. PxRemoved (gda_data_proxy_get_n_rows p - 1 - int k)) [0..<?M]"
    let ?q = "p\<lparr>new_rows := [], px_signals := px_signals p @ S\<rparr>"
    have "cancel_new_rows dm p = Returns ?q"
      using new None edit_ready_notifies [OF p] by (simp add: cancel_new_rows_def announce_removed_eq S_def)
    moreover have "observe read S (view dm p) = ?xs" for read
    proof -
      have len: "gda_data_proxy_get_n_rows p = int (length (view dm p))"
        using ready_rows(1) [OF p] null by (simp add: view_seen [OF p])
      have "length (view dm p) = ?M + length ?xs" by (simp add: view)
      from observe_removed_down [OF this] show ?thesis unfolding S_def len by (simp add: view)
    qed
    ultimately show ?thesis using None p
      by (intro exI [of _ ?q] exI [of _ S]) (simp add: edit_ready_def)
  next
    case (Some m)
    let ?zs = "map int [?n..<?n + ?M]"
    have m: "m = model_rows p @ ?zs" using Some split(1) by (simp add: old_rows_def)
    have small: "int (length (model_rows p)) + int ?M < 2147483648"
    proof -
      have "card (set (model_rows p)) \<le> card {0..<model_nb_rows p}" using split(3) by (intro card_mono) simp_all
      then have "length (model_rows p) \<le> ?n" using split(2) by (simp add: distinct_card)
      then have "int (length (model_rows p)) \<le> model_nb_rows p" using n by (simp add: nat_le_iff le_nat_iff)
      then show ?thesis using p by (simp add: edit_ready_def)
    qed
    have "drop_new_rows p (new_rows p) (model_rows p @ ?zs) = Returns (model_rows p @ drop ?M ?zs)"
    proof (rule drop_added)
      show "\<exists>rm. modif_at p i = Some rm \<and> is_new rm" if "i \<in> set (new_rows p)" for i using px_inv_new_row [OF inv] that by blast
      show "0 < ?M" using new by blast
    qed (use p n m Some split(3) in \<open>simp_all add: edit_ready_def\<close>)
    then have drop: "drop_new_rows p (new_rows p) m = Returns (model_rows p)" by (simp add: m)
    define p0 where "p0 = p\<lparr>new_rows := [], chunk_to := Some (Some (model_rows p)), defer_sync := False, chunk_sep := 0, chunk_proxy_nb_rows := - 1\<rparr>"
    define p1 where "p1 = p0\<lparr>chunk_sync_idle_id := False, chunk_proxy_nb_rows := model_nb_rows p\<rparr>"
    have p1: "chunk p1 = Some (model_rows p @ ?zs)" "chunk_to p1 = Some (Some (model_rows p))" "notify_changes p1" "chunk_sep p1 = 0"
        "\<not> defer_sync p1" "null_rows p1 = null_rows p"
      using Some m edit_ready_notifies [OF p] by (simp_all add: p1_def p0_def null_rows_def)
    have steps: "nat (sync_max_steps p1 (Some (model_rows p))) = length (model_rows p) + (length ?zs + Suc 0)"
      using p1 small by (simp add: sync_max_steps_def guint_def Let_def max_def)
    define p2 where "p2 = p1\<lparr>chunk_sep := int (length (model_rows p))\<rparr>"
    have nonneg: "\<forall>y \<in> set (model_rows p). 0 \<le> y" "\<forall>y \<in> set ?zs. 0 \<le> y" using split(3) by auto
    define S where "S = replicate ?M (PxRemoved (int (length (model_rows p)) + null_rows p))"
    define p3 where "p3 = p2\<lparr>chunk := Some (model_rows p), chunk_proxy_nb_rows := chunk_proxy_nb_rows p2 - int (length ?zs), px_signals := px_signals p @ S\<rparr>"
    have run: "sync_steps dm (length (model_rows p) + (length ?zs + Suc 0)) 0 p1 = Returns (True, p3)"
    proof -
      have "sync_steps dm (length (model_rows p) + (length ?zs + Suc 0)) 0 p1 = sync_steps dm (length ?zs + Suc 0) (int (length (model_rows p))) p2"
        using sync_keeps [OF p1(1,2) nonneg(1), of 0 dm "length ?zs + Suc 0"] small p1(4) by (simp add: p2_def)
      also have "\<dots> = Returns (True, p2\<lparr>chunk := Some (model_rows p), chunk_proxy_nb_rows := chunk_proxy_nb_rows p2 - int (length ?zs),
          px_signals := px_signals p2 @ replicate (length ?zs) (PxRemoved (int (length (model_rows p)) + null_rows p2))\<rparr>)"
        by (rule sync_removes) (use p1 nonneg(2) small in \<open>simp_all add: p2_def\<close>)
      also have "\<dots> = Returns (True, p3)" by (simp add: p3_def p2_def p1_def p0_def S_def null_rows_def)
      finally show ?thesis .
    qed
    have start: "(if defer_sync p0 then p0 else p0\<lparr>chunk_sync_idle_id := False\<rparr>) = p0\<lparr>chunk_sync_idle_id := False\<rparr>"
        "chunk_to (p0\<lparr>chunk_sync_idle_id := False\<rparr>) = Some (Some (model_rows p))"
        "(if chunk_proxy_nb_rows (p0\<lparr>chunk_sync_idle_id := False\<rparr>) < 0
          then (p0\<lparr>chunk_sync_idle_id := False\<rparr>)\<lparr>chunk_proxy_nb_rows := model_nb_rows (p0\<lparr>chunk_sync_idle_id := False\<rparr>) +
            int (length (new_rows (p0\<lparr>chunk_sync_idle_id := False\<rparr>)))\<rparr> else p0\<lparr>chunk_sync_idle_id := False\<rparr>) = p1"
      by (simp_all add: p1_def p0_def)
    have "guint (chunk_sep p1) = 0" by (simp add: p1(4) guint_def)
    then have "chunk_sync_idle dm p0 = Returns (False, sync_finished p3)"
      unfolding chunk_sync_idle_def Let_def start option.case steps by (simp only: run bind_outcome.simps) simp
    then have call: "cancel_new_rows dm p = Returns ((sync_finished p3)\<lparr>defer_sync := defer_sync p\<rparr>)"
      using new Some drop by (simp add: cancel_new_rows_def p0_def)
    have "observe read S (view dm p) = ?xs" for read
    proof -
      have "int (length (model_rows p)) + null_rows p = int (length ?xs)" using null by simp
      then show ?thesis unfolding S_def view by (simp only: observe_replicate_removed) simp
    qed
    then show ?thesis using call Some p
      by (intro exI [of _ "(sync_finished p3)\<lparr>defer_sync := defer_sync p\<rparr>"] exI [of _ S])
        (simp add: sync_finished_def p3_def p2_def p1_def p0_def edit_ready_def)
  qed
qed

text \<open>The modifications are dropped; the rows that are shown are announced.\<close>

lemma proxy_row_unrelated [simp]:
  "absolute_row_to_proxy_row (p\<lparr>all_modifs := rms\<rparr>) a = absolute_row_to_proxy_row p a"
  "absolute_row_to_proxy_row (p\<lparr>modify_rows := h\<rparr>) a = absolute_row_to_proxy_row p a"
  "absolute_row_to_proxy_row (p\<lparr>px_signals := sgs\<rparr>) a = absolute_row_to_proxy_row p a"
  by (simp_all add: absolute_row_to_proxy_row_def below_n_rows_def gda_data_proxy_get_n_rows_def Let_def
      cong: if_cong option.case_cong)

lemma proxy_row_defined: "chunk_to p = None \<Longrightarrow> \<exists>r. absolute_row_to_proxy_row p a = Returns r"
  by (cases "chunk p") (auto simp: absolute_row_to_proxy_row_def Let_def)

lemma cancel_modifs_eq:
  assumes "chunk_to p = None" "notify_changes p"
  shows "cancel_modifs rms p = Returns (p\<lparr>all_modifs := [],
      modify_rows := (\<lambda>r. if \<exists>(i, rm) \<in> set rms. 0 \<le> rm_model_row rm \<and> rm_model_row rm = r then None else modify_rows p r),
      px_signals := px_signals p @ map PxUpdated (filter ((\<le>) 0)
        (map (\<lambda>(i, rm). returned (absolute_row_to_proxy_row p (rm_model_row rm))) (filter (\<lambda>(i, rm). 0 \<le> rm_model_row rm) rms)))\<rparr>)"
  using assms
proof (induction rms arbitrary: p)
  case Nil
  show ?case unfolding cancel_modifs.simps by (intro arg_cong [where f = Returns] proxy.equality) simp_all
next
  case (Cons e rms)
  obtain i rm where e: "e = (i, rm)" by fastforce
  let ?a = "rm_model_row rm"
  show ?case
  proof (cases "0 \<le> ?a")
    case True
    obtain r where r: "absolute_row_to_proxy_row p ?a = Returns r" using proxy_row_defined [OF Cons.prems(1)] by blast
    define h where "h = (modify_rows p)(?a := None)"
    define p1 where "p1 = p\<lparr>all_modifs := rms, modify_rows := h, px_signals := px_signals p @ (if 0 \<le> r then [PxUpdated r] else [])\<rparr>"
    have "row_modif_to_proxy_row (p\<lparr>all_modifs := (i, rm) # rms\<rparr>) i rm = Returns r"
      using True r by (simp add: row_modif_to_proxy_row_def row_modif_to_absolute_row_def)
    moreover have "0 \<le> r \<Longrightarrow> px_notify (PxUpdated r) ((hash_remove ?a (p\<lparr>all_modifs := (i, rm) # rms\<rparr>))\<lparr>all_modifs := rms\<rparr>) = p1"
        "\<not> 0 \<le> r \<Longrightarrow> (hash_remove ?a (p\<lparr>all_modifs := (i, rm) # rms\<rparr>))\<lparr>all_modifs := rms\<rparr> = p1"
      using Cons.prems(2)
      by (intro proxy.equality; simp add: p1_def h_def hash_remove_def px_notify_def px_emit_def)+
    ultimately have "cancel_modifs (e # rms) p = cancel_modifs rms p1"
      using True Cons.prems(2) by (simp add: e Let_def)
    also have "\<dots> = Returns (p1\<lparr>all_modifs := [],
      modify_rows := (\<lambda>r. if \<exists>(i, rm) \<in> set rms. 0 \<le> rm_model_row rm \<and> rm_model_row rm = r then None else modify_rows p1 r),
      px_signals := px_signals p1 @ map PxUpdated (filter ((\<le>) 0)
        (map (\<lambda>(i, rm). returned (absolute_row_to_proxy_row p1 (rm_model_row rm))) (filter (\<lambda>(i, rm). 0 \<le> rm_model_row rm) rms)))\<rparr>)"
      using Cons.prems by (intro Cons.IH) (simp_all add: p1_def)
    finally show ?thesis using True r by (auto simp: e p1_def h_def fun_eq_iff)
  next
    case False
    have "cancel_modifs (e # rms) p = cancel_modifs rms (p\<lparr>all_modifs := rms\<rparr>)"
      using False by (simp add: e Let_def)
    then show ?thesis using False Cons by (simp add: e cong: if_cong)
  qed
qed

text \<open>Signals of updates replace the rows that they name.\<close>

lemma observe_updates:
  "length (observe read (map PxUpdated rs) xs) = length xs"
  "k < length xs \<Longrightarrow> \<forall>r \<in> set rs. 0 \<le> r \<Longrightarrow>
     observe read (map PxUpdated rs) xs ! k = (if int k \<in> set rs then read (int k) else xs ! k)"
proof (induction rs arbitrary: xs)
  case (Cons r rs)
  { case 1 show ?case using Cons.IH(1) by (simp add: observe_def) }
  { case 2
    then have "observe read (map PxUpdated (r # rs)) xs ! k =
        (if int k \<in> set rs then read (int k) else xs[nat r := read r] ! k)"
      using Cons.IH(2) [of "xs[nat r := read r]"] by (simp add: observe_def)
    then show ?case using 2 by (auto simp: nth_list_update)
  }
qed (simp_all add: observe_def)

definition reset_row :: "'v seen_row \<Rightarrow> 'v seen_row" where
  "reset_row row = restored (row\<lparr>sr_deleted := False\<rparr>)"

lemma cancel_all_edits:
  assumes p: "edit_ready dm p"
  shows "\<exists>p'. gda_data_proxy_cancel_all_changes dm p = Returns p' \<and> told dm p p' \<and>
    edited dm (\<lambda>t. map reset_row (filter (\<lambda>row. \<not> sr_added row) t)) p p'"
proof -
  have inv: "px_inv p" using p by (rule edit_ready_inv)
  note split = old_rows_split [OF p]
  obtain q S where q: "cancel_new_rows dm p = Returns q" "px_signals q = px_signals p @ S"
      "\<And>read. observe read S (view dm p) = null_view p @ map (seen_at dm p) (model_rows p)"
      "all_modifs q = all_modifs p" "modify_rows q = modify_rows p" "new_rows q = []" "model_nb_rows q = model_nb_rows p"
      "model_nb_cols q = model_nb_cols p" "add_null_entry q = add_null_entry p" "notify_changes q" "chunk_to q = None"
      "\<not> chunk_sync_idle_id q" "\<not> force_direct_mapping q" "next_modif q = next_modif p" "chunk q = map_option (\<lambda>_. model_rows p) (chunk p)"
    using cancel_new_view [OF p] by blast
  define rs where "rs = filter ((\<le>) 0) (map (\<lambda>(i, rm). returned (absolute_row_to_proxy_row q (rm_model_row rm)))
      (filter (\<lambda>(i, rm). 0 \<le> rm_model_row rm) (all_modifs p)))"
  define p' where "p' = q\<lparr>all_modifs := [],
      modify_rows := (\<lambda>r. if \<exists>(i, rm) \<in> set (all_modifs p). 0 \<le> rm_model_row rm \<and> rm_model_row rm = r then None else modify_rows p r),
      px_signals := px_signals q @ map PxUpdated rs\<rparr>"
  have call: "gda_data_proxy_cancel_all_changes dm p = Returns p'"
  proof -
    have "cancel_modifs (all_modifs p) q = Returns p'"
      unfolding p'_def rs_def using cancel_modifs_eq [OF q(11,10), of "all_modifs p"] unfolding q(5) .
    moreover have "chunk_to p = None" using p by (simp add: edit_ready_def)
    ultimately show ?thesis using q(1,4) by (simp add: gda_data_proxy_cancel_all_changes_def ensure_ready [OF p])
  qed
  have hash: "modify_rows p' r = None" for r
  proof (cases "modify_rows p r")
    case (Some i)
    then obtain rm where "(i, rm) \<in> set (all_modifs p)" "\<not> is_new rm" "rm_model_row rm = r" using px_inv_entries(2) [OF inv] by blast
    moreover from this have "0 \<le> rm_model_row rm" using px_inv_entries(1) [OF inv] by (fastforce simp: modif_wf_def)
    ultimately have "\<exists>(i, rm) \<in> set (all_modifs p). 0 \<le> rm_model_row rm \<and> rm_model_row rm = r" by blast
    then show ?thesis unfolding p'_def by simp
  qed (simp add: p'_def)
  have n: "0 \<le> model_nb_rows p" using inv by (simp add: px_inv_def)
  have old: "old_rows p' = model_rows p"
    using split(4) q(6,7,15) by (cases "chunk p") (simp_all add: old_rows_def p'_def)
  have ready: "edit_ready dm p'"
  proof -
    have "px_inv p'" by (rule px_invI) (use n hash q(6,7) in \<open>simp_all add: p'_def\<close>)
    moreover have "modif_at p' i = None" for i by (simp add: p'_def modif_at_def)
    moreover have "\<exists>ws. m = ws @ map int [nat (model_nb_rows p)..<nat (model_nb_rows p) + length (new_rows p')] \<and> distinct ws \<and>
        set ws \<subseteq> {0..<model_nb_rows p}" if "chunk p' = Some m" for m
    proof -
      have "m = model_rows p" using that q(15) by (auto simp: p'_def)
      then show ?thesis using split(2,3) q(6) by (simp add: p'_def)
    qed
    ultimately show ?thesis using p q by (simp add: edit_ready_def p'_def)
  qed
  have "modif_at p' i = None" for i by (simp add: p'_def modif_at_def)
  then have none: "modif_of p' a = None" for a by (cases "modif_id_of p' a") (simp_all add: modif_of_def)
  have seen: "seen_at dm p' a = reset_row (seen_at dm p a)" if "a \<in> set (model_rows p)" for a
  proof -
    have "0 \<le> a" "a < model_nb_rows p" using split(3) that by auto
    then show ?thesis using none [of a] q(7,8)
      by (simp add: seen_at_def seen_def reset_row_def restored_def p'_def seen_cell_def model_value_def)
  qed
  have null: "null_view p' = null_view p" "null_rows p' = null_rows p" using q(8,9) by (simp_all add: null_view_def null_rows_def p'_def)
  have view': "view dm p' = null_view p @ map (\<lambda>a. reset_row (seen_at dm p a)) (model_rows p)"
    using view_seen [OF ready] old seen null(1) by simp
  have added: "sr_added (seen_at dm p a) \<longleftrightarrow> model_nb_rows p \<le> a" if "0 \<le> a" for a
    using that by (auto simp: seen_at_def seen_def)
  have "filter (\<lambda>row. \<not> sr_added row) (map (seen_at dm p) (old_rows p)) = map (seen_at dm p) (model_rows p)"
  proof -
    have "filter (\<lambda>a. \<not> sr_added (seen_at dm p a)) (model_rows p) = model_rows p"
      using split(3) added by (intro filter_True) (auto simp: subset_iff)
    moreover have "filter (\<lambda>a. \<not> sr_added (seen_at dm p a)) (map int [nat (model_nb_rows p)..<nat (model_nb_rows p) + length (new_rows p)]) = []"
      using added n by (intro filter_False) auto
    ultimately have "filter (\<lambda>a. \<not> sr_added (seen_at dm p a)) (old_rows p) = model_rows p" by (subst split(1)) simp
    then show ?thesis by (simp add: filter_map comp_def)
  qed
  moreover have "map reset_row (filter (\<lambda>row. \<not> sr_added row) (null_view p)) = null_view p"
    by (simp add: null_view_def null_seen_def reset_row_def restored_def)
  ultimately have v: "view dm p' = map reset_row (filter (\<lambda>row. \<not> sr_added row) (view dm p))"
    using view' view_seen [OF p] by simp
  have "told dm p p'"
  proof -
    let ?xs = "null_view p @ map (seen_at dm p) (model_rows p)"
    have "observe (read_row dm p') (map PxUpdated rs) ?xs = view dm p'"
    proof (rule nth_equalityI)
      show len: "length (observe (read_row dm p') (map PxUpdated rs) ?xs) = length (view dm p')" by (simp add: observe_updates(1) view')
      fix k assume "k < length (observe (read_row dm p') (map PxUpdated rs) ?xs)"
      then have k: "k < length ?xs" "k < length (view dm p')" using len by (simp_all add: observe_updates(1))
      have get: "observe (read_row dm p') (map PxUpdated rs) ?xs ! k = (if int k \<in> set rs then read_row dm p' (int k) else ?xs ! k)"
        by (rule observe_updates(2) [OF k(1)]) (simp add: rs_def)
      have read: "read_row dm p' (int k) = view dm p' ! k" using k(2) by (simp add: read_view)
      have "?xs ! k = view dm p' ! k" if "int k \<notin> set rs"
      proof (cases "k < length (null_view p)")
        case False
        define j where "j = k - length (null_view p)"
        have j: "j < length (model_rows p)" "int k = int j + null_rows p"
          using k(1) False by (auto simp: j_def null_view_def null_rows_def)
        let ?a = "model_rows p ! j"
        have "?a \<in> {0..<model_nb_rows p}" using split(3) nth_mem [OF j(1)] by blast
        then have a: "?a \<in> set (model_rows p)" "0 \<le> ?a" "?a < model_nb_rows p" using nth_mem [OF j(1)] by simp_all
        have row: "absolute_row_to_proxy_row q ?a = Returns (int j + null_rows p)"
        proof (cases "chunk p")
          case (Some m)
          then show ?thesis using q j(1) a(2) slist_index_nth [OF split(2) j(1)]
            by (simp add: absolute_row_to_proxy_row_def null_rows_def Let_def)
        next
          case None
          then have "?a = int j" "model_rows p = map int [0..<nat (model_nb_rows p)]" using split(4) j(1) by simp_all
          then show ?thesis using q None j(1) a(2,3) n
            by (simp add: absolute_row_to_proxy_row_def null_rows_def Let_def below_n_rows_def gda_data_proxy_get_n_rows_def)
        qed
        have "modif_of p ?a = None"
        proof (rule ccontr)
          assume "modif_of p ?a \<noteq> None"
          then obtain i where i: "modif_id_of p ?a = Some i" by (auto simp: modif_of_def split: bind_split_asm)
          obtain rm where "modif_at p i = Some rm" "rm_model_row rm = ?a" using modif_of_modif [OF inv i] a(3) by metis
          then have "(i, rm) \<in> set (all_modifs p)" "rm_model_row rm = ?a" using modif_at_in by metis+
          then have "int j + null_rows p \<in> set rs" using a(2) row by (force simp: rs_def null_rows_def)
          then show False using that j(2) by simp
        qed
        then have "seen_at dm p ?a = reset_row (seen_at dm p ?a)"
          using a(2,3) by (simp add: seen_at_def seen_def reset_row_def restored_def seen_cell_def model_value_def)
        then show ?thesis using False k(1) j(1) by (simp add: view' nth_append flip: j_def)
      qed (simp add: view' nth_append)
      then show "observe (read_row dm p') (map PxUpdated rs) ?xs ! k = view dm p' ! k" using get read by simp
    qed
    then have "observe (read_row dm p') (S @ map PxUpdated rs) (view dm p) = view dm p'" by (simp add: observe_append q(3))
    then show ?thesis using q(2) by (auto simp: told_def p'_def)
  qed
  moreover have "edited dm (\<lambda>t. map reset_row (filter (\<lambda>row. \<not> sr_added row) t)) p p'"
    using ready v q(6-9) by (simp add: edited_def p'_def)
  ultimately show ?thesis using call by blast
qed

section \<open>Histories of edits\<close>

text \<open>An edit after which an observer may be wrong: the only changed value of a row is taken back.\<close>

fun silent_edit :: "'v proxy \<Rightarrow> 'v edit \<Rightarrow> bool" where
  "silent_edit p (ECancelRow r) \<longleftrightarrow> silent_cancel p r (- 1)"
| "silent_edit p (ECancelCell r c) \<longleftrightarrow> silent_cancel p r (int c)"
| "silent_edit p _ \<longleftrightarrow> False"

lemma edited_at_row:
  assumes "edited dm (at_row r f) p p'" "0 \<le> r" "nat r < length (view dm p)" "f (view dm p ! nat r) = h (view dm p ! nat r)"
  shows "edited dm (at_row r h) p p'"
  using assms at_row_cong [of r "view dm p" f h] by (simp add: edited_def)

lemma edit_step:
  assumes p: "edit_ready dm p" and cmp: "decides_equality cmp" and fits: "edit_fits (model_nb_cols p) e (view dm p)"
    and rows: "model_nb_rows p + int (length (new_rows p)) + 1 < 2147483648"
  shows "\<exists>p'. do_edit cmp dm e p = Returns p' \<and> edited dm (edit_table dm (model_nb_cols p) (add_null_entry p) e) p p' \<and>
    (if silent_edit p e then px_signals p' = px_signals p else told dm p p')"
proof (cases e)
  case (ESet r c v)
  then have r: "0 \<le> r" "nat r < length (view dm p)" "c < model_nb_cols p" "v = GNull \<or> G_VALUE_TYPE v \<noteq> GDA_TYPE_NULL"
    using fits by simp_all
  show ?thesis
  proof (cases "add_null_entry p \<and> r = 0")
    case True
    then have "gda_data_proxy_set_value_at cmp dm p c r (Some v) = Returns (False, Some ReadOnlyRow, p)"
      using r(1) by (simp add: gda_data_proxy_set_value_at_def ensure_ready [OF p])
    then show ?thesis using True p ESet by simp
  next
    case False
    from set_value_edits [OF p cmp r(1,2) False r(3,4)] show ?thesis
      using ESet False edited_cong [of "at_row r (set_cell c v)" dm p "edit_table dm (model_nb_cols p) (add_null_entry p) e"] by auto
  qed
next
  case EAppend
  show ?thesis
  proof (cases "AccessInsert \<in> dm_access dm")
    case True
    from append_view(1) [OF p True rows] show ?thesis
      using EAppend True edited_cong [of "\<lambda>t. t @ [added_row dm (model_nb_cols p)]" dm p "edit_table dm (model_nb_cols p) (add_null_entry p) e"]
      by auto
  next
    case False
    then have "gda_data_proxy_append_row dm p = Returns (- 1, p)"
      by (simp add: gda_data_proxy_append_row_def gda_data_proxy_append_def ensure_ready [OF p] gda_data_proxy_get_access_flags_def)
    then show ?thesis using EAppend False p by simp
  qed
next
  case (EDelete r)
  then have r: "0 \<le> r" "nat r < length (view dm p)" using fits by simp_all
  show ?thesis
  proof (cases "add_null_entry p \<and> r = 0 \<or> AccessDelete \<notin> dm_access dm")
    case True
    then have "\<exists>b err. gda_data_proxy_remove_row dm p r = Returns (b, err, p)"
      using r(1) by (auto simp: gda_data_proxy_remove_row_def gda_data_proxy_delete_def ensure_ready [OF p]
          gda_data_proxy_get_access_flags_def)
    then show ?thesis using True p EDelete by auto
  next
    case False
    then have "AccessDelete \<in> dm_access dm" "\<not> (add_null_entry p \<and> r = 0)" by blast+
    from remove_row_edits [OF p this(1) r this(2)] obtain p' where
        "gda_data_proxy_remove_row dm p r = Returns (True, None, p')" "told dm p p'"
        "edited dm (if sr_added (view dm p ! nat r) then without_row r else at_row r (\<lambda>row. row\<lparr>sr_deleted := True\<rparr>)) p p'"
      by blast
    then show ?thesis using False EDelete by (intro exI [of _ p']) (auto simp: edited_def)
  qed
next
  case (EUndelete r)
  then show ?thesis using undelete_edits [OF p, of r] fits by (auto simp: edited_def)
next
  case (ECancelRow r)
  then have r: "0 \<le> r" "nat r < length (view dm p)" using fits by simp_all
  from cancel_edits [OF p r, of "- 1"] obtain p' where p': "gda_data_proxy_cancel_row_changes dm p r (- 1) = Returns p'"
      "edited dm (if sr_added (view dm p ! nat r) then without_row r else at_row r (restored_at {..<model_nb_cols p})) p p'"
      "if silent_cancel p r (- 1) then px_signals p' = px_signals p else told dm p p'"
    by (auto cong: if_cong)
  have "restored_at {..<model_nb_cols p} (view dm p ! nat r) = restored (view dm p ! nat r)"
    using restored_at_all [of "view dm p ! nat r"] seen_lengths [OF p r(2,1)] by simp
  then have "edited dm (if sr_added (view dm p ! nat r) then without_row r else at_row r restored) p p'"
    using p'(2) edited_at_row [OF _ r] by (auto split: if_splits)
  then show ?thesis using p'(1,3) ECancelRow by (intro exI [of _ p']) (auto simp: edited_def)
next
  case (ECancelCell r c)
  then have r: "0 \<le> r" "nat r < length (view dm p)" "c < model_nb_cols p" "\<not> sr_added (view dm p ! nat r)" using fits by simp_all
  from cancel_edits [OF p r(1,2), of "int c"] r obtain p' where p': "gda_data_proxy_cancel_row_changes dm p r (int c) = Returns p'"
      "edited dm (at_row r (restored_at {c})) p p'" "if silent_cancel p r (int c) then px_signals p' = px_signals p else told dm p p'"
    by auto
  then show ?thesis using ECancelCell edited_at_row [OF p'(2) r(1,2)] restored_at_one [of c "view dm p ! nat r"] r(3)
      seen_lengths [OF p r(2,1)]
    by (intro exI [of _ p']) (auto simp: edited_def)
next
  case ECancelAll
  have reset: "(\<lambda>row. restored (row\<lparr>sr_deleted := False\<rparr>)) = (reset_row :: 'a seen_row \<Rightarrow> 'a seen_row)"
    by (simp add: fun_eq_iff reset_row_def)
  show ?thesis using cancel_all_edits [OF p] ECancelAll by (auto simp: edited_def reset)
qed

lemma edit_history:
  assumes "edit_ready dm p" "decides_equality cmp" "edits_fit dm (model_nb_cols p) (add_null_entry p) es (view dm p)"
    "model_nb_rows p + int (length (new_rows p)) + int (length es) < 2147483648"
  shows "\<exists>p'. do_edits cmp dm es p = Returns p' \<and> edit_ready dm p' \<and>
    view dm p' = edits_table dm (model_nb_cols p) (add_null_entry p) es (view dm p) \<and> model_nb_cols p' = model_nb_cols p \<and>
    model_nb_rows p' = model_nb_rows p \<and> add_null_entry p' = add_null_entry p \<and>
    length (new_rows p') \<le> length (new_rows p) + length es"
  using assms
proof (induction es arbitrary: p)
  case (Cons e es)
  have "model_nb_rows p + int (length (new_rows p)) + 1 < 2147483648" using Cons.prems(4) by simp
  moreover have "edit_fits (model_nb_cols p) e (view dm p)" using Cons.prems(3) by simp
  ultimately obtain p1 where step: "do_edit cmp dm e p = Returns p1"
      "edited dm (edit_table dm (model_nb_cols p) (add_null_entry p) e) p p1"
    using edit_step [OF Cons.prems(1,2)] by blast
  then have p1: "edit_ready dm p1" "view dm p1 = edit_table dm (model_nb_cols p) (add_null_entry p) e (view dm p)"
      "model_nb_rows p1 = model_nb_rows p" "model_nb_cols p1 = model_nb_cols p" "add_null_entry p1 = add_null_entry p"
      "length (new_rows p1) \<le> Suc (length (new_rows p))"
    by (simp_all add: edited_def)
  then have "edits_fit dm (model_nb_cols p1) (add_null_entry p1) es (view dm p1)" using Cons.prems(3) by simp
  moreover have "model_nb_rows p1 + int (length (new_rows p1)) + int (length es) < 2147483648" using Cons.prems(4) p1(3,6) by simp
  ultimately obtain p' where "do_edits cmp dm es p1 = Returns p'" "edit_ready dm p'"
      "view dm p' = edits_table dm (model_nb_cols p1) (add_null_entry p1) es (view dm p1)" "model_nb_cols p' = model_nb_cols p1"
      "model_nb_rows p' = model_nb_rows p1" "add_null_entry p' = add_null_entry p1" "length (new_rows p') \<le> length (new_rows p1) + length es"
    using Cons.IH [OF p1(1) Cons.prems(2)] by blast
  then show ?case using step(1) p1 by (intro exI [of _ p']) simp
qed simp

section \<open>A new proxy\<close>

definition good_proxied :: "'v proxied \<Rightarrow> bool" where
  "good_proxied dm \<longleftrightarrow>
     AccessRandom \<in> dm_access dm \<and> 0 < dm_n_columns dm \<and> 0 \<le> dm_n_rows dm \<and> dm_n_rows dm < 2147483648 \<and>
     (\<forall>c < dm_n_columns dm. \<forall>r. 0 \<le> r \<and> r < dm_n_rows dm \<longrightarrow> dm_value_at dm c r \<noteq> None)"

text \<open>The rows that a new proxy shows: the first 300.\<close>

definition model_table :: "'v proxied \<Rightarrow> 'v seen_row list" where
  "model_table dm =
     map (\<lambda>r. let values = map (\<lambda>c. dm_value_at dm c (int r)) [0..<dm_n_columns dm] in
              \<lparr>sr_values = values, sr_orig = values, sr_deleted = False, sr_added = False\<rparr>)
       [0..<min 300 (nat (dm_n_rows dm))]"

lemma new_proxy_ready:
  assumes dm: "good_proxied dm"
  obtains p where "gda_data_proxy_new dm = Returns p" "edit_ready dm p" "view dm p = model_table dm"
    "model_nb_cols p = dm_n_columns dm" "model_nb_rows p = dm_n_rows dm" "\<not> add_null_entry p" "new_rows p = []" "all_modifs p = []"
proof -
  let ?n = "dm_n_rows dm"
  define k where "k = min 300 (nat ?n)"
  obtain p where p: "gda_data_proxy_new dm = Returns p" "chunk p = Some (map int [0..<k])" "model_nb_cols p = dm_n_columns dm"
      "model_nb_rows p = ?n" "\<not> add_null_entry p" "new_rows p = []" "px_signals p = []" "notify_changes p" "chunk_to p = None"
      "\<not> chunk_sync_idle_id p" "\<not> force_direct_mapping p" "all_modifs p = []" "modify_rows p = Map.empty"
  proof -
    define p0 where "p0 = (gda_data_proxy_init :: 'a proxy)\<lparr>model_nb_cols := dm_n_columns dm, model_nb_rows := ?n,
        columns_attrs := map (\<lambda>c. column_flags (pm_column dm c)) [0..<dm_n_columns dm], sample_first_row := 0, sample_last_row := ?n - 1, chunk := None\<rparr>"
    have take: "take_model dm gda_data_proxy_init = Returns p0"
      using dm by (simp add: take_model_def good_proxied_def compute_display_chunk_def sample_window_def gda_data_proxy_init_def p0_def Let_def)
    let ?last = "if ?n \<le> 299 then ?n - 1 else 299"
    have "sample_window ?n (p0\<lparr>sample_size := 300\<rparr>) = (0, ?last, ?last + 1)"
    proof (cases "?n = 0")
      case True
      then show ?thesis by (simp add: sample_window_def p0_def gda_data_proxy_init_def Let_def one_sdiv)
    next
      case False
      then show ?thesis using dm by (auto simp: sample_window_def p0_def gda_data_proxy_init_def good_proxied_def Let_def)
    qed
    moreover have "nat (?last + 1) = k" using dm by (auto simp: k_def good_proxied_def min_def)
    moreover have "int i < ?n" if "i < k" for i using that unfolding k_def by linarith
    then have "\<forall>i \<in> {0..<k}. int i < ?n" "\<And>i. i < k \<Longrightarrow> \<not> ?n \<le> int i" by fastforce+
    ultimately have "compute_display_chunk (p0\<lparr>sample_size := 300\<rparr>) =
        Returns (Some (map int [0..<k]), p0\<lparr>sample_size := 300, sample_first_row := 0, sample_last_row := ?last\<rparr>)"
      using dm by (simp add: compute_display_chunk_def good_proxied_def Let_def p0_def gda_data_proxy_init_def list_all_iff
          model_row_to_absolute_row_def cong: map_cong)
    then have "gda_data_proxy_new dm = Returns (p0\<lparr>sample_size := 300, sample_first_row := 0, sample_last_row := ?last, chunk := Some (map int [0..<k])\<rparr>)"
      using dm take by (simp add: gda_data_proxy_new_def good_proxied_def set_property_sample_size_def)
    then show thesis using that by (simp add: p0_def gda_data_proxy_init_def)
  qed
  have inv: "px_inv p" by (rule px_invI) (use p dm in \<open>simp_all add: good_proxied_def\<close>)
  have none: "modif_at p i = None" for i by (simp add: modif_at_def p(12))
  have ready: "edit_ready dm p"
    unfolding edit_ready_def
  proof (intro conjI allI impI)
    fix m assume "chunk p = Some m"
    then have "m = map int [0..<k]" using p(2) by simp
    moreover have "set (map int [0..<k]) \<subseteq> {0..<model_nb_rows p}" using p(4) by (auto simp: k_def)
    ultimately show "\<exists>ws. m = ws @ map int [nat (model_nb_rows p)..<nat (model_nb_rows p) + length (new_rows p)] \<and> distinct ws \<and>
        set ws \<subseteq> {0..<model_nb_rows p}"
      using p(6) by (intro exI [of _ "map int [0..<k]"]) (simp add: distinct_map inj_on_def)
  qed (use p dm inv none in \<open>simp_all add: good_proxied_def\<close>)
  have "seen_at dm p (int r) =
      (let values = map (\<lambda>c. dm_value_at dm c (int r)) [0..<dm_n_columns dm] in
       \<lparr>sr_values = values, sr_orig = values, sr_deleted = False, sr_added = False\<rparr>)" if "r < k" for r
  proof -
    have "modif_of p (int r) = None" by (cases "modif_id_of p (int r)") (simp_all add: modif_of_def none)
    moreover have "int r < ?n" using that unfolding k_def by linarith
    moreover have "seen_cell dm (int r) None = (\<lambda>c. dm_value_at dm c (int r))" by (simp add: fun_eq_iff seen_cell_def model_value_def)
    ultimately show ?thesis using p(3,4) by (simp add: seen_at_def seen_def Let_def)
  qed
  then have "view dm p = model_table dm"
    using view_seen [OF ready] p(2,5) by (simp add: null_view_def old_rows_def model_table_def flip: k_def)
  then show thesis using that [OF p(1) ready] p by blast
qed

end
