(* ===== verification/Gda_Proxy_Table.thy ===== *)
theory Gda_Proxy_Table
  imports Gda_Proxy_History
begin

text \<open>
  Properties of the edits of a data proxy, for proxies that were just made and edited: the table that is read is the one
  that was edited, observers follow every edit but one, and rows that do not exist.
\<close>

section \<open>The null row\<close>

lemma null_entry_ready:
  assumes p: "edit_ready dm p" "\<not> add_null_entry p"
  obtains p' where "set_property_add_null_entry dm p b = Returns p'" "edit_ready dm p'" "add_null_entry p' = b"
    "view dm p' = (if b then [null_seen (model_nb_cols p)] else []) @ view dm p" "model_nb_cols p' = model_nb_cols p"
    "model_nb_rows p' = model_nb_rows p" "new_rows p' = new_rows p" "all_modifs p' = all_modifs p"
proof (cases b)
  case True
  let ?p = "p\<lparr>add_null_entry := True\<rparr>"
  have at: "modif_at (p\<lparr>add_null_entry := True, px_columns := cs\<rparr>) = modif_at p" "modif_at ?p = modif_at p" for cs
    by (simp_all add: fun_eq_iff modif_at_def)
  have live: "px_live ?p" using px_inv_live [OF edit_ready_inv [OF p(1)]] px_live_cong [of ?p p] by simp
  obtain cs where cs: "px_row_inserted dm 0 ?p = Returns (px_notify (PxInserted 0) (?p\<lparr>px_columns := cs\<rparr>))"
    using px_row_inserted_live [OF live] by blast
  let ?q = "p\<lparr>add_null_entry := True, px_columns := cs\<rparr>"
  have "px_inv ?q = px_inv p" by (rule inv_cong) simp_all
  then have q: "edit_ready dm ?q" using p(1) by (simp add: edit_ready_def at)
  have "seen_at dm ?q = seen_at dm p"
    by (simp add: fun_eq_iff seen_at_def modif_of_def modif_id_of_def absolute_row_to_model_row_def at)
  then have "view dm ?q = [null_seen (model_nb_cols p)] @ view dm p"
    using p(2) by (simp add: view_seen [OF q] view_seen [OF p(1)] null_view_def old_rows_def cong: option.case_cong)
  moreover have "all_modifs (px_notify (PxInserted 0) ?q) = all_modifs p" by (simp add: px_notify_eq)
  ultimately show thesis using that [of "px_notify (PxInserted 0) ?q"] True cs p(2) q by (simp add: set_property_add_null_entry_def)
next
  case False
  then show thesis using that [of p] p by (simp add: set_property_add_null_entry_def)
qed

section \<open>Edits of a new proxy\<close>

text \<open>A new proxy, with a null row or not, after some edits.\<close>

definition edited_proxy :: "(gtype \<Rightarrow> 'v \<Rightarrow> 'v \<Rightarrow> int) \<Rightarrow> 'v proxied \<Rightarrow> bool \<Rightarrow> 'v edit list \<Rightarrow> 'v proxy outcome" where
  "edited_proxy cmp dm b es =
     bind_outcome (gda_data_proxy_new dm) (\<lambda>p. bind_outcome (set_property_add_null_entry dm p b) (do_edits cmp dm es))"

definition first_table :: "'v proxied \<Rightarrow> bool \<Rightarrow> 'v seen_row list" where
  "first_table dm b = (if b then [null_seen (dm_n_columns dm)] else []) @ model_table dm"

lemma edited_proxy_ready:
  assumes dm: "good_proxied dm" and cmp: "decides_equality cmp" and es: "edits_fit dm (dm_n_columns dm) b es (first_table dm b)"
    and rows: "dm_n_rows dm + int (length es) < 2147483648"
  obtains p where "edited_proxy cmp dm b es = Returns p" "edit_ready dm p" "model_nb_cols p = dm_n_columns dm"
    "model_nb_rows p = dm_n_rows dm" "add_null_entry p = b" "length (new_rows p) \<le> length es"
    "view dm p = edits_table dm (dm_n_columns dm) b es (first_table dm b)"
proof -
  obtain p0 where p0: "gda_data_proxy_new dm = Returns p0" "edit_ready dm p0" "view dm p0 = model_table dm"
      "model_nb_cols p0 = dm_n_columns dm" "model_nb_rows p0 = dm_n_rows dm" "\<not> add_null_entry p0" "new_rows p0 = []"
    using new_proxy_ready [OF dm] by metis
  obtain p1 where p1: "set_property_add_null_entry dm p0 b = Returns p1" "edit_ready dm p1" "add_null_entry p1 = b"
      "view dm p1 = first_table dm b" "model_nb_cols p1 = dm_n_columns dm" "model_nb_rows p1 = dm_n_rows dm" "new_rows p1 = []"
    using null_entry_ready [OF p0(2,6), of b] p0 unfolding first_table_def by metis
  have "edits_fit dm (model_nb_cols p1) (add_null_entry p1) es (view dm p1)" using es p1(3-5) by simp
  moreover have "model_nb_rows p1 + int (length (new_rows p1)) + int (length es) < 2147483648" using rows p1(6,7) by simp
  ultimately obtain p where p: "do_edits cmp dm es p1 = Returns p" "edit_ready dm p"
      "view dm p = edits_table dm (model_nb_cols p1) (add_null_entry p1) es (view dm p1)"
      "model_nb_cols p = model_nb_cols p1" "model_nb_rows p = model_nb_rows p1" "add_null_entry p = add_null_entry p1"
      "length (new_rows p) \<le> length (new_rows p1) + length es"
    using edit_history [OF p1(2) cmp] by blast
  then show thesis using p0(1) p1 by (intro that [of p]) (simp_all add: edited_proxy_def)
qed

definition sample_edits :: "nat edit list" where
  "sample_edits = [ESet 0 0 (GValue 24 7), EDelete 1, EAppend, ESet 3 0 (GValue 24 9), EUndelete 1, EDelete 2]"

lemma sample_good: "n < 2147483648 \<Longrightarrow> good_proxied (sample_proxied n)"
  by (simp add: good_proxied_def sample_proxied_def)

lemma sample_cmp_decides: "decides_equality (\<lambda>t x y. int x - int y)"
  by (simp add: decides_equality_def)

text \<open>
  C19: A data proxy refines the table that its users see. For every history of edits of rows and columns that exist, a
  new proxy, with a null row or without, does not abort, and what the functions of the interface then return for every
  row (its values, its original values, whether it is deleted or inserted) is the table that results from the first
  rows of the proxied model by these edits of a list of rows: setting a cell changes this cell only, appending adds a
  row of default values, deleting marks a row of the model and withdraws one that was added, and cancelling restores
  the original values.
\<close>

theorem proxy_refines_table:
  assumes "good_proxied dm" "decides_equality cmp" "edits_fit dm (dm_n_columns dm) b es (first_table dm b)"
    and "dm_n_rows dm + int (length es) < 2147483648"
  shows "\<exists>p. edited_proxy cmp dm b es = Returns p \<and> view dm p = edits_table dm (dm_n_columns dm) b es (first_table dm b)"
  using edited_proxy_ready [OF assms] by metis

theorem proxy_refines_table_witness:
  "\<exists>p. edited_proxy (\<lambda>t x y. int x - int y) (sample_proxied 3) False sample_edits = Returns p \<and>
     map sr_values (view (sample_proxied 3) p) = [[Some (GValue 24 7)], [Some (GValue 24 1)], [Some (GValue 24 2)], [Some (GValue 24 9)]] \<and>
     map sr_deleted (view (sample_proxied 3) p) = [False, False, True, False]"
proof -
  have table: "first_table (sample_proxied 3) False =
      [\<lparr>sr_values = [Some (GValue 24 0)], sr_orig = [Some (GValue 24 0)], sr_deleted = False, sr_added = False\<rparr>,
       \<lparr>sr_values = [Some (GValue 24 1)], sr_orig = [Some (GValue 24 1)], sr_deleted = False, sr_added = False\<rparr>,
       \<lparr>sr_values = [Some (GValue 24 2)], sr_orig = [Some (GValue 24 2)], sr_deleted = False, sr_added = False\<rparr>]"
    by (simp add: first_table_def model_table_def sample_proxied_def upt_rec Let_def)
  note defs = table sample_edits_def at_row_def set_cell_def replaces_def GDA_TYPE_NULL_def added_row_def default_row_value_def
      gda_column_new_def contents_of_def
  have cols: "dm_n_columns (sample_proxied 3) = 1" "dm_n_rows (sample_proxied 3) = 3" "AccessInsert \<in> dm_access (sample_proxied 3)"
      "AccessDelete \<in> dm_access (sample_proxied 3)" "pm_column (sample_proxied 3) = (\<lambda>_. gda_column_new\<lparr>col_type := 24\<rparr>)"
    by (simp_all add: sample_proxied_def)
  have "edits_fit (sample_proxied 3) 1 False sample_edits (first_table (sample_proxied 3) False)"
    by (simp add: defs cols)
  moreover have "map sr_values (edits_table (sample_proxied 3) 1 False sample_edits (first_table (sample_proxied 3) False)) =
      [[Some (GValue 24 7)], [Some (GValue 24 1)], [Some (GValue 24 2)], [Some (GValue 24 9)]]"
    "map sr_deleted (edits_table (sample_proxied 3) 1 False sample_edits (first_table (sample_proxied 3) False)) = [False, False, True, False]"
    by (simp_all add: defs cols)
  moreover have "int (length sample_edits) = 6" by (simp add: sample_edits_def)
  ultimately show ?thesis
    using proxy_refines_table [OF sample_good sample_cmp_decides, of 3 False sample_edits] cols(1,2) by auto
qed

section \<open>Observers\<close>

lemma edits_fit_append:
  "edits_fit dm n b (es @ [e]) t \<longleftrightarrow> edits_fit dm n b es t \<and> edit_fits n e (edits_table dm n b es t)"
  by (induction es arbitrary: t) auto

text \<open>
  C20: Observers follow every edit but one. After every history of edits, the signals that an edit emits lead an observer
  that reads the rows they name from the table before the edit to the table after it; only when the single changed
  value of a row is taken back, no signal is emitted at all.
\<close>

theorem observers_follow_edits:
  assumes "good_proxied dm" "decides_equality cmp" "edits_fit dm (dm_n_columns dm) b (es @ [e]) (first_table dm b)"
    and "dm_n_rows dm + int (length es) + 1 < 2147483648"
  shows "\<exists>p p' S. edited_proxy cmp dm b es = Returns p \<and> do_edit cmp dm e p = Returns p' \<and> px_signals p' = px_signals p @ S \<and>
    (if silent_edit p e then S = [] else observe (read_row dm p') S (view dm p) = view dm p')"
proof -
  have fits: "edits_fit dm (dm_n_columns dm) b es (first_table dm b)"
      "edit_fits (dm_n_columns dm) e (edits_table dm (dm_n_columns dm) b es (first_table dm b))"
    using assms(3) by (simp_all add: edits_fit_append)
  have "dm_n_rows dm + int (length es) < 2147483648" using assms(4) by simp
  then obtain p where p: "edited_proxy cmp dm b es = Returns p" "edit_ready dm p" "model_nb_cols p = dm_n_columns dm"
      "model_nb_rows p = dm_n_rows dm" "length (new_rows p) \<le> length es"
      "view dm p = edits_table dm (dm_n_columns dm) b es (first_table dm b)"
    using edited_proxy_ready [OF assms(1,2) fits(1)] by blast
  have "edit_fits (model_nb_cols p) e (view dm p)" using fits(2) p(3,6) by simp
  moreover have "model_nb_rows p + int (length (new_rows p)) + 1 < 2147483648" using assms(4) p(4,5) by simp
  ultimately obtain p' where p': "do_edit cmp dm e p = Returns p'"
      "if silent_edit p e then px_signals p' = px_signals p else told dm p p'"
    using edit_step [OF p(2) assms(2)] by blast
  show ?thesis
  proof (cases "silent_edit p e")
    case True
    then show ?thesis using p(1) p' by (intro exI [of _ p] exI [of _ p'] exI [of _ "[]"]) simp
  next
    case False
    then show ?thesis using p(1) p' by (auto simp: told_def)
  qed
qed

theorem observers_follow_edits_witness:
  "\<exists>p p' S. edited_proxy (\<lambda>t x y. int x - int y) (sample_proxied 3) False [EAppend] = Returns p \<and>
     do_edit (\<lambda>t x y. int x - int y) (sample_proxied 3) (EDelete 3) p = Returns p' \<and> px_signals p' = px_signals p @ S \<and>
     observe (read_row (sample_proxied 3) p') S (view (sample_proxied 3) p) = view (sample_proxied 3) p'"
proof -
  have len: "length (first_table (sample_proxied 3) False) = 3" "dm_n_columns (sample_proxied 3) = 1" "dm_n_rows (sample_proxied 3) = 3"
      "AccessInsert \<in> dm_access (sample_proxied 3)"
    by (simp_all add: first_table_def model_table_def sample_proxied_def)
  then have "edits_fit (sample_proxied 3) 1 False ([EAppend] @ [EDelete 3]) (first_table (sample_proxied 3) False)" by simp
  then show ?thesis
    using observers_follow_edits [OF sample_good sample_cmp_decides, of 3 False "[EAppend]" "EDelete 3"] len(2,3) by auto
qed

text \<open>
  C26: When one value of a row of the proxied model was set and this change is taken back, of the value or of the whole
  row, the table goes back to what it was, but no signal tells it: an observer goes on showing the value.
\<close>

theorem taking_back_the_only_change_is_silent:
  assumes dm: "good_proxied dm" and cmp: "decides_equality cmp" and rows: "dm_n_rows dm + 2 < 2147483648"
    and r: "0 \<le> r" "nat r < length (first_table dm b)" "\<not> (b \<and> r = 0)" and c: "c < dm_n_columns dm"
    and v: "v = GNull \<or> G_VALUE_TYPE v \<noteq> GDA_TYPE_NULL" "sr_values (first_table dm b ! nat r) ! c = Some x" "replaces v x" "v \<noteq> x"
    and e: "e = ECancelRow r \<or> e = ECancelCell r c"
  shows "\<exists>p p'. edited_proxy cmp dm b [ESet r c v] = Returns p \<and> do_edit cmp dm e p = Returns p' \<and>
    view dm p \<noteq> view dm p' \<and> view dm p' = first_table dm b \<and> px_signals p' = px_signals p"
proof -
  obtain p0 where p0: "gda_data_proxy_new dm = Returns p0" "edit_ready dm p0" "view dm p0 = model_table dm"
      "model_nb_cols p0 = dm_n_columns dm" "model_nb_rows p0 = dm_n_rows dm" "\<not> add_null_entry p0" "new_rows p0 = []" "all_modifs p0 = []"
    by (rule new_proxy_ready [OF dm])
  obtain p1 where p1: "set_property_add_null_entry dm p0 b = Returns p1" "edit_ready dm p1" "add_null_entry p1 = b"
      "view dm p1 = first_table dm b" "model_nb_cols p1 = dm_n_columns dm" "model_nb_rows p1 = dm_n_rows dm" "new_rows p1 = []"
      "all_modifs p1 = []"
    by (rule null_entry_ready [OF p0(2,6), of b]) (simp_all only: p0 first_table_def)
  have r1: "nat r < length (view dm p1)" "\<not> (add_null_entry p1 \<and> r = 0)" "c < model_nb_cols p1" using r c p1 by simp_all
  obtain a where a: "proxy_row_to_absolute_row p1 r = a" "0 \<le> a" "a < model_nb_rows p1" "view dm p1 ! nat r = seen_at dm p1 a"
  proof -
    obtain j a where "proxy_row_to_absolute_row p1 r = a" "0 \<le> a" "a < model_nb_rows p1 + int (length (new_rows p1))"
        "view dm p1 ! nat r = seen_at dm p1 a"
      by (rule ready_row [OF p1(2) r(1) r1(1,2)])
    then show thesis using that p1(7) by simp
  qed
  have none: "modif_id_of p1 a = None"
  proof (cases "modif_id_of p1 a")
    case (Some i)
    then obtain rm where "modif_at p1 i = Some rm" using modif_of_modif [OF edit_ready_inv [OF p1(2)]] by blast
    then show ?thesis by (simp add: modif_at_def p1(8))
  qed
  then have m: "modif_of p1 a = None" by (simp add: modif_of_def)
  have cell: "dm_value_at dm c a = Some x"
    using v(2) c a(2,3) m p1(5) by (simp add: a(4) seen_at_def seen_def seen_cell_def model_value_def flip: p1(4))
  have x: "seen_cell dm (if a < model_nb_rows p1 then a else - 1) (modif_of p1 a) c = Some x"
    using cell m a(2,3) by (simp add: seen_cell_def model_value_def)
  have a': "a < model_nb_rows p1 + int (length (new_rows p1))" using a(3) by simp
  note steps = set_value_steps(3) [OF p1(2) cmp r(1) r1(2,3) a(1,2) a' x v(3,4)]
  obtain q where q0: "gda_data_proxy_set_value_at cmp dm p1 c r (Some v) = Returns (True, None, px_notify (PxUpdated r) q) \<and>
      edited dm (at_row r (set_cell c v)) p1 q \<and> px_signals q = px_signals p1 \<and> changes_only a p1 q \<and>
      (\<exists>rm. modif_of q a = Some rm \<and> \<not> is_new rm \<and> \<not> rm_to_be_deleted rm \<and> map rv_column (rm_modify_values rm) = [c])"
    using exE [OF set_unmodified [OF p1(2) r(1) r1 v(1) a(1-3) cell v(3) none, of cmp, folded steps]] .
  then obtain rm where q: "gda_data_proxy_set_value_at cmp dm p1 c r (Some v) = Returns (True, None, px_notify (PxUpdated r) q)"
      "edited dm (at_row r (set_cell c v)) p1 q" "modif_of q a = Some rm" "\<not> is_new rm" "\<not> rm_to_be_deleted rm"
      "map rv_column (rm_modify_values rm) = [c]"
    by (elim conjE exE) (rule that)
  define p where "p = px_notify (PxUpdated r) q"
  have p: "edit_ready dm p" "view dm p = at_row r (set_cell c v) (first_table dm b)" "add_null_entry p = b" "model_nb_cols p = dm_n_columns dm"
      "model_nb_rows p = dm_n_rows dm" "length (new_rows p) \<le> 1" "modif_of p a = Some rm"
    using edited_notify(1) [OF q(2), of "PxUpdated r"] p1 q(3) by (simp_all add: p_def edited_def)
  have call: "edited_proxy cmp dm b [ESet r c v] = Returns p"
    using p0(1) p1(1) q(1) by (simp add: edited_proxy_def p_def)
  have old: "sr_orig (first_table dm b ! nat r) = sr_values (first_table dm b ! nat r)" "length (sr_values (first_table dm b ! nat r)) = dm_n_columns dm"
      "\<not> sr_added (first_table dm b ! nat r)"
    using a(2,3) m p1(5) by (auto simp: a(4) seen_at_def seen_def seen_cell_def model_value_def simp flip: p1(4) intro!: map_cong)
  define t where "t = first_table dm b"
  have set_row: "view dm p ! nat r = (t ! nat r)\<lparr>sr_values := (sr_values (t ! nat r))[c := Some v]\<rparr>"
    using p(2) r v(2,3) by (simp add: at_row_def set_cell_def t_def)
  have fits: "edit_fits (model_nb_cols p) e (view dm p)"
    using e r c p(2,4) old(3) set_row by (auto simp: t_def at_row_def)
  have "model_nb_rows p + int (length (new_rows p)) + 1 < 2147483648" using rows p(5,6) by linarith
  with edit_step [OF p(1) cmp fits] obtain p' where p': "do_edit cmp dm e p = Returns p'"
      "edited dm (edit_table dm (model_nb_cols p) (add_null_entry p) e) p p'" "if silent_edit p e then px_signals p' = px_signals p else told dm p p'"
    by blast
  have abs: "proxy_row_to_absolute_row p r = a"
    using changes_only_row [OF p1(2) p(1), of a] q0 a(1) by (simp add: p_def)
  have "silent_edit p e"
    using e abs p(7) q(4-6) by (cases "rm_modify_values rm") (auto simp: silent_cancel_def find_row_value_Cons)
  moreover have "view dm p' = t"
  proof -
    have "view dm p' = edit_table dm (model_nb_cols p) (add_null_entry p) e (view dm p)" using p'(2) by (simp add: edited_def)
    also have "\<dots> = (view dm p)[nat r := t ! nat r]"
      using e set_row old c r by (auto simp: at_row_def restored_def t_def list_update_same_conv)
    also have "\<dots> = t" using p(2) r by (simp add: at_row_def t_def)
    finally show ?thesis .
  qed
  moreover have "view dm p \<noteq> t"
  proof
    assume "view dm p = t"
    then have "sr_values (t ! nat r) = (sr_values (t ! nat r))[c := Some v]" using set_row by (metis seen_row.select_convs(1) seen_row.surjective seen_row.update_convs(1))
    then have "sr_values (t ! nat r) ! c = Some v" using c old(2) by (metis nth_list_update_eq t_def)
    then show False using v(2,4) by (simp add: t_def)
  qed
  ultimately show ?thesis using call p'(1,3) by (auto simp: t_def)
qed

theorem taking_back_the_only_change_is_silent_witness:
  "\<exists>p p'. edited_proxy (\<lambda>t x y. int x - int y) (sample_proxied 3) True [ESet 2 0 (GValue 24 7)] = Returns p \<and>
     do_edit (\<lambda>t x y. int x - int y) (sample_proxied 3) (ECancelRow 2) p = Returns p' \<and>
     view (sample_proxied 3) p \<noteq> view (sample_proxied 3) p' \<and> view (sample_proxied 3) p' = first_table (sample_proxied 3) True \<and>
     px_signals p' = px_signals p"
proof (rule taking_back_the_only_change_is_silent [OF sample_good sample_cmp_decides, where x = "GValue 24 1"])
  have table: "first_table (sample_proxied 3) True = null_seen 1 # map (\<lambda>i. \<lparr>sr_values = [Some (GValue 24 i)],
      sr_orig = [Some (GValue 24 i)], sr_deleted = False, sr_added = False\<rparr>) [0, 1, 2]"
    by (simp add: first_table_def model_table_def sample_proxied_def upt_rec Let_def)
  show "nat 2 < length (first_table (sample_proxied 3) True)" by (simp add: table)
  show "sr_values (first_table (sample_proxied 3) True ! nat 2) ! 0 = Some (GValue 24 1)" by (simp add: table)
  show "replaces (GValue 24 7) (GValue 24 (1::nat))" by (simp add: replaces_def)
  show "dm_n_rows (sample_proxied 3) + 2 < 2147483648" "0 < dm_n_columns (sample_proxied 3)" by (simp_all add: sample_proxied_def)
qed (simp_all add: GDA_TYPE_NULL_def)

end
