(* ===== verification/Gda_Proxy_Missing.thy ===== *)
theory Gda_Proxy_Missing
  imports Gda_Proxy_Table
begin

text \<open>
  Rows of a data proxy that do not exist: what setting a value and deleting do with a row number behind the last row.
\<close>

section \<open>Rows behind the last one\<close>

lemma behind_rows:
  assumes p: "edit_ready dm p" and r: "int (length (view dm p)) \<le> r"
  shows "0 \<le> r" "\<not> (add_null_entry p \<and> r = 0)" "proxy_row_to_model_row p r = - 1" "row_modif_of p r = Returns None"
proof -
  have n: "0 \<le> model_nb_rows p" using edit_ready_inv [OF p] by (simp add: px_inv_def)
  have len: "int (length (old_rows p)) + null_rows p \<le> r"
    using r ready_rows(1) [OF p] by (auto simp: view_def null_rows_def split: if_splits)
  show "0 \<le> r" using r by simp
  then show "\<not> (add_null_entry p \<and> r = 0)" using len by (auto simp: null_rows_def)
  have abs: "proxy_row_to_absolute_row p r < 0 \<or> model_nb_rows p + int (length (new_rows p)) \<le> proxy_row_to_absolute_row p r"
    using len p n \<open>0 \<le> r\<close>
    by (auto simp: proxy_row_to_absolute_row_def edit_ready_def old_rows_def null_rows_def Let_def split: option.splits if_splits)
  then have "absolute_row_to_model_row p (proxy_row_to_absolute_row p r) = (- 1, None)"
    using n by (auto simp: absolute_row_to_model_row_def slist_nth_def)
  then show "proxy_row_to_model_row p r = - 1" "row_modif_of p r = Returns None"
    by (simp_all add: proxy_row_to_model_row_def row_modif_of_def proxy_row_to_row_modif_def)
qed


section \<open>Deleting them\<close>

lemma delete_behind_rows:
  assumes p: "edit_ready dm p" and r: "int (length (view dm p)) \<le> r" and del: "AccessDelete \<in> dm_access dm"
  obtains p' where "gda_data_proxy_remove_row dm p r = Returns (True, None, p')" "view dm p' = view dm p"
    "gda_data_proxy_row_is_deleted p' r = Returns False" "length (all_modifs p') = Suc (length (all_modifs p))"
    "px_signals p' = px_signals p @ [PxUpdated r, PxDeleteChanged r True]"
proof -
  note row = behind_rows [OF p r]
  define q where "q = delete_changed r True (snd (add_row_modif ((row_modifs_new dm p r)\<lparr>rm_to_be_deleted := True\<rparr>) (- 1) p))"
  have call: "gda_data_proxy_remove_row dm p r = Returns (True, None, q)"
    using row del p by (auto simp: gda_data_proxy_remove_row_def gda_data_proxy_delete_def ensure_ready [OF p]
        gda_data_proxy_get_access_flags_def q_def)
  note inv = edit_ready_inv [OF p]
  have n: "0 \<le> model_nb_rows p" using inv by (simp add: px_inv_def)
  have q: "all_modifs q = (next_modif p, (row_modifs_new dm p r)\<lparr>rm_to_be_deleted := True, rm_model_row := - 1\<rparr>) # all_modifs p"
      "modify_rows q = (modify_rows p)(- 1 := Some (next_modif p))" "new_rows q = new_rows p" "model_nb_rows q = model_nb_rows p"
      "model_nb_cols q = model_nb_cols p" "add_null_entry q = add_null_entry p" "px_signals q = px_signals p @ [PxUpdated r, PxDeleteChanged r True]"
      "chunk q = chunk p" "chunk_to q = chunk_to p" "chunk_sep q = chunk_sep p" "force_direct_mapping q = force_direct_mapping p"
      "chunk_proxy_nb_rows q = chunk_proxy_nb_rows p"
    using p by (simp_all add: q_def add_row_modif_def prepend_modif_def hash_insert_def delete_changed_def px_notify_def px_emit_def
        edit_ready_def)
  have abs: "proxy_row_to_absolute_row q k = proxy_row_to_absolute_row p k" for k
    by (simp add: proxy_row_to_absolute_row_def q cong: option.case_cong)
  have model: "absolute_row_to_model_row q a = absolute_row_to_model_row p a" for a
    using n by (simp add: absolute_row_to_model_row_def q)
  have at: "modif_at q i = modif_at p i" if "modif_id_of p a = Some i" for a i
  proof -
    from modif_of_modif [OF inv that] obtain rm where "modif_wf p i rm" by blast
    then have "i \<noteq> next_modif p" by (simp add: modif_wf_def)
    then show ?thesis by (simp add: modif_at_def q)
  qed
  have modif: "row_modif_of q k = row_modif_of p k" for k
    using at by (auto simp: row_modif_of_def proxy_row_to_row_modif_def abs model modif_id_of_def split: option.split)
  have model_row: "proxy_row_to_model_row q = proxy_row_to_model_row p"
    by (simp add: fun_eq_iff proxy_row_to_model_row_def abs model)
  have "read_row dm q k = read_row dm p k" for k
    unfolding read_row_def gda_data_proxy_get_value_at_def gda_data_proxy_row_is_deleted_def gda_data_proxy_row_is_inserted_def
      modif model_row q(5,6) by (rule refl)
  moreover have "gda_data_proxy_get_n_rows q = gda_data_proxy_get_n_rows p"
    by (simp add: gda_data_proxy_get_n_rows_def q cong: option.case_cong)
  ultimately have view: "view dm q = view dm p" by (simp add: view_def)
  show thesis using that [of q] call view modif [of r] row(1,4) q(1,7) by (simp add: gda_data_proxy_row_is_deleted_def)
qed


section \<open>Properties\<close>

text \<open>A new proxy of the sample model has its three rows.\<close>

lemma sample_rows:
  assumes "edited_proxy (\<lambda>t x y. int x - int y) (sample_proxied 3) False [] = Returns p"
  shows "gda_data_proxy_get_n_rows p = 3"
proof -
  have dm: "dm_n_rows (sample_proxied 3) = 3" "length (first_table (sample_proxied 3) False) = 3"
    by (simp_all add: sample_proxied_def first_table_def model_table_def)
  from edited_proxy_ready [OF sample_good sample_cmp_decides, of 3 False "[]"]
  have "edit_ready (sample_proxied 3) p \<and> view (sample_proxied 3) p = first_table (sample_proxied 3) False"
    using assms dm by auto
  moreover have "length (view (sample_proxied 3) p) = nat (gda_data_proxy_get_n_rows p)" by (simp add: view_def)
  ultimately show ?thesis using dm(2) by simp
qed



text \<open>
  C23: Deleting a row behind the last one succeeds: after every history of edits, the call returns that the row was
  removed and tells observers so, the table is what it was and the row does not count as deleted, but the proxy holds
  one more modification, of no row, and counts as changed.
\<close>

theorem deleting_a_missing_row:
  assumes "good_proxied dm" "decides_equality cmp" "edits_fit dm (dm_n_columns dm) b es (first_table dm b)"
    and "dm_n_rows dm + int (length es) < 2147483648" and "AccessDelete \<in> dm_access dm"
  shows "\<exists>p. edited_proxy cmp dm b es = Returns p \<and> (\<forall>r. gda_data_proxy_get_n_rows p \<le> r \<longrightarrow>
    (\<exists>p'. gda_data_proxy_remove_row dm p r = Returns (True, None, p') \<and>
      px_signals p' = px_signals p @ [PxUpdated r, PxDeleteChanged r True] \<and>
      view dm p' = view dm p \<and> gda_data_proxy_row_is_deleted p' r = Returns False \<and>
      gda_data_proxy_get_n_modified_rows p' = gda_data_proxy_get_n_modified_rows p + 1 \<and> gda_data_proxy_has_changed p'))"
proof -
  from edited_proxy_ready [OF assms(1-4)] obtain p where p: "edited_proxy cmp dm b es = Returns p" "edit_ready dm p" by blast
  have "\<exists>p'. gda_data_proxy_remove_row dm p r = Returns (True, None, p') \<and>
      px_signals p' = px_signals p @ [PxUpdated r, PxDeleteChanged r True] \<and>
      view dm p' = view dm p \<and> gda_data_proxy_row_is_deleted p' r = Returns False \<and>
      gda_data_proxy_get_n_modified_rows p' = gda_data_proxy_get_n_modified_rows p + 1 \<and> gda_data_proxy_has_changed p'"
    if "gda_data_proxy_get_n_rows p \<le> r" for r
  proof -
    have "int (length (view dm p)) \<le> r" using that p(2) ready_rows(1) [OF p(2)] by (simp add: view_def null_rows_def)
    from delete_behind_rows [OF p(2) this assms(5)] obtain p' where p': "gda_data_proxy_remove_row dm p r = Returns (True, None, p')"
        "view dm p' = view dm p" "gda_data_proxy_row_is_deleted p' r = Returns False"
        "length (all_modifs p') = Suc (length (all_modifs p))" "px_signals p' = px_signals p @ [PxUpdated r, PxDeleteChanged r True]" .
    then show ?thesis by (auto simp: gda_data_proxy_get_n_modified_rows_def gda_data_proxy_has_changed_def)
  qed
  then show ?thesis using p(1) by blast
qed

theorem deleting_a_missing_row_witness:
  "\<exists>p p'. edited_proxy (\<lambda>t x y. int x - int y) (sample_proxied 3) False [] = Returns p \<and> gda_data_proxy_get_n_rows p = 3 \<and>
     gda_data_proxy_remove_row (sample_proxied 3) p 3 = Returns (True, None, p') \<and> gda_data_proxy_has_changed p' \<and>
     view (sample_proxied 3) p' = view (sample_proxied 3) p"
proof -
  have dm: "dm_n_columns (sample_proxied 3) = 1" "dm_n_rows (sample_proxied 3) = 3" "AccessDelete \<in> dm_access (sample_proxied 3)"
    by (simp_all add: sample_proxied_def)
  obtain p where p: "edited_proxy (\<lambda>t x y. int x - int y) (sample_proxied 3) False [] = Returns p"
      "\<forall>r. gda_data_proxy_get_n_rows p \<le> r \<longrightarrow>
         (\<exists>p'. gda_data_proxy_remove_row (sample_proxied 3) p r = Returns (True, None, p') \<and>
           px_signals p' = px_signals p @ [PxUpdated r, PxDeleteChanged r True] \<and>
           view (sample_proxied 3) p' = view (sample_proxied 3) p \<and> gda_data_proxy_row_is_deleted p' r = Returns False \<and>
           gda_data_proxy_get_n_modified_rows p' = gda_data_proxy_get_n_modified_rows p + 1 \<and> gda_data_proxy_has_changed p')"
    using deleting_a_missing_row [OF sample_good sample_cmp_decides, of 3 False "[]"] dm by auto
  have "gda_data_proxy_get_n_rows p = 3" using sample_rows [OF p(1)] .
  then show ?thesis using p by fastforce
qed

end
