(* ===== verification/Gda_Proxy_Values.thy ===== *)
theory Gda_Proxy_Values
  imports Gda_Proxy_Missing
begin

text \<open>
  Lists of values given to a data proxy: which row the search by values finds, and what a refused list of values for a
  new row leaves behind.
\<close>

section \<open>Searching\<close>

lemma get_of_view:
  assumes p: "edit_ready dm p" and r: "r < length (view dm p)" and c: "c < model_nb_cols p"
  shows "gda_data_proxy_get_value_at dm p c (int r) = Returns (sr_values (view dm p ! r) ! c)"
proof -
  have "\<exists>m. row_modif_of p (int r) = Returns m" by (simp add: row_modif_of_eq [OF edit_ready_inv [OF p]])
  then have "\<exists>x. gda_data_proxy_get_value_at dm p c (int r) = Returns x"
    using c by (auto simp: gda_data_proxy_get_value_at_def Let_def)
  moreover have "sr_values (view dm p ! r) ! c = readable (gda_data_proxy_get_value_at dm p c (int r))"
    using r c by (simp add: view_def read_row_def)
  ultimately show ?thesis by auto
qed

text \<open>The number of the first row that starts with the given values, or -1.\<close>

definition first_match :: "'v gptr list \<Rightarrow> 'v seen_row list \<Rightarrow> int" where
  "first_match vs t =
     (case find (\<lambda>r. take (length vs) (sr_values (t ! r)) = vs) [0..<length t] of None \<Rightarrow> - 1 | Some r \<Rightarrow> int r)"

lemma match_proxy_row_view:
  assumes p: "edit_ready dm p" and cmp: "decides_equality cmp" and r: "r < length (view dm p)"
  shows "None \<notin> set vs \<Longrightarrow> k + length vs \<le> model_nb_cols p \<Longrightarrow>
    match_proxy_row cmp dm p False (int r) (zip [k..<k + length vs] vs) =
      Returns (if take (length vs) (drop k (sr_values (view dm p ! r))) = vs then Matches else Differs)"
proof (induction vs arbitrary: k)
  case (Cons v vs)
  let ?row = "sr_values (view dm p ! r)"
  obtain x where v: "v = Some x" using Cons.prems(1) by (cases v) auto
  have k: "k < model_nb_cols p" using Cons.prems(2) by simp
  have len: "length ?row = model_nb_cols p" using r by (simp add: view_def read_row_def)
  have row: "take (length (v # vs)) (drop k ?row) = ?row ! k # take (length vs) (drop (Suc k) ?row)"
    using k len by (simp add: Cons_nth_drop_Suc [symmetric])
  have "zip [k..<k + length (v # vs)] (v # vs) = (k, v) # zip [Suc k..<Suc k + length vs] vs"
    by (simp add: upt_rec)
  moreover have "match_proxy_row cmp dm p False (int r) ((k, v) # zip [Suc k..<Suc k + length vs] vs) =
      (if ?row ! k = v then match_proxy_row cmp dm p False (int r) (zip [Suc k..<Suc k + length vs] vs) else Returns Differs)"
    by (cases "?row ! k") (auto simp: v get_of_view [OF p r k] compare_0 [OF cmp])
  moreover have "match_proxy_row cmp dm p False (int r) (zip [Suc k..<Suc k + length vs] vs) =
      Returns (if take (length vs) (drop (Suc k) ?row) = vs then Matches else Differs)"
    using Cons.IH [of "Suc k"] Cons.prems by simp
  ultimately show ?case using row by (simp only: list.inject) (simp split: if_split)
qed simp

lemma scan_proxy_rows_view:
  assumes p: "edit_ready dm p" and cmp: "decides_equality cmp" and vs: "None \<notin> set vs" "length vs \<le> model_nb_cols p"
  shows "set rs \<subseteq> {..<length (view dm p)} \<Longrightarrow>
    scan_proxy_rows cmp dm p False (zip [0..<length vs] vs) rs =
      Returns (case find (\<lambda>r. take (length vs) (sr_values (view dm p ! r)) = vs) rs of None \<Rightarrow> - 1 | Some r \<Rightarrow> int r)"
proof (induction rs)
  case (Cons r rs)
  then show ?case using match_proxy_row_view [OF p cmp, of r vs 0] vs by simp
qed simp

lemma find_row_view:
  assumes p: "edit_ready dm p" and cmp: "decides_equality cmp" and vs: "vs \<noteq> []" "None \<notin> set vs" "length vs \<le> model_nb_cols p"
  shows "gda_data_proxy_find_row_from_values cmp dm p vs None = Returns (first_match vs (view dm p), p)"
proof -
  have "nat (gda_data_proxy_get_n_rows p) = length (view dm p)" by (simp add: view_def)
  then show ?thesis
    using vs(1) scan_proxy_rows_view [OF p cmp vs(2,3), of "[0..<length (view dm p)]"] ensure_ready [OF p]
    by (simp add: gda_data_proxy_find_row_from_values_def first_match_def atLeast0LessThan)
qed

section \<open>Refused values\<close>

lemma null_values_check: "list_all is_null vs \<Longrightarrow> check_values dm col vs p = Returns (True, p)"
  by (induction vs arbitrary: col) auto

lemma skipped_values: "set_each cmp dm row col (replicate k None @ vs) err p = set_each cmp dm row (col + k) vs err p"
  by (induction k arbitrary: col) auto

lemma refused_append:
  assumes p: "edit_ready dm p" and access: "AccessInsert \<in> dm_access dm" "AccessDelete \<notin> dm_access dm"
    and fits: "model_nb_rows p + int (length (new_rows p)) + 1 < 2147483648"
  shows "\<exists>q. gda_data_proxy_append_values cmp dm p (replicate (model_nb_cols p) None @ [Some GNull]) = Returns (- 1, Some ReadOnlyValue, q) \<and>
    view dm q = view dm p @ [added_row dm (model_nb_cols p)] \<and> px_signals q = px_signals p"
proof -
  let ?n = "model_nb_cols p" and ?row = "int (length (view dm p))"
  obtain q where q: "gda_data_proxy_append dm (p\<lparr>notify_changes := False\<rparr>) = Returns (?row, q\<lparr>notify_changes := False\<rparr>)"
      "edit_ready dm q" "view dm q = view dm p @ [added_row dm ?n]" "model_nb_cols q = ?n" "add_null_entry q = add_null_entry p"
      "px_signals q = px_signals p"
    using append_view(2) [OF p access(1) fits] by (auto simp: edited_def)
  let ?q = "q\<lparr>notify_changes := False\<rparr>"
  have sync: "ensure_chunk_sync dm ?q = Returns ?q" using q(2) by (simp add: edit_ready_def ensure_chunk_sync_def)
  have row: "?row = 0 \<longrightarrow> \<not> add_null_entry q"
    using q(5) view_seen [OF p] by (simp add: null_view_def split: if_splits)
  have n: "0 < ?n" using p by (simp add: edit_ready_def)
  have notify: "notify_changes p" using p by (simp add: edit_ready_def)
  have set: "gda_data_proxy_set_value_at cmp dm ?q ?n ?row (Some GNull) = Returns (False, Some ReadOnlyValue, ?q)"
    using sync row q(4) by (auto simp: gda_data_proxy_set_value_at_def)
  have "check_values dm 0 (replicate ?n None @ [Some GNull]) ?q = Returns (True, ?q)" by (rule null_values_check) (simp add: list_all_iff is_null_def)
  then have "gda_data_proxy_set_values cmp dm ?q ?row (replicate ?n None @ [Some GNull]) = Returns (False, Some ReadOnlyValue, ?q)"
    using n q(4) set by (simp add: gda_data_proxy_set_values_def gda_data_proxy_get_n_columns_def skipped_values px_notify_def)
  moreover have "gda_data_proxy_remove_row dm ?q ?row = Returns (True, None, ?q)"
    using sync row access(2) by (auto simp: gda_data_proxy_remove_row_def gda_data_proxy_delete_def gda_data_proxy_get_access_flags_def)
  moreover have "q\<lparr>notify_changes := True\<rparr> = q" using q(2) by (simp add: edit_ready_def)
  ultimately have "gda_data_proxy_append_values cmp dm p (replicate ?n None @ [Some GNull]) = Returns (- 1, Some ReadOnlyValue, q)"
    using q(1) notify by (simp add: gda_data_proxy_append_values_def ensure_ready [OF p])
  then show ?thesis using q(3,6) by blast
qed

section \<open>Properties\<close>

text \<open>
  C21: After every history of edits, the search by values answers the first row of the edited table that starts with the
  given values, or -1 when no row does; it changes nothing.
\<close>

theorem search_finds_the_first_match:
  assumes "good_proxied dm" "decides_equality cmp" "edits_fit dm (dm_n_columns dm) b es (first_table dm b)"
    and "dm_n_rows dm + int (length es) < 2147483648" and "vs \<noteq> []" "None \<notin> set vs" "length vs \<le> dm_n_columns dm"
  shows "\<exists>p. edited_proxy cmp dm b es = Returns p \<and>
    gda_data_proxy_find_row_from_values cmp dm p vs None =
      Returns (first_match vs (edits_table dm (dm_n_columns dm) b es (first_table dm b)), p)"
proof -
  from edited_proxy_ready [OF assms(1-4)] obtain p where p: "edited_proxy cmp dm b es = Returns p" "edit_ready dm p"
      "model_nb_cols p = dm_n_columns dm" "view dm p = edits_table dm (dm_n_columns dm) b es (first_table dm b)" by blast
  then show ?thesis using find_row_view [OF p(2) assms(2,5,6)] assms(7) by simp
qed

theorem search_finds_the_first_match_witness:
  "\<exists>p. edited_proxy (\<lambda>t x y. int x - int y) (sample_proxied 3) False [ESet 1 0 (GValue 24 9), ESet 2 0 (GValue 24 9)] = Returns p \<and>
     gda_data_proxy_find_row_from_values (\<lambda>t x y. int x - int y) (sample_proxied 3) p [Some (GValue 24 9)] None = Returns (1, p)"
proof -
  have table: "first_table (sample_proxied 3) False = map (\<lambda>i. \<lparr>sr_values = [Some (GValue 24 i)],
      sr_orig = [Some (GValue 24 i)], sr_deleted = False, sr_added = False\<rparr>) [0, 1, 2]"
    by (simp add: first_table_def model_table_def sample_proxied_def upt_rec Let_def)
  have dm: "dm_n_columns (sample_proxied 3) = 1" "dm_n_rows (sample_proxied 3) = 3" by (simp_all add: sample_proxied_def)
  let ?es = "[ESet 1 0 (GValue 24 9), ESet 2 0 (GValue 24 9)]"
  have "edits_fit (sample_proxied 3) 1 False ?es (first_table (sample_proxied 3) False)"
    by (simp add: table at_row_def set_cell_def GDA_TYPE_NULL_def)
  moreover have "first_match [Some (GValue 24 9)] (edits_table (sample_proxied 3) 1 False ?es (first_table (sample_proxied 3) False)) = 1"
    by (simp add: table at_row_def set_cell_def replaces_def first_match_def upt_rec)
  ultimately show ?thesis
    using search_finds_the_first_match [OF sample_good sample_cmp_decides, of 3 False ?es "[Some (GValue 24 9)]"] dm by simp
qed

text \<open>
  C27: A refused list of values is not undone when the model lets rows be added but not deleted: after every history of
  edits, appending a list with a value too many reports the failure with -1, but the new row stays in the table with its
  default values, and no signal tells it.
\<close>

theorem refused_values_leave_a_row:
  assumes "good_proxied dm" "decides_equality cmp" "edits_fit dm (dm_n_columns dm) b es (first_table dm b)"
    and "dm_n_rows dm + int (length es) + 1 < 2147483648" and "AccessInsert \<in> dm_access dm" "AccessDelete \<notin> dm_access dm"
  shows "\<exists>p q. edited_proxy cmp dm b es = Returns p \<and>
    gda_data_proxy_append_values cmp dm p (replicate (dm_n_columns dm) None @ [Some GNull]) = Returns (- 1, Some ReadOnlyValue, q) \<and>
    view dm q = view dm p @ [added_row dm (dm_n_columns dm)] \<and> px_signals q = px_signals p"
proof -
  have "dm_n_rows dm + int (length es) < 2147483648" using assms(4) by simp
  from edited_proxy_ready [OF assms(1-3) this] obtain p where p: "edited_proxy cmp dm b es = Returns p" "edit_ready dm p"
      "model_nb_cols p = dm_n_columns dm" "model_nb_rows p = dm_n_rows dm" "length (new_rows p) \<le> length es" by blast
  then show ?thesis using refused_append [OF p(2) assms(5,6), of cmp] assms(4) by auto
qed

theorem refused_values_leave_a_row_witness:
  "\<exists>p q. edited_proxy (\<lambda>t x y. int x - int y) ((sample_proxied 3)\<lparr>dm_access := {AccessRandom, AccessInsert}\<rparr>) False [] = Returns p \<and>
     gda_data_proxy_append_values (\<lambda>t x y. int x - int y) ((sample_proxied 3)\<lparr>dm_access := {AccessRandom, AccessInsert}\<rparr>) p
       [None, Some GNull] = Returns (- 1, Some ReadOnlyValue, q) \<and>
     length (view ((sample_proxied 3)\<lparr>dm_access := {AccessRandom, AccessInsert}\<rparr>) q) =
       length (view ((sample_proxied 3)\<lparr>dm_access := {AccessRandom, AccessInsert}\<rparr>) p) + 1 \<and> px_signals q = px_signals p"
proof -
  let ?dm = "(sample_proxied 3)\<lparr>dm_access := {AccessRandom, AccessInsert}\<rparr>"
  have good: "good_proxied ?dm" by (simp add: good_proxied_def sample_proxied_def)
  have dm: "dm_n_columns ?dm = 1" "dm_n_rows ?dm = 3" "replicate 1 None @ [Some GNull] = [None, Some (GNull :: nat gvalue)]"
    by (simp_all add: sample_proxied_def)
  have "\<exists>p q. edited_proxy (\<lambda>t x y. int x - int y) ?dm False [] = Returns p \<and>
      gda_data_proxy_append_values (\<lambda>t x y. int x - int y) ?dm p (replicate (dm_n_columns ?dm) None @ [Some GNull]) =
        Returns (- 1, Some ReadOnlyValue, q) \<and>
      view ?dm q = view ?dm p @ [added_row ?dm (dm_n_columns ?dm)] \<and> px_signals q = px_signals p"
    by (rule refused_values_leave_a_row [OF good sample_cmp_decides]) (simp_all add: dm(2))
  then show ?thesis unfolding dm(1,3) by auto
qed

end
