(* ===== verification/Gda_Sql_Tokens.thy ===== *)
theory Gda_Sql_Tokens
  imports Gda_Prelude
begin

text \<open>
  The tokenizer of SQL texts (\<open>getToken\<close> of \<open>libgda/sql-parser/gda-sql-parser.c\<close>). A text is the list of its bytes before
  the NUL that ends it; \<open>z\<close> is the rest of the text from the current position on, so \<open>cat z i\<close> is \<open>z[i]\<close>, also for the
  NUL. Every read of \<open>z[i]\<close> in the code is one that was tested to be in front of the NUL or at it, but for the reads that
  are modelled by \<open>Undefined\<close>. The classes of characters are those of the C locale. \<open>SQLITE_OMIT_BLOB_LITERAL\<close> is
  not defined.
\<close>

section \<open>Kinds of tokens\<close>

text \<open>The numbers of \<open>token_types.h\<close>.\<close>

abbreviation (input) L_ILLEGAL :: int where "L_ILLEGAL \<equiv> 0"
abbreviation (input) L_SQLCOMMENT :: int where "L_SQLCOMMENT \<equiv> 1"
abbreviation (input) L_SPACE :: int where "L_SPACE \<equiv> 2"
abbreviation (input) L_ID :: int where "L_ID \<equiv> 3"
abbreviation (input) L_ASC :: int where "L_ASC \<equiv> 7"
abbreviation (input) L_BEGIN :: int where "L_BEGIN \<equiv> 10"
abbreviation (input) L_CAST :: int where "L_CAST \<equiv> 12"
abbreviation (input) L_DEFERRED :: int where "L_DEFERRED \<equiv> 15"
abbreviation (input) L_DESC :: int where "L_DESC \<equiv> 16"
abbreviation (input) L_END :: int where "L_END \<equiv> 19"
abbreviation (input) L_EXCLUSIVE :: int where "L_EXCLUSIVE \<equiv> 20"
abbreviation (input) L_IMMEDIATE :: int where "L_IMMEDIATE \<equiv> 25"
abbreviation (input) L_LIKE :: int where "L_LIKE \<equiv> 28"
abbreviation (input) L_ILIKE :: int where "L_ILIKE \<equiv> 29"
abbreviation (input) L_OFFSET :: int where "L_OFFSET \<equiv> 35"
abbreviation (input) L_DELIMITER :: int where "L_DELIMITER \<equiv> 50"
abbreviation (input) L_COMMIT :: int where "L_COMMIT \<equiv> 51"
abbreviation (input) L_ROLLBACK :: int where "L_ROLLBACK \<equiv> 52"
abbreviation (input) L_ISOLATION :: int where "L_ISOLATION \<equiv> 53"
abbreviation (input) L_LEVEL :: int where "L_LEVEL \<equiv> 54"
abbreviation (input) L_SERIALIZABLE :: int where "L_SERIALIZABLE \<equiv> 55"
abbreviation (input) L_READ :: int where "L_READ \<equiv> 56"
abbreviation (input) L_COMMITTED :: int where "L_COMMITTED \<equiv> 57"
abbreviation (input) L_UNCOMMITTED :: int where "L_UNCOMMITTED \<equiv> 58"
abbreviation (input) L_REPEATABLE :: int where "L_REPEATABLE \<equiv> 59"
abbreviation (input) L_WRITE :: int where "L_WRITE \<equiv> 60"
abbreviation (input) L_ONLY :: int where "L_ONLY \<equiv> 61"
abbreviation (input) L_SAVEPOINT :: int where "L_SAVEPOINT \<equiv> 62"
abbreviation (input) L_RELEASE :: int where "L_RELEASE \<equiv> 63"
abbreviation (input) L_COMMENT :: int where "L_COMMENT \<equiv> 64"
abbreviation (input) L_FORCE :: int where "L_FORCE \<equiv> 65"
abbreviation (input) L_WAIT :: int where "L_WAIT \<equiv> 66"
abbreviation (input) L_NOWAIT :: int where "L_NOWAIT \<equiv> 67"
abbreviation (input) L_BATCH :: int where "L_BATCH \<equiv> 68"
abbreviation (input) L_TEXTUAL :: int where "L_TEXTUAL \<equiv> 69"
abbreviation (input) L_STRING :: int where "L_STRING \<equiv> 70"
abbreviation (input) L_OR :: int where "L_OR \<equiv> 71"
abbreviation (input) L_AND :: int where "L_AND \<equiv> 72"
abbreviation (input) L_NOT :: int where "L_NOT \<equiv> 73"
abbreviation (input) L_IS :: int where "L_IS \<equiv> 74"
abbreviation (input) L_NOTLIKE :: int where "L_NOTLIKE \<equiv> 75"
abbreviation (input) L_NOTILIKE :: int where "L_NOTILIKE \<equiv> 76"
abbreviation (input) L_IN :: int where "L_IN \<equiv> 77"
abbreviation (input) L_ISNULL :: int where "L_ISNULL \<equiv> 78"
abbreviation (input) L_NOTNULL :: int where "L_NOTNULL \<equiv> 79"
abbreviation (input) L_DIFF :: int where "L_DIFF \<equiv> 80"
abbreviation (input) L_EQ :: int where "L_EQ \<equiv> 81"
abbreviation (input) L_BETWEEN :: int where "L_BETWEEN \<equiv> 82"
abbreviation (input) L_GT :: int where "L_GT \<equiv> 83"
abbreviation (input) L_LEQ :: int where "L_LEQ \<equiv> 84"
abbreviation (input) L_LT :: int where "L_LT \<equiv> 85"
abbreviation (input) L_GEQ :: int where "L_GEQ \<equiv> 86"
abbreviation (input) L_REGEXP :: int where "L_REGEXP \<equiv> 87"
abbreviation (input) L_REGEXP_CI :: int where "L_REGEXP_CI \<equiv> 88"
abbreviation (input) L_NOT_REGEXP :: int where "L_NOT_REGEXP \<equiv> 89"
abbreviation (input) L_NOT_REGEXP_CI :: int where "L_NOT_REGEXP_CI \<equiv> 90"
abbreviation (input) L_SIMILAR :: int where "L_SIMILAR \<equiv> 91"
abbreviation (input) L_BITAND :: int where "L_BITAND \<equiv> 93"
abbreviation (input) L_BITOR :: int where "L_BITOR \<equiv> 94"
abbreviation (input) L_LSHIFT :: int where "L_LSHIFT \<equiv> 95"
abbreviation (input) L_RSHIFT :: int where "L_RSHIFT \<equiv> 96"
abbreviation (input) L_PLUS :: int where "L_PLUS \<equiv> 97"
abbreviation (input) L_MINUS :: int where "L_MINUS \<equiv> 98"
abbreviation (input) L_STAR :: int where "L_STAR \<equiv> 99"
abbreviation (input) L_SLASH :: int where "L_SLASH \<equiv> 100"
abbreviation (input) L_REM :: int where "L_REM \<equiv> 101"
abbreviation (input) L_CONCAT :: int where "L_CONCAT \<equiv> 102"
abbreviation (input) L_BITNOT :: int where "L_BITNOT \<equiv> 106"
abbreviation (input) L_LP :: int where "L_LP \<equiv> 107"
abbreviation (input) L_RP :: int where "L_RP \<equiv> 108"
abbreviation (input) L_JOIN :: int where "L_JOIN \<equiv> 109"
abbreviation (input) L_INNER :: int where "L_INNER \<equiv> 110"
abbreviation (input) L_NATURAL :: int where "L_NATURAL \<equiv> 111"
abbreviation (input) L_LEFT :: int where "L_LEFT \<equiv> 112"
abbreviation (input) L_RIGHT :: int where "L_RIGHT \<equiv> 113"
abbreviation (input) L_FULL :: int where "L_FULL \<equiv> 114"
abbreviation (input) L_CROSS :: int where "L_CROSS \<equiv> 115"
abbreviation (input) L_UNION :: int where "L_UNION \<equiv> 116"
abbreviation (input) L_EXCEPT :: int where "L_EXCEPT \<equiv> 117"
abbreviation (input) L_INTERSECT :: int where "L_INTERSECT \<equiv> 118"
abbreviation (input) L_PGCAST :: int where "L_PGCAST \<equiv> 119"
abbreviation (input) L_SEMI :: int where "L_SEMI \<equiv> 120"
abbreviation (input) L_END_OF_FILE :: int where "L_END_OF_FILE \<equiv> 121"
abbreviation (input) L_TRANSACTION :: int where "L_TRANSACTION \<equiv> 122"
abbreviation (input) L_COMMA :: int where "L_COMMA \<equiv> 123"
abbreviation (input) L_INTEGER :: int where "L_INTEGER \<equiv> 124"
abbreviation (input) L_TO :: int where "L_TO \<equiv> 125"
abbreviation (input) L_INSERT :: int where "L_INSERT \<equiv> 126"
abbreviation (input) L_INTO :: int where "L_INTO \<equiv> 127"
abbreviation (input) L_VALUES :: int where "L_VALUES \<equiv> 128"
abbreviation (input) L_DELETE :: int where "L_DELETE \<equiv> 129"
abbreviation (input) L_FROM :: int where "L_FROM \<equiv> 130"
abbreviation (input) L_WHERE :: int where "L_WHERE \<equiv> 131"
abbreviation (input) L_UPDATE :: int where "L_UPDATE \<equiv> 132"
abbreviation (input) L_SET :: int where "L_SET \<equiv> 133"
abbreviation (input) L_ALL :: int where "L_ALL \<equiv> 134"
abbreviation (input) L_SELECT :: int where "L_SELECT \<equiv> 135"
abbreviation (input) L_LIMIT :: int where "L_LIMIT \<equiv> 136"
abbreviation (input) L_ORDER :: int where "L_ORDER \<equiv> 137"
abbreviation (input) L_BY :: int where "L_BY \<equiv> 138"
abbreviation (input) L_HAVING :: int where "L_HAVING \<equiv> 139"
abbreviation (input) L_GROUP :: int where "L_GROUP \<equiv> 140"
abbreviation (input) L_USING :: int where "L_USING \<equiv> 141"
abbreviation (input) L_ON :: int where "L_ON \<equiv> 142"
abbreviation (input) L_OUTER :: int where "L_OUTER \<equiv> 143"
abbreviation (input) L_DOT :: int where "L_DOT \<equiv> 144"
abbreviation (input) L_AS :: int where "L_AS \<equiv> 145"
abbreviation (input) L_DISTINCT :: int where "L_DISTINCT \<equiv> 146"
abbreviation (input) L_CASE :: int where "L_CASE \<equiv> 147"
abbreviation (input) L_WHEN :: int where "L_WHEN \<equiv> 148"
abbreviation (input) L_THEN :: int where "L_THEN \<equiv> 149"
abbreviation (input) L_ELSE :: int where "L_ELSE \<equiv> 150"
abbreviation (input) L_NULL :: int where "L_NULL \<equiv> 151"
abbreviation (input) L_FLOAT :: int where "L_FLOAT \<equiv> 152"
abbreviation (input) L_UNSPECVAL :: int where "L_UNSPECVAL \<equiv> 153"
abbreviation (input) L_LSBRACKET :: int where "L_LSBRACKET \<equiv> 154"
abbreviation (input) L_RSBRACKET :: int where "L_RSBRACKET \<equiv> 155"
abbreviation (input) L_SIMPLEPARAM :: int where "L_SIMPLEPARAM \<equiv> 156"
abbreviation (input) L_PNAME :: int where "L_PNAME \<equiv> 157"
abbreviation (input) L_PDESCR :: int where "L_PDESCR \<equiv> 158"
abbreviation (input) L_PTYPE :: int where "L_PTYPE \<equiv> 159"
abbreviation (input) L_PNULLOK :: int where "L_PNULLOK \<equiv> 160"
abbreviation (input) L_RAWSTRING :: int where "L_RAWSTRING \<equiv> 161"
abbreviation (input) L_LOOP :: int where "L_LOOP \<equiv> 162"
abbreviation (input) L_ENDLOOP :: int where "L_ENDLOOP \<equiv> 163"
abbreviation (input) L_DECLARE :: int where "L_DECLARE \<equiv> 164"
abbreviation (input) L_CREATE :: int where "L_CREATE \<equiv> 165"
abbreviation (input) L_BLOB :: int where "L_BLOB \<equiv> 166"

datatype parser_mode = ModeParse | ModeDelimit

datatype flavour = FlavourStandard | FlavourSqlite | FlavourMysql | FlavourOracle | FlavourPostgresql

fun flavour_number :: "flavour \<Rightarrow> nat" where
  "flavour_number FlavourStandard = 0"
| "flavour_number FlavourSqlite = 1"
| "flavour_number FlavourMysql = 2"
| "flavour_number FlavourOracle = 3"
| "flavour_number FlavourPostgresql = 4"

section \<open>Characters and words\<close>

definition isspace :: "char \<Rightarrow> bool" where
  "isspace c \<longleftrightarrow> code c \<in> {32, 9, 10, 11, 12, 13}"

text \<open>Bytes of identifiers: letters, digits, the dollar sign, the underscore and every byte above 127.\<close>

definition SqlIdChar :: "char \<Rightarrow> bool" where
  "SqlIdChar c \<longleftrightarrow> 128 \<le> code c \<or> g_ascii_isalnum c \<or> c = CHR ''_'' \<or> c = CHR ''$''"

text \<open>The first index from \<open>i\<close> on where the condition does not hold any more.\<close>

definition run_while :: "(char \<Rightarrow> bool) \<Rightarrow> nat \<Rightarrow> string \<Rightarrow> nat" where
  "run_while P i z = i + length (takeWhile P (drop i z))"

definition sql_keywords :: "(string \<times> int) list" where
  "sql_keywords =
    [
     (''all'', L_ALL), (''and'', L_AND), (''as'', L_AS), (''asc'', L_ASC), (''3batch'', L_BATCH),
     (''begin'', L_BEGIN), (''between'', L_BETWEEN), (''by'', L_BY), (''case'', L_CASE), (''cast'', L_CAST),
     (''comment'', L_COMMENT), (''commit'', L_COMMIT), (''committed'', L_COMMITTED), (''create'', L_CREATE), (''cross'', L_CROSS),
     (''declare'', L_DECLARE), (''delete'', L_DELETE), (''deferred'', L_DEFERRED), (''delimiter'', L_DELIMITER), (''desc'', L_DESC),
     (''distinct'', L_DISTINCT), (''else'', L_ELSE), (''end'', L_END), (''except'', L_EXCEPT), (''exclusive'', L_EXCLUSIVE),
     (''3force'', L_FORCE), (''from'', L_FROM), (''full'', L_FULL), (''group'', L_GROUP), (''having'', L_HAVING),
     (''ilike'', L_ILIKE), (''immediate'', L_IMMEDIATE), (''in'', L_IN), (''inner'', L_INNER), (''insert'', L_INSERT),
     (''intersect'', L_INTERSECT), (''into'', L_INTO), (''is'', L_IS), (''isolation'', L_ISOLATION), (''join'', L_JOIN),
     (''left'', L_LEFT), (''level'', L_LEVEL), (''like'', L_LIKE), (''limit'', L_LIMIT), (''loop'', L_LOOP),
     (''natural'', L_NATURAL), (''not'', L_NOT), (''3nowait'', L_NOWAIT), (''null'', L_NULL), (''offset'', L_OFFSET),
     (''on'', L_ON), (''only'', L_ONLY), (''or'', L_OR), (''order'', L_ORDER), (''outer'', L_OUTER),
     (''right'', L_RIGHT), (''read'', L_READ), (''release'', L_RELEASE), (''repeatable'', L_REPEATABLE), (''rollback'', L_ROLLBACK),
     (''savepoint'', L_SAVEPOINT), (''select'', L_SELECT), (''serializable'', L_SERIALIZABLE), (''set'', L_SET), (''similar'', L_SIMILAR),
     (''start'', L_BEGIN), (''then'', L_THEN), (''to'', L_TO), (''transaction'', L_TRANSACTION), (''uncommitted'', L_UNCOMMITTED),
     (''union'', L_UNION), (''update'', L_UPDATE), (''using'', L_USING), (''values'', L_VALUES), (''3wait'', L_WAIT),
     (''when'', L_WHEN), (''where'', L_WHERE), (''work'', L_TRANSACTION), (''write'', L_WRITE)]"

text \<open>
  The hash of a word reads an array of 256 entries at a \<open>signed char\<close>, which is a negative index for a byte above 127.
\<close>

definition keywordCode :: "parser_mode \<Rightarrow> flavour \<Rightarrow> string \<Rightarrow> int outcome" where
  "keywordCode mode flavour str =
     (if \<exists>c \<in> set str. 128 \<le> code c then Undefined
      else
        (let w = map g_ascii_tolower str in
         Returns
           (case map_of sql_keywords w of
              Some t \<Rightarrow> t
            | None \<Rightarrow>
                (case map_of sql_keywords (dec (flavour_number flavour) @ w) of
                   Some t \<Rightarrow> t
                 | None \<Rightarrow> if mode = ModeParse then L_ID else L_RAWSTRING))))"

section \<open>Tokens that are more than a word\<close>

text \<open>
  A token: its type, how many bytes it takes, the string that stands for it when it is not these bytes, and whether the
  text goes on in a parameter specification. After \<open>name:\<close> and the like the type is known, but not the end.
\<close>

datatype lexeme = Lexeme int nat "string option" bool | Prefixed int nat

text \<open>
  The index of the quote that ends a quoted string, if there is one; \<open>i\<close> is the index of the first byte that is read. A
  backslash skips the byte that follows it, even when this is the NUL.
\<close>

fun quote_end :: "char \<Rightarrow> nat \<Rightarrow> string \<Rightarrow> nat option outcome" where
  "quote_end delim i [] = Returns None"
| "quote_end delim i (c # cs) =
     (if c = delim then
        (case cs of
           [] \<Rightarrow> Returns (Some i)
         | d # ds \<Rightarrow> if d = delim then quote_end delim (i + 2) ds else Returns (Some i))
      else if c = BSLASH then (case cs of [] \<Rightarrow> Undefined | d # ds \<Rightarrow> quote_end delim (i + 2) ds)
      else quote_end delim (i + 1) cs)"

definition lex_quoted :: "bool \<Rightarrow> string \<Rightarrow> lexeme outcome" where
  "lex_quoted in_param z =
     bind_outcome (quote_end (hd z) 1 (tl z)) (\<lambda>e.
       Returns
         (case e of
            None \<Rightarrow> Lexeme L_ILLEGAL 0 None in_param
          | Some i \<Rightarrow> Lexeme (if hd z = DQUOTE then L_TEXTUAL else L_STRING) (i + 1) None in_param))"

text \<open>Where a number ends and its type: digits with a fraction, then an exponent; or hexadecimal digits.\<close>

definition lex_fraction :: "string \<Rightarrow> nat \<times> int" where
  "lex_fraction z =
     (let i = run_while is_digit 0 z in if cat z i = CHR ''.'' then (run_while is_digit (i + 1) z, L_FLOAT) else (i, L_INTEGER))"

definition lex_exponent :: "string \<Rightarrow> nat \<times> int \<Rightarrow> nat \<times> int" where
  "lex_exponent z f =
     (let i = fst f in
      if (cat z i = CHR ''e'' \<or> cat z i = CHR ''E'') \<and>
         (is_digit (cat z (i + 1)) \<or> (cat z (i + 1) \<in> {CHR ''+'', CHR ''-''} \<and> is_digit (cat z (i + 2))))
      then (run_while is_digit (i + 2) z, L_FLOAT) else f)"

definition number_end :: "string \<Rightarrow> nat \<times> int" where
  "number_end z =
     (if cat z 0 = CHR ''0'' \<and> (cat z 1 = CHR ''x'' \<or> cat z 1 = CHR ''X'') \<and> cat z 2 \<noteq> NUL then (run_while is_hex 2 z, L_INTEGER)
      else lex_exponent z (lex_fraction z))"

definition lex_number :: "parser_mode \<Rightarrow> bool \<Rightarrow> string \<Rightarrow> lexeme" where
  "lex_number mode in_param z =
     (let (i, t) = number_end z in
      if SqlIdChar (cat z i) then Lexeme (if mode = ModeParse then L_ILLEGAL else L_RAWSTRING) (run_while SqlIdChar i z) None in_param
      else Lexeme t i None in_param)"

text \<open>
  The dollar quotes of PostgreSQL. \<open>r\<close> is the rest of the text at the index \<open>i\<close>. After a failed comparison the index goes
  one further, also from the NUL.
\<close>

fun common_prefix :: "string \<Rightarrow> string \<Rightarrow> nat" where
  "common_prefix (x # xs) (y # ys) = (if x = y then Suc (common_prefix xs ys) else 0)"
| "common_prefix _ _ = 0"

function dollar_end :: "string \<Rightarrow> nat \<Rightarrow> string \<Rightarrow> nat option outcome" where
  "dollar_end tag i r =
     (if r = [] then Returns None
      else
        (let n = length (takeWhile (\<lambda>c. c \<noteq> CHR ''$'') r); m = common_prefix (drop n r) tag in
         if m = length tag then Returns (Some (i + n + m))
         else if length r \<le> n + m then Undefined
         else dollar_end tag (i + n + m + 1) (drop (n + m + 1) r)))"
  by pat_completeness auto
termination by (relation "measure (\<lambda>(tag, i, r). length r)") auto

declare dollar_end.simps [simp del]

lemma cut_comments_shrinks: "dropWhile P (tl cs) = d # ds \<Longrightarrow> length ds < length cs"
proof -
  assume "dropWhile P (tl cs) = d # ds"
  then have "length (d # ds) \<le> length (tl cs)" by (metis length_dropWhile_le)
  then show ?thesis by simp
qed

text \<open>
  Comments at the start of a line are cut out of the string; \<open>b\<close> tells whether a line starts. The search for the end of
  the line does not stop at the NUL.
\<close>

function cut_comments :: "bool \<Rightarrow> string \<Rightarrow> string outcome" where
  "cut_comments b [] = Returns []"
| "cut_comments b (c # cs) =
     (if b \<and> c = CHR ''-'' \<and> cs \<noteq> [] \<and> hd cs = CHR ''-'' then
        (case dropWhile (\<lambda>d. d \<noteq> CHR 0x0A) (tl cs) of
           [] \<Rightarrow> Undefined
         | d # ds \<Rightarrow> bind_outcome (cut_comments True ds) (\<lambda>s. Returns (d # s)))
      else bind_outcome (cut_comments (c = CHR 0x0A) cs) (\<lambda>s. Returns (c # s)))"
  by pat_completeness auto

termination
  by (relation "measure (\<lambda>(b, s). length s)") (auto dest: cut_comments_shrinks)

definition lex_dollar :: "flavour \<Rightarrow> bool \<Rightarrow> string \<Rightarrow> lexeme option outcome" where
  "lex_dollar flavour in_param z =
     (case flavour of
        FlavourPostgresql \<Rightarrow>
          (let i = run_while (\<lambda>c. g_ascii_isalnum c \<or> c = CHR ''_'') 1 z in
           if cat z i = CHR ''$'' then
             bind_outcome (dollar_end (take (i + 1) z) (i + 1) (drop (i + 1) z)) (\<lambda>e.
               case e of
                 None \<Rightarrow> Returns (Some (Lexeme L_ILLEGAL 1 None in_param))
               | Some j \<Rightarrow>
                   bind_outcome (cut_comments True (take j z)) (\<lambda>s. Returns (Some (Lexeme L_STRING j (Some s) in_param))))
           else Returns None)
      | FlavourSqlite \<Rightarrow>
          (let i = run_while g_ascii_isalnum 1 z in Returns (Some (Lexeme L_SIMPLEPARAM i (Some (take (i - 1) (tl z))) in_param)))
      | _ \<Rightarrow> Returns None)"

text \<open>BLOB literals: the type, and where the scan stops with the byte there.\<close>

fun blob_end :: "char \<Rightarrow> nat \<Rightarrow> string \<Rightarrow> int \<times> nat" where
  "blob_end delim i [] = (L_BLOB, i)"
| "blob_end delim i (c # cs) =
     (if c = delim then (if odd i then L_ILLEGAL else L_BLOB, i + 1)
      else if \<not> is_hex c then (L_ILLEGAL, i + 1)
      else blob_end delim (i + 1) cs)"

definition lex_blob :: "bool \<Rightarrow> string \<Rightarrow> lexeme option" where
  "lex_blob in_param z =
     (if cat z 1 = SQUOTE \<or> cat z 1 = DQUOTE then
        (case blob_end (cat z 1) 2 (drop 2 z) of (t, n) \<Rightarrow> Some (Lexeme t n None in_param))
      else None)"

definition lex_hash :: "flavour \<Rightarrow> char \<Rightarrow> bool \<Rightarrow> string \<Rightarrow> lexeme" where
  "lex_hash flavour delim in_param z =
     (if cat z 1 = CHR ''#'' then
        (let i = run_while (\<lambda>c. (SqlIdChar c \<or> c \<in> set ''+-.:|@?'') \<and> c \<noteq> CHR ''/'' \<and> c \<noteq> delim) 2 z in
         if 2 < i then Lexeme L_SIMPLEPARAM i (Some (take (i - 2) (drop 2 z))) in_param
         else Lexeme L_UNSPECVAL i None in_param)
      else if flavour = FlavourMysql then Lexeme L_SQLCOMMENT (run_while (\<lambda>c. c \<noteq> CHR 0x0A) 1 z) None in_param
      else Lexeme L_ILLEGAL 1 None in_param)"

section \<open>The switch over the first character\<close>

text \<open>\<open>None\<close> is left to the second part, which treats words and parameter specifications.\<close>

definition lex_switch :: "parser_mode \<Rightarrow> flavour \<Rightarrow> char \<Rightarrow> bool \<Rightarrow> string \<Rightarrow> lexeme option outcome" where
  "lex_switch mode flavour delim in_param z =
     (let c = hd z; d = cat z 1; parse = (mode = ModeParse);
          token = (\<lambda>t n. Returns (Some (Lexeme t n None in_param)));
          only = (\<lambda>b t n. Returns (if b then Some (Lexeme t n None in_param) else None))
      in
      if c \<in> {CHR '' '', CHR 0x09, CHR 0x0A, CHR 0x0C, CHR 0x0D} then
        (let i = run_while isspace 1 z in
         if cat z i = CHR ''/'' \<and> cat z (i + 1) = CHR ''*'' then Returns (Some (Lexeme L_LSBRACKET (i + 2) None True))
         else token L_SPACE i)
      else if c = CHR ''-'' then
        (if d = CHR ''-'' then token L_SQLCOMMENT (run_while (\<lambda>c. c \<noteq> CHR 0x0A) 2 z) else token L_MINUS 1)
      else if c = CHR ''('' then token L_LP 1
      else if c = CHR '')'' then token L_RP 1
      else if c = CHR ''+'' then only parse L_PLUS 1
      else if c = CHR ''*'' then
        (if d = CHR ''/'' then Returns (Some (Lexeme L_RSBRACKET 2 None False)) else token L_STAR 1)
      else if c = CHR ''%'' then only parse L_REM 1
      else if c = CHR ''/'' then
        (if parse then only (d \<noteq> CHR ''*'' \<or> cat z 2 = NUL) L_SLASH 1
         else Returns (if d = CHR ''*'' then Some (Lexeme L_LSBRACKET 2 None True) else None))
      else if c = CHR ''='' then only parse L_EQ (if d = CHR ''='' then 2 else 1)
      else if c = CHR ''<'' then
        (if d = CHR ''='' then token L_LEQ 2 else if d = CHR ''>'' then token L_DIFF 2
         else if d = CHR ''<'' then token L_LSHIFT 2 else token L_LT 1)
      else if c = CHR ''>'' then
        (if d = CHR ''='' then token L_GEQ 2 else if d = CHR ''>'' then token L_RSHIFT 2 else token L_GT 1)
      else if c = CHR ''!'' then
        (if \<not> parse then Returns None
         else if d = CHR ''='' then token L_DIFF 2
         else if d = CHR ''~'' then (if cat z 2 = CHR ''*'' then token L_NOT_REGEXP_CI 3 else token L_NOT_REGEXP 2)
         else Returns None)
      else if c = CHR ''|'' then
        (if parse then (if d \<noteq> CHR ''|'' then token L_BITOR 1 else token L_CONCAT 2) else token L_RAWSTRING 1)
      else if c = CHR '','' then token L_COMMA 1
      else if c = CHR ''&'' then only parse L_BITAND 1
      else if c = CHR ''~'' then
        (if \<not> parse then Returns None
         else if d = CHR ''*'' then token L_REGEXP_CI 2
         else token (if flavour = FlavourPostgresql then L_REGEXP else L_BITNOT) 1)
      else if c = SQUOTE \<or> c = DQUOTE then bind_outcome (lex_quoted in_param z) (\<lambda>l. Returns (Some l))
      else if c = CHR ''.'' \<and> parse \<and> \<not> is_digit d then token L_DOT 1
      else if c = CHR ''.'' \<or> is_digit c then Returns (Some (lex_number mode in_param z))
      else if c = CHR ''?'' then
        (if flavour = FlavourSqlite then
           (let i = run_while is_digit 1 z in Returns (Some (Lexeme L_SIMPLEPARAM i (Some (take (i - 1) (tl z))) in_param)))
         else Returns None)
      else if c = CHR ''#'' then Returns (Some (lex_hash flavour delim in_param z))
      else if c = CHR ''$'' then lex_dollar flavour in_param z
      else if c = CHR ''@'' \<or> c = CHR '':'' then
        (if d = CHR '':'' then token L_PGCAST 2
         else if flavour = FlavourSqlite then
           (let i = run_while (\<lambda>c. g_ascii_isalnum c \<or> c = CHR ''_'') 1 z in
            Returns (Some (Lexeme L_SIMPLEPARAM i (Some (take (i - 1) (tl z))) in_param)))
         else Returns None)
      else if c = CHR ''x'' \<or> c = CHR ''X'' then Returns (lex_blob in_param z)
      else Returns None)"

section \<open>Words and parameter specifications\<close>

definition lex_spec :: "char \<Rightarrow> bool \<Rightarrow> string \<Rightarrow> lexeme" where
  "lex_spec delim in_param z =
     (if take 5 z = ''name:'' then Prefixed L_PNAME 5
      else if take 5 z = ''type:'' then Prefixed L_PTYPE 5
      else if take 6 z = ''descr:'' then Prefixed L_PDESCR 6
      else if take 7 z = ''nullok:'' then Prefixed L_PNULLOK 7
      else
        Lexeme L_RAWSTRING
          (run_while (\<lambda>c. \<not> isspace c \<and> c \<noteq> delim \<and> c \<noteq> CHR ''*'' \<and> c \<noteq> SQUOTE \<and> c \<noteq> DQUOTE \<and> c \<noteq> CHR ''#'') 1 z) None in_param)"

definition lex_word :: "parser_mode \<Rightarrow> flavour \<Rightarrow> char \<Rightarrow> bool \<Rightarrow> string \<Rightarrow> lexeme outcome" where
  "lex_word mode flavour delim in_param z =
     (let i = run_while SqlIdChar 1 z in
      if mode = ModeParse \<and> \<not> in_param then
        (if SqlIdChar (hd z) then bind_outcome (keywordCode mode flavour (take i z)) (\<lambda>t. Returns (Lexeme t i None in_param))
         else Returns (Lexeme L_ILLEGAL 1 None in_param))
      else if \<not> in_param \<and> SqlIdChar (hd z) then
        bind_outcome (keywordCode mode flavour (take i z)) (\<lambda>t.
          Returns (if t \<noteq> L_RAWSTRING then Lexeme t i None in_param else lex_spec delim in_param z))
      else Returns (lex_spec delim in_param z))"

definition next_lexeme :: "parser_mode \<Rightarrow> flavour \<Rightarrow> char \<Rightarrow> bool \<Rightarrow> string \<Rightarrow> lexeme outcome" where
  "next_lexeme mode flavour delim in_param z =
     bind_outcome (lex_switch mode flavour delim in_param z) (\<lambda>l.
       case l of Some l \<Rightarrow> Returns l | None \<Rightarrow> lex_word mode flavour delim in_param z)"

section \<open>The next token\<close>

record tokenizer_context =
  token_type :: int
  next_token_start :: nat
  last_token_start :: nat
  delimiter :: char
  in_param_spec :: bool
  block_level :: int
  ignore_semi :: bool

text \<open>The keywords that a second word completes, with the tokens that they become.\<close>

definition completions :: "int \<Rightarrow> (int \<times> int) list" where
  "completions t =
     (if t = L_END then [(L_LOOP, L_ENDLOOP)]
      else if t = L_IS then [(L_NULL, L_ISNULL)]
      else if t = L_NOT then [(L_NULL, L_NOTNULL), (L_LIKE, L_NOTLIKE), (L_ILIKE, L_NOTILIKE)]
      else if t = L_SIMILAR then [(L_TO, L_SIMILAR)]
      else [])"

text \<open>The context after a token of \<open>n\<close> bytes.\<close>

definition past :: "int \<Rightarrow> nat \<Rightarrow> tokenizer_context \<Rightarrow> tokenizer_context" where
  "past t n x = x\<lparr>token_type := t, last_token_start := next_token_start x, next_token_start := next_token_start x + n\<rparr>"

definition delimiter_type :: "tokenizer_context \<Rightarrow> int" where
  "delimiter_type x = (if \<not> ignore_semi x \<and> block_level x = 0 then L_SEMI else L_RAWSTRING)"

definition merged :: "int \<Rightarrow> tokenizer_context \<Rightarrow> tokenizer_context \<Rightarrow> tokenizer_context" where
  "merged t x x2 = x2\<lparr>token_type := t, last_token_start := last_token_start x, delimiter := delimiter x\<rparr>"

definition two_words :: "string option \<Rightarrow> string option \<Rightarrow> string option outcome" where
  "two_words s1 s2 = (case (s1, s2) of (Some a, Some b) \<Rightarrow> Returns (Some (a @ '' '' @ b)) | _ \<Rightarrow> Undefined)"

text \<open>
  The function calls itself for what follows \<open>name:\<close> and the like, and to look at the token or the two tokens that may
  complete a composed keyword (\<open>handle_composed_2_keywords\<close>, \<open>fetch_forward\<close>); \<open>k\<close> bounds the depth of these calls.
\<close>

function getToken :: "nat \<Rightarrow> parser_mode \<Rightarrow> flavour \<Rightarrow> string \<Rightarrow> tokenizer_context \<Rightarrow> (string option \<times> tokenizer_context) outcome"
and handle_composed :: "nat \<Rightarrow> parser_mode \<Rightarrow> flavour \<Rightarrow> string \<Rightarrow> (int \<times> int) list \<Rightarrow> string option \<Rightarrow> tokenizer_context \<Rightarrow>
      (string option \<times> tokenizer_context) outcome" where
  "getToken 0 mode flavour sql x = Undefined"
| "getToken (Suc k) mode flavour sql x =
     (let z = drop (next_token_start x) sql in
      if z = [] then Returns (None, past L_END_OF_FILE 0 x)
      else if hd z = delimiter x then Returns (Some (take 1 z), past (delimiter_type x) 1 x)
      else
        bind_outcome (next_lexeme mode flavour (delimiter x) (in_param_spec x) z) (\<lambda>l.
          case l of
            Prefixed t n \<Rightarrow>
              bind_outcome (getToken k mode flavour sql (x\<lparr>next_token_start := next_token_start x + n\<rparr>)) (\<lambda>(v, x1).
                Returns (Some (case v of None \<Rightarrow> [] | Some s \<Rightarrow> s), past t 0 x1))
          | Lexeme t n v p \<Rightarrow>
              handle_composed k mode flavour sql (completions t) (Some (case v of None \<Rightarrow> take n z | Some s \<Rightarrow> s))
                (past t n (x\<lparr>in_param_spec := p\<rparr>))))"
| "handle_composed k mode flavour sql [] s x = Returns (s, x)"
| "handle_composed k mode flavour sql (c # cs) s x =
     bind_outcome (getToken k mode flavour sql x) (\<lambda>(v1, x1).
     bind_outcome (if token_type x1 = L_SPACE then getToken k mode flavour sql x1 else Returns (v1, x1)) (\<lambda>(v2, x2).
       if token_type x2 = fst c then bind_outcome (two_words s v2) (\<lambda>v. Returns (v, merged (snd c) x x2))
       else handle_composed k mode flavour sql cs s x))"
  by pat_completeness auto
termination
  by (relation "measures [\<lambda>a. case a of Inl (k, _) \<Rightarrow> k | Inr (k, _) \<Rightarrow> k,
      \<lambda>a. case a of Inl _ \<Rightarrow> 0 | Inr (_, _, _, _, cs, _) \<Rightarrow> Suc (length cs)]") auto

end
