(* ===== verification/Gda_Sql_Tokens_Bounds.thy ===== *)
theory Gda_Sql_Tokens_Bounds
  imports Gda_Sql_Tokens
begin

text \<open>
  What holds of the tokenizer: every token lies inside the text and all but the last take at least one byte, the depth of
  the calls that is allowed is enough, which texts are read without going past their end, and which are not.
\<close>

section \<open>Scans\<close>

lemma cat_inside: "cat z i = c \<Longrightarrow> c \<noteq> NUL \<Longrightarrow> i < length z"
  by (auto simp: cat_def split: if_splits)

lemma cat_class: "P (cat z i) \<Longrightarrow> \<not> P NUL \<Longrightarrow> i < length z"
  by (auto simp: cat_def split: if_splits)

lemma run_ge: "i \<le> run_while P i z"
  by (simp add: run_while_def)

lemma run_pos [simp]: "0 < i \<Longrightarrow> 0 < run_while P i z"
  by (simp add: run_while_def)

lemma run_le: "i \<le> length z \<Longrightarrow> run_while P i z \<le> length z"
  using length_takeWhile_le [of P "drop i z"] by (simp add: run_while_def)

lemma run_next: "i < length z \<Longrightarrow> P (z ! i) \<Longrightarrow> i < run_while P i z"
  by (cases "drop i z") (auto simp: run_while_def nth_via_drop)

lemma no_class_NUL [simp]: "\<not> is_digit NUL" "\<not> is_hex NUL" "\<not> SqlIdChar NUL" "\<not> g_ascii_isalnum NUL"
  by (simp_all add: SqlIdChar_def char_defs)

lemma quote_end_bounds: "quote_end delim i s = Returns (Some j) \<Longrightarrow> i \<le> j \<and> j < i + length s"
proof (induction delim i s rule: quote_end.induct)
  case (2 delim i c cs)
  then show ?case by (cases cs) (auto split: if_splits)
qed simp

lemma dollar_end_bounds: "dollar_end tag i r = Returns (Some j) \<Longrightarrow> i + length tag \<le> j \<and> j \<le> i + length r"
proof (induction tag i r rule: dollar_end.induct)
  case (1 tag i r)
  let ?n = "length (takeWhile (\<lambda>c. c \<noteq> CHR ''$'') r)"
  let ?m = "common_prefix (drop ?n r) tag"
  have m: "common_prefix xs ys \<le> length xs" for xs ys by (induction xs ys rule: common_prefix.induct) auto
  show ?case
  proof (cases "r \<noteq> [] \<and> ?m \<noteq> length tag \<and> ?n + ?m < length r")
    case True
    then have "dollar_end tag i r = dollar_end tag (i + ?n + ?m + 1) (drop (?n + ?m + 1) r)"
      by (subst dollar_end.simps) (simp add: Let_def)
    with 1 True have "i + ?n + ?m + 1 + length tag \<le> j \<and> j \<le> i + ?n + ?m + 1 + length (drop (?n + ?m + 1) r)"
      by (simp add: not_le)
    then show ?thesis using True by simp
  next
    case False
    then have "r \<noteq> [] \<and> ?m = length tag \<and> j = i + ?n + ?m"
      using 1(2) by (subst (asm) dollar_end.simps) (auto simp: Let_def split: if_splits)
    then show ?thesis using m [of "drop ?n r" tag] length_takeWhile_le [of "\<lambda>c. c \<noteq> CHR ''$''" r] by auto
  qed
qed

lemma blob_end_bounds: "blob_end delim i s = (t, n) \<Longrightarrow> i \<le> n \<and> n \<le> i + length s"
  by (induction delim i s rule: blob_end.induct) (auto split: if_splits)

section \<open>One token\<close>

text \<open>A token of the scan lies inside the text, and takes a byte unless it is illegal.\<close>

fun lexeme_fits :: "string \<Rightarrow> lexeme \<Rightarrow> bool" where
  "lexeme_fits z (Lexeme t n v p) \<longleftrightarrow> n \<le> length z \<and> (0 < n \<or> t = L_ILLEGAL) \<and> t \<noteq> L_END_OF_FILE"
| "lexeme_fits z (Prefixed t n) \<longleftrightarrow> 0 < n \<and> n \<le> length z \<and> t \<in> {L_PNAME, L_PTYPE, L_PDESCR, L_PNULLOK}"

lemma lex_number_fits: "z \<noteq> [] \<Longrightarrow> hd z = CHR ''.'' \<or> is_digit (hd z) \<Longrightarrow> lexeme_fits z (lex_number mode p z)"
proof -
  assume z: "z \<noteq> []" "hd z = CHR ''.'' \<or> is_digit (hd z)"
  let ?i = "run_while is_digit 0 z"
  have i: "?i \<le> length z" by (rule run_le) simp
  have first: "0 < ?i \<or> cat z ?i = CHR ''.''"
  proof (cases "is_digit (hd z)")
    case True
    then have "0 < ?i" using z by (intro run_next) (simp_all add: hd_conv_nth)
    then show ?thesis by simp
  next
    case False
    then have "?i = 0" using z by (cases z) (simp_all add: run_while_def)
    then show ?thesis using z False by (simp add: cat_def hd_conv_nth)
  qed
  define f where "f = lex_fraction z"
  have f: "0 < fst f" "fst f \<le> length z" "snd f \<in> {L_FLOAT, L_INTEGER}"
    using first i cat_inside [of z ?i "CHR ''.''"] run_le [of "?i + 1" z is_digit]
    by (auto simp: f_def lex_fraction_def Let_def)
  define e where "e = lex_exponent z f"
  have e: "0 < fst e" "fst e \<le> length z" "snd e \<in> {L_FLOAT, L_INTEGER}"
    using f cat_class [of is_digit z "fst f + 1"] cat_class [of is_digit z "fst f + 2"] run_le [of "fst f + 2" z is_digit]
    by (auto simp: e_def lex_exponent_def Let_def)
  have x: "0 < fst (number_end z)" "fst (number_end z) \<le> length z" "snd (number_end z) \<in> {L_FLOAT, L_INTEGER}"
    using e cat_inside [of z 2 "cat z 2"] run_le [of 2 z is_hex] by (auto simp: number_end_def simp flip: e_def f_def)
  then show ?thesis
    using run_ge [of "fst (number_end z)" SqlIdChar z] run_le [of "fst (number_end z)" z SqlIdChar]
    by (auto simp: lex_number_def case_prod_beta)
qed

lemma first_run: "z \<noteq> [] \<Longrightarrow> 1 \<le> run_while P 1 z" "z \<noteq> [] \<Longrightarrow> run_while P 1 z \<le> length z"
  using run_ge [of 1 P z] run_le [of 1 z P] by (simp_all add: Suc_leI)

lemma second_run: "cat z 1 = c \<Longrightarrow> c \<noteq> NUL \<Longrightarrow> 0 < run_while P 2 z \<and> run_while P 2 z \<le> length z"
  using run_ge [of 2 P z] run_le [of 2 z P] cat_inside [of z 1 c] by linarith

lemma lex_dollar_fits: "lex_dollar flavour p z = Returns (Some l) \<Longrightarrow> z \<noteq> [] \<Longrightarrow> lexeme_fits z l"
proof (cases flavour)
  case FlavourPostgresql
  assume l: "lex_dollar flavour p z = Returns (Some l)" and z: "z \<noteq> []"
  let ?i = "run_while (\<lambda>c. g_ascii_isalnum c \<or> c = CHR ''_'') 1 z"
  from l FlavourPostgresql have i: "cat z ?i = CHR ''$''" by (simp add: lex_dollar_def Let_def split: if_splits)
  have "?i < length z" by (rule cat_inside [OF i]) simp
  obtain e where e: "dollar_end (take (?i + 1) z) (?i + 1) (drop (?i + 1) z) = Returns e"
    using l i FlavourPostgresql by (cases "dollar_end (take (?i + 1) z) (?i + 1) (drop (?i + 1) z)") (simp_all add: lex_dollar_def)
  show "lexeme_fits z l"
  proof (cases e)
    case None
    then have "l = Lexeme L_ILLEGAL 1 None p" using l i e FlavourPostgresql by (simp add: lex_dollar_def)
    then show ?thesis using z by (simp add: Suc_le_eq)
  next
    case (Some j)
    from e Some have "?i + 1 + length (take (?i + 1) z) \<le> j \<and> j \<le> ?i + 1 + length (drop (?i + 1) z)"
      by (intro dollar_end_bounds) simp
    then have "0 < j \<and> j \<le> length z" using \<open>?i < length z\<close> by (cases z) simp_all
    moreover obtain s where "l = Lexeme L_STRING j (Some s) p"
      using l i e Some FlavourPostgresql by (cases "cut_comments True (take j z)") (auto simp: lex_dollar_def)
    ultimately show ?thesis by simp
  qed
next
  case FlavourSqlite
  assume "lex_dollar flavour p z = Returns (Some l)" and "z \<noteq> []"
  then show "lexeme_fits z l" using FlavourSqlite first_run [of z] by (auto simp: lex_dollar_def Let_def Suc_le_eq)
qed (simp_all add: lex_dollar_def)

lemma lex_blob_fits: "lex_blob p z = Some l \<Longrightarrow> lexeme_fits z l"
proof -
  assume l: "lex_blob p z = Some l"
  obtain t n where b: "blob_end (cat z 1) 2 (drop 2 z) = (t, n)" by (meson surj_pair)
  have q: "cat z 1 = SQUOTE \<or> cat z 1 = DQUOTE" using l by (auto simp: lex_blob_def split: if_splits)
  then have "1 < length z" using cat_inside [of z 1] by auto
  moreover have "t = L_BLOB \<or> t = L_ILLEGAL"
  proof -
    have "fst (blob_end d i s) = L_BLOB \<or> fst (blob_end d i s) = L_ILLEGAL" for d i s
      by (induction d i s rule: blob_end.induct) auto
    then show ?thesis by (metis b fst_conv)
  qed
  ultimately show ?thesis using l b q blob_end_bounds [OF b] by (auto simp: lex_blob_def)
qed

lemma lex_hash_fits: "z \<noteq> [] \<Longrightarrow> lexeme_fits z (lex_hash flavour delim p z)"
  using first_run [of z] second_run [of z "CHR ''#''"] by (auto simp: lex_hash_def Let_def Suc_le_eq)

lemma lex_quoted_fits: "lex_quoted p z = Returns l \<Longrightarrow> z \<noteq> [] \<Longrightarrow> lexeme_fits z l"
proof -
  assume l: "lex_quoted p z = Returns l" and z: "z \<noteq> []"
  obtain e where e: "quote_end (hd z) 1 (tl z) = Returns e"
    using l by (cases "quote_end (hd z) 1 (tl z)") (simp_all add: lex_quoted_def)
  show "lexeme_fits z l"
  proof (cases e)
    case (Some j)
    with e have "1 \<le> j \<and> j < 1 + length (tl z)" by (intro quote_end_bounds) simp
    then show ?thesis using l e Some z by (auto simp: lex_quoted_def)
  qed (use l e in \<open>auto simp: lex_quoted_def\<close>)
qed

lemma plain_fits [simp]:
  "lexeme_fits z (Lexeme t 1 None p) \<longleftrightarrow> z \<noteq> [] \<and> t \<noteq> L_END_OF_FILE" "lexeme_fits z (Lexeme t (Suc 0) None p) \<longleftrightarrow> z \<noteq> [] \<and> t \<noteq> L_END_OF_FILE"
  by (auto simp: Suc_le_eq)

lemma bind_Some: "bind_outcome a (\<lambda>l. Returns (Some l)) = Returns (Some l) \<longleftrightarrow> a = Returns l"
  by (cases a) auto

lemma lex_switch_fits:
  assumes l: "lex_switch mode flavour delim p z = Returns (Some l)" and z: "z \<noteq> []"
  shows "lexeme_fits z l"
proof -
  have inside: "cat z i \<noteq> NUL \<Longrightarrow> Suc i \<le> length z" for i using cat_inside [of z i] by (simp add: Suc_le_eq)
  have two [simp]: "cat z (Suc 0) \<noteq> NUL \<Longrightarrow> 2 \<le> length z" using inside [of 1] by simp
  have three [simp]: "cat z 2 \<noteq> NUL \<Longrightarrow> 3 \<le> length z" using inside [of 2] by simp
  have after [simp]: "cat z (Suc i) \<noteq> NUL \<Longrightarrow> Suc (Suc i) \<le> length z" for i by (rule inside)
  have one [simp]: "Suc 0 \<le> length z" using z by (simp add: Suc_le_eq)
  have first [simp]: "run_while P (Suc 0) z \<le> length z" for P using first_run [OF z] by simp
  have second [simp]: "cat z (Suc 0) \<noteq> NUL \<Longrightarrow> run_while P 2 z \<le> length z" for P by (intro run_le two)
  note defs = lex_switch_def Let_def bind_Some if_distrib [of Returns]
  show ?thesis using assms
    by (auto simp: defs split: if_splits dest: lex_dollar_fits lex_quoted_fits lex_blob_fits intro: lex_number_fits lex_hash_fits)
qed

lemma sql_keywords_known: "\<forall>(w, t) \<in> set sql_keywords. 0 < t \<and> t \<notin> {L_END_OF_FILE, L_SPACE, L_RAWSTRING}"
  by (simp add: sql_keywords_def)

lemma keywordCode_known: "keywordCode mode flavour w = Returns t \<Longrightarrow> t \<noteq> L_END_OF_FILE \<and> 0 < t"
  using sql_keywords_known by (auto simp: keywordCode_def Let_def split: if_splits option.splits dest!: map_of_SomeD)

lemma lex_spec_fits: "z \<noteq> [] \<Longrightarrow> lexeme_fits z (lex_spec delim p z)"
proof -
  assume z: "z \<noteq> []"
  have "length w \<le> length z" if "take n z = w" "length w = n" for n and w :: string using that by auto
  from this [of 5 "''name:''"] this [of 5 "''type:''"] this [of 6 "''descr:''"] this [of 7 "''nullok:''"] show ?thesis
    using first_run [OF z] by (auto simp: lex_spec_def)
qed

lemma lex_word_fits:
  assumes l: "lex_word mode flavour delim p z = Returns l" and z: "z \<noteq> []"
  shows "lexeme_fits z l"
proof (cases "\<not> p \<and> SqlIdChar (hd z)")
  case False
  then show ?thesis using l lex_spec_fits [OF z] z by (auto simp: lex_word_def Let_def Suc_le_eq split: if_splits)
next
  case True
  obtain t where t: "keywordCode mode flavour (take (run_while SqlIdChar 1 z) z) = Returns t"
    using l True by (cases "keywordCode mode flavour (take (run_while SqlIdChar 1 z) z)") (simp_all add: lex_word_def Let_def split: if_splits)
  show ?thesis
    using l True t keywordCode_known [OF t] lex_spec_fits [OF z] first_run [OF z]
    by (auto simp: lex_word_def Let_def split: if_splits)
qed

lemma lex_fits: "next_lexeme mode flavour delim p z = Returns l \<Longrightarrow> z \<noteq> [] \<Longrightarrow> lexeme_fits z l"
  using lex_switch_fits lex_word_fits
  by (cases "lex_switch mode flavour delim p z") (auto simp: next_lexeme_def split: option.splits)

section \<open>The next token\<close>

lemma past_simps [simp]:
  "token_type (past t n x) = t" "next_token_start (past t n x) = next_token_start x + n" "last_token_start (past t n x) = next_token_start x"
  "delimiter (past t n x) = delimiter x" "in_param_spec (past t n x) = in_param_spec x" "block_level (past t n x) = block_level x"
  "ignore_semi (past t n x) = ignore_semi x"
  by (simp_all add: past_def)

lemma merged_simps [simp]:
  "token_type (merged t x y) = t" "next_token_start (merged t x y) = next_token_start y"
  "last_token_start (merged t x y) = last_token_start x" "delimiter (merged t x y) = delimiter x"
  "block_level (merged t x y) = block_level y" "ignore_semi (merged t x y) = ignore_semi y"
  by (simp_all add: merged_def)

text \<open>From one context to a later one in a text of \<open>n\<close> bytes.\<close>

definition moved :: "nat \<Rightarrow> tokenizer_context \<Rightarrow> tokenizer_context \<Rightarrow> bool" where
  "moved n x x' \<longleftrightarrow>
     next_token_start x \<le> next_token_start x' \<and> next_token_start x' \<le> n \<and> delimiter x' = delimiter x \<and>
     block_level x' = block_level x \<and> ignore_semi x' = ignore_semi x"

definition progress :: "tokenizer_context \<Rightarrow> tokenizer_context \<Rightarrow> bool" where
  "progress x x' \<longleftrightarrow> token_type x' \<in> {L_ILLEGAL, L_END_OF_FILE} \<or> next_token_start x < next_token_start x'"

lemma moved_trans: "moved n x y \<Longrightarrow> moved n y z \<Longrightarrow> moved n x z"
  by (auto simp: moved_def)

lemma bind_Returns: "bind_outcome a f = Returns r \<longleftrightarrow> (\<exists>x. a = Returns x \<and> f x = Returns r)"
  by (cases a) auto

lemma completions_known: "c \<in> set (completions t) \<Longrightarrow> snd c \<notin> {L_ILLEGAL, L_END_OF_FILE, L_SPACE} \<and> fst c \<noteq> L_END_OF_FILE"
  by (auto simp: completions_def split: if_splits)

lemma getToken_moves:
  "getToken k mode flavour sql x = Returns (v, x') \<Longrightarrow> next_token_start x \<le> length sql \<Longrightarrow>
     moved (length sql) x x' \<and> progress x x' \<and> (v = None \<longleftrightarrow> token_type x' = L_END_OF_FILE)"
  "handle_composed k mode flavour sql cs s x = Returns (v, x') \<Longrightarrow> next_token_start x \<le> length sql \<Longrightarrow> s \<noteq> None \<Longrightarrow>
     \<forall>c \<in> set cs. snd c \<notin> {L_ILLEGAL, L_END_OF_FILE} \<Longrightarrow>
     moved (length sql) x x' \<and> v \<noteq> None \<and> (x' = x \<or> token_type x' \<in> snd ` set cs)"
proof (induction k mode flavour sql x and k mode flavour sql cs s x arbitrary: v x' and v x' rule: getToken_handle_composed.induct)
  case (2 k mode flavour sql x)
  let ?z = "drop (next_token_start x) sql"
  show ?case
  proof (cases "?z = [] \<or> hd ?z = delimiter x")
    case True
    then show ?thesis using 2(3,4)
      by (auto simp: Let_def moved_def progress_def delimiter_type_def split: if_splits)
  next
    case False
    obtain l where l: "next_lexeme mode flavour (delimiter x) (in_param_spec x) ?z = Returns l"
      using 2(3) False by (cases "next_lexeme mode flavour (delimiter x) (in_param_spec x) ?z") (simp_all add: Let_def)
    have fits: "lexeme_fits ?z l" using lex_fits [OF l] False by blast
    show ?thesis
    proof (cases l)
      case (Lexeme t n w p)
      let ?y = "past t n (x\<lparr>in_param_spec := p\<rparr>)"
      have call: "handle_composed k mode flavour sql (completions t) (Some (case w of None \<Rightarrow> take n ?z | Some s \<Rightarrow> s)) ?y = Returns (v, x')"
        using 2(3) False l Lexeme by (simp add: Let_def)
      have "next_token_start ?y \<le> length sql" using fits Lexeme 2(4) by auto
      moreover have "\<forall>c \<in> set (completions t). snd c \<notin> {L_ILLEGAL, L_END_OF_FILE}" using completions_known by blast
      ultimately have m: "moved (length sql) ?y x'" "v \<noteq> None" "x' = ?y \<or> token_type x' \<in> snd ` set (completions t)"
        using 2(1) [OF refl _ _ call] False by auto
      have "moved (length sql) x x'" using m(1) by (auto simp: moved_def)
      moreover have "token_type x' \<noteq> L_END_OF_FILE" using m(3) fits Lexeme completions_known by auto
      moreover have "progress x x'"
        using m fits Lexeme completions_known completions_def [of L_ILLEGAL] by (auto simp: progress_def moved_def)
      ultimately show ?thesis using m(2) by blast
    next
      case (Prefixed t n)
      obtain w y where y: "getToken k mode flavour sql (x\<lparr>next_token_start := next_token_start x + n\<rparr>) = Returns (w, y)"
          "v = Some (case w of None \<Rightarrow> [] | Some s \<Rightarrow> s)" "x' = past t 0 y"
        using 2(3) False l Prefixed by (auto simp: Let_def bind_Returns)
      have "next_token_start x + n \<le> length sql" using fits Prefixed 2(4) by auto
      then have "moved (length sql) (x\<lparr>next_token_start := next_token_start x + n\<rparr>) y"
        using 2(2) [OF refl _ _ y(1)] False by simp
      then show ?thesis using y(2,3) fits Prefixed by (auto simp: moved_def progress_def)
    qed
  qed
next
  case (4 k mode flavour sql c cs s x)
  obtain v1 x1 where 1: "getToken k mode flavour sql x = Returns (v1, x1)"
    using 4(4) by (auto simp: bind_Returns)
  have m1: "moved (length sql) x x1" "v1 = None \<longleftrightarrow> token_type x1 = L_END_OF_FILE" using 4(1) [OF 1 4(5)] by auto
  obtain v2 x2 where 2: "(if token_type x1 = L_SPACE then getToken k mode flavour sql x1 else Returns (v1, x1)) = Returns (v2, x2)"
    using 4(4) 1 by (auto simp: bind_Returns)
  have m2: "moved (length sql) x1 x2"
    using 2 m1 4(2) [of x1 v2 x2] by (auto simp: moved_def split: if_splits)
  show ?case
  proof (cases "token_type x2 = fst c")
    case True
    then have "two_words s v2 = Returns v" "x' = merged (snd c) x x2" using 4(4) 1 2 by (auto simp: bind_Returns)
    then show ?thesis using moved_trans [OF m1(1) m2] by (auto simp: moved_def two_words_def split: option.splits)
  next
    case False
    then have "handle_composed k mode flavour sql cs s x = Returns (v, x')" using 4(4) 1 2 by (simp add: bind_Returns)
    then show ?thesis using 4(3) [OF False, of v x'] 4(5-7) by auto
  qed
qed (auto simp: moved_def)

section \<open>Texts that are read without going past their end\<close>

text \<open>
  ASCII only, no backslash at the end, and for PostgreSQL no dollar sign.
\<close>

definition safe_text :: "flavour \<Rightarrow> string \<Rightarrow> bool" where
  "safe_text flavour sql \<longleftrightarrow>
     (\<forall>c \<in> set sql. code c < 128) \<and> (sql = [] \<or> last sql \<noteq> BSLASH) \<and> (flavour = FlavourPostgresql \<longrightarrow> CHR ''$'' \<notin> set sql)"

lemma safe_drop: "safe_text flavour sql \<Longrightarrow> safe_text flavour (drop n sql)"
  by (auto simp: safe_text_def dest: in_set_dropD)

lemma quote_end_safe: "s = [] \<or> last s \<noteq> BSLASH \<Longrightarrow> \<exists>e. quote_end delim i s = Returns e"
proof (induction delim i s rule: quote_end.induct)
  case (2 delim i c cs)
  then show ?case by (cases cs) (auto split: if_splits)
qed simp

lemma bind_Undefined: "bind_outcome a f = Undefined \<longleftrightarrow> a = Undefined \<or> (\<exists>x. a = Returns x \<and> f x = Undefined)"
  by (cases a) simp_all

lemma lex_switch_safe:
  assumes z: "safe_text flavour z" "z \<noteq> []"
  shows "\<exists>l. lex_switch mode flavour delim p z = Returns l"
proof -
  have "tl z = [] \<or> last (tl z) \<noteq> BSLASH" using z by (auto simp: safe_text_def last_tl)
  then obtain e where "quote_end (hd z) 1 (tl z) = Returns e" using quote_end_safe by blast
  then have q: "\<exists>l. lex_quoted p z = Returns l" by (simp add: lex_quoted_def)
  have "hd z = CHR ''$'' \<Longrightarrow> flavour \<noteq> FlavourPostgresql" using z by (cases z) (auto simp: safe_text_def)
  then have d: "hd z = CHR ''$'' \<Longrightarrow> \<exists>l. lex_dollar flavour p z = Returns l"
    by (cases flavour) (simp_all add: lex_dollar_def Let_def)
  have some: "(\<exists>l. a = Returns l) \<longleftrightarrow> a \<noteq> Undefined" for a :: "'a outcome" by (cases a) simp_all
  have "lex_quoted p z \<noteq> Undefined" "hd z = CHR ''$'' \<Longrightarrow> lex_dollar flavour p z \<noteq> Undefined" using q d by (auto simp: some)
  then have "lex_switch mode flavour delim p z \<noteq> Undefined"
    by (simp add: lex_switch_def Let_def if_distrib [of "\<lambda>a. a = Undefined"] bind_Undefined cong: if_cong)
  then show ?thesis by (simp add: some)
qed

lemma keywordCode_safe: "\<forall>c \<in> set w. code c < 128 \<Longrightarrow> \<exists>t. keywordCode mode flavour w = Returns t"
  by (auto simp: keywordCode_def Let_def not_le)

lemma lex_word_safe:
  assumes z: "safe_text flavour z"
  shows "\<exists>l. lex_word mode flavour delim p z = Returns l"
proof -
  obtain t where "keywordCode mode flavour (take (run_while SqlIdChar 1 z) z) = Returns t"
    using keywordCode_safe z by (metis in_set_takeD safe_text_def)
  then show ?thesis by (cases mode) (auto simp: lex_word_def Let_def)
qed

lemma lex_safe: "safe_text flavour z \<Longrightarrow> z \<noteq> [] \<Longrightarrow> \<exists>l. next_lexeme mode flavour delim p z = Returns l"
  using lex_switch_safe [of flavour z mode delim p] lex_word_safe [of flavour z mode delim p]
  by (auto simp: next_lexeme_def split: option.split)

lemma getToken_returns:
  "safe_text flavour sql \<Longrightarrow> next_token_start x \<le> length sql \<Longrightarrow> length sql - next_token_start x < k \<Longrightarrow>
     \<exists>v x'. getToken k mode flavour sql x = Returns (v, x')"
  "safe_text flavour sql \<Longrightarrow> next_token_start x \<le> length sql \<Longrightarrow> length sql - next_token_start x < k \<Longrightarrow> s \<noteq> None \<Longrightarrow>
     \<forall>c \<in> set cs. fst c \<noteq> L_END_OF_FILE \<Longrightarrow> \<exists>v x'. handle_composed k mode flavour sql cs s x = Returns (v, x')"
proof (induction k mode flavour sql x and k mode flavour sql cs s x rule: getToken_handle_composed.induct)
  case (2 k mode flavour sql x)
  let ?z = "drop (next_token_start x) sql"
  show ?case
  proof (cases "?z = [] \<or> hd ?z = delimiter x")
    case False
    then obtain l where l: "next_lexeme mode flavour (delimiter x) (in_param_spec x) ?z = Returns l"
      using lex_safe [OF safe_drop [OF 2(3)]] by blast
    have fits: "lexeme_fits ?z l" using lex_fits [OF l] False by blast
    show ?thesis
    proof (cases l)
      case (Prefixed t n)
      let ?y = "x\<lparr>next_token_start := next_token_start x + n\<rparr>"
      have "\<exists>v y. getToken k mode flavour sql ?y = Returns (v, y)"
        using fits Prefixed 2(3-5) False by (intro 2(2)) auto
      then show ?thesis using False l Prefixed by (auto simp: Let_def)
    next
      case (Lexeme t n w p)
      let ?y = "past t n (x\<lparr>in_param_spec := p\<rparr>)"
      have "\<exists>v y. handle_composed k mode flavour sql (completions t) (Some (case w of None \<Rightarrow> take n ?z | Some s \<Rightarrow> s)) ?y = Returns (v, y)"
      proof (cases "completions t = []")
        case False
        then have "t \<noteq> L_ILLEGAL" by (auto simp: completions_def)
        then have "0 < n" using fits Lexeme by simp
        then show ?thesis
          using fits Lexeme 2(3-5) \<open>\<not> (?z = [] \<or> hd ?z = delimiter x)\<close> completions_known
          by (intro 2(1)) auto
      qed simp
      then show ?thesis using False l Lexeme by (simp add: Let_def)
    qed
  qed (auto simp: Let_def)
next
  case (4 k mode flavour sql c cs s x)
  obtain v1 x1 where 1: "getToken k mode flavour sql x = Returns (v1, x1)" using 4(1) 4(4-6) by blast
  have m1: "moved (length sql) x x1" "v1 = None \<longleftrightarrow> token_type x1 = L_END_OF_FILE" using getToken_moves(1) [OF 1 4(5)] by auto
  have x1: "next_token_start x1 \<le> length sql" "length sql - next_token_start x1 < k" using m1(1) 4(6) by (auto simp: moved_def)
  obtain v2 x2 where 2: "(if token_type x1 = L_SPACE then getToken k mode flavour sql x1 else Returns (v1, x1)) = Returns (v2, x2)"
    using 4(2) [OF _ 4(4) x1] by (cases "token_type x1 = L_SPACE") auto
  have m2: "v2 = None \<longleftrightarrow> token_type x2 = L_END_OF_FILE"
    using 2 m1(2) getToken_moves(1) [OF _ x1(1), of k mode flavour v2 x2] by (auto split: if_splits)
  show ?case
  proof (cases "token_type x2 = fst c")
    case True
    then have "v2 \<noteq> None" using m2 4(8) by simp
    then have "\<exists>w. two_words s v2 = Returns w" using 4(7) by (auto simp: two_words_def)
    then show ?thesis using 1 2 True by auto
  next
    case False
    then have "\<exists>v x'. handle_composed k mode flavour sql cs s x = Returns (v, x')" using 4(3) [OF False] 4(4-8) by auto
    then show ?thesis using 1 2 False by auto
  qed
qed auto

end
