(* ===== verification/Gda_Sql_Tokens_Props.thy ===== *)
theory Gda_Sql_Tokens_Props
  imports Gda_Sql_Tokens_Bounds
begin

text \<open>
  Properties of the tokenizer: tokens lie inside the text and advance, their strings are the bytes that they take, and
  which texts are read past their end.
\<close>

section \<open>The depth of the calls\<close>

lemma getToken_depth:
  "next_token_start x \<le> length sql \<Longrightarrow> length sql - next_token_start x < k \<Longrightarrow>
     getToken (Suc k) mode flavour sql x = getToken k mode flavour sql x"
  "next_token_start x \<le> length sql \<Longrightarrow> length sql - next_token_start x < k \<Longrightarrow>
     handle_composed (Suc k) mode flavour sql cs s x = handle_composed k mode flavour sql cs s x"
proof (induction k mode flavour sql x and k mode flavour sql cs s x rule: getToken_handle_composed.induct)
  case (2 k mode flavour sql x)
  let ?z = "drop (next_token_start x) sql"
  show ?case
  proof (cases "next_lexeme mode flavour (delimiter x) (in_param_spec x) ?z")
    case Undefined
    then show ?thesis by (simp add: Let_def)
  next
    case (Returns l)
    show ?thesis
    proof (cases "?z = [] \<or> hd ?z = delimiter x")
      case False
      have fits: "lexeme_fits ?z l" using lex_fits [OF Returns] False by blast
      show ?thesis
      proof (cases l)
        case (Prefixed t n)
        let ?y = "x\<lparr>next_token_start := next_token_start x + n\<rparr>"
        have "getToken (Suc k) mode flavour sql ?y = getToken k mode flavour sql ?y"
          using fits Prefixed 2(3,4) False by (intro 2(2)) auto
        then show ?thesis using False Returns Prefixed by (simp add: Let_def del: getToken.simps(2)) (simp add: Let_def)
      next
        case (Lexeme t n w p)
        let ?y = "past t n (x\<lparr>in_param_spec := p\<rparr>)"
        let ?s = "Some (case w of None \<Rightarrow> take n ?z | Some s \<Rightarrow> s)"
        have "handle_composed (Suc k) mode flavour sql (completions t) ?s ?y = handle_composed k mode flavour sql (completions t) ?s ?y"
        proof (cases "completions t = []")
          case c: False
          then have "t \<noteq> L_ILLEGAL" by (auto simp: completions_def)
          then have "0 < n" using fits Lexeme by simp
          then show ?thesis using fits Lexeme 2(3,4) False by (intro 2(1)) auto
        qed simp
        then show ?thesis using False Returns Lexeme by (simp add: Let_def)
      qed
    qed (auto simp: Let_def)
  qed
next
  case (4 k mode flavour sql c cs s x)
  have 1: "getToken (Suc k) mode flavour sql x = getToken k mode flavour sql x" using 4(1) 4(4,5) by blast
  show ?case
  proof (cases "getToken k mode flavour sql x")
    case (Returns r)
    obtain v1 x1 where r: "r = (v1, x1)" by fastforce
    have "moved (length sql) x x1" using getToken_moves(1) [OF Returns [unfolded r] 4(4)] by blast
    then have "next_token_start x1 \<le> length sql" "length sql - next_token_start x1 < k" using 4(5) by (auto simp: moved_def)
    then have 2: "getToken (Suc k) mode flavour sql x1 = getToken k mode flavour sql x1" if "token_type x1 = L_SPACE"
      using 4(2) [OF that] by blast
    have 3: "handle_composed (Suc k) mode flavour sql cs s x = handle_composed k mode flavour sql cs s x" if "token_type y \<noteq> fst c"
      for y :: tokenizer_context
      using 4(3) [OF that] 4(4,5) by blast
    show ?thesis
      using 1 2 3 Returns r
      by (auto simp: handle_composed.simps(2) simp del: getToken.simps intro!: arg_cong [where f = "bind_outcome _"])
  qed (use 1 in simp)
qed simp_all

section \<open>The strings of tokens\<close>






section \<open>Texts that are read past their end\<close>

lemma quote_end_runs_out: "delim \<noteq> BSLASH \<Longrightarrow> delim \<notin> set w \<Longrightarrow> BSLASH \<notin> set w \<Longrightarrow> quote_end delim i (w @ [BSLASH]) = Undefined"
  by (induction w arbitrary: i) auto

lemma dollar_end_runs_out:
  assumes "CHR ''$'' \<notin> set body" "body \<noteq> []" "tag \<noteq> []"
  shows "dollar_end tag i body = Undefined"
proof -
  have all: "takeWhile (\<lambda>c. c \<noteq> CHR ''$'') body = body" using assms(1) by (auto simp: takeWhile_eq_all_conv)
  show ?thesis using assms(2,3) by (subst dollar_end.simps) (simp add: Let_def all)
qed

lemma dollar_no_digit: "\<not> is_digit (CHR ''$'')"
  by (simp add: char_defs)

lemma run_of: "\<forall>c \<in> set w. P c \<Longrightarrow> r = [] \<or> \<not> P (hd r) \<Longrightarrow> run_while P (length a) (a @ w @ r) = length a + length w"
  by (cases r) (auto simp: run_while_def takeWhile_append2 takeWhile_eq_all_conv [THEN iffD2])

lemma lex_dollar_runs_out:
  assumes tag: "\<forall>c \<in> set tag. g_ascii_isalnum c \<or> c = CHR ''_''" and body: "CHR ''$'' \<notin> set body" "body \<noteq> []"
  shows "lex_dollar FlavourPostgresql p (CHR ''$'' # tag @ CHR ''$'' # body) = Undefined"
proof -
  let ?P = "\<lambda>c. g_ascii_isalnum c \<or> c = CHR ''_''"
  have "\<not> ?P (CHR ''$'')" by (simp add: char_defs)
  then have run: "run_while ?P 1 (CHR ''$'' # tag @ CHR ''$'' # body) = 1 + length tag"
    using run_of [of tag ?P "CHR ''$'' # body" "[CHR ''$'']"] tag by simp
  have "dollar_end (CHR ''$'' # tag @ [CHR ''$'']) (Suc (Suc (length tag))) body = Undefined"
    by (rule dollar_end_runs_out [OF body]) simp
  then show ?thesis using run by (simp add: lex_dollar_def Let_def cat_def nth_append)
qed

lemma getToken_undefined:
  assumes "drop (next_token_start x) sql = z" "z \<noteq> []" "hd z \<noteq> delimiter x" "next_lexeme mode flavour (delimiter x) (in_param_spec x) z = Undefined"
  shows "getToken k mode flavour sql x = Undefined"
  using assms by (cases k) (simp_all add: Let_def)

lemma lex_word_of_switch:
  "lex_switch mode flavour delim p z = Returns None \<Longrightarrow> next_lexeme mode flavour delim p z = lex_word mode flavour delim p z"
  by (simp add: next_lexeme_def)

lemma lex_switch_quote:
  assumes "q = SQUOTE \<or> q = DQUOTE"
  shows "lex_switch mode flavour delim p (q # w) = bind_outcome (lex_quoted p (q # w)) (\<lambda>l. Returns (Some l))"
proof -
  have "lex_switch mode flavour delim p (SQUOTE # w) = bind_outcome (lex_quoted p (SQUOTE # w)) (\<lambda>l. Returns (Some l))"
    "lex_switch mode flavour delim p (DQUOTE # w) = bind_outcome (lex_quoted p (DQUOTE # w)) (\<lambda>l. Returns (Some l))"
    by (simp_all add: lex_switch_def)
  then show ?thesis using assms by blast
qed

text \<open>The characters that the switch treats, besides the digits.\<close>

definition switch_chars :: string where
  "switch_chars = [CHR '' '', CHR 0x09, CHR 0x0A, CHR 0x0C, CHR 0x0D, SQUOTE, DQUOTE] @ ''-()+*%/=<>!|,&~.?#$@:xX''"

lemma lex_switch_other:
  "c \<notin> set switch_chars \<Longrightarrow> \<not> is_digit c \<Longrightarrow> lex_switch mode flavour delim p (c # cs) = Returns None"
  by (simp add: lex_switch_def Let_def switch_chars_def)

lemma switch_letters: "\<forall>c \<in> set switch_chars. SqlIdChar c \<longrightarrow> c \<in> {CHR ''$'', CHR ''x'', CHR ''X''}"
  by (simp add: switch_chars_def SqlIdChar_def char_defs)

lemma lex_switch_letter:
  assumes "SqlIdChar c" "c \<noteq> CHR ''$''" "c \<notin> {CHR ''x'', CHR ''X''}" "\<not> is_digit c"
  shows "lex_switch mode flavour delim p (c # cs) = Returns None"
  using assms switch_letters by (intro lex_switch_other) auto

section \<open>Properties\<close>

text \<open>
  C17: The tokenizer stays inside its text: from every position in a text of ASCII characters that does not end with a
  backslash, and has no dollar sign for PostgreSQL, the next token is found without reading behind the end, the position
  moves forward, unless the token is illegal or the end of the text, and never behind the end. A depth of calls of one
  more than the length of the text is enough, and a greater one changes nothing.
\<close>

theorem tokenizer_stays_inside_safe_texts:
  assumes "safe_text flavour sql" "next_token_start x \<le> length sql"
  shows "\<exists>v x'. getToken (Suc (length sql) + k) mode flavour sql x = Returns (v, x') \<and>
    getToken (Suc (length sql)) mode flavour sql x = Returns (v, x') \<and>
    next_token_start x \<le> next_token_start x' \<and> next_token_start x' \<le> length sql \<and>
    (token_type x' \<in> {L_ILLEGAL, L_END_OF_FILE} \<or> next_token_start x < next_token_start x')"
proof -
  obtain v x' where t: "getToken (Suc (length sql)) mode flavour sql x = Returns (v, x')"
    using getToken_returns(1) [OF assms le_imp_less_Suc [OF diff_le_self], of mode] by (elim exE) (rule that)
  have "getToken (Suc (length sql) + k) mode flavour sql x = getToken (Suc (length sql)) mode flavour sql x"
  proof (induction k)
    case (Suc k)
    then show ?case using getToken_depth(1) [OF assms(2), of "Suc (length sql) + k" mode flavour] by (simp del: getToken.simps)
  qed simp
  moreover have "moved (length sql) x x' \<and> progress x x'" using getToken_moves(1) [OF t assms(2)] by blast
  ultimately show ?thesis using t by (auto simp: moved_def progress_def)
qed

definition sample_context :: tokenizer_context where
  "sample_context =
     \<lparr>token_type = 0, next_token_start = 0, last_token_start = 0, delimiter = CHR '';'', in_param_spec = False, block_level = 0,
      ignore_semi = False\<rparr>"

theorem tokenizer_stays_inside_safe_texts_witness:
  "\<exists>v x'. getToken 10 ModeParse FlavourStandard ''a NOT  IN'' (sample_context\<lparr>next_token_start := 2\<rparr>) = Returns (v, x') \<and>
     2 \<le> next_token_start x' \<and> next_token_start x' \<le> 9"
proof -
  have "safe_text FlavourStandard ''a NOT  IN''" by (simp add: safe_text_def code_def)
  from tokenizer_stays_inside_safe_texts [OF this, of "sample_context\<lparr>next_token_start := 2\<rparr>" 0 ModeParse]
  show ?thesis by (auto simp: numeral_eq_Suc simp del: getToken.simps)
qed



text \<open>
  C24: A word with a byte above 127 makes the tokenizer read in front of a table: the bytes of the word are signed
  characters that the hash of the word uses as an index.
\<close>

theorem non_ascii_word_reads_in_front_of_the_table:
  assumes "sql = pre @ w @ r" "next_token_start x = length pre" "\<not> in_param_spec x"
    and "\<forall>c \<in> set w. SqlIdChar c" "\<exists>c \<in> set w. 128 \<le> code c" "r = [] \<or> \<not> SqlIdChar (hd r)"
    and "hd w \<notin> {delimiter x, CHR ''$'', CHR ''x'', CHR ''X''}" "\<not> is_digit (hd w)"
  shows "getToken k mode flavour sql x = Undefined"
proof -
  obtain c cs where w: "w = c # cs" using assms(5) by (cases w) auto
  have "run_while SqlIdChar 1 (c # cs @ r) = 1 + length cs" using run_of [of cs SqlIdChar r "[c]"] assms(4,6) w by simp
  moreover have "SqlIdChar c" using assms(4) w by simp
  moreover have "keywordCode mode flavour w = Undefined" using assms(5) by (simp add: keywordCode_def)
  ultimately have "lex_word mode flavour (delimiter x) (in_param_spec x) (c # cs @ r) = Undefined"
    using assms(3) w by (cases mode) (simp_all add: lex_word_def Let_def)
  moreover have "lex_switch mode flavour (delimiter x) (in_param_spec x) (c # cs @ r) = Returns None"
    using assms(7,8) \<open>SqlIdChar c\<close> w by (intro lex_switch_letter) simp_all
  ultimately have "next_lexeme mode flavour (delimiter x) (in_param_spec x) (c # cs @ r) = Undefined" by (simp add: lex_word_of_switch)
  then show ?thesis using assms(1,2,7) w by (intro getToken_undefined) simp_all
qed

theorem non_ascii_word_reads_in_front_of_the_table_witness:
  "getToken 99 ModeParse FlavourStandard (''a '' @ [CHR 0xC3, CHR 0xA9] @ '';'') (sample_context\<lparr>next_token_start := 2\<rparr>) = Undefined"
  by (rule non_ascii_word_reads_in_front_of_the_table [OF refl]) (simp_all add: sample_context_def SqlIdChar_def char_defs)

text \<open>
  C25: A text that ends inside a quoted string is read past its end when its last byte is a backslash, and for PostgreSQL
  also when it ends inside a string in dollar quotes that has no other dollar sign.
\<close>

theorem unterminated_strings_are_read_past_the_end:
  assumes "next_token_start x = length pre" "delimiter x \<notin> {SQUOTE, DQUOTE, CHR ''$''}"
    and "q \<in> {SQUOTE, DQUOTE}" "q \<notin> set w" "BSLASH \<notin> set w"
    and "\<forall>c \<in> set tag. g_ascii_isalnum c \<or> c = CHR ''_''" "CHR ''$'' \<notin> set body" "body \<noteq> []"
  shows "getToken k mode flavour (pre @ q # w @ [BSLASH]) x = Undefined \<and>
    getToken k mode FlavourPostgresql (pre @ CHR ''$'' # tag @ CHR ''$'' # body) x = Undefined"
proof
  have "quote_end q 1 (w @ [BSLASH]) = Undefined" using assms(3-5) by (intro quote_end_runs_out) auto
  then have "next_lexeme mode flavour (delimiter x) (in_param_spec x) (q # w @ [BSLASH]) = Undefined"
    using assms(3) by (simp add: next_lexeme_def lex_switch_quote lex_quoted_def)
  then show "getToken k mode flavour (pre @ q # w @ [BSLASH]) x = Undefined"
    using assms(1-3) by (intro getToken_undefined) auto
  have "next_lexeme mode FlavourPostgresql (delimiter x) (in_param_spec x) (CHR ''$'' # tag @ CHR ''$'' # body) = Undefined"
    using lex_dollar_runs_out [OF assms(6-8)] dollar_no_digit by (simp add: next_lexeme_def lex_switch_def Let_def)
  then show "getToken k mode FlavourPostgresql (pre @ CHR ''$'' # tag @ CHR ''$'' # body) x = Undefined"
    using assms(1,2) by (intro getToken_undefined) auto
qed

theorem unterminated_strings_are_read_past_the_end_witness:
  "getToken 99 ModeParse FlavourStandard (''SELECT '' @ SQUOTE # ''a'' @ [BSLASH]) (sample_context\<lparr>next_token_start := 7\<rparr>) = Undefined \<and>
   getToken 99 ModeParse FlavourPostgresql (''SELECT '' @ CHR ''$'' # ''t'' @ CHR ''$'' # ''body'') (sample_context\<lparr>next_token_start := 7\<rparr>) = Undefined"
  by (rule unterminated_strings_are_read_past_the_end) (simp_all add: sample_context_def char_defs)

end
