(* ===== verification/Spec2Isabelle.thy ===== *)
theory Spec2Isabelle
  imports Gda_Transaction Gda_Escape Gda_Binary Gda_Identifier Gda_Conn_String Gda_Quark_List Gda_Datetime Gda_Xa Gda_Attributes Gda_Holder Gda_Events Gda_Render_Layout Gda_Comparator Gda_Proxy_Values Gda_Sql_Tokens_Props
begin

text \<open>
  A model of libgda (GNOME Data Access, version 5), the C library that gives programs one interface to many
  databases, and what makes its parts correct. The theories translate functions of \<open>libgda/\<close>; names of files below
  are relative to that directory.

  \<^bold>\<open>The program.\<close> A connection (\<open>gda-connection.c\<close>) is opened from a connection string or a named data source, talks to
  a database through a provider, keeps the events that the provider reports in a circular array, and follows the
  transactions that are open. A distributed transaction manager runs the two phases of a transaction over several
  connections. SQL text is cut into tokens and parsed to statements (\<open>sql-parser/\<close>), whose parameters are value holders and
  which are rendered to SQL for a provider. Results are data models: tables that are read cell by cell. A table in
  memory is one of them; a data proxy shows a part of another model and keeps changes to it; a comparator computes the
  differences of two models. Strings, binary values, dates and identifiers have textual forms that the rest of
  the library writes and reads.

  \<^bold>\<open>The theories\<close>, in the order of the components that they need:

  \<^item> \<open>Gda_Prelude\<close>: C strings as lists of bytes, the ASCII classes of GLib, hexadecimal digits, outcomes (\<open>Returns\<close> a value
    or \<open>Undefined\<close>: a failing assertion, an access outside of a block or to freed memory), the locales \<open>codec\<close> and
    \<open>separated_codec\<close>, and lemmas on lists. \<open>Gda_Types\<close>: values with their types (\<open>gda-value.h\<close>).

  \<^item> \<open>Gda_Transaction\<close>: \<open>gda-transaction-status.c\<close> and the handlers \<open>gda_connection_internal_...\<close> of \<open>gda-connection.c\<close>. The
    tree of \<open>GdaTransactionStatus\<close> objects is a datatype, the connection a record with the tree, the depth of the lock
    and the log of its signals. Shown: on linear trees the handlers are push, pop and log on a stack of transactions, and
    reachable connections are linear and unlocked.

  \<^item> \<open>Gda_Escape\<close>, \<open>Gda_Binary\<close>, \<open>Gda_Identifier\<close>, \<open>Gda_Conn_String\<close>, \<open>Gda_Datetime\<close>: the textual forms in \<open>gda-util.c\<close> and
    \<open>gda-value.c\<close>. Shown: round trips, safety of the escaped text and the exact size of its buffer, agreement of the
    comparison of identifiers with their hashes, and the arithmetic of dates and time zones with machine integers.

  \<^item> \<open>Gda_Quark_List\<close>: \<open>gda-quark-list.c\<close>. Its two hash tables are association lists, one of them with protected values.
    Shown: parsing what was encoded finds every value, also the protected ones.

  \<^item> \<open>Gda_Xa\<close>: \<open>gda-xa-transaction.c\<close>. Connections are numbers and providers are tables of functions that may be missing, acting
    on a state of any type. Shown: begin starts all branches or rolls back those that were started, and the invariant
    of the registrations.

  \<^item> \<open>Gda_Attributes\<close>: \<open>gda-attributes-manager.c\<close>, on an explicit heap of blocks that are shared until they are written.
    Shown: the manager is a map from objects and names to values, and no freed block is read.

  \<^item> \<open>Gda_Holder\<close>: \<open>gda-holder.c\<close>. A system of holders maps numbers to holders and has the handlers by which bound holders
    follow each other. Shown: what setting a value returns and leaves, and that holders have values of their types.

  \<^item> \<open>Gda_Events\<close>: the event array and the execution of batches in \<open>gda-connection.c\<close>. Shown: the array is a bounded list of the
    last events; what a batch reports.

  \<^item> \<open>Gda_Sql_Tokens\<close>, \<open>Gda_Sql_Tokens_Bounds\<close>, \<open>Gda_Sql_Tokens_Props\<close>: the tokenizer \<open>getToken\<close> of
    \<open>sql-parser/gda-sql-parser.c\<close>. The state is the \<open>TokenizerContext\<close>, with indexes in the text for its pointers. Shown:
    which texts are read inside their bounds and which are not, and that a token is the bytes that it takes.

  \<^item> \<open>Gda_Sql_Parts\<close>, \<open>Gda_Sql_Struct\<close>: the structures of statements, the traversal of their parts and the check of their structure
    (\<open>sql-parser/gda-statement-struct*\<close>), and the parameters of a statement. \<open>Gda_Render\<close>, \<open>Gda_Render_Props\<close>,
    \<open>Gda_Render_Layout\<close>: the rendering in \<open>gda-statement.c\<close>. Shown: a statement that passes the check renders without a failing
    assertion and with holders for its parameters, and pretty printing changes white space only.

  \<^item> \<open>Gda_Data_Model\<close>: the interface of data models (\<open>gda-data-model.c\<close>) as a record of functions, with the locale
    \<open>readable_model\<close>. \<open>Gda_Model_Array\<close>: tables in memory (\<open>gda-data-model-array.c\<close>, \<open>gda-row.c\<close>). \<open>Gda_Comparator\<close>:
    \<open>gda-data-comparator.c\<close>. Shown: an array model is a list of rows; the differences lead from the old rows to the new.

  \<^item> Data proxies (\<open>gda-data-proxy.c\<close>). \<open>Gda_Proxy\<close>: the state, the numbering of rows, reading, attributes, signals.
    \<open>Gda_Proxy_Sample\<close>, \<open>Gda_Proxy_Shown\<close>: the window of rows that is shown, and its synchronisation, step by step or in
    the idle time. \<open>Gda_Proxy_Edit\<close>, \<open>Gda_Proxy_Edit_Props\<close>: changes and their invariant. \<open>Gda_Proxy_View\<close>,
    \<open>Gda_Proxy_Refines\<close>, \<open>Gda_Proxy_Rows\<close>, \<open>Gda_Proxy_History\<close>: editing a proxy is editing the table that its readers see.
    \<open>Gda_Proxy_Table\<close>, \<open>Gda_Proxy_Missing\<close>, \<open>Gda_Proxy_Values\<close>: the properties that follow, also of row numbers that do not
    exist and of refused values. A modification is known by a number, as the code knows it by its address.

  \<^bold>\<open>Interfaces.\<close> \<open>codec\<close> and \<open>separated_codec\<close> are interpreted on the SQL, parameter name, RFC 1738, binary, identifier and
  protection codings; \<open>lockable\<close> on the lock of a connection; \<open>value_writer\<close> on the attributes manager; \<open>calendar\<close> on the
  Gregorian calendar, which is a concrete instance of the calendar of GLib; \<open>event_log\<close> on the event array;
  \<open>readable_model\<close> on array models, and \<open>two_models\<close>, the client of two of them, in the comparator.

  \<^bold>\<open>Parameters\<close> are what the code calls outside of the repository or through a pointer: the calendar, the time zones and
  the random draws of GLib, the XA functions of providers, what a statement does in the database, the callbacks that
  validate a value, data handlers and quoting by providers, \<open>gda_value_compare\<close> on two values of one type, the handlers of
  signals, and the rows that a filter of a proxy selected. The hypotheses on them are named where they are used.

  \<^bold>\<open>Loops and bounds.\<close> Writing an attribute calls itself at most once, to write to a block of its own: a depth of two is
  enough. Bound holders call each other and may do so without end, when they are bound in a circle: the functions have
  the depth of the calls that is allowed, a deeper call is \<open>Undefined\<close>, and the theorems say which depths are enough or
  hold for all of them. The event array is read with one step more than it has slots. A model is cleared by a partial
  function, since clearing does not end for some models; the theorem says for which. The synchronisation of a
  proxy takes the number of steps that the code computes, at most fifty in an idle call; the theorem on idle calls says
  how many of them are enough. The rows of a model and of a proxy are fewer than \<open>2 ^ 31\<close> where their numbers are read as
  machine integers. The tokenizer never calls itself deeper than the text is long, and once more: more depth does not
  change its result.

  \<^bold>\<open>Not modelled\<close>: the loop that gives tokens to the generated parsers, the splitting of texts in batches, and the
  grammars; copying, freeing and serializing statements, and their check against a database; the application of
  the changes of a proxy to its model, its cache and filters; iterators, export and import; sets of holders,
  the configuration, the SQL builder, server operations, meta stores and trees; threads; the providers, the embedded
  SQLite and the user interface, which are input and output through other libraries. Locks are modelled only where
  their depth matters, and memory only where blocks are shared or indexed.
\<close>

end
